(* ===== verification/Prelude.thy ===== *)
theory Prelude
  imports Main "HOL-Library.Multiset"
begin

text \<open>
  Shared vocabulary of the development: sequencing of fallible steps (a sum type, the error on
  the left), the closure of a preorder under loops of such steps, and the few list and multiset
  facts the component theories share.

  \<open>bindE\<close> is the "return early when a step throws" of the source.  A locale
  \<open>step_preorder\<close> states what a relation between program states needs so that a whole handler
  is related to its start as soon as every step is; every safety theorem about a sequence of SQL
  statements goes through an interpretation of it.
\<close>

section \<open>Fact collections\<close>

named_theorems evolve "one statement or step relates the states before and after it"
named_theorems frame "what an operation leaves unchanged"

section \<open>Fallible steps\<close>

definition bindE :: "'e + 'a \<Rightarrow> ('a \<Rightarrow> 'e + 'b) \<Rightarrow> 'e + 'b" where
  "bindE m f = (case m of Inl e \<Rightarrow> Inl e | Inr a \<Rightarrow> f a)"

lemma bindE_simps [simp]: "bindE (Inl e) f = Inl e" "bindE (Inr a) f = f a"
  by (simp_all add: bindE_def)

lemma bindE_Inr_iff: "bindE m f = Inr b \<longleftrightarrow> (\<exists>a. m = Inr a \<and> f a = Inr b)"
  by (cases m) auto

lemma bindE_Inr_E [elim!]:
  assumes "bindE m f = Inr b"
  obtains a where "m = Inr a" "f a = Inr b"
  using assms by (auto simp: bindE_Inr_iff)

text \<open>A \<open>for\<close> loop whose body may throw.\<close>

fun foldE :: "('x \<Rightarrow> 's \<Rightarrow> 'e + 's) \<Rightarrow> 'x list \<Rightarrow> 's \<Rightarrow> 'e + 's" where
  "foldE f [] s = Inr s"
| "foldE f (x # xs) s = bindE (f x s) (foldE f xs)"

lemma foldE_append: "foldE f (xs @ ys) s = bindE (foldE f xs s) (foldE f ys)"
  by (induction xs arbitrary: s) (auto simp: bindE_def split: sum.splits)

lemma foldE_invariant:
  assumes "foldE f xs s = Inr t" and "I s"
    and "\<And>x s t. x \<in> set xs \<Longrightarrow> I s \<Longrightarrow> f x s = Inr t \<Longrightarrow> I t"
  shows "I t"
  using assms by (induction xs arbitrary: s) auto

section \<open>Relations between program states\<close>

locale step_preorder =
  fixes R :: "'s \<Rightarrow> 's \<Rightarrow> bool"
  assumes refl: "R s s"
    and trans: "R s t \<Longrightarrow> R t u \<Longrightarrow> R s u"
begin

lemma bindE_rel:
  assumes "bindE m f = Inr u" and "\<And>t. m = Inr t \<Longrightarrow> R s t"
    and "\<And>t. m = Inr t \<Longrightarrow> f t = Inr u \<Longrightarrow> R t u"
  shows "R s u"
  using assms by (auto intro: trans)

lemma foldE_rel:
  assumes "foldE f xs s = Inr t" and "\<And>x s t. x \<in> set xs \<Longrightarrow> f x s = Inr t \<Longrightarrow> R s t"
  shows "R s t"
  using assms
proof (induction xs arbitrary: s)
  case Nil
  then show ?case by (simp add: refl)
next
  case (Cons x xs)
  then obtain s' where s': "f x s = Inr s'" "foldE f xs s' = Inr t" by auto
  have "R s s'"
    by (rule Cons.prems(2) [OF _ s'(1)]) simp
  moreover have "R s' t"
    by (rule Cons.IH [OF s'(2)]) (rule Cons.prems(2), simp_all)
  ultimately show ?case by (rule trans)
qed

lemma fold_rel:
  assumes "\<And>x s. x \<in> set xs \<Longrightarrow> R s (f x s)"
  shows "R s (fold f xs s)"
  using assms by (induction xs arbitrary: s) (auto intro: refl trans)

end

section \<open>Lists and multisets\<close>

lemma map_if_filter_mset:
  "mset (map g (map (\<lambda>r. if P r then f r else r) xs)) + mset (map g (filter P xs)) =
     mset (map g xs) + mset (map g (map f (filter P xs)))"
  by (induction xs) auto

lemma distinct_map_inj_at:
  "distinct (map f xs) \<Longrightarrow> x \<in> set xs \<Longrightarrow> y \<in> set xs \<Longrightarrow> f x = f y \<Longrightarrow> x = y"
  by (induction xs) (auto simp: image_iff)

lemma find_distinct:
  assumes "distinct (map f xs)" and "x \<in> set xs" and "f x = k"
  shows "List.find (\<lambda>y. f y = k) xs = Some x"
  using assms by (induction xs) auto

lemma filter_distinct_key:
  "distinct (map f xs) \<Longrightarrow> x \<in> set xs \<Longrightarrow> filter (\<lambda>y. f y = f x) xs = [x]"
  by (induction xs) (auto simp: filter_empty_conv image_iff)

end
