(* ===== verification/Relational.thy ===== *)
theory Relational
  imports Prelude Complex_Main "HOL-Library.Char_ord" "HOL-Library.List_Lexorder"
begin

text \<open>
  The SQL the GroundWork server uses: values, rows, a table description (the \<^verbatim>\<open>CREATE TABLE\<close>,
  \<^verbatim>\<open>CREATE UNIQUE INDEX ... WHERE deleted_at IS NULL\<close> and FTS trigger statements of
  \<^verbatim>\<open>db/schema.ts\<close> as data) and the statements INSERT, UPDATE, DELETE and SELECT as functions
  on a database state.  A statement that violates NOT NULL, CHECK, PRIMARY KEY, a unique index or
  a foreign key (\<^verbatim>\<open>PRAGMA foreign_keys = ON\<close>) is the error value \<open>Inl\<close> and changes nothing.
  The checks look at the rows a statement touches, as the engine does; that they keep the whole
  database consistent is \<open>put_rows_ok\<close>.  Column affinity is not applied.
\<close>

section \<open>Values and rows\<close>

datatype sqlval = Null | Num rat | Text string

text \<open>The ordering of ORDER BY and of comparisons: NULL, then numbers, then text.\<close>

instantiation sqlval :: linorder
begin

fun less_eq_sqlval :: "sqlval \<Rightarrow> sqlval \<Rightarrow> bool" where
  "less_eq_sqlval Null v = True"
| "less_eq_sqlval (Num a) Null = False"
| "less_eq_sqlval (Num a) (Num b) = (a \<le> b)"
| "less_eq_sqlval (Num a) (Text t) = True"
| "less_eq_sqlval (Text s) (Text t) = (s \<le> t)"
| "less_eq_sqlval (Text s) v = False"

definition less_sqlval :: "sqlval \<Rightarrow> sqlval \<Rightarrow> bool" where
  "less_sqlval v w \<longleftrightarrow> v \<le> w \<and> \<not> w \<le> v"

instance
proof
  fix x y z :: sqlval
  show "x < y \<longleftrightarrow> x \<le> y \<and> \<not> y \<le> x" by (simp add: less_sqlval_def)
  show "x \<le> x" by (cases x) auto
  show "x \<le> y \<Longrightarrow> y \<le> z \<Longrightarrow> x \<le> z" by (cases x; cases y; cases z) auto
  show "x \<le> y \<Longrightarrow> y \<le> x \<Longrightarrow> x = y" by (cases x; cases y) auto
  show "x \<le> y \<or> y \<le> x" by (cases x; cases y) auto
qed

end

type_synonym row = "string \<Rightarrow> sqlval"

datatype sqlerr = NotNullViolation | CheckViolation | UniqueViolation | ForeignKeyViolation | BindError

section \<open>Table descriptions\<close>

record 't column =
  cname :: string
  notnull :: bool
  dflt :: sqlval
  allowed :: "sqlval \<Rightarrow> bool"
  refs :: "'t option"

record 't table_schema =
  columns :: "'t column list"
  uniques :: "string list list"
  fts_cols :: "string list"

type_synonym 't schema = "'t \<Rightarrow> 't table_schema"

record 't database =
  tab :: "'t \<Rightarrow> row list"
  fts :: "'t \<Rightarrow> (rat \<times> sqlval list) list"

definition ids :: "row list \<Rightarrow> sqlval list" where
  "ids rows = map (\<lambda>r. r ''id'') rows"

definition is_live :: "row \<Rightarrow> bool" where
  "is_live r \<longleftrightarrow> r ''deleted_at'' = Null"

text \<open>The implicit row number of a table with a text primary key.\<close>

definition rowid_of :: "row \<Rightarrow> rat" where
  "rowid_of r = (case r ''rowid'' of Num n \<Rightarrow> n | _ \<Rightarrow> 0)"

definition next_rowid :: "row list \<Rightarrow> rat" where
  "next_rowid rows = 1 + foldr (\<lambda>r m. max (rowid_of r) m) rows 0"

section \<open>Constraints\<close>

definition nn_ok :: "'t table_schema \<Rightarrow> row \<Rightarrow> bool" where
  "nn_ok s r \<longleftrightarrow> list_all (\<lambda>c. notnull c \<longrightarrow> r (cname c) \<noteq> Null) (columns s)"

definition check_ok :: "'t table_schema \<Rightarrow> row \<Rightarrow> bool" where
  "check_ok s r \<longleftrightarrow> list_all (\<lambda>c. allowed c (r (cname c))) (columns s)"

text \<open>
  A unique index restricted to \<^verbatim>\<open>deleted_at IS NULL\<close>; as in SQL, a NULL in an indexed column
  is distinct from every other NULL, so such a row never conflicts.
\<close>

definition indexed :: "string list \<Rightarrow> row \<Rightarrow> bool" where
  "indexed ix r \<longleftrightarrow> is_live r \<and> list_all (\<lambda>c. r c \<noteq> Null) ix"

definition uniq_ok :: "'t table_schema \<Rightarrow> row list \<Rightarrow> bool" where
  "uniq_ok s rows \<longleftrightarrow> distinct (ids rows) \<and>
     list_all (\<lambda>ix. distinct (map (\<lambda>r. map r ix) (filter (indexed ix) rows))) (uniques s)"

definition fk_ok :: "'t schema \<Rightarrow> ('t \<Rightarrow> row list) \<Rightarrow> 't \<Rightarrow> row \<Rightarrow> bool" where
  "fk_ok S tb t r \<longleftrightarrow> list_all (\<lambda>c. case refs c of None \<Rightarrow> True
     | Some p \<Rightarrow> r (cname c) = Null \<or> r (cname c) \<in> set (ids (tb p))) (columns (S t))"

text \<open>No row of the database refers to a row that is not there.\<close>

definition no_orphans :: "'t schema \<Rightarrow> ('t \<Rightarrow> row list) \<Rightarrow> bool" where
  "no_orphans S tb \<longleftrightarrow> (\<forall>u. \<forall>r \<in> set (tb u). fk_ok S tb u r)"

definition table_ok :: "'t schema \<Rightarrow> ('t \<Rightarrow> row list) \<Rightarrow> 't \<Rightarrow> bool" where
  "table_ok S tb t \<longleftrightarrow>
     (\<forall>r \<in> set (tb t). nn_ok (S t) r \<and> check_ok (S t) r \<and> fk_ok S tb t r) \<and> uniq_ok (S t) (tb t)"

definition db_ok :: "'t schema \<Rightarrow> ('t, 'z) database_scheme \<Rightarrow> bool" where
  "db_ok S db \<longleftrightarrow> (\<forall>t. table_ok S (tab db) t)"

section \<open>Statements\<close>

text \<open>
  Replace the rows of a table.  \<open>changed\<close> are the rows the statement wrote: these are checked
  one by one, the primary key and the unique indexes on the resulting table, and foreign keys of
  other tables only when the statement removed a key.
\<close>

definition put_rows ::
  "'t schema \<Rightarrow> 't \<Rightarrow> row list \<Rightarrow> row list \<Rightarrow> ('t \<Rightarrow> row list) \<Rightarrow> sqlerr + ('t \<Rightarrow> row list)" where
  "put_rows S t rows changed tb =
     (let tb' = tb(t := rows) in
      if \<not> list_all (nn_ok (S t)) changed then Inl NotNullViolation
      else if \<not> list_all (check_ok (S t)) changed then Inl CheckViolation
      else if \<not> uniq_ok (S t) rows then Inl UniqueViolation
      else if \<not> list_all (fk_ok S tb' t) changed then Inl ForeignKeyViolation
      else if \<not> set (ids (tb t)) \<subseteq> set (ids rows) \<and> \<not> no_orphans S tb' then Inl ForeignKeyViolation
      else Inr tb')"

text \<open>The sync triggers of a table with a full-text index: \<^verbatim>\<open>_ai\<close>, \<^verbatim>\<open>_ad\<close> and \<^verbatim>\<open>_au\<close>.\<close>

definition fts_entry :: "'t table_schema \<Rightarrow> row \<Rightarrow> rat \<times> sqlval list" where
  "fts_entry s r = (rowid_of r, map r (fts_cols s))"

definition trigger_ai :: "'t table_schema \<Rightarrow> row \<Rightarrow> (rat \<times> sqlval list) list \<Rightarrow> (rat \<times> sqlval list) list" where
  "trigger_ai s new es = (if fts_cols s = [] then es else es @ [fts_entry s new])"

definition trigger_ad :: "'t table_schema \<Rightarrow> row \<Rightarrow> (rat \<times> sqlval list) list \<Rightarrow> (rat \<times> sqlval list) list" where
  "trigger_ad s old es = (if fts_cols s = [] then es else remove1 (fts_entry s old) es)"

definition trigger_au ::
  "'t table_schema \<Rightarrow> row \<Rightarrow> row \<Rightarrow> (rat \<times> sqlval list) list \<Rightarrow> (rat \<times> sqlval list) list" where
  "trigger_au s old new es = trigger_ai s new (trigger_ad s old es)"

definition column_default :: "'t table_schema \<Rightarrow> string \<Rightarrow> sqlval" where
  "column_default s c = (case List.find (\<lambda>k. cname k = c) (columns s) of
     None \<Rightarrow> Null | Some k \<Rightarrow> dflt k)"

definition new_row :: "'t table_schema \<Rightarrow> (string \<times> sqlval) list \<Rightarrow> row list \<Rightarrow> row" where
  "new_row s kvs rows = (\<lambda>c. if c = ''rowid'' then Num (next_rowid rows)
     else case map_of kvs c of Some v \<Rightarrow> v | None \<Rightarrow> column_default s c)"

definition sql_insert ::
  "'t schema \<Rightarrow> 't \<Rightarrow> (string \<times> sqlval) list \<Rightarrow> 't database \<Rightarrow> sqlerr + 't database" where
  "sql_insert S t kvs db =
     (let r = new_row (S t) kvs (tab db t) in
      case put_rows S t (tab db t @ [r]) [r] (tab db) of
        Inl e \<Rightarrow> Inl e
      | Inr tb \<Rightarrow> Inr \<lparr>tab = tb, fts = (fts db)(t := trigger_ai (S t) r (fts db t))\<rparr>)"

definition sql_update ::
  "'t schema \<Rightarrow> 't \<Rightarrow> (row \<Rightarrow> bool) \<Rightarrow> (row \<Rightarrow> row) \<Rightarrow> 't database \<Rightarrow> sqlerr + 't database" where
  "sql_update S t P f db =
     (let hit = filter P (tab db t) in
      case put_rows S t (map (\<lambda>r. if P r then f r else r) (tab db t)) (map f hit) (tab db) of
        Inl e \<Rightarrow> Inl e
      | Inr tb \<Rightarrow> Inr \<lparr>tab = tb,
          fts = (fts db)(t := fold (\<lambda>r. trigger_au (S t) r (f r)) hit (fts db t))\<rparr>)"

definition sql_delete ::
  "'t schema \<Rightarrow> 't \<Rightarrow> (row \<Rightarrow> bool) \<Rightarrow> 't database \<Rightarrow> sqlerr + 't database" where
  "sql_delete S t P db =
     (case put_rows S t (filter (\<lambda>r. \<not> P r) (tab db t)) [] (tab db) of
        Inl e \<Rightarrow> Inl e
      | Inr tb \<Rightarrow> Inr \<lparr>tab = tb,
          fts = (fts db)(t := fold (trigger_ad (S t)) (filter P (tab db t)) (fts db t))\<rparr>)"

definition sql_select :: "'t \<Rightarrow> (row \<Rightarrow> bool) \<Rightarrow> 't database \<Rightarrow> row list" where
  "sql_select t P db = filter P (tab db t)"

text \<open>\<^verbatim>\<open>ORDER BY c1, c2\<close>; rows that agree on the keys stay in table order.\<close>

definition order_by :: "string list \<Rightarrow> row list \<Rightarrow> row list" where
  "order_by cs rows = sort_key (\<lambda>r. map r cs) rows"

definition order_by_desc :: "string list \<Rightarrow> row list \<Rightarrow> row list" where
  "order_by_desc cs rows = rev (sort_key (\<lambda>r. map r cs) (rev rows))"

definition select_star :: "'t table_schema \<Rightarrow> row \<Rightarrow> (string \<times> sqlval) list" where
  "select_star s r = map (\<lambda>c. (cname c, r (cname c))) (columns s)"


section \<open>What a successful statement did\<close>

lemma put_rows_Inr:
  assumes "put_rows S t rows changed tb = Inr tb'"
  shows "tb' = tb(t := rows)"
    and "\<And>r. r \<in> set changed \<Longrightarrow> nn_ok (S t) r \<and> check_ok (S t) r \<and> fk_ok S tb' t r"
    and "uniq_ok (S t) rows"
    and "set (ids (tb t)) \<subseteq> set (ids rows) \<or> no_orphans S tb'"
  using assms by (auto simp: put_rows_def Let_def list_all_iff split: if_splits)

lemma sql_insert_tab [frame]:
  "sql_insert S t kvs db = Inr db' \<Longrightarrow>
     tab db' = (tab db)(t := tab db t @ [new_row (S t) kvs (tab db t)])"
  by (auto simp: sql_insert_def Let_def dest: put_rows_Inr split: sum.splits)

lemma sql_update_tab [frame]:
  "sql_update S t P f db = Inr db' \<Longrightarrow>
     tab db' = (tab db)(t := map (\<lambda>r. if P r then f r else r) (tab db t))"
  by (auto simp: sql_update_def Let_def dest: put_rows_Inr split: sum.splits)

lemma sql_delete_tab [frame]:
  "sql_delete S t P db = Inr db' \<Longrightarrow> tab db' = (tab db)(t := filter (\<lambda>r. \<not> P r) (tab db t))"
  by (auto simp: sql_delete_def dest: put_rows_Inr split: sum.splits)

section \<open>Constraints stay satisfied\<close>

lemma fk_ok_mono:
  assumes "fk_ok S tb u r" and "\<And>p. set (ids (tb p)) \<subseteq> set (ids (tb' p))"
  shows "fk_ok S tb' u r"
  using assms by (fastforce simp: fk_ok_def list_all_iff split: option.splits)

lemma put_rows_ok:
  assumes ok: "\<And>u. table_ok S tb u" and put: "put_rows S t rows changed tb = Inr tb'"
    and sub: "set rows \<subseteq> set changed \<union> set (tb t)"
  shows "table_ok S tb' u"
proof -
  note facts = put_rows_Inr [OF put]
  have fk: "fk_ok S tb' u r" if r: "r \<in> set (tb' u)" for r
  proof (cases "set (ids (tb t)) \<subseteq> set (ids rows)")
    case True
    have mono: "set (ids (tb p)) \<subseteq> set (ids (tb' p))" for p
      using True by (simp add: facts(1))
    show ?thesis
    proof (cases "r \<in> set (tb u)")
      case True
      then have "fk_ok S tb u r" using ok [of u] by (simp add: table_ok_def)
      then show ?thesis using mono by (rule fk_ok_mono)
    next
      case False
      with r sub have "u = t \<and> r \<in> set changed" by (auto simp: facts(1) split: if_splits)
      then show ?thesis using facts(2) by simp
    qed
  next
    case False
    then have "no_orphans S tb'" using facts(4) by simp
    with r show ?thesis by (simp add: no_orphans_def)
  qed
  have "nn_ok (S u) r \<and> check_ok (S u) r" if "r \<in> set (tb' u)" for r
    using that sub ok [of u] facts(2) by (cases "u = t") (auto simp: facts(1) table_ok_def)
  moreover have "uniq_ok (S u) (tb' u)"
    using ok [of u] facts(3) by (simp add: facts(1) table_ok_def)
  ultimately show ?thesis using fk by (simp add: table_ok_def)
qed

lemma sql_insert_ok:
  assumes "db_ok S db" and "sql_insert S t kvs db = Inr db'"
  shows "db_ok S db'"
  using assms put_rows_ok [where S = S and tb = "tab db"]
  by (fastforce simp: db_ok_def sql_insert_def Let_def split: sum.splits)

lemma sql_update_ok:
  assumes "db_ok S db" and "sql_update S t P f db = Inr db'"
  shows "db_ok S db'"
proof -
  obtain tb where tb: "put_rows S t (map (\<lambda>r. if P r then f r else r) (tab db t))
      (map f (filter P (tab db t))) (tab db) = Inr tb" and "tab db' = tb"
    using assms(2) by (auto simp: sql_update_def Let_def split: sum.splits)
  moreover have "table_ok S tb u" for u
    by (rule put_rows_ok [OF _ tb]) (use assms(1) in \<open>auto simp: db_ok_def\<close>)
  ultimately show ?thesis by (simp add: db_ok_def)
qed

lemma sql_delete_ok:
  assumes "db_ok S db" and "sql_delete S t P db = Inr db'"
  shows "db_ok S db'"
proof -
  obtain tb where tb: "put_rows S t (filter (\<lambda>r. \<not> P r) (tab db t)) [] (tab db) = Inr tb"
    and "tab db' = tb"
    using assms(2) by (auto simp: sql_delete_def split: sum.splits)
  moreover have "table_ok S tb u" for u
    by (rule put_rows_ok [OF _ tb]) (use assms(1) in \<open>auto simp: db_ok_def\<close>)
  ultimately show ?thesis by (simp add: db_ok_def)
qed

section \<open>The full-text index mirrors its table\<close>

definition fts_at :: "'t table_schema \<Rightarrow> (rat \<times> sqlval list) list \<Rightarrow> row list \<Rightarrow> bool" where
  "fts_at s es rows \<longleftrightarrow>
     (if fts_cols s = [] then es = [] else mset es = mset (map (fts_entry s) rows))"

definition fts_ok :: "'t schema \<Rightarrow> 't database \<Rightarrow> bool" where
  "fts_ok S db \<longleftrightarrow> (\<forall>t. fts_at (S t) (fts db t) (tab db t))"

lemma fts_at_insert: "fts_at s es rows \<Longrightarrow> fts_at s (trigger_ai s r es) (rows @ [r])"
  by (simp add: fts_at_def trigger_ai_def)

lemma fold_trigger_au_mset:
  assumes "fts_cols s \<noteq> []" and "mset (map (fts_entry s) hit) \<subseteq># mset es"
  shows "mset (fold (\<lambda>r. trigger_au s r (f r)) hit es) + mset (map (fts_entry s) hit) =
     mset es + mset (map (fts_entry s) (map f hit))"
  using assms
proof (induction hit arbitrary: es)
  case Nil
  then show ?case by simp
next
  case (Cons r hit)
  let ?es = "trigger_au s r (f r) es"
  obtain M where M: "mset es = add_mset (fts_entry s r) (mset (map (fts_entry s) hit)) + M"
    using Cons.prems by (auto simp: subset_mset.le_iff_add)
  have es: "mset ?es = mset (map (fts_entry s) hit) + M + {#fts_entry s (f r)#}"
    using Cons.prems by (simp add: trigger_au_def trigger_ai_def trigger_ad_def M)
  have "mset (map (fts_entry s) hit) \<subseteq># mset ?es"
    by (simp add: es)
  from Cons.IH [OF Cons.prems(1) this] show ?case
    by (simp add: es M)
qed

lemma fts_at_update:
  assumes "fts_at s es rows"
  shows "fts_at s (fold (\<lambda>r. trigger_au s r (f r)) (filter P rows) es)
           (map (\<lambda>r. if P r then f r else r) rows)"
proof (cases "fts_cols s = []")
  case True
  have "fold (\<lambda>r. trigger_au s r (f r)) xs es = es" for xs es
    using True by (induction xs) (simp_all add: trigger_au_def trigger_ai_def trigger_ad_def)
  then show ?thesis using assms True by (simp add: fts_at_def)
next
  case False
  then have es: "mset es = mset (map (fts_entry s) rows)"
    using assms by (simp add: fts_at_def)
  have "mset (map (fts_entry s) (filter P rows)) \<subseteq># mset es"
    unfolding es by (simp add: image_mset_subseteq_mono)
  note au = fold_trigger_au_mset [OF False this, of f]
  have "mset (fold (\<lambda>r. trigger_au s r (f r)) (filter P rows) es) =
      mset (map (fts_entry s) (map (\<lambda>r. if P r then f r else r) rows))"
    by (rule add_right_imp_eq [where a = "mset (map (fts_entry s) (filter P rows))"])
      (simp only: au map_if_filter_mset [of "fts_entry s" P f rows] es)
  then show ?thesis using False by (simp add: fts_at_def)
qed

lemma fold_trigger_ad_mset:
  "fts_cols s \<noteq> [] \<Longrightarrow> mset (fold (trigger_ad s) hit es) = mset es - mset (map (fts_entry s) hit)"
  by (induction hit arbitrary: es) (simp_all add: trigger_ad_def)

lemma fts_at_delete:
  assumes "fts_at s es rows"
  shows "fts_at s (fold (trigger_ad s) (filter P rows) es) (filter (\<lambda>r. \<not> P r) rows)"
proof (cases "fts_cols s = []")
  case True
  have "fold (trigger_ad s) xs es = es" for xs es
    using True by (induction xs) (simp_all add: trigger_ad_def)
  then show ?thesis using assms True by (simp add: fts_at_def)
next
  case False
  have "mset (map (fts_entry s) rows) =
      mset (map (fts_entry s) (filter P rows)) + mset (map (fts_entry s) (filter (\<lambda>r. \<not> P r) rows))"
    by (induction rows) auto
  then show ?thesis
    using assms False by (simp add: fts_at_def fold_trigger_ad_mset)
qed

lemma sql_insert_fts: "fts_ok S db \<Longrightarrow> sql_insert S t kvs db = Inr db' \<Longrightarrow> fts_ok S db'"
  using put_rows_Inr(1)
  by (fastforce simp: fts_ok_def sql_insert_def Let_def fts_at_insert split: sum.splits)

lemma sql_update_fts: "fts_ok S db \<Longrightarrow> sql_update S t P f db = Inr db' \<Longrightarrow> fts_ok S db'"
  using put_rows_Inr(1)
  by (fastforce simp: fts_ok_def sql_update_def Let_def fts_at_update split: sum.splits)

lemma sql_delete_fts: "fts_ok S db \<Longrightarrow> sql_delete S t P db = Inr db' \<Longrightarrow> fts_ok S db'"
  using put_rows_Inr(1)
  by (fastforce simp: fts_ok_def sql_delete_def fts_at_delete split: sum.splits)

section \<open>Row numbers are distinct\<close>

definition rowids_ok :: "('t, 'z) database_scheme \<Rightarrow> bool" where
  "rowids_ok db \<longleftrightarrow> (\<forall>t. distinct (map rowid_of (tab db t)))"

lemma next_rowid_greater: "r \<in> set rows \<Longrightarrow> rowid_of r < next_rowid rows"
proof -
  have "r \<in> set rows \<Longrightarrow> rowid_of r \<le> foldr (\<lambda>r m. max (rowid_of r) m) rows 0"
    by (induction rows) auto
  then show "r \<in> set rows \<Longrightarrow> rowid_of r < next_rowid rows"
    by (simp add: next_rowid_def)
qed

lemma rowid_new_row [simp]: "rowid_of (new_row s kvs rows) = next_rowid rows"
  by (simp add: rowid_of_def new_row_def)

lemma sql_insert_rowids:
  assumes "rowids_ok db" and "sql_insert S t kvs db = Inr db'"
  shows "rowids_ok db'"
proof -
  have "next_rowid (tab db t) \<notin> rowid_of ` set (tab db t)"
    using next_rowid_greater by fastforce
  then show ?thesis
    using assms(1) by (simp add: rowids_ok_def sql_insert_tab [OF assms(2)])
qed

lemma sql_update_rowids:
  assumes "rowids_ok db" and "sql_update S t P f db = Inr db'"
    and "\<And>r. r \<in> set (tab db t) \<Longrightarrow> P r \<Longrightarrow> f r ''rowid'' = r ''rowid''"
  shows "rowids_ok db'"
proof -
  have "map rowid_of (map (\<lambda>r. if P r then f r else r) (tab db t)) = map rowid_of (tab db t)"
    using assms(3) by (simp add: rowid_of_def)
  then show ?thesis
    using assms(1) by (simp add: rowids_ok_def sql_update_tab [OF assms(2)] del: map_map)
qed

lemma sql_delete_rowids:
  assumes "rowids_ok db" and "sql_delete S t P db = Inr db'"
  shows "rowids_ok db'"
  using assms(1) by (simp add: rowids_ok_def sql_delete_tab [OF assms(2)] distinct_map_filter)

end
