(* ===== verification/JS_Base.thy ===== *)
theory JS_Base
  imports Relational
begin

text \<open>
  The JavaScript the handlers rely on: request-body values with \<^verbatim>\<open>undefined\<close> and \<^verbatim>\<open>null\<close> kept
  apart, truthiness, \<^verbatim>\<open>??\<close>, \<^verbatim>\<open>JSON.stringify\<close>, and the string operations \<^verbatim>\<open>split\<close>, \<^verbatim>\<open>trim\<close>,
  \<^verbatim>\<open>toUpperCase\<close>, \<^verbatim>\<open>padStart\<close> and \<^verbatim>\<open>parseInt(_, 10)\<close>.  Strings are lists of 8-bit characters; case
  mapping covers ASCII.  Numbers are exact rationals (every finite double is one).
\<close>

section \<open>Values\<close>

datatype js =
    Undefined
  | JNull
  | JBool bool
  | JNum rat
  | JStr string
  | JArr "js list"
  | JObj "(string \<times> js) list"

type_synonym body = "string \<Rightarrow> js"

fun truthy :: "js \<Rightarrow> bool" where
  "truthy Undefined = False"
| "truthy JNull = False"
| "truthy (JBool b) = b"
| "truthy (JNum n) = (n \<noteq> 0)"
| "truthy (JStr s) = (s \<noteq> [])"
| "truthy (JArr xs) = True"
| "truthy (JObj kvs) = True"

text \<open>The operator \<^verbatim>\<open>v ?? d\<close>.\<close>

fun nullish :: "js \<Rightarrow> js \<Rightarrow> js" where
  "nullish Undefined d = d"
| "nullish JNull d = d"
| "nullish v d = v"

text \<open>A column value read back from a row.\<close>

fun js_of_sql :: "sqlval \<Rightarrow> js" where
  "js_of_sql Null = JNull"
| "js_of_sql (Num n) = JNum n"
| "js_of_sql (Text s) = JStr s"

text \<open>\<^verbatim>\<open>xs.includes(v)\<close> for a list of string literals.\<close>

fun includes_str :: "string list \<Rightarrow> js \<Rightarrow> bool" where
  "includes_str xs (JStr s) = (s \<in> set xs)"
| "includes_str xs v = False"

section \<open>Decimal numerals\<close>

definition digit_char :: "nat \<Rightarrow> char" where
  "digit_char d = char_of (48 + d)"

definition is_digit :: "char \<Rightarrow> bool" where
  "is_digit c \<longleftrightarrow> 48 \<le> (of_char c :: nat) \<and> (of_char c :: nat) \<le> 57"

definition digit_val :: "char \<Rightarrow> nat" where
  "digit_val c = of_char c - 48"

fun nat_str :: "nat \<Rightarrow> string" where
  "nat_str n = (if n < 10 then [digit_char n] else nat_str (n div 10) @ [digit_char (n mod 10)])"

declare nat_str.simps [simp del]

definition int_str :: "int \<Rightarrow> string" where
  "int_str i = (if i < 0 then ''-'' @ nat_str (nat (- i)) else nat_str (nat i))"

definition digits_nat :: "string \<Rightarrow> nat" where
  "digits_nat s = foldl (\<lambda>n c. 10 * n + digit_val c) 0 s"

definition pad_start :: "nat \<Rightarrow> char \<Rightarrow> string \<Rightarrow> string" where
  "pad_start n c s = replicate (n - length s) c @ s"

lemma digit_char_props [simp]:
  assumes "d < 10"
  shows "is_digit (digit_char d)" and "digit_val (digit_char d) = d"
  using assms by (simp_all add: is_digit_def digit_val_def digit_char_def)

lemma nat_str_digits: "list_all is_digit (nat_str n)"
proof (induction n rule: nat_str.induct)
  case (1 n)
  then show ?case by (subst nat_str.simps) simp
qed

lemma nat_str_nonempty [simp]: "nat_str n \<noteq> []"
  by (subst nat_str.simps) simp

lemma digits_nat_snoc [simp]: "digits_nat (s @ [c]) = 10 * digits_nat s + digit_val c"
  by (simp add: digits_nat_def)

lemma digits_nat_str [simp]: "digits_nat (nat_str n) = n"
proof (induction n rule: nat_str.induct)
  case (1 n)
  show ?case
  proof (cases "n < 10")
    case True
    then have "nat_str n = [] @ [digit_char n]" by (subst nat_str.simps) simp
    with True show ?thesis by (simp only: digits_nat_snoc) (simp add: digits_nat_def)
  next
    case False
    then have "nat_str n = nat_str (n div 10) @ [digit_char (n mod 10)]"
      by (subst nat_str.simps) simp
    with 1 False show ?thesis by simp
  qed
qed

lemma digits_nat_zeros [simp]: "digits_nat (replicate k (CHR ''0'') @ s) = digits_nat s"
  by (induction k) (simp_all add: digits_nat_def digit_val_def)

section \<open>Strings\<close>

definition js_space :: "char \<Rightarrow> bool" where
  "js_space c \<longleftrightarrow> (of_char c :: nat) \<in> {9, 10, 11, 12, 13, 32, 160}"

definition trim_start :: "string \<Rightarrow> string" where
  "trim_start s = dropWhile js_space s"

definition trim :: "string \<Rightarrow> string" where
  "trim s = rev (dropWhile js_space (rev (dropWhile js_space s)))"

fun split_on :: "char \<Rightarrow> string \<Rightarrow> string list" where
  "split_on c [] = [[]]"
| "split_on c (x # xs) =
     (if x = c then [] # split_on c xs
      else case split_on c xs of [] \<Rightarrow> [[x]] | w # ws \<Rightarrow> (x # w) # ws)"

fun join :: "string \<Rightarrow> string list \<Rightarrow> string" where
  "join sep [] = []"
| "join sep [w] = w"
| "join sep (w # ws) = w @ sep @ join sep ws"

definition upper_char :: "char \<Rightarrow> char" where
  "upper_char c = (let n = of_char c :: nat in if 97 \<le> n \<and> n \<le> 122 then char_of (n - 32) else c)"

definition to_upper :: "string \<Rightarrow> string" where
  "to_upper s = map upper_char s"

text \<open>\<^verbatim>\<open>parseInt(s, 10)\<close>; \<open>None\<close> is NaN.\<close>

definition parse_digits :: "string \<Rightarrow> int option" where
  "parse_digits s = (let ds = takeWhile is_digit s in
     if ds = [] then None else Some (int (digits_nat ds)))"

definition parse_int :: "string \<Rightarrow> int option" where
  "parse_int s = (case trim_start s of
       [] \<Rightarrow> None
     | c # cs \<Rightarrow> if c = CHR ''-'' then map_option uminus (parse_digits cs)
                else if c = CHR ''+'' then parse_digits cs else parse_digits (c # cs))"

lemma split_on_nonempty [simp]: "split_on c s \<noteq> []"
  by (induction s) (auto split: list.splits)

lemma join_split_on: "join [c] (split_on c s) = s"
proof (induction s)
  case (Cons x xs)
  obtain w ws where w: "split_on c xs = w # ws" by (cases "split_on c xs") auto
  with Cons show ?case by (cases ws) auto
qed simp

lemma digit_not_space: "is_digit c \<Longrightarrow> \<not> js_space c"
  by (auto simp: is_digit_def js_space_def)

lemma parse_int_int_str: "parse_int (int_str i) = Some i"
proof -
  have digits: "parse_digits (nat_str n) = Some (int n)" for n
  proof -
    have "takeWhile is_digit (nat_str n) = nat_str n"
      using nat_str_digits [of n] by (simp add: list_all_iff takeWhile_eq_all_conv)
    then show ?thesis unfolding parse_digits_def by (simp only: Let_def) simp
  qed
  obtain c cs where c: "nat_str (nat i) = c # cs" by (cases "nat_str (nat i)") auto
  then have d: "is_digit c" using nat_str_digits [of "nat i"] by simp
  then have "c \<noteq> CHR ''-'' \<and> c \<noteq> CHR ''+''" by (auto simp: is_digit_def)
  then have pos: "parse_int (nat_str (nat i)) = Some (int (nat i))"
    using digits [of "nat i"] d by (simp add: parse_int_def trim_start_def c digit_not_space)
  have "\<not> js_space (CHR ''-'')" by (simp add: js_space_def)
  with pos digits show ?thesis
    by (simp add: int_str_def parse_int_def trim_start_def)
qed

section \<open>JSON.stringify\<close>

definition hex_char :: "nat \<Rightarrow> char" where
  "hex_char d = (if d < 10 then char_of (48 + d) else char_of (87 + d))"

definition json_escape :: "char \<Rightarrow> string" where
  "json_escape c = (let n = of_char c :: nat in
     if n = 34 then [CHR 92, CHR 34]
     else if n = 92 then [CHR 92, CHR 92]
     else if n = 8 then [CHR 92, CHR ''b'']
     else if n = 9 then [CHR 92, CHR ''t'']
     else if n = 10 then [CHR 92, CHR ''n'']
     else if n = 12 then [CHR 92, CHR ''f'']
     else if n = 13 then [CHR 92, CHR ''r'']
     else if n < 32 then [CHR 92] @ ''u00'' @ [hex_char (n div 16), hex_char (n mod 16)]
     else [c])"

definition json_quote :: "string \<Rightarrow> string" where
  "json_quote s = [CHR 34] @ concat (map json_escape s) @ [CHR 34]"

text \<open>
  The text of a number is \<^verbatim>\<open>Number.prototype.toString\<close>: exact for integers, and a parameter
  \<open>dec\<close> for the shortest round-trip decimal of a fraction.
\<close>

definition num_str :: "(rat \<Rightarrow> string) \<Rightarrow> rat \<Rightarrow> string" where
  "num_str dec n = (if of_int \<lfloor>n\<rfloor> = n then int_str \<lfloor>n\<rfloor> else dec n)"

fun json_stringify :: "(rat \<Rightarrow> string) \<Rightarrow> js \<Rightarrow> string" where
  "json_stringify dec Undefined = ''null''"
| "json_stringify dec JNull = ''null''"
| "json_stringify dec (JBool b) = (if b then ''true'' else ''false'')"
| "json_stringify dec (JNum n) = num_str dec n"
| "json_stringify dec (JStr s) = json_quote s"
| "json_stringify dec (JArr xs) = ''['' @ join '','' (map (json_stringify dec) xs) @ '']''"
| "json_stringify dec (JObj kvs) = ''{'' @ join '',''
     (map (\<lambda>(k, v). json_quote k @ '':'' @ json_stringify dec v)
       (filter (\<lambda>(k, v). v \<noteq> Undefined) kvs)) @ ''}''"

end
