(* ===== verification/Task_Flow.thy ===== *)
theory Task_Flow
  imports JS_Base "HOL-Library.AList"
begin

text \<open>
  The task-flow registry, \<^verbatim>\<open>src/tasks/task-flow-registry.ts\<close>, and its SQLite store,
  \<^verbatim>\<open>task-flow-registry.store.sqlite.ts\<close>: flow records in memory, written through to a table, with
  optimistic updates by revision.  An operation that throws is \<open>Inl\<close> of the message.  \<open>json_io\<close>
  stands for \<^verbatim>\<open>JSON.stringify\<close>, \<^verbatim>\<open>JSON.parse\<close> and \<^verbatim>\<open>normalizeDeliveryContext\<close> on the JSON columns;
  the clock and \<^verbatim>\<open>randomUUID\<close> are arguments.
\<close>

section \<open>Records\<close>

datatype sync_mode = TaskMirrored | Managed

datatype flow_status = FQueued | FRunning | FWaiting | FBlocked | FSucceeded | FFailed | FCancelled | FLost

datatype notify_policy = DoneOnly | StateChanges | Silent

record flow =
  flow_id :: string
  mode :: sync_mode
  owner_key :: string
  requester_origin :: "js option"
  controller_id :: "string option"
  revision :: int
  status :: flow_status
  notify :: notify_policy
  goal :: string
  current_step :: "string option"
  blocked_task_id :: "string option"
  blocked_summary :: "string option"
  state_json :: "js option"
  wait_json :: "js option"
  cancel_requested_at :: "int option"
  created_at :: int
  updated_at :: int
  ended_at :: "int option"

text \<open>A patch field: \<^verbatim>\<open>undefined\<close>, \<^verbatim>\<open>null\<close> or a value.\<close>

datatype 'a field = Keep | Clear | Put 'a

record flow_patch =
  p_status :: "flow_status option"
  p_notify :: "notify_policy option"
  p_goal :: "string option"
  p_controller :: "string field"
  p_step :: "string field"
  p_blocked_task :: "string field"
  p_blocked_summary :: "string field"
  p_state :: "js option"
  p_wait :: "js option"
  p_cancel :: "int field"
  p_updated :: "int option"
  p_ended :: "int field"

record create_params =
  c_mode :: "sync_mode option"
  c_owner :: string
  c_origin :: "js option"
  c_controller :: "string option"
  c_revision :: "int option"
  c_status :: "flow_status option"
  c_notify :: "notify_policy option"
  c_goal :: string
  c_step :: "string option"
  c_blocked_task :: "string option"
  c_blocked_summary :: "string option"
  c_state :: "js option"
  c_wait :: "js option"
  c_cancel :: "int option"
  c_created :: "int option"
  c_updated :: "int option"
  c_ended :: "int option"

text \<open>\<^verbatim>\<open>TaskRecord\<close> and its enumerations.\<close>

datatype task_runtime = RSubagent | RAcp | RCli | RCron

datatype task_status = TQueued | TRunning | TSucceeded | TFailed | TTimedOut | TCancelled | TLost

datatype delivery_status = DPending | DDelivered | DSessionQueued | DFailed | DParentMissing | DNotApplicable

datatype task_outcome = OSucceeded | OBlocked

datatype task_scope = SSession | SSystem

record task_record =
  t_id :: string
  t_runtime :: task_runtime
  t_kind :: "string option"
  t_source :: "string option"
  t_requester :: string
  t_owner :: string
  t_scope :: task_scope
  t_child :: "string option"
  t_parent_flow :: "string option"
  t_parent_task :: "string option"
  t_agent :: "string option"
  t_run :: "string option"
  t_label :: "string option"
  t_task :: string
  t_status :: task_status
  t_delivery :: delivery_status
  t_notify :: notify_policy
  t_created :: int
  t_started :: "int option"
  t_ended :: "int option"
  t_last_event :: "int option"
  t_cleanup :: "int option"
  t_error :: "string option"
  t_progress_summary :: "string option"
  t_terminal_summary :: "string option"
  t_outcome :: "task_outcome option"

section \<open>Normalisation\<close>

definition opt_else :: "'a option \<Rightarrow> 'a \<Rightarrow> 'a" where
  "opt_else v d = (case v of None \<Rightarrow> d | Some x \<Rightarrow> x)"

definition norm_opt :: "string option \<Rightarrow> string option" where
  "norm_opt v = (case v of None \<Rightarrow> None | Some s \<Rightarrow> let t = trim s in if t = [] then None else Some t)"

definition assert_owner_key :: "string \<Rightarrow> string + string" where
  "assert_owner_key s = (case norm_opt (Some s) of
     None \<Rightarrow> Inl ''Flow ownerKey is required.'' | Some t \<Rightarrow> Inr t)"

definition assert_controller_id :: "string option \<Rightarrow> string + string" where
  "assert_controller_id v = (case norm_opt v of
     None \<Rightarrow> Inl ''Managed flow controllerId is required.'' | Some t \<Rightarrow> Inr t)"

definition normalize_restored :: "flow \<Rightarrow> string + flow" where
  "normalize_restored f = bindE (assert_owner_key (owner_key f)) (\<lambda>owner. Inr (f\<lparr>
     owner_key := owner,
     controller_id := (if mode f = Managed
       then Some (opt_else (norm_opt (controller_id f)) ''core/legacy-restored'')
       else controller_id f),
     current_step := norm_opt (current_step f),
     blocked_task_id := norm_opt (blocked_task_id f),
     blocked_summary := norm_opt (blocked_summary f),
     revision := max 0 (revision f)\<rparr>))"

section \<open>Status and timing from a task\<close>

definition blocked_summary_of :: "task_record \<Rightarrow> string option" where
  "blocked_summary_of t = (if t_status t \<noteq> TSucceeded \<or> t_outcome t \<noteq> Some OBlocked then None
     else case norm_opt (t_terminal_summary t) of
       Some s \<Rightarrow> Some s | None \<Rightarrow> norm_opt (t_progress_summary t))"

definition derive_status :: "task_record \<Rightarrow> flow_status" where
  "derive_status t =
     (if t_status t = TQueued then FQueued
      else if t_status t = TRunning then FRunning
      else if t_status t = TSucceeded then (if t_outcome t = Some OBlocked then FBlocked else FSucceeded)
      else if t_status t = TCancelled then FCancelled
      else if t_status t = TLost then FLost
      else FFailed)"

definition is_terminal :: "flow_status \<Rightarrow> bool" where
  "is_terminal s \<longleftrightarrow> s = FSucceeded \<or> s = FBlocked \<or> s = FFailed \<or> s = FCancelled \<or> s = FLost"

text \<open>\<open>(updatedAt, endedAt)\<close> from creation, last event and end of the task.\<close>

definition mirrored_timing :: "int \<Rightarrow> int option \<Rightarrow> int option \<Rightarrow> bool \<Rightarrow> int \<times> int option" where
  "mirrored_timing created last_event ended terminal =
     (if \<not> terminal then (opt_else last_event created, None)
      else let e = opt_else ended (opt_else last_event created) in (e, Some e))"

section \<open>Building and patching a record\<close>

definition build_flow :: "string \<Rightarrow> int \<Rightarrow> create_params \<Rightarrow> string + flow" where
  "build_flow uuid clock p =
     (let now = opt_else (c_created p) clock; m = opt_else (c_mode p) Managed in
      bindE (if m = Managed then map_sum id Some (assert_controller_id (c_controller p)) else Inr None)
        (\<lambda>ctl.
      bindE (assert_owner_key (c_owner p)) (\<lambda>owner.
      Inr \<lparr>flow_id = uuid, mode = m, owner_key = owner, requester_origin = c_origin p,
        controller_id = ctl, revision = max 0 (opt_else (c_revision p) 0),
        status = opt_else (c_status p) FQueued, notify = opt_else (c_notify p) DoneOnly,
        goal = c_goal p, current_step = norm_opt (c_step p),
        blocked_task_id = norm_opt (c_blocked_task p),
        blocked_summary = norm_opt (c_blocked_summary p),
        state_json = c_state p, wait_json = c_wait p, cancel_requested_at = c_cancel p,
        created_at = now, updated_at = opt_else (c_updated p) now, ended_at = c_ended p\<rparr>)))"

definition patch_string :: "string field \<Rightarrow> string option \<Rightarrow> string option" where
  "patch_string p cur = (case p of Keep \<Rightarrow> cur | Clear \<Rightarrow> None | Put s \<Rightarrow> norm_opt (Some s))"

definition patch_number :: "int field \<Rightarrow> int option \<Rightarrow> int option" where
  "patch_number p cur = (case p of Keep \<Rightarrow> cur | Clear \<Rightarrow> None | Put n \<Rightarrow> Some n)"

definition patch_json :: "js option \<Rightarrow> js option \<Rightarrow> js option" where
  "patch_json p cur = (case p of None \<Rightarrow> cur | Some v \<Rightarrow> Some v)"

definition apply_flow_patch :: "int \<Rightarrow> flow \<Rightarrow> flow_patch \<Rightarrow> string + flow" where
  "apply_flow_patch clock cur p =
     (let ctl = patch_string (p_controller p) (controller_id cur) in
      bindE (if mode cur = Managed then map_sum id (\<lambda>_. ()) (assert_controller_id ctl) else Inr ()) (\<lambda>_.
      Inr (cur\<lparr>
        status := opt_else (p_status p) (status cur),
        notify := opt_else (p_notify p) (notify cur),
        goal := (case p_goal p of None \<Rightarrow> goal cur | Some g \<Rightarrow> if g = [] then goal cur else g),
        controller_id := ctl,
        current_step := patch_string (p_step p) (current_step cur),
        blocked_task_id := patch_string (p_blocked_task p) (blocked_task_id cur),
        blocked_summary := patch_string (p_blocked_summary p) (blocked_summary cur),
        state_json := patch_json (p_state p) (state_json cur),
        wait_json := patch_json (p_wait p) (wait_json cur),
        cancel_requested_at := patch_number (p_cancel p) (cancel_requested_at cur),
        revision := revision cur + 1,
        updated_at := opt_else (p_updated p) clock,
        ended_at := patch_number (p_ended p) (ended_at cur)\<rparr>)))"

section \<open>The SQLite store\<close>

record json_io =
  ser :: "js \<Rightarrow> string"
  par :: "string \<Rightarrow> js option"
  par_origin :: "string \<Rightarrow> js option"

record flow_row =
  r_flow_id :: string
  r_sync_mode :: "string option"
  r_shape :: "string option"
  r_owner_key :: string
  r_origin_json :: "string option"
  r_controller_id :: "string option"
  r_revision :: "int option"
  r_status :: flow_status
  r_notify :: notify_policy
  r_goal :: string
  r_current_step :: "string option"
  r_blocked_task_id :: "string option"
  r_blocked_summary :: "string option"
  r_state_json :: "string option"
  r_wait_json :: "string option"
  r_cancel_requested_at :: "int option"
  r_created_at :: "int option"
  r_updated_at :: "int option"
  r_ended_at :: "int option"

definition sync_mode_text :: "sync_mode \<Rightarrow> string" where
  "sync_mode_text m = (case m of TaskMirrored \<Rightarrow> ''task_mirrored'' | Managed \<Rightarrow> ''managed'')"

definition row_to_sync_mode :: "flow_row \<Rightarrow> sync_mode" where
  "row_to_sync_mode r =
     (if r_sync_mode r = Some ''task_mirrored'' then TaskMirrored
      else if r_sync_mode r = Some ''managed'' then Managed
      else if r_shape r = Some ''single_task'' then TaskMirrored else Managed)"

text \<open>A column read with \<^verbatim>\<open>row.c ? \{ c: row.c \} : \{\}\<close>.\<close>

definition non_empty :: "string option \<Rightarrow> string option" where
  "non_empty v = (case v of None \<Rightarrow> None | Some s \<Rightarrow> if s = [] then None else Some s)"

definition parse_json :: "(string \<Rightarrow> js option) \<Rightarrow> string option \<Rightarrow> js option" where
  "parse_json f raw = (case raw of None \<Rightarrow> None | Some s \<Rightarrow> if trim s = [] then None else f s)"

definition row_to_flow :: "json_io \<Rightarrow> flow_row \<Rightarrow> flow" where
  "row_to_flow io r = \<lparr>flow_id = r_flow_id r, mode = row_to_sync_mode r, owner_key = r_owner_key r,
     requester_origin = parse_json (par_origin io) (r_origin_json r),
     controller_id = non_empty (r_controller_id r), revision = opt_else (r_revision r) 0,
     status = r_status r, notify = r_notify r, goal = r_goal r,
     current_step = non_empty (r_current_step r), blocked_task_id = non_empty (r_blocked_task_id r),
     blocked_summary = non_empty (r_blocked_summary r),
     state_json = parse_json (par io) (r_state_json r), wait_json = parse_json (par io) (r_wait_json r),
     cancel_requested_at = r_cancel_requested_at r,
     created_at = opt_else (r_created_at r) 0, updated_at = opt_else (r_updated_at r) 0,
     ended_at = r_ended_at r\<rparr>"

text \<open>The upsert statement binds no \<^verbatim>\<open>shape\<close>: a new row has NULL there, an old one keeps its value.\<close>

definition bind_flow :: "json_io \<Rightarrow> string option \<Rightarrow> flow \<Rightarrow> flow_row" where
  "bind_flow io shape f = \<lparr>r_flow_id = flow_id f, r_sync_mode = Some (sync_mode_text (mode f)),
     r_shape = shape, r_owner_key = owner_key f,
     r_origin_json = map_option (ser io) (requester_origin f), r_controller_id = controller_id f,
     r_revision = Some (revision f), r_status = status f, r_notify = notify f, r_goal = goal f,
     r_current_step = current_step f, r_blocked_task_id = blocked_task_id f,
     r_blocked_summary = blocked_summary f, r_state_json = map_option (ser io) (state_json f),
     r_wait_json = map_option (ser io) (wait_json f), r_cancel_requested_at = cancel_requested_at f,
     r_created_at = Some (created_at f), r_updated_at = Some (updated_at f), r_ended_at = ended_at f\<rparr>"

text \<open>The table, keyed by \<^verbatim>\<open>flow_id\<close>.\<close>

type_synonym flow_table = "(string \<times> flow_row) list"

definition upsert_row :: "json_io \<Rightarrow> flow \<Rightarrow> flow_table \<Rightarrow> flow_table" where
  "upsert_row io f rows = (let shape = (case map_of rows (flow_id f) of None \<Rightarrow> None | Some r \<Rightarrow> r_shape r)
     in AList.update (flow_id f) (bind_flow io shape f) rows)"

definition delete_row :: "string \<Rightarrow> flow_table \<Rightarrow> flow_table" where
  "delete_row i rows = AList.delete i rows"

text \<open>\<^verbatim>\<open>ORDER BY created_at ASC, flow_id ASC\<close>\<close>

definition load_rows :: "json_io \<Rightarrow> flow_table \<Rightarrow> (string \<times> flow) list" where
  "load_rows io rows = map (\<lambda>(i, r). (r_flow_id r, row_to_flow io r))
     (sort_key (\<lambda>(i, r). (opt_else (r_created_at r) 0)) (sort_key (\<lambda>(i, r). r_flow_id r) rows))"

section \<open>The registry\<close>

datatype flow_event = Restored "flow list" | Upserted flow "flow option" | Deleted string flow

record registry =
  flows :: "(string \<times> flow) list"
  ready :: bool
  restore_failure :: "string option"
  rows :: flow_table
  events :: "flow_event list"

definition restore_flows :: "(string \<times> flow) list \<Rightarrow> string + (string \<times> flow) list" where
  "restore_flows ls = foldE (\<lambda>(i, f) acc.
     bindE (normalize_restored f) (\<lambda>g. Inr (AList.update i g acc))) ls []"

definition ensure_ready :: "json_io \<Rightarrow> registry \<Rightarrow> registry" where
  "ensure_ready io s = (if ready s then s
     else case restore_flows (load_rows io (rows s)) of
       Inl msg \<Rightarrow> s\<lparr>ready := True, flows := [], restore_failure := Some msg\<rparr>
     | Inr fs \<Rightarrow> s\<lparr>ready := True, flows := fs, restore_failure := None,
         events := events s @ [Restored (map snd fs)]\<rparr>)"

definition write_flow :: "json_io \<Rightarrow> flow \<Rightarrow> flow option \<Rightarrow> registry \<Rightarrow> registry" where
  "write_flow io f prev s = s\<lparr>flows := AList.update (flow_id f) f (flows s),
     rows := upsert_row io f (rows s), events := events s @ [Upserted f prev]\<rparr>"

definition create_flow :: "json_io \<Rightarrow> string \<Rightarrow> int \<Rightarrow> create_params \<Rightarrow> registry \<Rightarrow> (string + flow) \<times> registry" where
  "create_flow io uuid clock p s0 = (let s = ensure_ready io s0 in
     case build_flow uuid clock p of Inl msg \<Rightarrow> (Inl msg, s)
     | Inr f \<Rightarrow> (Inr f, write_flow io f None s))"

definition create_managed_flow ::
  "json_io \<Rightarrow> string \<Rightarrow> int \<Rightarrow> create_params \<Rightarrow> registry \<Rightarrow> (string + flow) \<times> registry" where
  "create_managed_flow io uuid clock p s = (case assert_controller_id (c_controller p) of
     Inl msg \<Rightarrow> (Inl msg, s)
   | Inr ctl \<Rightarrow> create_flow io uuid clock (p\<lparr>c_mode := Some Managed, c_controller := Some ctl\<rparr>) s)"

definition task_goal :: "task_record \<Rightarrow> string" where
  "task_goal t = (case norm_opt (t_label t) of Some l \<Rightarrow> l
     | None \<Rightarrow> if trim (t_task t) = [] then ''Background task'' else trim (t_task t))"

definition create_flow_for_task ::
  "json_io \<Rightarrow> string \<Rightarrow> int \<Rightarrow> js option \<Rightarrow> task_record \<Rightarrow> registry \<Rightarrow> (string + flow) \<times> registry" where
  "create_flow_for_task io uuid clock origin t s =
     (let st = derive_status t;
          timing = mirrored_timing (t_created t) (t_last_event t) (t_ended t) (is_terminal st) in
      create_flow io uuid clock
        \<lparr>c_mode = Some TaskMirrored, c_owner = t_owner t, c_origin = origin, c_controller = None,
         c_revision = None, c_status = Some st, c_notify = Some (t_notify t), c_goal = task_goal t,
         c_step = None, c_blocked_task = (if st = FBlocked then norm_opt (Some (t_id t)) else None),
         c_blocked_summary = blocked_summary_of t, c_state = None, c_wait = None, c_cancel = None,
         c_created = Some (t_created t), c_updated = Some (fst timing), c_ended = snd timing\<rparr> s)"

text \<open>A result \<open>None\<close> of the unchecked update is \<^verbatim>\<open>null\<close>: no such flow.\<close>

definition update_unchecked ::
  "json_io \<Rightarrow> int \<Rightarrow> string \<Rightarrow> flow_patch \<Rightarrow> registry \<Rightarrow> (string + flow option) \<times> registry" where
  "update_unchecked io clock i p s0 = (let s = ensure_ready io s0 in
     case map_of (flows s) i of None \<Rightarrow> (Inr None, s)
     | Some cur \<Rightarrow> (case apply_flow_patch clock cur p of Inl msg \<Rightarrow> (Inl msg, s)
         | Inr f \<Rightarrow> (Inr (Some f), write_flow io f (Some cur) s)))"

datatype update_result = Applied flow | NotFound | RevisionConflict flow

definition update_expected ::
  "json_io \<Rightarrow> int \<Rightarrow> string \<Rightarrow> int \<Rightarrow> flow_patch \<Rightarrow> registry \<Rightarrow> (string + update_result) \<times> registry" where
  "update_expected io clock i expected p s0 = (let s = ensure_ready io s0 in
     case map_of (flows s) i of None \<Rightarrow> (Inr NotFound, s)
     | Some cur \<Rightarrow>
         if revision cur \<noteq> expected then (Inr (RevisionConflict cur), s)
         else (case apply_flow_patch clock cur p of Inl msg \<Rightarrow> (Inl msg, s)
           | Inr f \<Rightarrow> (Inr (Applied f), write_flow io f (Some cur) s)))"

definition empty_patch :: flow_patch where
  "empty_patch = \<lparr>p_status = None, p_notify = None, p_goal = None, p_controller = Keep, p_step = Keep,
     p_blocked_task = Keep, p_blocked_summary = Keep, p_state = None, p_wait = None, p_cancel = Keep,
     p_updated = None, p_ended = Keep\<rparr>"

fun field_text :: "string field \<Rightarrow> string option" where
  "field_text (Put s) = norm_opt (Some s)"
| "field_text f = None"

definition waiting_patch ::
  "string field \<Rightarrow> js option \<Rightarrow> js option \<Rightarrow> string field \<Rightarrow> string field \<Rightarrow> int option \<Rightarrow> flow_patch" where
  "waiting_patch step st wt btask bsum upd = empty_patch\<lparr>
     p_status := Some (if field_text btask \<noteq> None \<or> field_text bsum \<noteq> None then FBlocked else FWaiting),
     p_step := step, p_state := st, p_wait := wt, p_blocked_task := btask, p_blocked_summary := bsum,
     p_ended := Clear, p_updated := upd\<rparr>"

definition set_flow_waiting where
  "set_flow_waiting io clock i expected step st wt btask bsum upd s =
     update_expected io clock i expected (waiting_patch step st wt btask bsum upd) s"

definition resume_patch :: "flow_status option \<Rightarrow> string field \<Rightarrow> js option \<Rightarrow> int option \<Rightarrow> flow_patch" where
  "resume_patch stat step st upd = empty_patch\<lparr>
     p_status := Some (opt_else stat FQueued), p_step := step, p_state := st, p_wait := Some JNull,
     p_blocked_task := Clear, p_blocked_summary := Clear, p_ended := Clear, p_updated := upd\<rparr>"

definition resume_flow where
  "resume_flow io clock i expected stat step st upd s =
     update_expected io clock i expected (resume_patch stat step st upd) s"

definition end_time :: "int \<Rightarrow> int option \<Rightarrow> int option \<Rightarrow> int" where
  "end_time clock ended upd = opt_else ended (opt_else upd clock)"

definition finish_patch :: "string field \<Rightarrow> js option \<Rightarrow> int \<Rightarrow> int option \<Rightarrow> flow_patch" where
  "finish_patch step st e upd = empty_patch\<lparr>
     p_status := Some FSucceeded, p_step := step, p_state := st, p_wait := Some JNull,
     p_blocked_task := Clear, p_blocked_summary := Clear, p_ended := Put e,
     p_updated := Some (opt_else upd e)\<rparr>"

definition finish_flow where
  "finish_flow io clock i expected step st upd ended s =
     update_expected io clock i expected (finish_patch step st (end_time clock ended upd) upd) s"

definition fail_patch ::
  "string field \<Rightarrow> js option \<Rightarrow> string field \<Rightarrow> string field \<Rightarrow> int \<Rightarrow> int option \<Rightarrow> flow_patch" where
  "fail_patch step st btask bsum e upd = empty_patch\<lparr>
     p_status := Some FFailed, p_step := step, p_state := st, p_wait := Some JNull,
     p_blocked_task := btask, p_blocked_summary := bsum, p_ended := Put e,
     p_updated := Some (opt_else upd e)\<rparr>"

definition fail_flow where
  "fail_flow io clock i expected step st btask bsum upd ended s =
     update_expected io clock i expected (fail_patch step st btask bsum (end_time clock ended upd) upd) s"

definition request_cancel where
  "request_cancel io clock i expected cancel upd s =
     update_expected io clock i expected
       (empty_patch\<lparr>p_cancel := Put (opt_else cancel (opt_else upd clock)), p_updated := upd\<rparr>) s"

definition get_flow :: "json_io \<Rightarrow> string \<Rightarrow> registry \<Rightarrow> flow option \<times> registry" where
  "get_flow io i s0 = (let s = ensure_ready io s0 in (map_of (flows s) i, s))"

definition sync_patch :: "task_record \<Rightarrow> flow \<Rightarrow> flow_patch" where
  "sync_patch t f =
     (let st = derive_status t; terminal = is_terminal st;
          timing = mirrored_timing (created_at f) (t_last_event t) (t_ended t) terminal in
      empty_patch\<lparr>p_status := Some st, p_notify := Some (t_notify t), p_goal := Some (task_goal t),
        p_blocked_task := (if st = FBlocked \<and> trim (t_id t) \<noteq> [] then Put (trim (t_id t)) else Clear),
        p_blocked_summary := (if st = FBlocked
          then (case blocked_summary_of t of None \<Rightarrow> Clear | Some x \<Rightarrow> Put x) else Clear),
        p_wait := Some JNull, p_updated := Some (fst timing),
        p_ended := (if terminal then Put (opt_else (snd timing) (fst timing)) else Clear)\<rparr>)"

definition sync_flow_from_task ::
  "json_io \<Rightarrow> int \<Rightarrow> task_record \<Rightarrow> registry \<Rightarrow> (string + flow option) \<times> registry" where
  "sync_flow_from_task io clock t s0 = (case norm_opt (t_parent_flow t) of
       None \<Rightarrow> (Inr None, s0)
     | Some i \<Rightarrow> (case get_flow io i s0 of
         (None, s) \<Rightarrow> (Inr None, s)
       | (Some f, s) \<Rightarrow> if mode f \<noteq> TaskMirrored then (Inr (Some f), s)
           else update_unchecked io clock i (sync_patch t f) s))"

definition flows_newest_first :: "flow list \<Rightarrow> flow list" where
  "flows_newest_first fs = sort_key (\<lambda>f. - created_at f) fs"

definition list_flows_for_owner :: "json_io \<Rightarrow> string \<Rightarrow> registry \<Rightarrow> flow list \<times> registry" where
  "list_flows_for_owner io key s0 = (let s = ensure_ready io s0; k = trim key in
     (if k = [] then [] else flows_newest_first
        (filter (\<lambda>f. trim (owner_key f) = k) (map snd (flows s))), s))"

definition find_latest_for_owner :: "json_io \<Rightarrow> string \<Rightarrow> registry \<Rightarrow> flow option \<times> registry" where
  "find_latest_for_owner io key s = (case list_flows_for_owner io key s of
     ([], s') \<Rightarrow> (None, s') | (f # fs, s') \<Rightarrow> (Some f, s'))"

definition resolve_lookup_token :: "json_io \<Rightarrow> string \<Rightarrow> registry \<Rightarrow> flow option \<times> registry" where
  "resolve_lookup_token io token s = (let i = trim token in
     if i = [] then (None, s)
     else case get_flow io i s of (Some f, s') \<Rightarrow> (Some f, s')
       | (None, s') \<Rightarrow> find_latest_for_owner io i s')"

definition list_flows :: "json_io \<Rightarrow> registry \<Rightarrow> flow list \<times> registry" where
  "list_flows io s0 = (let s = ensure_ready io s0 in (flows_newest_first (map snd (flows s)), s))"

definition delete_flow :: "json_io \<Rightarrow> string \<Rightarrow> registry \<Rightarrow> bool \<times> registry" where
  "delete_flow io i s0 = (let s = ensure_ready io s0 in
     case map_of (flows s) i of None \<Rightarrow> (False, s)
     | Some cur \<Rightarrow> (True, s\<lparr>flows := AList.delete i (flows s), rows := delete_row i (rows s),
         events := events s @ [Deleted i cur]\<rparr>))"

end
