(* ===== verification/Task_Store.thy ===== *)
theory Task_Store
  imports Task_Flow
begin

text \<open>
  Task records at rest and at large: the policies of \<^verbatim>\<open>src/tasks/task-executor-policy.ts\<close>, the
  normalisation of time stamps and texts of \<^verbatim>\<open>task-registry.ts\<close>, and the row formats of
  \<^verbatim>\<open>task-registry.store.sqlite.ts\<close>.
\<close>

section \<open>Policies\<close>

definition terminal_task :: "task_status \<Rightarrow> bool" where
  "terminal_task st \<longleftrightarrow> st = TSucceeded \<or> st = TFailed \<or> st = TTimedOut \<or> st = TCancelled \<or> st = TLost"

definition active_task :: "task_status \<Rightarrow> bool" where
  "active_task st \<longleftrightarrow> st = TQueued \<or> st = TRunning"

definition auto_deliver_terminal :: "task_record \<Rightarrow> bool" where
  "auto_deliver_terminal t \<longleftrightarrow> t_notify t \<noteq> Silent \<and> \<not> (t_runtime t = RSubagent \<and> t_status t \<noteq> TCancelled) \<and>
     terminal_task (t_status t) \<and> t_delivery t = DPending"

definition auto_deliver_change :: "task_record \<Rightarrow> bool" where
  "auto_deliver_change t \<longleftrightarrow>
     t_notify t = StateChanges \<and> t_delivery t = DPending \<and> \<not> terminal_task (t_status t)"

definition suppress_duplicate :: "task_record \<Rightarrow> string option \<Rightarrow> bool" where
  "suppress_duplicate t preferred \<longleftrightarrow> t_runtime t = RAcp \<and> norm_opt (t_run t) \<noteq> None \<and>
     (case preferred of None \<Rightarrow> False | Some p \<Rightarrow> p \<noteq> [] \<and> p \<noteq> t_id t)"

section \<open>Texts\<close>

text \<open>\<^verbatim>\<open>toLowerCase\<close> on 8-bit characters.\<close>

definition lower_char :: "char \<Rightarrow> char" where
  "lower_char c = (let n = of_char c :: nat in
     if 65 \<le> n \<and> n \<le> 90 \<or> 192 \<le> n \<and> n \<le> 222 \<and> n \<noteq> 215 then char_of (n + 32) else c)"

definition to_lower :: "string \<Rightarrow> string" where
  "to_lower s = map lower_char s"

definition parse_agent_key :: "string option \<Rightarrow> (string \<times> string) option" where
  "parse_agent_key key = (case map_option to_lower (norm_opt key) of None \<Rightarrow> None
     | Some raw \<Rightarrow> (let parts = filter (\<lambda>w. w \<noteq> []) (split_on (CHR '':'') raw) in
         if length parts < 3 \<or> parts ! 0 \<noteq> ''agent'' then None
         else (case norm_opt (Some (parts ! 1)) of None \<Rightarrow> None
           | Some agent \<Rightarrow> Some (agent, join '':'' (drop 2 parts)))))"

text \<open>\<^verbatim>\<open>s.replace(/\\s+/g, " ")\<close>\<close>

fun collapse :: "string \<Rightarrow> string" where
  "collapse [] = []"
| "collapse (c # cs) = (if js_space c
     then (case cs of [] \<Rightarrow> [CHR '' ''] | d # ds \<Rightarrow> if js_space d then collapse cs else CHR '' '' # collapse cs)
     else c # collapse cs)"

definition norm_summary :: "string option \<Rightarrow> string option" where
  "norm_summary v = (case v of None \<Rightarrow> None
     | Some s \<Rightarrow> let t = trim (collapse s) in if t = [] then None else Some t)"

section \<open>Time stamps\<close>

definition earliest :: "task_record \<Rightarrow> int" where
  "earliest t = (let lower = (\<lambda>v c. case v of None \<Rightarrow> c | Some x \<Rightarrow> if x < c then x else c) in
     lower (t_ended t) (lower (t_last_event t) (lower (t_started t) (t_created t))))"

definition normalize_timestamps :: "task_record \<Rightarrow> task_record" where
  "normalize_timestamps t =
     (let c = earliest t; st = map_option (\<lambda>x. max x c) (t_started t); least = opt_else st c in
      t\<lparr>t_created := c, t_started := st,
        t_last_event := map_option (\<lambda>x. max x least) (t_last_event t),
        t_ended := map_option (\<lambda>x. max x least) (t_ended t)\<rparr>)"

text \<open>Seven days.\<close>

definition task_retention :: int where
  "task_retention = 604800000"

definition with_cleanup :: "int \<Rightarrow> task_record \<Rightarrow> task_record" where
  "with_cleanup fallback t = (if terminal_task (t_status t) \<and> t_cleanup t = None
     then t\<lparr>t_cleanup := Some (opt_else (t_ended t) (opt_else (t_last_event t) fallback) + task_retention)\<rparr>
     else t)"

section \<open>Rows\<close>

record task_row =
  w_id :: string
  w_runtime :: task_runtime
  w_kind :: "string option"
  w_source :: "string option"
  w_requester :: "string option"
  w_owner :: string
  w_scope :: task_scope
  w_child :: "string option"
  w_parent_flow :: "string option"
  w_parent_task :: "string option"
  w_agent :: "string option"
  w_run :: "string option"
  w_label :: "string option"
  w_task :: string
  w_status :: task_status
  w_delivery :: delivery_status
  w_notify :: notify_policy
  w_created :: "int option"
  w_started :: "int option"
  w_ended :: "int option"
  w_last_event :: "int option"
  w_cleanup :: "int option"
  w_error :: "string option"
  w_progress_summary :: "string option"
  w_terminal_summary :: "string option"
  w_outcome :: "task_outcome option"

definition row_to_task :: "task_row \<Rightarrow> task_record" where
  "row_to_task r = \<lparr>t_id = w_id r, t_runtime = w_runtime r, t_kind = non_empty (w_kind r),
     t_source = non_empty (w_source r),
     t_requester = (if w_scope r = SSystem then []
       else case norm_opt (w_requester r) of None \<Rightarrow> w_owner r | Some k \<Rightarrow> k),
     t_owner = w_owner r, t_scope = w_scope r, t_child = non_empty (w_child r),
     t_parent_flow = non_empty (w_parent_flow r), t_parent_task = non_empty (w_parent_task r),
     t_agent = non_empty (w_agent r), t_run = non_empty (w_run r), t_label = non_empty (w_label r),
     t_task = w_task r, t_status = w_status r, t_delivery = w_delivery r, t_notify = w_notify r,
     t_created = opt_else (w_created r) 0, t_started = w_started r, t_ended = w_ended r,
     t_last_event = w_last_event r, t_cleanup = w_cleanup r, t_error = non_empty (w_error r),
     t_progress_summary = non_empty (w_progress_summary r),
     t_terminal_summary = non_empty (w_terminal_summary r), t_outcome = w_outcome r\<rparr>"

definition bind_task :: "task_record \<Rightarrow> task_row" where
  "bind_task t = \<lparr>w_id = t_id t, w_runtime = t_runtime t, w_kind = t_kind t, w_source = t_source t,
     w_requester = Some (if t_scope t = SSystem then [] else t_requester t), w_owner = t_owner t,
     w_scope = t_scope t, w_child = t_child t, w_parent_flow = t_parent_flow t,
     w_parent_task = t_parent_task t, w_agent = t_agent t, w_run = t_run t, w_label = t_label t,
     w_task = t_task t, w_status = t_status t, w_delivery = t_delivery t, w_notify = t_notify t,
     w_created = Some (t_created t), w_started = t_started t, w_ended = t_ended t,
     w_last_event = t_last_event t, w_cleanup = t_cleanup t, w_error = t_error t,
     w_progress_summary = t_progress_summary t, w_terminal_summary = t_terminal_summary t,
     w_outcome = t_outcome t\<rparr>"

record delivery_state =
  d_origin :: "js option"
  d_notified :: "int option"

record delivery_row =
  x_origin_json :: "string option"
  x_notified :: "int option"

definition row_to_delivery :: "json_io \<Rightarrow> delivery_row \<Rightarrow> delivery_state" where
  "row_to_delivery io r = \<lparr>d_origin = parse_json (par_origin io) (x_origin_json r), d_notified = x_notified r\<rparr>"

definition bind_delivery :: "json_io \<Rightarrow> delivery_state \<Rightarrow> delivery_row" where
  "bind_delivery io d = \<lparr>x_origin_json = map_option (ser io) (d_origin d), x_notified = d_notified d\<rparr>"

text \<open>\<^verbatim>\<open>ORDER BY created_at ASC, task_id ASC\<close> and \<^verbatim>\<open>ORDER BY task_id ASC\<close>\<close>

definition load_tasks :: "(string \<times> task_row) list \<Rightarrow> (string \<times> task_record) list" where
  "load_tasks rs = map (\<lambda>(i, r). (w_id r, row_to_task r))
     (sort_key (\<lambda>(i, r). opt_else (w_created r) 0) (sort_key (\<lambda>(i, r). w_id r) rs))"

definition load_delivery :: "json_io \<Rightarrow> (string \<times> delivery_row) list \<Rightarrow> (string \<times> delivery_state) list" where
  "load_delivery io rs = map (\<lambda>(i, r). (i, row_to_delivery io r)) (sort_key fst rs)"

end
