(* ===== verification/Client_Address.thy ===== *)
theory Client_Address
  imports Task_Store
begin

text \<open>
  Where a request comes from: \<^verbatim>\<open>gateway/net.ts\<close> and the readers of addresses in \<^verbatim>\<open>shared/net/ip.ts\<close>
  below it.  The address library (\<^verbatim>\<open>ipaddr.js\<close>) and \<^verbatim>\<open>node:net\<close> are the fields of \<open>net_lib\<close>, over a type
  of parsed addresses; a throw of theirs is \<open>None\<close>.  Texts are optional, and \<open>given\<close> is JavaScript's
  truthiness of them.
\<close>

section \<open>The libraries\<close>

record 'a net_lib =
  v4_valid :: "string \<Rightarrow> bool"
  v4_four_part :: "string \<Rightarrow> bool"
  v4_parse :: "string \<Rightarrow> 'a"
  v6_valid :: "string \<Rightarrow> bool"
  v6_parse :: "string \<Rightarrow> 'a"
  ip_v6 :: "'a \<Rightarrow> bool"
  ip_mapped :: "'a \<Rightarrow> bool"
  ip_unmapped :: "'a \<Rightarrow> 'a"
  ip_text :: "'a \<Rightarrow> string"
  ip_range :: "'a \<Rightarrow> string"
  cidr_parse :: "string \<Rightarrow> ('a \<times> nat) option"
  cidr_match :: "'a \<Rightarrow> 'a \<times> nat \<Rightarrow> bool option"
  net_is_ip :: "string \<Rightarrow> nat"
  interfaces :: "(string \<times> string list) list option"

definition given :: "string option \<Rightarrow> string option" where
  "given v = (if v = Some [] then None else v)"

lemma given_simps [simp]: "given None = None" "given (Some []) = None"
  "given (Some (c # s)) = Some (c # s)" "given v = Some s \<longleftrightarrow> v = Some s \<and> s \<noteq> []"
  "s \<noteq> [] \<Longrightarrow> given (Some s) = Some s"
  by (auto simp: given_def)

definition lower_or_empty :: "string option \<Rightarrow> string" where
  "lower_or_empty v = (case map_option to_lower (norm_opt v) of None \<Rightarrow> [] | Some s \<Rightarrow> s)"

section \<open>Addresses\<close>

definition strip_brackets :: "string \<Rightarrow> string" where
  "strip_brackets v =
     (if v \<noteq> [] \<and> hd v = CHR ''['' \<and> last v = CHR '']'' then drop 1 (take (length v - 1) v) else v)"

definition parse_input :: "string option \<Rightarrow> string option" where
  "parse_input raw = map_option strip_brackets (norm_opt raw)"

definition unmap_ip :: "'a net_lib \<Rightarrow> 'a \<Rightarrow> 'a" where
  "unmap_ip lib a = (if \<not> ip_v6 lib a then a else if \<not> ip_mapped lib a then a else ip_unmapped lib a)"

text \<open>\<^verbatim>\<open>parseIpv6WithEmbeddedIpv4\<close>: the regular expression splits at the last colon and the first percent
  sign; its middle part is four non-empty parts joined by dots, whatever they hold.\<close>

fun dot_parts :: "nat \<Rightarrow> string \<Rightarrow> bool" where
  "dot_parts 0 s = (s \<noteq> [])"
| "dot_parts (Suc n) s =
     list_ex (\<lambda>i. 0 < i \<and> s ! i = CHR ''.'' \<and> dot_parts n (drop (Suc i) s)) [0..<length s]"

definition alnum :: "char \<Rightarrow> bool" where
  "alnum c \<longleftrightarrow> is_digit c \<or> (let n = of_char c :: nat in 65 \<le> n \<and> n \<le> 90 \<or> 97 \<le> n \<and> n \<le> 122)"

fun hex_text :: "nat \<Rightarrow> string" where
  "hex_text n = (if n < 16 then [hex_char n] else hex_text (n div 16) @ [hex_char (n mod 16)])"

declare hex_text.simps [simp del]

definition octet :: "string \<Rightarrow> nat" where
  "octet part = (case parse_int part of None \<Rightarrow> 0 | Some i \<Rightarrow> nat i)"

definition parse_embedded :: "'a net_lib \<Rightarrow> string \<Rightarrow> 'a option" where
  "parse_embedded lib raw =
     (if CHR '':'' \<notin> set raw \<or> CHR ''.'' \<notin> set raw then None
      else
        let rest = rev (takeWhile (\<lambda>c. c \<noteq> CHR '':'') (rev raw));
            prefix = take (length raw - length rest) raw;
            v4 = takeWhile (\<lambda>c. c \<noteq> CHR ''%'') rest; zone = drop (length v4) rest in
        if \<not> list_all (\<lambda>c. c \<notin> {CHR 0x0A, CHR 0x0D}) prefix \<or> \<not> dot_parts 3 v4 \<or>
           \<not> (zone = [] \<or> tl zone \<noteq> [] \<and> list_all alnum (tl zone)) then None
        else if \<not> v4_four_part lib v4 then None
        else
          let os = map octet (split_on (CHR ''.'') v4);
              high = or (push_bit 8 (os ! 0)) (os ! 1); low = or (push_bit 8 (os ! 2)) (os ! 3);
              v6 = prefix @ hex_text high @ '':'' @ hex_text low @ zone in
          if v6_valid lib v6 then Some (v6_parse lib v6) else None)"

definition parse_canonical :: "'a net_lib \<Rightarrow> string option \<Rightarrow> 'a option" where
  "parse_canonical lib raw = (case given (parse_input raw) of None \<Rightarrow> None
     | Some v \<Rightarrow>
         if v4_valid lib v then (if \<not> v4_four_part lib v then None else Some (v4_parse lib v))
         else if v6_valid lib v then Some (v6_parse lib v)
         else parse_embedded lib v)"

definition normalize_ip :: "'a net_lib \<Rightarrow> string option \<Rightarrow> string option" where
  "normalize_ip lib raw = (case parse_canonical lib raw of None \<Rightarrow> None
     | Some a \<Rightarrow> Some (lower_or_empty (Some (ip_text lib (unmap_ip lib a)))))"

definition is_loopback :: "'a net_lib \<Rightarrow> string option \<Rightarrow> bool" where
  "is_loopback lib raw = (case parse_canonical lib raw of None \<Rightarrow> False
     | Some a \<Rightarrow> ip_range lib (unmap_ip lib a) = ''loopback'')"

definition ip_in_cidr :: "'a net_lib \<Rightarrow> string \<Rightarrow> string \<Rightarrow> bool" where
  "ip_in_cidr lib ip cidr = (case parse_canonical lib (Some ip) of None \<Rightarrow> False
     | Some a \<Rightarrow>
         let c = trim cidr; x = unmap_ip lib a in
         if c = [] then False
         else if CHR ''/'' \<notin> set c then
           (case parse_canonical lib (Some c) of None \<Rightarrow> False
            | Some b \<Rightarrow> let y = unmap_ip lib b in ip_v6 lib x = ip_v6 lib y \<and> ip_text lib x = ip_text lib y)
         else (case cidr_parse lib c of None \<Rightarrow> False
            | Some (base, bits) \<Rightarrow>
                let y = unmap_ip lib base in
                if ip_v6 lib x \<noteq> ip_v6 lib y then False
                else (case cidr_match lib x (y, bits) of None \<Rightarrow> False | Some b \<Rightarrow> b)))"

definition trusted_proxy :: "'a net_lib \<Rightarrow> string option \<Rightarrow> string list option \<Rightarrow> bool" where
  "trusted_proxy lib ip proxies = (case (given (normalize_ip lib ip), proxies) of
       (Some n, Some ps) \<Rightarrow> ps \<noteq> [] \<and> list_ex (\<lambda>p. trim p \<noteq> [] \<and> ip_in_cidr lib n (trim p)) ps
     | _ \<Rightarrow> False)"

text \<open>\<^verbatim>\<open>resolveLocalInterfaceAddressMatch\<close>: \<open>None\<close> when the interfaces cannot be read.\<close>

definition local_interface :: "'a net_lib \<Rightarrow> string option \<Rightarrow> bool option" where
  "local_interface lib ip = (case given (normalize_ip lib ip) of None \<Rightarrow> Some False
     | Some n \<Rightarrow> (case interfaces lib of None \<Rightarrow> None
         | Some nets \<Rightarrow> Some (list_ex (\<lambda>(_, addrs). list_ex (\<lambda>a. normalize_ip lib (Some a) = Some n) addrs) nets)))"

section \<open>Hosts\<close>

fun strip_dots :: "string \<Rightarrow> string" where
  "strip_dots [] = []"
| "strip_dots (c # s) = (let t = strip_dots s in if c = CHR ''.'' \<and> t = [] then [] else c # t)"

definition parse_host :: "string \<Rightarrow> (bool \<times> string) option" where
  "parse_host host = (if host = [] then None
     else let h = lower_or_empty (Some host) in
       if strip_dots h = ''localhost'' then Some (True, strip_dots h)
       else Some (False, strip_brackets h))"

definition loopback_host :: "'a net_lib \<Rightarrow> string \<Rightarrow> bool" where
  "loopback_host lib host = (case parse_host host of None \<Rightarrow> False
     | Some (localhost, h) \<Rightarrow> localhost \<or> is_loopback lib (Some h))"

definition resolve_host_name :: "'a net_lib \<Rightarrow> string option \<Rightarrow> string" where
  "resolve_host_name lib header = (let h = lower_or_empty header in
     if h = [] then []
     else if hd h = CHR ''['' \<and> CHR '']'' \<in> set h then takeWhile (\<lambda>c. c \<noteq> CHR '']'') (drop 1 h)
     else if net_is_ip lib h = 6 then h
     else takeWhile (\<lambda>c. c \<noteq> CHR '':'') h)"

definition localish_host :: "'a net_lib \<Rightarrow> string option \<Rightarrow> bool" where
  "localish_host lib header = (let h = resolve_host_name lib header in
     h \<noteq> [] \<and> (loopback_host lib h \<or> drop (length h - 7) h = ''.ts.net''))"

section \<open>The client behind a chain of proxies\<close>

definition strip_port :: "'a net_lib \<Rightarrow> string \<Rightarrow> string" where
  "strip_port lib ip =
     (if ip \<noteq> [] \<and> hd ip = CHR ''['' \<and> CHR '']'' \<in> set ip then takeWhile (\<lambda>c. c \<noteq> CHR '']'') (drop 1 ip)
      else if net_is_ip lib ip \<noteq> 0 then ip
      else let v = takeWhile (\<lambda>c. c \<noteq> CHR '':'') ip; rest = dropWhile (\<lambda>c. c \<noteq> CHR '':'') ip in
        if rest \<noteq> [] \<and> CHR ''.'' \<in> set ip \<and> CHR '':'' \<notin> set (tl rest) \<and> net_is_ip lib v = 4 then v else ip)"

definition parse_ip_literal :: "'a net_lib \<Rightarrow> string option \<Rightarrow> string option" where
  "parse_ip_literal lib raw = (case given (map_option trim raw) of None \<Rightarrow> None
     | Some t \<Rightarrow> (case given (normalize_ip lib (Some (strip_port lib t))) of None \<Rightarrow> None
         | Some n \<Rightarrow> if net_is_ip lib n = 0 then None else Some n))"

fun forwarded_chain :: "'a net_lib \<Rightarrow> string list \<Rightarrow> string list" where
  "forwarded_chain lib [] = []"
| "forwarded_chain lib (e # es) = (case parse_ip_literal lib (Some e) of
      Some n \<Rightarrow> n # forwarded_chain lib es | None \<Rightarrow> forwarded_chain lib es)"

text \<open>The walk from right to left over the chain, given here in reverse.\<close>

fun first_untrusted :: "'a net_lib \<Rightarrow> string list option \<Rightarrow> string list \<Rightarrow> string option" where
  "first_untrusted lib proxies [] = None"
| "first_untrusted lib proxies (hop # hops) =
     (if is_loopback lib (Some hop) then first_untrusted lib proxies hops
      else if \<not> trusted_proxy lib (Some hop) proxies then Some hop
      else first_untrusted lib proxies hops)"

definition forwarded_client :: "'a net_lib \<Rightarrow> string option \<Rightarrow> string list option \<Rightarrow> string option" where
  "forwarded_client lib fwd proxies =
     (if proxies = None \<or> proxies = Some [] then None
      else let chain = (case fwd of None \<Rightarrow> [] | Some f \<Rightarrow> forwarded_chain lib (split_on (CHR '','') f)) in
        if chain = [] then None else first_untrusted lib proxies (rev chain))"

record client_params =
  remote_addr :: "string option"
  forwarded_for :: "string option"
  real_ip :: "string option"
  trusted_proxies :: "string list option"
  real_ip_fallback :: bool

definition resolve_client_ip :: "'a net_lib \<Rightarrow> client_params \<Rightarrow> string option" where
  "resolve_client_ip lib p = (case given (normalize_ip lib (remote_addr p)) of None \<Rightarrow> None
     | Some remote \<Rightarrow>
         if \<not> trusted_proxy lib (Some remote) (trusted_proxies p) then Some remote
         else (case given (forwarded_client lib (forwarded_for p) (trusted_proxies p)) of
             Some f \<Rightarrow> Some f
           | None \<Rightarrow> if real_ip_fallback p then parse_ip_literal lib (real_ip p) else None))"

text \<open>A header of Node's \<^verbatim>\<open>IncomingMessage\<close>: a text, or the list of its repetitions.\<close>

datatype header = One string | Many "string list"

record incoming =
  socket_addr :: "string option"
  header_of :: "string \<Rightarrow> header option"

fun header_value :: "header option \<Rightarrow> string option" where
  "header_value None = None"
| "header_value (Some (One s)) = Some s"
| "header_value (Some (Many [])) = None"
| "header_value (Some (Many (s # _))) = Some s"

definition resolve_request_ip ::
  "'a net_lib \<Rightarrow> incoming option \<Rightarrow> string list option \<Rightarrow> bool \<Rightarrow> string option" where
  "resolve_request_ip lib req proxies fallback = (case req of None \<Rightarrow> None
     | Some r \<Rightarrow> resolve_client_ip lib \<lparr>
         remote_addr = Some (case socket_addr r of None \<Rightarrow> [] | Some a \<Rightarrow> a),
         forwarded_for = header_value (header_of r ''x-forwarded-for''),
         real_ip = header_value (header_of r ''x-real-ip''),
         trusted_proxies = proxies, real_ip_fallback = fallback\<rparr>)"

section \<open>What a client cannot forge\<close>

lemma split_on_join: "split_on c (xs @ c # ys) = split_on c xs @ split_on c ys"
  by (induction xs) (auto split: list.split simp: split_on_nonempty)

lemma forwarded_chain_append: "forwarded_chain lib (xs @ ys) = forwarded_chain lib xs @ forwarded_chain lib ys"
  by (induction xs) (auto split: option.split)

lemma first_untrusted_append:
  "first_untrusted lib ps hops = Some h \<Longrightarrow> first_untrusted lib ps (hops @ hops') = Some h"
  by (induction hops) (auto split: if_splits)

lemma first_untrusted_is_client:
  "first_untrusted lib ps hops = Some h \<Longrightarrow> \<not> is_loopback lib (Some h) \<and> \<not> trusted_proxy lib (Some h) ps"
  by (induction hops) (auto split: if_splits)

lemma forwarded_prefix:
  assumes "forwarded_client lib (Some f) ps = Some h"
  shows "forwarded_client lib (Some (junk @ CHR '','' # f)) ps = Some h"
  using assms
  by (auto simp: forwarded_client_def Let_def split_on_join forwarded_chain_append
      split: if_splits intro: first_untrusted_append)

text \<open>C12: a client cannot forge its address: when only the forwarded header is trusted, whatever a client
  writes in front of the entries the proxies append to that header leaves the resolved address as it is, and
  the address is the peer's own or a hop that is neither a loopback address nor a trusted proxy.\<close>

theorem client_address_not_forged:
  assumes "resolve_client_ip lib p = Some h" and "\<not> real_ip_fallback p" and "forwarded_for p = Some f"
  shows "resolve_client_ip lib (p\<lparr>forwarded_for := Some (junk @ CHR '','' # f)\<rparr>) = Some h \<and>
    (normalize_ip lib (remote_addr p) = Some h \<or>
      \<not> is_loopback lib (Some h) \<and> \<not> trusted_proxy lib (Some h) (trusted_proxies p))"
proof -
  consider "normalize_ip lib (remote_addr p) = Some h" "h \<noteq> []" "\<not> trusted_proxy lib (Some h) (trusted_proxies p)"
    | remote where "given (normalize_ip lib (remote_addr p)) = Some remote"
        "trusted_proxy lib (Some remote) (trusted_proxies p)"
        "forwarded_client lib (Some f) (trusted_proxies p) = Some h" "h \<noteq> []"
    using assms by (auto simp: resolve_client_ip_def split: option.splits if_splits)
  then show ?thesis
  proof cases
    case 1
    then show ?thesis by (simp add: resolve_client_ip_def given_def)
  next
    case 2
    then have "\<not> is_loopback lib (Some h) \<and> \<not> trusted_proxy lib (Some h) (trusted_proxies p)"
      by (auto simp: forwarded_client_def Let_def split: if_splits dest: first_untrusted_is_client)
    with 2 forwarded_prefix [OF 2(3)] show ?thesis by (simp add: resolve_client_ip_def given_def)
  qed
qed

section \<open>An instance\<close>

text \<open>Dotted decimal texts only, \<^verbatim>\<open>127.*\<close> being the loopback range.\<close>

definition dotted :: "string \<Rightarrow> bool" where
  "dotted s \<longleftrightarrow> s \<noteq> [] \<and> list_all (List.member ''0123456789.'') s"

definition demo_net :: "string net_lib" where
  "demo_net = \<lparr>v4_valid = dotted, v4_four_part = dotted, v4_parse = (\<lambda>s. s), v6_valid = (\<lambda>_. False),
     v6_parse = (\<lambda>s. s), ip_v6 = (\<lambda>_. False), ip_mapped = (\<lambda>_. False),
     ip_unmapped = (\<lambda>s. s), ip_text = (\<lambda>s. s),
     ip_range = (\<lambda>s. if take 4 s = ''127.'' then ''loopback'' else ''unicast''),
     cidr_parse = (\<lambda>_. None), cidr_match = (\<lambda>_ _. None),
     net_is_ip = (\<lambda>s. if dotted s then 4 else 0), interfaces = Some []\<rparr>"

definition behind_proxy :: client_params where
  "behind_proxy = \<lparr>remote_addr = Some ''10.0.0.1'', forwarded_for = Some ''198.51.100.7, 10.0.0.2'',
     real_ip = None, trusted_proxies = Some [''10.0.0.1'', ''10.0.0.2''], real_ip_fallback = False\<rparr>"

lemma behind_proxy_client: "resolve_client_ip demo_net behind_proxy = Some ''198.51.100.7''"
  by code_simp

lemma client_address_not_forged_witness:
  "resolve_client_ip demo_net (behind_proxy\<lparr>forwarded_for := Some (''127.0.0.1'' @ CHR '','' # ''198.51.100.7, 10.0.0.2'')\<rparr>) =
     Some ''198.51.100.7''"
  using client_address_not_forged [OF behind_proxy_client, of "''198.51.100.7, 10.0.0.2''" "''127.0.0.1''"]
  by (simp add: behind_proxy_def)

end
