(* ===== verification/Insertion_Map.thy ===== *)
theory Insertion_Map
  imports Prelude "HOL-Library.AList" "HOL-Library.While_Combinator"
begin

text \<open>
  The in-memory stores of the gateway's guards: a \<^verbatim>\<open>Map\<close> keeps its keys in insertion order, so it is an
  association list (\<open>AList.update\<close> replaces in place or appends, as \<^verbatim>\<open>Map.set\<close> does), and every entry ages
  with the clock.

  \<open>run_ops\<close> applies operations stamped with the time each reads from the clock.  The locale
  \<open>timed_store\<close> is what makes a statement about entries survive such a run: it holds after every operation
  at the operation's time, and passing time does not break it.  \<open>clock_order\<close> is a clock that does not run
  backwards.
\<close>

section \<open>Runs of timed operations\<close>

fun run_ops :: "(int \<Rightarrow> 'op \<Rightarrow> 's \<Rightarrow> 's) \<Rightarrow> (int \<times> 'op) list \<Rightarrow> 's \<Rightarrow> 's" where
  "run_ops f [] s = s"
| "run_ops f ((now, x) # ops) s = run_ops f ops (f now x s)"

fun clock_order :: "int \<Rightarrow> (int \<times> 'op) list \<Rightarrow> bool" where
  "clock_order t [] = True"
| "clock_order t ((now, x) # ops) = (t \<le> now \<and> clock_order now ops)"

definition final_clock :: "int \<Rightarrow> (int \<times> 'op) list \<Rightarrow> int" where
  "final_clock t ops = (if ops = [] then t else fst (last ops))"

lemma final_clock_simps [simp]:
  "final_clock t [] = t" "final_clock t ((now, x) # ops) = final_clock now ops"
  by (simp_all add: final_clock_def)

lemma run_ops_append: "run_ops f (xs @ ys) s = run_ops f ys (run_ops f xs s)"
  by (induction f xs s rule: run_ops.induct) simp_all

lemma clock_order_append: "clock_order t (xs @ ys) \<longleftrightarrow> clock_order t xs \<and> clock_order (final_clock t xs) ys"
  by (induction t xs rule: clock_order.induct) auto

lemma clock_order_final: "clock_order t ops \<Longrightarrow> t \<le> final_clock t ops"
  by (induction t ops rule: clock_order.induct) auto

locale timed_store =
  fixes operate :: "int \<Rightarrow> 'op \<Rightarrow> 's \<Rightarrow> 's" and ok :: "int \<Rightarrow> 's \<Rightarrow> bool" and allowed :: "'op \<Rightarrow> bool"
  assumes later: "ok t s \<Longrightarrow> t \<le> now \<Longrightarrow> ok now s"
    and operation: "allowed x \<Longrightarrow> ok now s \<Longrightarrow> ok now (operate now x s)"
begin

lemma run_final:
  assumes "ok t s" and "clock_order t ops" and "\<forall>x \<in> snd ` set ops. allowed x"
  shows "ok (final_clock t ops) (run_ops operate ops s)"
  using assms
proof (induction t ops arbitrary: s rule: clock_order.induct)
  case (2 t now x ops)
  have "ok now (operate now x s)"
    using 2 by (intro operation later [of t s now]) auto
  then show ?case using 2 by auto
qed simp

lemma run_later:
  assumes "ok t s" and "clock_order t ops" and "\<forall>x \<in> snd ` set ops. allowed x" and "final_clock t ops \<le> now"
  shows "ok now (run_ops operate ops s)"
  using later run_final assms by blast

end

text \<open>The same for statements that hold until a deadline, whatever the order of the clock before it.\<close>

locale held_until =
  fixes operate :: "int \<Rightarrow> 'op \<Rightarrow> 's \<Rightarrow> 's" and held :: "'s \<Rightarrow> bool" and due :: int and allowed :: "'op \<Rightarrow> bool"
  assumes keeps: "allowed x \<Longrightarrow> now < due \<Longrightarrow> held s \<Longrightarrow> held (operate now x s)"
begin

lemma run_held:
  assumes "held s" and "\<forall>(now, x) \<in> set ops. now < due \<and> allowed x"
  shows "held (run_ops operate ops s)"
  using assms
proof (induction ops arbitrary: s)
  case (Cons o1 ops)
  obtain now x where "o1 = (now, x)" by (cases o1)
  then show ?case using Cons keeps [of x now s] by auto
qed simp

end

section \<open>Maps in insertion order\<close>

lemma distinct_filter_keys: "distinct (map fst xs) \<Longrightarrow> distinct (map fst (filter P xs))"
  by (induction xs) auto

lemma map_of_filter:
  assumes "distinct (map fst xs)"
  shows "map_of (filter (\<lambda>(k, v). P k v) xs) k =
    (case map_of xs k of None \<Rightarrow> None | Some v \<Rightarrow> if P k v then Some v else None)"
  using assms
  by (induction xs) (auto split: option.splits intro!: map_of_eq_None_iff [THEN iffD2])

lemma delete_hd: "distinct (map fst m) \<Longrightarrow> AList.delete (fst (hd m)) m = tl m"
  by (cases m) (auto simp: AList.delete_eq filter_id_conv image_iff)

lemma set_alist_delete: "set (AList.delete k m) = {p \<in> set m. fst p \<noteq> k}"
  by (auto simp: AList.delete_eq)

lemma set_alist_update: "p \<in> set (AList.update k v m) \<Longrightarrow> p = (k, v) \<or> p \<in> set m"
  by (induction m) (auto split: if_splits)

lemma length_alist_update:
  "length (AList.update k v m) = (if k \<in> fst ` set m then length m else Suc (length m))"
  by (induction m) auto

end
