(* ===== verification/Auth_Rate_Limit.thy ===== *)
theory Auth_Rate_Limit
  imports Client_Address Insertion_Map
begin

text \<open>
  The limiter of failed authentication attempts, \<^verbatim>\<open>gateway/auth-rate-limit.ts\<close>: per scope and client
  address the times of recent failures and, once there are too many, a lockout.  The state of
  \<^verbatim>\<open>createAuthRateLimiter\<close> is its map \<open>entries\<close>; every function reads the clock once (\<open>now\<close>).
  \<open>limiter_op\<close> is any call of the interface, the periodic \<^verbatim>\<open>prune\<close> included.
\<close>

section \<open>State\<close>

record limit_config =
  max_attempts :: int
  window_ms :: int
  lockout_ms :: int
  exempt_loopback :: bool
  prune_interval_ms :: int

record limit_options =
  o_max_attempts :: "int option"
  o_window_ms :: "int option"
  o_lockout_ms :: "int option"
  o_exempt_loopback :: "bool option"
  o_prune_interval_ms :: "int option"

definition or_default :: "'a option \<Rightarrow> 'a \<Rightarrow> 'a" where
  "or_default v d = (case v of None \<Rightarrow> d | Some x \<Rightarrow> x)"

definition limiter_config :: "limit_options option \<Rightarrow> limit_config" where
  "limiter_config opts = (case opts of
       None \<Rightarrow> \<lparr>max_attempts = 10, window_ms = 60000, lockout_ms = 300000, exempt_loopback = True,
         prune_interval_ms = 60000\<rparr>
     | Some c \<Rightarrow> \<lparr>max_attempts = or_default (o_max_attempts c) 10, window_ms = or_default (o_window_ms c) 60000,
         lockout_ms = or_default (o_lockout_ms c) 300000, exempt_loopback = or_default (o_exempt_loopback c) True,
         prune_interval_ms = or_default (o_prune_interval_ms c) 60000\<rparr>)"

record limit_entry =
  attempts :: "int list"
  locked_until :: "int option"

type_synonym limiter = "(string \<times> limit_entry) list"

record limit_result =
  allowed :: bool
  remaining :: int
  retry_after :: int

section \<open>Keys\<close>

definition scope_default :: string where
  "scope_default = ''default''"

definition browser_origin_prefix :: string where
  "browser_origin_prefix = ''browser-origin:''"

definition rate_limit_client_ip :: "'a net_lib \<Rightarrow> string option \<Rightarrow> string" where
  "rate_limit_client_ip lib ip = (case ip of
       Some s \<Rightarrow> if take (length browser_origin_prefix) s = browser_origin_prefix then s
         else or_default (resolve_client_ip lib \<lparr>remote_addr = Some s, forwarded_for = None, real_ip = None,
           trusted_proxies = None, real_ip_fallback = False\<rparr>) ''unknown''
     | None \<Rightarrow> or_default (resolve_client_ip lib \<lparr>remote_addr = None, forwarded_for = None, real_ip = None,
           trusted_proxies = None, real_ip_fallback = False\<rparr>) ''unknown'')"

definition normalize_scope :: "string option \<Rightarrow> string" where
  "normalize_scope scope = (let s = trim (or_default scope scope_default) in if s = [] then scope_default else s)"

definition resolve_key :: "'a net_lib \<Rightarrow> string option \<Rightarrow> string option \<Rightarrow> string \<times> string" where
  "resolve_key lib raw_ip raw_scope = (let ip = rate_limit_client_ip lib raw_ip in
     (normalize_scope raw_scope @ '':'' @ ip, ip))"

definition is_exempt :: "'a net_lib \<Rightarrow> limit_config \<Rightarrow> string \<Rightarrow> bool" where
  "is_exempt lib c ip \<longleftrightarrow> exempt_loopback c \<and> is_loopback lib (Some ip)"

section \<open>Operations\<close>

text \<open>\<^verbatim>\<open>entry.lockedUntil && now < entry.lockedUntil\<close>, where a zero counts as no lockout.\<close>

definition lock_time :: "limit_entry \<Rightarrow> int option" where
  "lock_time e = (if locked_until e = Some 0 then None else locked_until e)"

definition is_locked :: "int \<Rightarrow> limit_entry \<Rightarrow> bool" where
  "is_locked now e = (case lock_time e of None \<Rightarrow> False | Some l \<Rightarrow> now < l)"

definition slide_window :: "limit_config \<Rightarrow> int \<Rightarrow> limit_entry \<Rightarrow> limit_entry" where
  "slide_window c now e = e\<lparr>attempts := filter (\<lambda>t. t > now - window_ms c) (attempts e)\<rparr>"

definition clear_expired :: "int \<Rightarrow> limit_entry \<Rightarrow> limit_entry" where
  "clear_expired now e = (case lock_time e of
       Some l \<Rightarrow> if now \<ge> l then e\<lparr>attempts := [], locked_until := None\<rparr> else e
     | None \<Rightarrow> e)"

definition limiter_check ::
  "'a net_lib \<Rightarrow> limit_config \<Rightarrow> string option \<Rightarrow> string option \<Rightarrow> int \<Rightarrow> limiter \<Rightarrow> limit_result \<times> limiter" where
  "limiter_check lib c raw_ip raw_scope now es =
     (let (key, ip) = resolve_key lib raw_ip raw_scope;
          free = \<lparr>allowed = True, remaining = max_attempts c, retry_after = 0\<rparr> in
      if is_exempt lib c ip then (free, es)
      else (case map_of es key of
          None \<Rightarrow> (free, es)
        | Some e \<Rightarrow>
            if is_locked now e
            then (\<lparr>allowed = False, remaining = 0, retry_after = the (lock_time e) - now\<rparr>, es)
            else let e1 = slide_window c now (clear_expired now e);
                   r = max 0 (max_attempts c - int (length (attempts e1))) in
              (\<lparr>allowed = r > 0, remaining = r, retry_after = 0\<rparr>, AList.update key e1 es)))"

definition record_failure ::
  "'a net_lib \<Rightarrow> limit_config \<Rightarrow> string option \<Rightarrow> string option \<Rightarrow> int \<Rightarrow> limiter \<Rightarrow> limiter" where
  "record_failure lib c raw_ip raw_scope now es =
     (let (key, ip) = resolve_key lib raw_ip raw_scope in
      if is_exempt lib c ip then es
      else let e = or_default (map_of es key) \<lparr>attempts = [], locked_until = None\<rparr> in
        if is_locked now e then es
        else let e1 = slide_window c now e;
               e2 = e1\<lparr>attempts := attempts e1 @ [now]\<rparr>;
               e3 = (if int (length (attempts e2)) \<ge> max_attempts c
                     then e2\<lparr>locked_until := Some (now + lockout_ms c)\<rparr> else e2) in
          AList.update key e3 es)"

definition limiter_reset :: "'a net_lib \<Rightarrow> string option \<Rightarrow> string option \<Rightarrow> limiter \<Rightarrow> limiter" where
  "limiter_reset lib raw_ip raw_scope es = AList.delete (fst (resolve_key lib raw_ip raw_scope)) es"

fun limiter_prune :: "limit_config \<Rightarrow> int \<Rightarrow> limiter \<Rightarrow> limiter" where
  "limiter_prune c now [] = []"
| "limiter_prune c now ((key, e) # es) =
     (if is_locked now e then (key, e) # limiter_prune c now es
      else let e1 = slide_window c now e in
        if attempts e1 = [] then limiter_prune c now es else (key, e1) # limiter_prune c now es)"

datatype limiter_op =
    Check "string option" "string option"
  | RecordFailure "string option" "string option"
  | ResetClient "string option" "string option"
  | Prune
  | Dispose

fun limiter_do :: "'a net_lib \<Rightarrow> limit_config \<Rightarrow> int \<Rightarrow> limiter_op \<Rightarrow> limiter \<Rightarrow> limiter" where
  "limiter_do lib c now (Check ip sc) es = snd (limiter_check lib c ip sc now es)"
| "limiter_do lib c now (RecordFailure ip sc) es = record_failure lib c ip sc now es"
| "limiter_do lib c now (ResetClient ip sc) es = limiter_reset lib ip sc es"
| "limiter_do lib c now Prune es = limiter_prune c now es"
| "limiter_do lib c now Dispose es = []"

section \<open>Entries\<close>

abbreviation entry_key :: "'a net_lib \<Rightarrow> string option \<Rightarrow> string option \<Rightarrow> string" where
  "entry_key lib ip sc \<equiv> fst (resolve_key lib ip sc)"

abbreviation exempt_client :: "'a net_lib \<Rightarrow> limit_config \<Rightarrow> string option \<Rightarrow> bool" where
  "exempt_client lib c ip \<equiv> is_exempt lib c (rate_limit_client_ip lib ip)"

lemma snd_resolve_key [simp]: "snd (resolve_key lib ip sc) = rate_limit_client_ip lib ip"
  by (simp add: resolve_key_def Let_def)

lemma slide_slide [simp]:
  assumes "t \<le> now"
  shows "slide_window c now (slide_window c t e) = slide_window c now e"
proof -
  have "(\<lambda>x. t - window_ms c < x \<and> now - window_ms c < x) = (\<lambda>x. now - window_ms c < x)"
    using assms by auto
  then show ?thesis by (simp add: slide_window_def)
qed

lemma slide_lock [simp]: "lock_time (slide_window c now e) = lock_time e"
  "is_locked t (slide_window c now e) = is_locked t e"
  by (simp_all add: slide_window_def lock_time_def is_locked_def)

lemma attempts_slide: "attempts (slide_window c now e) = filter (\<lambda>t. t > now - window_ms c) (attempts e)"
  by (simp add: slide_window_def)

lemma check_cases:
  "limiter_check lib c ip sc now es =
    (if exempt_client lib c ip \<or> map_of es (entry_key lib ip sc) = None
     then (\<lparr>allowed = True, remaining = max_attempts c, retry_after = 0\<rparr>, es)
     else let e = the (map_of es (entry_key lib ip sc)) in
       if is_locked now e then (\<lparr>allowed = False, remaining = 0, retry_after = the (lock_time e) - now\<rparr>, es)
       else let e1 = slide_window c now (clear_expired now e);
              r = max 0 (max_attempts c - int (length (attempts e1))) in
         (\<lparr>allowed = r > 0, remaining = r, retry_after = 0\<rparr>, AList.update (entry_key lib ip sc) e1 es))"
  by (auto simp: limiter_check_def Let_def split: prod.split option.split)
     (simp_all add: resolve_key_def Let_def)

lemma record_cases:
  "record_failure lib c ip sc now es =
    (let e = or_default (map_of es (entry_key lib ip sc)) \<lparr>attempts = [], locked_until = None\<rparr> in
     if exempt_client lib c ip \<or> is_locked now e then es
     else let e1 = slide_window c now e; e2 = e1\<lparr>attempts := attempts e1 @ [now]\<rparr> in
       AList.update (entry_key lib ip sc)
         (if int (length (attempts e2)) \<ge> max_attempts c then e2\<lparr>locked_until := Some (now + lockout_ms c)\<rparr> else e2) es)"
  by (auto simp: record_failure_def Let_def resolve_key_def)

section \<open>Lockouts\<close>

text \<open>Whether an operation clears an entry by intent.\<close>

definition spares :: "'a net_lib \<Rightarrow> string \<Rightarrow> limiter_op \<Rightarrow> bool" where
  "spares lib key x = (case x of ResetClient ip sc \<Rightarrow> entry_key lib ip sc \<noteq> key | Dispose \<Rightarrow> False | _ \<Rightarrow> True)"

definition locked_key :: "string \<Rightarrow> int \<Rightarrow> limiter \<Rightarrow> bool" where
  "locked_key key due es \<longleftrightarrow> (\<exists>e. map_of es key = Some e \<and> lock_time e = Some due)"

lemma locked_is_locked: "lock_time e = Some due \<Longrightarrow> now < due \<Longrightarrow> is_locked now e"
  by (simp add: is_locked_def)

lemma check_other: "entry_key lib ip sc \<noteq> key \<Longrightarrow> map_of (snd (limiter_check lib c ip sc now es)) key = map_of es key"
  by (simp add: check_cases Let_def update_conv')

lemma record_other: "entry_key lib ip sc \<noteq> key \<Longrightarrow> map_of (record_failure lib c ip sc now es) key = map_of es key"
  by (simp add: record_cases Let_def update_conv')

lemma prune_locked:
  "map_of es key = Some e \<Longrightarrow> is_locked now e \<Longrightarrow> map_of (limiter_prune c now es) key = Some e"
  by (induction c now es rule: limiter_prune.induct) (auto simp: Let_def split: if_splits)

interpretation lockout: held_until "limiter_do lib c" "locked_key key due" due "spares lib key" for lib c key due
proof
  fix x now s
  assume x: "spares lib key x" "now < due" "locked_key key due s"
  then obtain e where e: "map_of s key = Some e" "lock_time e = Some due" by (auto simp: locked_key_def)
  then have l: "is_locked now e" using x(2) by (simp add: is_locked_def)
  have "map_of (limiter_do lib c now x s) key = Some e"
  proof (cases x)
    case (Check ip sc)
    then show ?thesis
      by (cases "entry_key lib ip sc = key") (use e l in \<open>simp_all add: check_other\<close>, simp add: check_cases Let_def)
  next
    case (RecordFailure ip sc)
    then show ?thesis
      by (cases "entry_key lib ip sc = key")
        (use e l in \<open>simp_all add: record_other\<close>, simp add: record_cases Let_def or_default_def)
  next
    case (ResetClient ip sc)
    then show ?thesis using x(1) e by (simp add: spares_def limiter_reset_def)
  qed (use e l x(1) in \<open>auto simp: spares_def prune_locked\<close>)
  then show "locked_key key due (limiter_do lib c now x s)" using e(2) by (auto simp: locked_key_def)
qed

lemma refused_is_locked:
  assumes "retry_after (fst (limiter_check lib c ip sc t es)) \<noteq> 0"
  shows "\<not> exempt_client lib c ip" and "locked_key (entry_key lib ip sc) (t + retry_after (fst (limiter_check lib c ip sc t es))) es"
proof -
  have *: "\<not> exempt_client lib c ip \<and> (\<exists>e. map_of es (entry_key lib ip sc) = Some e \<and> is_locked t e \<and>
      retry_after (fst (limiter_check lib c ip sc t es)) = the (lock_time e) - t)"
    using assms by (auto simp: check_cases Let_def split: if_splits)
  then show "\<not> exempt_client lib c ip" by simp
  show "locked_key (entry_key lib ip sc) (t + retry_after (fst (limiter_check lib c ip sc t es))) es"
    using * by (auto simp: locked_key_def is_locked_def split: option.splits)
qed

lemma check_locked_key:
  assumes "locked_key (entry_key lib ip sc) due es" and "\<not> exempt_client lib c ip"
  shows "fst (limiter_check lib c ip sc now es) =
    (if now < due then \<lparr>allowed = False, remaining = 0, retry_after = due - now\<rparr>
     else \<lparr>allowed = max_attempts c > 0, remaining = max 0 (max_attempts c), retry_after = 0\<rparr>)"
  using assms
  by (auto simp: locked_key_def check_cases Let_def is_locked_def clear_expired_def slide_window_def)

text \<open>C11: a lockout lasts exactly as announced: once a check has refused a client for some milliseconds,
  every check before that time is over is refused with the time then left, and the first one after it is
  granted the full budget, whatever other calls and prunes happen in between, short of a reset of that
  client or the disposal of the limiter.\<close>

theorem lockout_lasts_as_announced:
  assumes "retry_after (fst (limiter_check lib c ip sc t es)) = r" and "r \<noteq> 0"
    and "\<forall>(now, x) \<in> set ops. now < t + r \<and> spares lib (entry_key lib ip sc) x"
  shows "fst (limiter_check lib c ip sc now (run_ops (limiter_do lib c) ops es)) =
    (if now < t + r then \<lparr>allowed = False, remaining = 0, retry_after = t + r - now\<rparr>
     else \<lparr>allowed = max_attempts c > 0, remaining = max 0 (max_attempts c), retry_after = 0\<rparr>)"
proof (rule check_locked_key)
  show "locked_key (entry_key lib ip sc) (t + r) (run_ops (limiter_do lib c) ops es)"
    using refused_is_locked(2) [of lib c ip sc t es] assms by (intro lockout.run_held) auto
  show "\<not> exempt_client lib c ip" using refused_is_locked(1) [of lib c ip sc t es] assms by simp
qed

section \<open>Pruning\<close>

lemma prune_keys: "fst ` set (limiter_prune c now es) \<subseteq> fst ` set es"
  by (induction c now es rule: limiter_prune.induct) (auto simp: Let_def)

lemma prune_distinct: "distinct (map fst es) \<Longrightarrow> distinct (map fst (limiter_prune c now es))"
  by (induction c now es rule: limiter_prune.induct) (use prune_keys in \<open>auto simp: Let_def image_iff, fastforce+\<close>)

lemma limiter_distinct: "distinct (map fst es) \<Longrightarrow> distinct (map fst (limiter_do lib c now x es))"
  by (cases x)
    (simp_all add: check_cases record_cases limiter_reset_def Let_def distinct_update AList.distinct_delete prune_distinct)

lemma prune_none: "key \<notin> fst ` set es \<Longrightarrow> map_of (limiter_prune c now es) key = None"
  using prune_keys [of c now es] by (auto simp: map_of_eq_None_iff)

lemma prune_map_of:
  assumes "distinct (map fst es)"
  shows "map_of (limiter_prune c now es) key = (case map_of es key of None \<Rightarrow> None
    | Some e \<Rightarrow> if is_locked now e then Some e
        else if attempts (slide_window c now e) = [] then None else Some (slide_window c now e))"
  using assms
  by (induction c now es rule: limiter_prune.induct) (auto simp: Let_def prune_none)

lemma slide_empty_later:
  "attempts (slide_window c t e) = [] \<Longrightarrow> t \<le> now \<Longrightarrow> attempts (slide_window c now e) = []"
  by (auto simp: slide_window_def filter_empty_conv)

lemma clear_slide:
  "attempts (slide_window c now (clear_expired now (slide_window c t e))) =
     (if t \<le> now then attempts (slide_window c now (clear_expired now e))
      else attempts (slide_window c now (clear_expired now (slide_window c t e))))"
  by (simp add: clear_expired_def split: option.split) (simp add: slide_window_def)

text \<open>Pruning is invisible to clients: whatever the map holds, a check is answered the same whether or
  not the limiter was pruned at some earlier time.\<close>

lemma prune_is_invisible:
  assumes "distinct (map fst es)" and "1 \<le> max_attempts c" and "t \<le> now"
  shows "fst (limiter_check lib c ip sc now (limiter_prune c t es)) = fst (limiter_check lib c ip sc now es)"
proof (cases "exempt_client lib c ip \<or> map_of es (entry_key lib ip sc) = None")
  case True
  then show ?thesis using prune_map_of [OF assms(1)] by (auto simp: check_cases)
next
  case False
  then obtain e where e: "map_of es (entry_key lib ip sc) = Some e" "\<not> exempt_client lib c ip" by auto
  show ?thesis
  proof (cases "is_locked t e")
    case True
    then show ?thesis using e prune_map_of [OF assms(1), of c t] by (simp add: check_cases Let_def)
  next
    case unlocked: False
    then have "\<not> is_locked now e" using assms(3) by (auto simp: is_locked_def split: option.splits)
    moreover have "attempts (slide_window c now (clear_expired now e)) = []"
      if "attempts (slide_window c t e) = []"
      using slide_empty_later [OF that assms(3)] by (auto simp: clear_expired_def slide_window_def split: option.split)
    ultimately show ?thesis
      using e unlocked prune_map_of [OF assms(1), of c t] assms(2,3)
      by (simp add: check_cases Let_def clear_slide)
  qed
qed

text \<open>Between a lockout's end and the next check a failure is recorded in the old entry, and that check
  forgets it: the client has its full budget again.\<close>

definition two_tries :: limit_config where
  "two_tries = \<lparr>max_attempts = 2, window_ms = 100, lockout_ms = 100, exempt_loopback = True, prune_interval_ms = 0\<rparr>"

lemma two_tries_fields [simp]: "max_attempts two_tries = 2" "window_ms two_tries = 100" "lockout_ms two_tries = 100"
  by (simp_all add: two_tries_def)

lemma demo_client [simp]: "rate_limit_client_ip demo_net (Some ''10.0.0.9'') = ''10.0.0.9''"
    "\<not> is_exempt demo_net two_tries ''10.0.0.9''"
  by code_simp+

lemma demo_key [simp]: "resolve_key demo_net (Some ''10.0.0.9'') None = (''default:10.0.0.9'', ''10.0.0.9'')"
  by code_simp

lemmas limiter_run = limiter_check_def record_failure_def or_default_def is_locked_def lock_time_def slide_window_def
  clear_expired_def

lemma late_failure_forgotten:
  "remaining (fst (limiter_check demo_net two_tries (Some ''10.0.0.9'') None 151
     (run_ops (limiter_do demo_net two_tries)
       (map (\<lambda>t. (t, RecordFailure (Some ''10.0.0.9'') None)) [10, 20, 150]) []))) = 2"
  by (simp add: limiter_run)

lemma late_failure_counts_elsewhere:
  "remaining (fst (limiter_check demo_net two_tries (Some ''10.0.0.9'') None 151
     (run_ops (limiter_do demo_net two_tries)
       [(10, RecordFailure (Some ''10.0.0.9'') None), (20, RecordFailure (Some ''10.0.0.9'') None),
        (149, Prune), (150, RecordFailure (Some ''10.0.0.9'') None)] []))) = 1"
  by (simp add: limiter_run)

definition locked_out :: limiter where
  "locked_out = run_ops (limiter_do demo_net two_tries)
     [(10, RecordFailure (Some ''10.0.0.9'') None), (20, RecordFailure (Some ''10.0.0.9'') None)] []"

lemma lockout_lasts_as_announced_witness:
  "fst (limiter_check demo_net two_tries (Some ''10.0.0.9'') None 100 (run_ops (limiter_do demo_net two_tries)
      [(70, RecordFailure (Some ''10.0.0.9'') None), (90, Prune)] locked_out)) =
    (if (100::int) < 60 + 60 then \<lparr>allowed = False, remaining = 0, retry_after = 60 + 60 - 100\<rparr>
     else \<lparr>allowed = max_attempts two_tries > 0, remaining = max 0 (max_attempts two_tries), retry_after = 0\<rparr>)"
proof (rule lockout_lasts_as_announced)
  show "retry_after (fst (limiter_check demo_net two_tries (Some ''10.0.0.9'') None 60 locked_out)) = 60"
    by (simp add: limiter_run locked_out_def)
qed (simp_all add: spares_def)

end
