(* ===== verification/Gateway_Auth.thy ===== *)
theory Gateway_Auth
  imports Auth_Rate_Limit
begin

text \<open>
  Who may connect to the gateway: \<^verbatim>\<open>gateway/auth.ts\<close> with \<^verbatim>\<open>gateway/origin-check.ts\<close> and
  \<^verbatim>\<open>security/secret-equal.ts\<close>.  \<open>authorize_core\<close> is \<^verbatim>\<open>authorizeGatewayConnectCore\<close>: it reads the limiter
  and leaves it changed.  The WHATWG \<^verbatim>\<open>URL\<close> and the Tailscale \<^verbatim>\<open>whois\<close> lookup are the other fields of
  \<open>auth_lib\<close>; the lookup is awaited with no other request of the same client in between, which is what
  \<^verbatim>\<open>withSerializedRateLimitAttempt\<close> arranges, and only on the Control UI surface.
\<close>

section \<open>Configuration and parameters\<close>

record 'a auth_lib =
  net :: "'a net_lib"
  url_of :: "string \<Rightarrow> (string \<times> string \<times> string) option"
  whois_of :: "string \<Rightarrow> (string option \<times> string option) option"

record proxy_config =
  user_header :: string
  required_headers :: "string list option"
  allow_users :: "string list option"
  allow_loopback :: bool

datatype auth_mode = NoAuth | TokenAuth | PasswordAuth | ProxyAuth

record gateway_auth =
  auth_mode :: auth_mode
  auth_token :: "string option"
  auth_password :: "string option"
  allow_tailscale :: bool
  proxy_auth :: "proxy_config option"

datatype surface = Http_Surface | Control_Ui

record origin_policy =
  request_host :: "string option"
  origin_header :: "string option"
  allowed_origins :: "string list option"
  host_fallback :: bool

record auth_params =
  given_token :: "string option"
  given_password :: "string option"
  incoming_request :: "incoming option"
  proxy_list :: "string list option"
  auth_surface :: "surface option"
  client_ip :: "string option"
  limit_scope :: "string option"
  use_real_ip :: bool
  origin_rules :: "origin_policy option"

record auth_result =
  auth_ok :: bool
  auth_method :: "string option"
  auth_user :: "string option"
  auth_reason :: "string option"
  rate_limited :: bool
  auth_retry :: "int option"

definition granted :: "string \<Rightarrow> string option \<Rightarrow> auth_result" where
  "granted m u = \<lparr>auth_ok = True, auth_method = Some m, auth_user = u, auth_reason = None,
     rate_limited = False, auth_retry = None\<rparr>"

definition denied :: "string \<Rightarrow> auth_result" where
  "denied r = \<lparr>auth_ok = False, auth_method = None, auth_user = None, auth_reason = Some r,
     rate_limited = False, auth_retry = None\<rparr>"

definition limited :: "int \<Rightarrow> auth_result" where
  "limited ms = \<lparr>auth_ok = False, auth_method = None, auth_user = None, auth_reason = Some ''rate_limited'',
     rate_limited = True, auth_retry = Some ms\<rparr>"

lemma result_simps [simp]: "auth_ok (granted m u)" "\<not> auth_ok (denied r)" "\<not> auth_ok (limited ms)"
  "auth_reason (denied r) = Some r" "auth_reason (granted m u) = None" "auth_method (granted m u) = Some m"
  "auth_reason (limited ms) = Some ''rate_limited''" "auth_user (granted m u) = u"
  "auth_method (denied r) = None" "auth_method (limited ms) = None"
  by (simp_all add: granted_def denied_def limited_def)

text \<open>\<^verbatim>\<open>assertGatewayAuthConfigured\<close>; the flag says that the configured password is present but no text.\<close>

datatype config_error = TokenMissing | PasswordReference | PasswordMissing | ProxyMissing | UserHeaderEmpty | TokenWithProxy

definition assert_configured :: "gateway_auth \<Rightarrow> bool \<Rightarrow> config_error + unit" where
  "assert_configured a password_ref =
     (if auth_mode a = TokenAuth \<and> given (auth_token a) = None
      then (if allow_tailscale a then Inr () else Inl TokenMissing)
      else if auth_mode a = PasswordAuth \<and> given (auth_password a) = None
      then (if password_ref then Inl PasswordReference else Inl PasswordMissing)
      else if auth_mode a = ProxyAuth
      then (case proxy_auth a of None \<Rightarrow> Inl ProxyMissing
          | Some p \<Rightarrow> if trim (user_header p) = [] then Inl UserHeaderEmpty
              else if given (auth_token a) \<noteq> None then Inl TokenWithProxy else Inr ())
      else Inr ())"

section \<open>Local and proxied requests\<close>

fun header_truthy :: "header option \<Rightarrow> bool" where
  "header_truthy None = False"
| "header_truthy (Some (One s)) = (s \<noteq> [])"
| "header_truthy (Some (Many _)) = True"

fun header_text :: "header option \<Rightarrow> string option" where
  "header_text (Some (One s)) = Some s"
| "header_text _ = None"

definition forwarded_headers :: "incoming option \<Rightarrow> bool" where
  "forwarded_headers req = (case req of None \<Rightarrow> False
     | Some r \<Rightarrow> list_ex (\<lambda>h. header_truthy (header_of r h))
         [''forwarded'', ''x-forwarded-for'', ''x-forwarded-proto'', ''x-real-ip'', ''x-forwarded-host''])"

definition local_direct :: "'a net_lib \<Rightarrow> incoming option \<Rightarrow> bool" where
  "local_direct lib req = (case req of None \<Rightarrow> False
     | Some r \<Rightarrow> if \<not> forwarded_headers req then is_loopback lib (socket_addr r) else False)"

section \<open>Tailscale\<close>

definition tailscale_client_ip :: "'a net_lib \<Rightarrow> incoming option \<Rightarrow> string option" where
  "tailscale_client_ip lib req = (case req of None \<Rightarrow> None
     | Some r \<Rightarrow> resolve_client_ip lib \<lparr>
         remote_addr = Some (or_default (socket_addr r) []),
         forwarded_for = header_value (header_of r ''x-forwarded-for''), real_ip = None,
         trusted_proxies = Some [''127.0.0.1'', ''::1''], real_ip_fallback = False\<rparr>)"

definition tailscale_user :: "incoming option \<Rightarrow> (string \<times> string) option" where
  "tailscale_user req = (case req of None \<Rightarrow> None
     | Some r \<Rightarrow> (case norm_opt (header_text (header_of r ''tailscale-user-login'')) of None \<Rightarrow> None
         | Some login \<Rightarrow> Some (login, or_default (norm_opt (header_text (header_of r ''tailscale-user-name''))) login)))"

definition tailscale_proxied :: "'a net_lib \<Rightarrow> incoming option \<Rightarrow> bool" where
  "tailscale_proxied lib req = (case req of None \<Rightarrow> False
     | Some r \<Rightarrow> is_loopback lib (socket_addr r) \<and>
         list_all (\<lambda>h. header_truthy (header_of r h)) [''x-forwarded-for'', ''x-forwarded-proto'', ''x-forwarded-host''])"

definition verified_tailscale_user :: "'a auth_lib \<Rightarrow> incoming option \<Rightarrow> string + string" where
  "verified_tailscale_user lib req = (case tailscale_user req of None \<Rightarrow> Inl ''tailscale_user_missing''
     | Some (login, name) \<Rightarrow>
         if \<not> tailscale_proxied (net lib) req then Inl ''tailscale_proxy_missing''
         else (case given (tailscale_client_ip (net lib) req) of None \<Rightarrow> Inl ''tailscale_whois_failed''
             | Some ip \<Rightarrow> (case whois_of lib ip of None \<Rightarrow> Inl ''tailscale_whois_failed''
                 | Some (w, _) \<Rightarrow> (case given w of None \<Rightarrow> Inl ''tailscale_whois_failed''
                     | Some who \<Rightarrow>
                         if lower_or_empty (Some who) \<noteq> lower_or_empty (Some login) then Inl ''tailscale_user_mismatch''
                         else Inr who))))"

section \<open>Trusted proxies\<close>

fun missing_header :: "incoming \<Rightarrow> string list \<Rightarrow> string option" where
  "missing_header r [] = None"
| "missing_header r (h # hs) =
     (case given (header_value (header_of r (lower_or_empty (Some h)))) of None \<Rightarrow> Some h
      | Some v \<Rightarrow> if trim v = [] then Some h else missing_header r hs)"

definition authorize_proxy ::
  "'a net_lib \<Rightarrow> incoming option \<Rightarrow> string list option \<Rightarrow> proxy_config \<Rightarrow> string + string" where
  "authorize_proxy lib req proxies cfg = (case req of None \<Rightarrow> Inl ''trusted_proxy_no_request''
     | Some r \<Rightarrow>
         let remote = socket_addr r; loop = is_loopback lib remote in
         if given remote = None \<or> \<not> trusted_proxy lib remote proxies then Inl ''trusted_proxy_untrusted_source''
         else if loop \<and> \<not> allow_loopback cfg then Inl ''trusted_proxy_loopback_source''
         else if \<not> loop \<and> local_interface lib remote = None
         then Inl ''trusted_proxy_local_interface_check_failed''
         else if \<not> loop \<and> local_interface lib remote = Some True then Inl ''trusted_proxy_local_interface_source''
         else (case missing_header r (or_default (required_headers cfg) []) of
             Some h \<Rightarrow> Inl (''trusted_proxy_missing_header_'' @ h)
           | None \<Rightarrow>
               (case given (header_value (header_of r (lower_or_empty (Some (user_header cfg))))) of
                   None \<Rightarrow> Inl ''trusted_proxy_user_missing''
                 | Some v \<Rightarrow>
                     let user = trim v; users = or_default (allow_users cfg) [] in
                     if user = [] then Inl ''trusted_proxy_user_missing''
                     else if users \<noteq> [] \<and> \<not> List.member users user then Inl ''trusted_proxy_user_not_allowed''
                     else Inr user)))"

section \<open>Browser origins\<close>

definition parse_origin :: "'a auth_lib \<Rightarrow> string option \<Rightarrow> (string \<times> string \<times> string) option" where
  "parse_origin lib raw = (let t = trim (or_default raw []) in
     if t = [] \<or> t = ''null'' then None
     else (case url_of lib t of None \<Rightarrow> None
       | Some (orig, host, name) \<Rightarrow>
           Some (lower_or_empty (Some orig), lower_or_empty (Some host), lower_or_empty (Some name))))"

definition check_browser_origin :: "'a auth_lib \<Rightarrow> origin_policy \<Rightarrow> bool \<Rightarrow> string + string" where
  "check_browser_origin lib p local_client = (case parse_origin lib (origin_header p) of
       None \<Rightarrow> Inl ''origin missing or invalid''
     | Some (orig, host, name) \<Rightarrow>
         let allowlist = filter (\<lambda>s. s \<noteq> [])
               (List.map_filter (\<lambda>v. map_option to_lower (norm_opt (Some v))) (or_default (allowed_origins p) []));
             req_host = lower_or_empty (request_host p) in
         if List.member allowlist ''*'' \<or> List.member allowlist orig then Inr ''allowlist''
         else if host_fallback p \<and> req_host \<noteq> [] \<and> host = req_host then Inr ''host-header-fallback''
         else if local_client \<and> loopback_host (net lib) name then Inr ''local-loopback''
         else Inl ''origin not allowed'')"

definition proxy_origin_refused :: "'a auth_lib \<Rightarrow> surface \<Rightarrow> origin_policy option \<Rightarrow> bool" where
  "proxy_origin_refused lib s rules =
     (if s \<noteq> Http_Surface then False
      else case given (map_option trim (Option.bind rules origin_header)) of None \<Rightarrow> False
        | Some orig \<Rightarrow> (case check_browser_origin lib ((the rules)\<lparr>origin_header := Some orig\<rparr>) False of
            Inr _ \<Rightarrow> False | Inl _ \<Rightarrow> True))"

section \<open>Shared secrets\<close>

definition safe_equal_secret :: "string option \<Rightarrow> string option \<Rightarrow> bool" where
  "safe_equal_secret provided expected = (case (provided, expected) of (Some p, Some e) \<Rightarrow> p = e | _ \<Rightarrow> False)"

definition authorize_secret :: "'a net_lib \<Rightarrow> limit_config \<Rightarrow> string \<Rightarrow> string option \<Rightarrow> string option \<Rightarrow>
    string option \<Rightarrow> string \<Rightarrow> int \<Rightarrow> limiter option \<Rightarrow> auth_result \<times> limiter option" where
  "authorize_secret lib c kind configured provided ip scope now es =
     (if given configured = None then (denied (kind @ ''_missing_config''), es)
      else if given provided = None then (denied (kind @ ''_missing''), es)
      else if \<not> safe_equal_secret provided configured
      then (denied (kind @ ''_mismatch''), map_option (record_failure lib c ip (Some scope) now) es)
      else (granted kind None, map_option (limiter_reset lib ip (Some scope)) es))"

definition authorize_token where
  "authorize_token lib c = authorize_secret lib c ''token''"

definition authorize_password where
  "authorize_password lib c = authorize_secret lib c ''password''"

section \<open>Connecting\<close>

definition attempt_ip :: "'a net_lib \<Rightarrow> auth_params \<Rightarrow> string option" where
  "attempt_ip lib p = (case client_ip p of Some ip \<Rightarrow> Some ip
     | None \<Rightarrow> (case resolve_request_ip lib (incoming_request p) (proxy_list p) (use_real_ip p) of Some ip \<Rightarrow> Some ip
         | None \<Rightarrow> Option.bind (incoming_request p) socket_addr))"

definition attempt_scope :: "auth_params \<Rightarrow> string" where
  "attempt_scope p = or_default (limit_scope p) ''shared-secret''"

definition explicit_secret :: "auth_params \<Rightarrow> bool" where
  "explicit_secret p \<longleftrightarrow> norm_opt (given_token p) \<noteq> None \<or> norm_opt (given_password p) \<noteq> None"

definition authorize_core :: "'a auth_lib \<Rightarrow> limit_config \<Rightarrow> gateway_auth \<Rightarrow> auth_params \<Rightarrow> int \<Rightarrow>
    limiter option \<Rightarrow> auth_result \<times> limiter option" where
  "authorize_core lib c a p now es =
     (let s = or_default (auth_surface p) Http_Surface; ip = attempt_ip (net lib) p; scope = attempt_scope p in
      if auth_mode a = ProxyAuth then
        ((case proxy_auth a of None \<Rightarrow> denied ''trusted_proxy_config_missing''
          | Some cfg \<Rightarrow>
              if proxy_list p = None \<or> proxy_list p = Some [] then denied ''trusted_proxy_no_proxies_configured''
              else (case authorize_proxy (net lib) (incoming_request p) (proxy_list p) cfg of
                  Inr user \<Rightarrow> if proxy_origin_refused lib s (origin_rules p)
                    then denied ''trusted_proxy_origin_not_allowed'' else granted ''trusted-proxy'' (Some user)
                | Inl reason \<Rightarrow> denied reason)), es)
      else if auth_mode a = NoAuth then (granted ''none'' None, es)
      else
        let chk = map_option (limiter_check (net lib) c ip (Some scope) now) es; es1 = map_option snd chk in
        if \<not> (case chk of None \<Rightarrow> True | Some (r, _) \<Rightarrow> allowed r) then (limited (retry_after (fst (the chk))), es1)
        else case (if s = Control_Ui \<and> allow_tailscale a \<and> \<not> local_direct (net lib) (incoming_request p) \<and>
                     \<not> explicit_secret p
                   then verified_tailscale_user lib (incoming_request p) else Inl []) of
            Inr who \<Rightarrow> (granted ''tailscale'' (Some who), map_option (limiter_reset (net lib) ip (Some scope)) es1)
          | Inl _ \<Rightarrow>
              if auth_mode a = TokenAuth
              then authorize_token (net lib) c (auth_token a) (given_token p) ip scope now es1
              else authorize_password (net lib) c (auth_password a) (given_password p) ip scope now es1)"

definition authorize_http :: "'a auth_lib \<Rightarrow> limit_config \<Rightarrow> gateway_auth \<Rightarrow> auth_params \<Rightarrow> int \<Rightarrow>
    limiter option \<Rightarrow> auth_result \<times> limiter option" where
  "authorize_http lib c a p = authorize_core lib c a (p\<lparr>auth_surface := Some Http_Surface\<rparr>)"

definition authorize_control_ui :: "'a auth_lib \<Rightarrow> limit_config \<Rightarrow> gateway_auth \<Rightarrow> auth_params \<Rightarrow> int \<Rightarrow>
    limiter option \<Rightarrow> auth_result \<times> limiter option" where
  "authorize_control_ui lib c a p = authorize_core lib c a (p\<lparr>auth_surface := Some Control_Ui\<rparr>)"

section \<open>Who gets in\<close>

text \<open>The identity a trusted proxy vouches for.\<close>

definition proxied_user :: "'a net_lib \<Rightarrow> auth_params \<Rightarrow> proxy_config \<Rightarrow> string \<Rightarrow> bool" where
  "proxied_user lib p cfg user \<longleftrightarrow> (\<exists>r addr v.
     incoming_request p = Some r \<and> socket_addr r = Some addr \<and> trusted_proxy lib (Some addr) (proxy_list p) \<and>
     (is_loopback lib (Some addr) \<longrightarrow> allow_loopback cfg) \<and>
     header_value (header_of r (lower_or_empty (Some (user_header cfg)))) = Some v \<and> user = trim v \<and> user \<noteq> [] \<and>
     (allow_users cfg = None \<or> allow_users cfg = Some [] \<or> user \<in> set (the (allow_users cfg))))"

lemma authorize_proxy_user:
  "authorize_proxy lib (incoming_request p) ps cfg = Inr user \<Longrightarrow> proxy_list p = ps \<Longrightarrow> proxied_user lib p cfg user"
  by (auto simp: authorize_proxy_def proxied_user_def or_default_def Let_def split: option.splits if_splits)

lemma authorize_secret_ok:
  "auth_ok (fst (authorize_secret lib c kind configured provided ip scope now es)) \<longleftrightarrow>
     (\<exists>s. s \<noteq> [] \<and> configured = Some s \<and> provided = Some s)"
  by (cases configured; cases provided) (auto simp: authorize_secret_def safe_equal_secret_def given_def)

text \<open>C9: a connection is only granted in one of these ways: authentication is switched off; the presented
  token or password is the configured one, which is not empty; Tailscale vouches, on the Control UI surface
  only, for a request that is not a direct local one and presents no secret; or the configured trusted proxy
  names a user, who is on the list of allowed users if there is one.\<close>

theorem only_credentials_admit:
  assumes "auth_ok (fst (authorize_core lib c a p now es))"
  shows "case auth_mode a of
      NoAuth \<Rightarrow> True
    | TokenAuth \<Rightarrow> (\<exists>s. s \<noteq> [] \<and> auth_token a = Some s \<and> given_token p = Some s) \<or>
        auth_surface p = Some Control_Ui \<and> allow_tailscale a \<and> \<not> explicit_secret p \<and>
        \<not> local_direct (net lib) (incoming_request p) \<and> (\<exists>who. verified_tailscale_user lib (incoming_request p) = Inr who)
    | PasswordAuth \<Rightarrow> (\<exists>s. s \<noteq> [] \<and> auth_password a = Some s \<and> given_password p = Some s) \<or>
        auth_surface p = Some Control_Ui \<and> allow_tailscale a \<and> \<not> explicit_secret p \<and>
        \<not> local_direct (net lib) (incoming_request p) \<and> (\<exists>who. verified_tailscale_user lib (incoming_request p) = Inr who)
    | ProxyAuth \<Rightarrow> (\<exists>cfg user. proxy_auth a = Some cfg \<and> proxied_user (net lib) p cfg user \<and>
        auth_user (fst (authorize_core lib c a p now es)) = Some user)"
proof (cases "auth_mode a")
  case ProxyAuth
  then show ?thesis using assms
    by (auto simp: authorize_core_def Let_def split: option.splits if_splits sum.splits dest: authorize_proxy_user)
qed (use assms in \<open>auto simp: authorize_core_def authorize_token_def authorize_password_def Let_def
    or_default_def authorize_secret_ok split: option.splits if_splits sum.splits\<close>)

section \<open>Guessing the secret\<close>

text \<open>The life of a gateway's HTTP surface: connection attempts, each logged with its time, the key its
  client is limited by and its result, and every other use of the limiter.\<close>

datatype gateway_op = Connect auth_params | Limiter limiter_op

type_synonym gateway_log = "(int \<times> string \<times> auth_result) list"

abbreviation attempt_key :: "'a net_lib \<Rightarrow> auth_params \<Rightarrow> string" where
  "attempt_key lib p \<equiv> entry_key lib (attempt_ip lib p) (Some (attempt_scope p))"

fun gateway_do :: "'a auth_lib \<Rightarrow> limit_config \<Rightarrow> gateway_auth \<Rightarrow> int \<Rightarrow> gateway_op \<Rightarrow>
    limiter \<times> gateway_log \<Rightarrow> limiter \<times> gateway_log" where
  "gateway_do lib c a now (Connect p) (es, hist) =
     (case authorize_http lib c a p now (Some es) of
        (r, es') \<Rightarrow> (the es', hist @ [(now, attempt_key (net lib) p, r)]))"
| "gateway_do lib c a now (Limiter x) (es, hist) = (limiter_do (net lib) c now x es, hist)"

text \<open>A guess is an attempt whose secret was compared and found wrong.\<close>

definition is_guess :: "auth_result \<Rightarrow> bool" where
  "is_guess r \<longleftrightarrow> auth_reason r = Some ''token_mismatch'' \<or> auth_reason r = Some ''password_mismatch''"

definition guesses :: "string \<Rightarrow> gateway_log \<Rightarrow> int list" where
  "guesses key hist = map fst (filter (\<lambda>(t, k, r). k = key \<and> is_guess r) hist)"

definition wrong_secret :: "gateway_auth \<Rightarrow> auth_params \<Rightarrow> bool" where
  "wrong_secret a p \<longleftrightarrow>
     (auth_mode a = TokenAuth \<longrightarrow> given_token p \<noteq> auth_token a) \<and>
     (auth_mode a = PasswordAuth \<longrightarrow> given_password p \<noteq> auth_password a)"

text \<open>The client does not know the secret, nobody resets its entry, and only its attempts record failures.\<close>

definition guessing :: "'a auth_lib \<Rightarrow> limit_config \<Rightarrow> gateway_auth \<Rightarrow> string \<Rightarrow> gateway_op \<Rightarrow> bool" where
  "guessing lib c a key x = (case x of
       Connect p \<Rightarrow> attempt_key (net lib) p = key \<longrightarrow>
         wrong_secret a p \<and> \<not> exempt_client (net lib) c (attempt_ip (net lib) p)
     | Limiter (RecordFailure ip sc) \<Rightarrow> entry_key (net lib) ip sc \<noteq> key
     | Limiter y \<Rightarrow> spares (net lib) key y)"

abbreviation key_attempts :: "string \<Rightarrow> limiter \<Rightarrow> int list" where
  "key_attempts key es \<equiv> (case map_of es key of None \<Rightarrow> [] | Some e \<Rightarrow> attempts e)"

definition in_window :: "limit_config \<Rightarrow> int \<Rightarrow> int list \<Rightarrow> int list" where
  "in_window c now ts = filter (\<lambda>t. t > now - window_ms c) ts"

definition budget_ok :: "limit_config \<Rightarrow> string \<Rightarrow> int \<Rightarrow> limiter \<times> gateway_log \<Rightarrow> bool" where
  "budget_ok c key t s \<longleftrightarrow> distinct (map fst (fst s)) \<and>
     in_window c t (guesses key (snd s)) = in_window c t (key_attempts key (fst s)) \<and>
     int (length (key_attempts key (fst s))) \<le> max_attempts c \<and>
     (\<forall>x \<in> set (key_attempts key (fst s)). x \<le> t) \<and>
     (\<forall>e l. map_of (fst s) key = Some e \<longrightarrow> lock_time e = Some l \<longrightarrow> (\<forall>x \<in> set (attempts e). x + lockout_ms c \<le> l))"

lemma in_window_later: "t \<le> now \<Longrightarrow> in_window c now (in_window c t ts) = in_window c now ts"
  by (auto simp: in_window_def intro!: filter_cong)

lemma in_window_append [simp]: "in_window c t (xs @ ys) = in_window c t xs @ in_window c t ys"
  by (simp add: in_window_def)

lemma budget_later:
  assumes "budget_ok c key t s" and "t \<le> now"
  shows "budget_ok c key now s"
proof -
  have "in_window c now (guesses key (snd s)) = in_window c now (key_attempts key (fst s))"
    using assms in_window_later [of t now c] by (metis budget_ok_def)
  then show ?thesis using assms unfolding budget_ok_def by fastforce
qed

lemma budget_cong:
  assumes "budget_ok c key t s" and "distinct (map fst (fst s'))" and "map_of (fst s') key = map_of (fst s) key"
    and "guesses key (snd s') = guesses key (snd s)"
  shows "budget_ok c key t s'"
  using assms by (simp add: budget_ok_def)

lemma budget_entry:
  assumes "budget_ok c key t (es, hist)" and "distinct (map fst es')" and "map_of es' key = Some e'"
    and "in_window c t (attempts e') = in_window c t (key_attempts key es)"
    and "set (attempts e') \<subseteq> set (key_attempts key es)" and "length (attempts e') \<le> length (key_attempts key es)"
    and "\<And>l x. lock_time e' = Some l \<Longrightarrow> x \<in> set (attempts e') \<Longrightarrow> x + lockout_ms c \<le> l"
  shows "budget_ok c key t (es', hist)"
  using assms unfolding budget_ok_def by (auto simp del: of_nat_le_iff)

lemma window_of_slide: "attempts (slide_window c now e) = in_window c now (attempts e)"
  by (simp add: slide_window_def in_window_def)

lemma in_window_subset: "set (in_window c now ts) \<subseteq> set ts" "length (in_window c now ts) \<le> length ts"
  by (auto simp: in_window_def)

lemma budget_slide:
  assumes "budget_ok c key now (es, hist)" and "map_of es key = Some e" and "distinct (map fst es')"
    and "map_of es' key = Some (slide_window c now e)"
  shows "budget_ok c key now (es', hist)"
proof (rule budget_entry [OF assms(1,3,4)])
  show "\<And>l x. lock_time (slide_window c now e) = Some l \<Longrightarrow> x \<in> set (attempts (slide_window c now e)) \<Longrightarrow>
      x + lockout_ms c \<le> l"
    using assms(1,2) by (auto simp: budget_ok_def attempts_slide)
qed (use assms(2) in \<open>simp_all add: window_of_slide in_window_later in_window_subset\<close>)

text \<open>What an expired lockout clears is out of the window.\<close>

lemma expired_out_of_window:
  assumes "budget_ok c key now (es, hist)" and "map_of es key = Some e" and "\<not> is_locked now e"
    and "window_ms c \<le> lockout_ms c" and "lock_time e = Some l"
  shows "in_window c now (attempts e) = []"
  using assms by (fastforce simp: budget_ok_def is_locked_def in_window_def filter_empty_conv)

lemma budget_check:
  assumes "budget_ok c key now (es, hist)" and "window_ms c \<le> lockout_ms c"
  shows "budget_ok c key now (snd (limiter_check lib c ip sc now es), hist)"
proof -
  let ?k = "entry_key lib ip sc" and ?es = "snd (limiter_check lib c ip sc now es)"
  have d: "distinct (map fst ?es)"
    using limiter_distinct [of es lib c now "Check ip sc"] assms(1) by (simp add: budget_ok_def)
  show ?thesis
  proof (cases "?k = key \<and> ?es \<noteq> es")
    case True
    then obtain e where e: "map_of es key = Some e" "\<not> is_locked now e"
      and es: "map_of ?es key = Some (slide_window c now (clear_expired now e))"
      by (auto simp: check_cases Let_def update_conv' split: if_splits)
    show ?thesis
    proof (cases "lock_time e")
      case None
      then show ?thesis using budget_slide [OF assms(1) e(1) d] es by (simp add: clear_expired_def)
    next
      case (Some l)
      then have "attempts (slide_window c now (clear_expired now e)) = []"
        using e(2) by (auto simp: is_locked_def clear_expired_def slide_window_def)
      then show ?thesis using expired_out_of_window [OF assms(1) e assms(2) Some] e(1)
        by (intro budget_entry [OF assms(1) d es]) (simp_all add: in_window_def)
    qed
  next
    case False
    then have "map_of ?es key = map_of es key" using check_other by fastforce
    then show ?thesis using budget_cong [OF assms(1)] d by simp
  qed
qed

lemma budget_prune:
  assumes "budget_ok c key now (es, hist)"
  shows "budget_ok c key now (limiter_prune c now es, hist)"
proof -
  have d0: "distinct (map fst es)" and d: "distinct (map fst (limiter_prune c now es))"
    using assms prune_distinct by (auto simp: budget_ok_def)
  note m = prune_map_of [OF d0, of c now key]
  show ?thesis
  proof (cases "map_of es key")
    case None
    then show ?thesis using budget_cong [OF assms] d m by simp
  next
    case (Some e)
    consider "is_locked now e" | "\<not> is_locked now e" "attempts (slide_window c now e) = []"
      | "\<not> is_locked now e" "attempts (slide_window c now e) \<noteq> []" by blast
    then show ?thesis
    proof cases
      case 1
      then show ?thesis using budget_cong [OF assms] d m Some by simp
    next
      case 2
      then show ?thesis using assms d m Some by (simp add: budget_ok_def window_of_slide) (simp add: in_window_def)
    next
      case 3
      then show ?thesis using budget_slide [OF assms Some d] m Some by simp
    qed
  qed
qed

lemma budget_limiter:
  assumes "budget_ok c key now (es, hist)" and "guessing lib c a key (Limiter x)" and "window_ms c \<le> lockout_ms c"
  shows "budget_ok c key now (limiter_do (net lib) c now x es, hist)"
proof (cases x)
  case (RecordFailure ip sc)
  then show ?thesis using assms limiter_distinct [of es "net lib" c now x] record_other
    by (intro budget_cong [OF assms(1)]) (auto simp: guessing_def budget_ok_def)
next
  case (ResetClient ip sc)
  then show ?thesis using assms limiter_distinct [of es "net lib" c now x]
    by (intro budget_cong [OF assms(1)]) (auto simp: guessing_def spares_def limiter_reset_def budget_ok_def)
qed (use assms in \<open>auto simp: budget_check budget_prune guessing_def spares_def\<close>)

lemma attempt_surface [simp]: "attempt_ip lib (p\<lparr>auth_surface := s\<rparr>) = attempt_ip lib p"
  "attempt_scope (p\<lparr>auth_surface := s\<rparr>) = attempt_scope p"
  by (simp_all add: attempt_ip_def attempt_scope_def split: option.split)

text \<open>The secret an attempt is compared with.\<close>

definition secret_check :: "gateway_auth \<Rightarrow> auth_params \<Rightarrow> string \<times> string option \<times> string option" where
  "secret_check a p = (if auth_mode a = TokenAuth then (''token'', auth_token a, given_token p)
     else (''password'', auth_password a, given_password p))"

lemma authorize_http_secret:
  assumes "auth_mode a = TokenAuth \<or> auth_mode a = PasswordAuth"
  shows "authorize_http lib c a p now (Some es) =
    (let ip = attempt_ip (net lib) p; scope = attempt_scope p; (r, es1) = limiter_check (net lib) c ip (Some scope) now es;
         (kind, configured, provided) = secret_check a p in
     if \<not> allowed r then (limited (retry_after r), Some es1)
     else authorize_secret (net lib) c kind configured provided ip scope now (Some es1))"
  using assms
  by (auto simp: authorize_http_def authorize_core_def authorize_token_def authorize_password_def secret_check_def
      or_default_def Let_def split: prod.split)

lemma denied_no_guess [simp]: "is_guess (denied r) \<longleftrightarrow> r = ''token_mismatch'' \<or> r = ''password_mismatch''"
  "\<not> is_guess (granted m u)" "\<not> is_guess (limited ms)"
  by (auto simp: is_guess_def)

lemma proxy_reason: "authorize_proxy lib req ps cfg = Inl r \<Longrightarrow> \<not> is_guess (denied r)"
  by (auto simp: authorize_proxy_def Let_def split: option.splits if_splits)

lemma authorize_http_open:
  assumes "auth_mode a = NoAuth \<or> auth_mode a = ProxyAuth"
  shows "snd (authorize_http lib c a p now es) = es \<and> \<not> is_guess (fst (authorize_http lib c a p now es))"
  using assms
  by (auto simp: authorize_http_def authorize_core_def simp del: denied_no_guess(1)
      split: option.splits sum.splits if_splits) (blast dest: proxy_reason | simp)+

lemma check_allowed:
  assumes "allowed (fst (limiter_check lib c ip sc now es))" and "\<not> exempt_client lib c ip"
    and "map_of (snd (limiter_check lib c ip sc now es)) (entry_key lib ip sc) = Some e"
  shows "lock_time e = None" and "slide_window c now e = e" and "int (length (attempts e)) < max_attempts c"
proof -
  obtain x where x: "map_of es (entry_key lib ip sc) = Some x"
    using assms(2,3) by (cases "map_of es (entry_key lib ip sc)") (simp_all add: check_cases)
  then have chk: "limiter_check lib c ip sc now es =
      (if is_locked now x then (\<lparr>allowed = False, remaining = 0, retry_after = the (lock_time x) - now\<rparr>, es)
       else let e1 = slide_window c now (clear_expired now x); r = max 0 (max_attempts c - int (length (attempts e1))) in
         (\<lparr>allowed = r > 0, remaining = r, retry_after = 0\<rparr>, AList.update (entry_key lib ip sc) e1 es))"
    using assms(2) by (simp add: check_cases)
  have l: "\<not> is_locked now x" using assms(1) by (cases "is_locked now x") (simp_all add: chk)
  have e: "e = slide_window c now (clear_expired now x)" "int (length (attempts e)) < max_attempts c"
    using assms(1,3) l by (simp_all add: chk Let_def update_conv')
  have "lock_time (clear_expired now x) = None"
    using l by (cases "lock_time x") (simp_all add: clear_expired_def is_locked_def, simp add: lock_time_def)
  then show "lock_time e = None" "slide_window c now e = e" "int (length (attempts e)) < max_attempts c"
    using e by simp_all
qed

lemma guesses_append [simp]: "guesses key (hist @ [(now, k, r)]) =
    guesses key hist @ (if k = key \<and> is_guess r then [now] else [])"
  by (simp add: guesses_def)

lemma budget_record:
  assumes ok: "budget_ok c (entry_key lib ip sc) now (es, hist)" and n: "\<not> exempt_client lib c ip" and "1 \<le> max_attempts c"
    and e: "\<And>e. map_of es (entry_key lib ip sc) = Some e \<Longrightarrow>
      lock_time e = None \<and> slide_window c now e = e \<and> int (length (attempts e)) < max_attempts c"
    and g: "guesses (entry_key lib ip sc) hist' = guesses (entry_key lib ip sc) hist @ [now]"
  shows "budget_ok c (entry_key lib ip sc) now (record_failure lib c ip sc now es, hist')"
proof -
  let ?k = "entry_key lib ip sc"
  define x where "x = or_default (map_of es ?k) \<lparr>attempts = [], locked_until = None\<rparr>"
  have x: "lock_time x = None" "slide_window c now x = x" "int (length (attempts x)) < max_attempts c"
    "attempts x = key_attempts ?k es"
    using e assms(3)
    by (cases "map_of es ?k"; simp add: x_def or_default_def lock_time_def slide_window_def)+
  define y where "y = (let e2 = x\<lparr>attempts := attempts x @ [now]\<rparr> in
    if int (length (attempts e2)) \<ge> max_attempts c then e2\<lparr>locked_until := Some (now + lockout_ms c)\<rparr> else e2)"
  have r: "record_failure lib c ip sc now es = AList.update ?k y es"
    using n x(1,2) by (simp add: record_cases Let_def y_def flip: x_def) (simp add: is_locked_def)
  have y: "attempts y = attempts x @ [now]"
    and l: "\<And>l. lock_time y = Some l \<Longrightarrow> l = now + lockout_ms c"
    using x(1) by (auto simp: y_def Let_def lock_time_def split: if_splits)
  show ?thesis
    using ok x(3,4) g l unfolding r budget_ok_def
    by (auto simp: update_conv' distinct_update y)
qed

lemma budget_connect:
  assumes ok: "budget_ok c key now (es, hist)" and x: "guessing lib c a key (Connect p)"
    and "window_ms c \<le> lockout_ms c" and "1 \<le> max_attempts c"
  shows "budget_ok c key now (gateway_do lib c a now (Connect p) (es, hist))"
proof (cases "auth_mode a = TokenAuth \<or> auth_mode a = PasswordAuth")
  case False
  then have "snd (authorize_http lib c a p now (Some es)) = Some es" "\<not> is_guess (fst (authorize_http lib c a p now (Some es)))"
    using authorize_http_open [of a lib c p now "Some es"] by (metis auth_mode.exhaust)+
  then show ?thesis using ok
    by (auto simp: split_beta budget_ok_def)
next
  case True
  let ?ip = "attempt_ip (net lib) p" and ?sc = "Some (attempt_scope p)"
  let ?chk = "limiter_check (net lib) c ?ip ?sc now es"
  obtain kind configured provided where s: "secret_check a p = (kind, configured, provided)" by (cases "secret_check a p")
  have b: "budget_ok c key now (snd ?chk, hist)" by (rule budget_check [OF ok assms(3)])
  have h: "authorize_http lib c a p now (Some es) =
      (if \<not> allowed (fst ?chk) then (limited (retry_after (fst ?chk)), Some (snd ?chk))
       else authorize_secret (net lib) c kind configured provided ?ip (attempt_scope p) now (Some (snd ?chk)))"
    by (simp add: authorize_http_secret [OF True] s split_beta Let_def)
  show ?thesis
  proof (cases "attempt_key (net lib) p = key")
    case False
    have "map_of (the (snd (authorize_http lib c a p now (Some es)))) key = map_of es key"
      using False
      by (simp add: h authorize_secret_def check_other record_other limiter_reset_def)
    moreover have "distinct (map fst (the (snd (authorize_http lib c a p now (Some es)))))"
      using b limiter_distinct [of "snd ?chk" "net lib" c now "RecordFailure ?ip ?sc"]
        limiter_distinct [of "snd ?chk" "net lib" c now "ResetClient ?ip ?sc"]
      by (simp add: h authorize_secret_def budget_ok_def)
    ultimately show ?thesis using False by (intro budget_cong [OF ok]) (auto simp: split_beta)
  next
    case key: True
    then have w: "wrong_secret a p" "\<not> exempt_client (net lib) c ?ip" using x by (auto simp: guessing_def)
    have "given configured \<noteq> None \<Longrightarrow> given provided \<noteq> None \<Longrightarrow> \<not> safe_equal_secret provided configured"
      using w(1) True s
      by (auto simp: wrong_secret_def secret_check_def safe_equal_secret_def split: if_splits option.splits)
    then consider r where "authorize_http lib c a p now (Some es) = (r, Some (snd ?chk))" "\<not> is_guess r"
      | "authorize_http lib c a p now (Some es) =
           (denied (kind @ ''_mismatch''), Some (record_failure (net lib) c ?ip ?sc now (snd ?chk)))" "allowed (fst ?chk)"
      by (cases "allowed (fst ?chk)"; cases "given configured = None"; cases "given provided = None")
        (use s in \<open>auto simp: h authorize_secret_def secret_check_def split: if_splits\<close>)
    then show ?thesis
    proof cases
      case 1
      then show ?thesis using b by (simp add: budget_ok_def)
    next
      case 2
      have "is_guess (denied (kind @ ''_mismatch''))" using s by (auto simp: secret_check_def split: if_splits)
      then have g: "guesses (attempt_key (net lib) p) (hist @ [(now, attempt_key (net lib) p, denied (kind @ ''_mismatch''))]) =
          guesses (attempt_key (net lib) p) hist @ [now]" by simp
      show ?thesis
        using budget_record [OF b [folded key] w(2) assms(4) _ g] check_allowed [OF 2(2) w(2)] 2(1) key by simp
    qed
  qed
qed

interpretation guess_budget: timed_store "gateway_do lib c a" "budget_ok c key"
    "\<lambda>x. window_ms c \<le> lockout_ms c \<and> 1 \<le> max_attempts c \<and> guessing lib c a key x" for lib c a key
proof
  fix x now s
  assume "window_ms c \<le> lockout_ms c \<and> 1 \<le> max_attempts c \<and> guessing lib c a key x" "budget_ok c key now s"
  then show "budget_ok c key now (gateway_do lib c a now x s)"
    by (cases s; cases x) (auto simp: budget_connect budget_limiter simp del: gateway_do.simps(1))
qed (rule budget_later)

text \<open>C10: the secret cannot be guessed faster than the limiter allows.  Take a configuration with a window no
  longer than the lockout and at least one attempt (the defaults are one minute, five minutes and ten), and a
  run of the HTTP surface in which a client is not exempt (loopback is, by default), never presents the
  secret, and has its entry neither reset nor charged by other callers: in every window its secret was
  compared in at most the configured number of its attempts, whatever the other clients, the checks, the
  prunes and the resets of other clients in between do.\<close>

theorem guesses_bounded:
  assumes "1 \<le> max_attempts c" and "window_ms c \<le> lockout_ms c" and "clock_order t ops"
    and "\<forall>x \<in> snd ` set ops. guessing lib c a key x" and "final_clock t ops \<le> now"
  shows "int (length (in_window c now (guesses key (snd (run_ops (gateway_do lib c a) ops ([], [])))))) \<le> max_attempts c"
proof -
  have "budget_ok c key t ([], [])"
    using assms(1) by (simp add: budget_ok_def guesses_def)
  then have b: "budget_ok c key now (run_ops (gateway_do lib c a) ops ([], []))"
    using assms by (intro guess_budget.run_later) auto
  let ?s = "run_ops (gateway_do lib c a) ops ([], [])"
  have "in_window c now (guesses key (snd ?s)) = in_window c now (key_attempts key (fst ?s))"
    "int (length (key_attempts key (fst ?s))) \<le> max_attempts c"
    using b unfolding budget_ok_def by blast+
  then show ?thesis using in_window_subset(2) [of c now "key_attempts key (fst ?s)"]
    by (metis (no_types, lifting) of_nat_mono order_trans)
qed

section \<open>An instance\<close>

definition demo_auth :: "string auth_lib" where
  "demo_auth = \<lparr>net = demo_net, url_of = (\<lambda>_. None), whois_of = (\<lambda>_. None)\<rparr>"

definition token_gateway :: gateway_auth where
  "token_gateway = \<lparr>auth_mode = TokenAuth, auth_token = Some ''s3cret'', auth_password = None,
     allow_tailscale = False, proxy_auth = None\<rparr>"

definition with_token :: "string \<Rightarrow> auth_params" where
  "with_token s = \<lparr>given_token = Some s, given_password = None, incoming_request = None, proxy_list = None,
     auth_surface = None, client_ip = Some ''10.0.0.9'', limit_scope = None, use_real_ip = False, origin_rules = None\<rparr>"

lemma only_credentials_admit_witness:
  "\<exists>s. s \<noteq> [] \<and> auth_token token_gateway = Some s \<and> given_token (with_token ''s3cret'') = Some s"
proof -
  have "auth_ok (fst (authorize_core demo_auth two_tries token_gateway (with_token ''s3cret'') 10 (Some [])))"
    by code_simp
  from only_credentials_admit [OF this] show ?thesis
    by (simp add: token_gateway_def with_token_def)
qed

definition three_guesses :: "(int \<times> gateway_op) list" where
  "three_guesses = [(10, Connect (with_token ''a'')), (20, Connect (with_token ''b'')), (25, Limiter Prune),
     (30, Connect (with_token ''c''))]"

lemma three_guesses_answers:
  "map (\<lambda>(t, k, r). (t, the (auth_reason r))) (snd (run_ops (gateway_do demo_auth two_tries token_gateway) three_guesses ([], []))) =
    [(10, ''token_mismatch''), (20, ''token_mismatch''), (30, ''rate_limited'')]"
  by code_simp

lemma guesses_bounded_witness:
  "int (length (in_window two_tries 30 (guesses ''shared-secret:10.0.0.9''
     (snd (run_ops (gateway_do demo_auth two_tries token_gateway) three_guesses ([], [])))))) \<le> max_attempts two_tries"
proof (rule guesses_bounded [where t = 0])
  have "\<not> exempt_client demo_net two_tries (Some ''10.0.0.9'')" by code_simp
  then show "\<forall>x \<in> snd ` set three_guesses. guessing demo_auth two_tries token_gateway ''shared-secret:10.0.0.9'' x"
    by (simp add: three_guesses_def guessing_def spares_def wrong_secret_def token_gateway_def with_token_def
        attempt_ip_def demo_auth_def)
qed (simp_all add: two_tries_def three_guesses_def)

end
