(* ===== verification/Exec_Approvals.thy ===== *)
theory Exec_Approvals
  imports Client_Address Insertion_Map
begin

text \<open>
  Approvals of commands: the class \<^verbatim>\<open>ExecApprovalManager\<close> of \<^verbatim>\<open>gateway/exec-approval-manager.ts\<close>.  Its
  state is the map \<open>pending\<close>.  An entry is an object with a promise; \<open>entry_no\<close> is the identity of
  both.  The timers set and not yet fired or cleared are \<open>expiry_timers\<close> and \<open>cleanup_timers\<close>, each with the
  entry and the id its callback was created for; \<open>settlements\<close> are the calls of the promises' resolve
  functions in order (\<open>None\<close> is the null of an expiry) and \<open>consumptions\<close> the entries for which
  \<^verbatim>\<open>consumeAllowOnce\<close> answered true.

  \<open>approval_step\<close> is a call of a method with any arguments or a timer that fires; \<open>approvals_reachable\<close> is
  every state of a manager.
\<close>

section \<open>State\<close>

datatype decision = Allow_Once | Allow_Always | Deny

record 'p approval =
  ap_id :: string
  ap_request :: 'p
  ap_created :: int
  ap_expires :: int
  ap_conn :: "string option"
  ap_device :: "string option"
  ap_client :: "string option"
  ap_token_auth :: "bool option"
  resolved_at :: "int option"
  ap_decision :: "decision option"
  ap_consumed :: "decision option"
  ap_resolved_by :: "string option option"

record 'p approval_entry =
  entry_record :: "'p approval"
  entry_no :: nat

record 'p approvals =
  pending :: "(string \<times> 'p approval_entry) list"
  expiry_timers :: "(nat \<times> string) list"
  cleanup_timers :: "(nat \<times> string) list"
  settlements :: "(nat \<times> decision option) list"
  consumptions :: "nat list"
  next_entry :: nat

definition new_manager :: "'p approvals" where
  "new_manager = \<lparr>pending = [], expiry_timers = [], cleanup_timers = [], settlements = [], consumptions = [],
     next_entry = 0\<rparr>"

section \<open>Methods\<close>

definition create_approval :: "'p \<Rightarrow> int \<Rightarrow> string option \<Rightarrow> string \<Rightarrow> int \<Rightarrow> 'p approval" where
  "create_approval req timeout i uuid now =
     \<lparr>ap_id = (case i of None \<Rightarrow> uuid | Some s \<Rightarrow> if trim s \<noteq> [] then trim s else uuid),
      ap_request = req, ap_created = now, ap_expires = now + timeout,
      ap_conn = None, ap_device = None, ap_client = None, ap_token_auth = None,
      resolved_at = None, ap_decision = None, ap_consumed = None, ap_resolved_by = None\<rparr>"

abbreviation entry_of_id :: "'p approvals \<Rightarrow> string \<Rightarrow> 'p approval_entry option" where
  "entry_of_id m \<equiv> map_of (pending m)"

definition unresolved :: "'p approval_entry \<Rightarrow> bool" where
  "unresolved e \<longleftrightarrow> resolved_at (entry_record e) = None"

text \<open>\<^verbatim>\<open>register\<close> returns the promise of the entry, or throws.\<close>

definition register_approval :: "'p approval \<Rightarrow> 'p approvals \<Rightarrow> (string + nat) \<times> 'p approvals" where
  "register_approval r m = (case entry_of_id m (ap_id r) of
       Some e \<Rightarrow> if unresolved e then (Inr (entry_no e), m)
         else (Inl (''approval id '' @ [CHR 0x27] @ ap_id r @ [CHR 0x27] @ '' already resolved''), m)
     | None \<Rightarrow> (Inr (next_entry m),
         m\<lparr>pending := AList.update (ap_id r) \<lparr>entry_record = r, entry_no = next_entry m\<rparr> (pending m),
           expiry_timers := expiry_timers m @ [(next_entry m, ap_id r)],
           next_entry := Suc (next_entry m)\<rparr>))"

definition drop_timer :: "nat \<Rightarrow> (nat \<times> string) list \<Rightarrow> (nat \<times> string) list" where
  "drop_timer n ts = filter (\<lambda>t. fst t \<noteq> n) ts"

text \<open>The common part of \<^verbatim>\<open>resolve\<close> and \<^verbatim>\<open>expire\<close>: stop the timer, mark the record, settle the promise,
  schedule the removal.\<close>

definition settle :: "int \<Rightarrow> string \<Rightarrow> decision option \<Rightarrow> string option \<Rightarrow> 'p approvals \<Rightarrow> bool \<times> 'p approvals" where
  "settle now i d by_whom m = (case entry_of_id m i of
       None \<Rightarrow> (False, m)
     | Some e \<Rightarrow>
         if \<not> unresolved e then (False, m)
         else (True, m\<lparr>
           expiry_timers := drop_timer (entry_no e) (expiry_timers m),
           pending := AList.update i (e\<lparr>entry_record := (entry_record e)\<lparr>resolved_at := Some now,
             ap_decision := d, ap_resolved_by := Some by_whom\<rparr>\<rparr>) (pending m),
           settlements := settlements m @ [(entry_no e, d)],
           cleanup_timers := cleanup_timers m @ [(entry_no e, i)]\<rparr>))"

definition resolve_approval ::
  "int \<Rightarrow> string \<Rightarrow> decision \<Rightarrow> string option \<Rightarrow> 'p approvals \<Rightarrow> bool \<times> 'p approvals" where
  "resolve_approval now i d by_whom = settle now i (Some d) by_whom"

definition expire_approval :: "int \<Rightarrow> string \<Rightarrow> string option \<Rightarrow> 'p approvals \<Rightarrow> bool \<times> 'p approvals" where
  "expire_approval now i by_whom = settle now i None by_whom"

text \<open>The callbacks of the two timers.\<close>

definition fire_expiry :: "int \<Rightarrow> nat \<Rightarrow> string \<Rightarrow> 'p approvals \<Rightarrow> 'p approvals" where
  "fire_expiry now n i m = snd (expire_approval now i None (m\<lparr>expiry_timers := drop_timer n (expiry_timers m)\<rparr>))"

definition fire_cleanup :: "nat \<Rightarrow> string \<Rightarrow> 'p approvals \<Rightarrow> 'p approvals" where
  "fire_cleanup n i m = (let m1 = m\<lparr>cleanup_timers := remove1 (n, i) (cleanup_timers m)\<rparr> in
     case entry_of_id m i of None \<Rightarrow> m1
     | Some e \<Rightarrow> if entry_no e = n then m1\<lparr>pending := AList.delete i (pending m)\<rparr> else m1)"

definition get_snapshot :: "'p approvals \<Rightarrow> string \<Rightarrow> 'p approval option" where
  "get_snapshot m i = map_option entry_record (entry_of_id m i)"

definition list_pending :: "'p approvals \<Rightarrow> 'p approval list" where
  "list_pending m = filter (\<lambda>r. resolved_at r = None) (map (\<lambda>(_, e). entry_record e) (pending m))"

definition consume_allow_once :: "string \<Rightarrow> 'p approvals \<Rightarrow> bool \<times> 'p approvals" where
  "consume_allow_once i m = (case entry_of_id m i of
       None \<Rightarrow> (False, m)
     | Some e \<Rightarrow>
         if ap_decision (entry_record e) \<noteq> Some Allow_Once then (False, m)
         else (True, m\<lparr>
           pending := AList.update i (e\<lparr>entry_record := (entry_record e)\<lparr>
             ap_consumed := ap_decision (entry_record e), ap_decision := None\<rparr>\<rparr>) (pending m),
           consumptions := consumptions m @ [entry_no e]\<rparr>))"

definition await_decision :: "'p approvals \<Rightarrow> string \<Rightarrow> nat option" where
  "await_decision m i = map_option entry_no (entry_of_id m i)"

section \<open>Lookups\<close>

datatype id_lookup = Exact string | Prefix string | Ambiguous "string list" | Nothing

definition starts_with :: "string \<Rightarrow> string \<Rightarrow> bool" where
  "starts_with p s \<longleftrightarrow> take (length p) s = p"

definition lookup_approval ::
  "bool \<Rightarrow> ('p approval \<Rightarrow> bool) option \<Rightarrow> string \<Rightarrow> 'p approvals \<Rightarrow> id_lookup" where
  "lookup_approval include_resolved flt input m =
     (let normalized = trim input; passes = (\<lambda>r. case flt of None \<Rightarrow> True | Some f \<Rightarrow> f r) in
      if normalized = [] then Nothing
      else case entry_of_id m normalized of
          Some e \<Rightarrow> if (include_resolved \<or> unresolved e) \<and> passes (entry_record e) then Exact normalized else Nothing
        | None \<Rightarrow>
            let matches = map fst (filter (\<lambda>(i, e). (include_resolved \<or> unresolved e) \<and> passes (entry_record e) \<and>
                  starts_with (lower_or_empty (Some normalized)) (lower_or_empty (Some i))) (pending m)) in
            (case matches of [] \<Rightarrow> Nothing | [i] \<Rightarrow> Prefix i | _ \<Rightarrow> Ambiguous matches))"

definition lookup_pending :: "string \<Rightarrow> 'p approvals \<Rightarrow> id_lookup" where
  "lookup_pending = lookup_approval False None"

section \<open>Runs\<close>

definition fresh_record :: "'p approval \<Rightarrow> bool" where
  "fresh_record r \<longleftrightarrow> resolved_at r = None \<and> ap_decision r = None"

inductive approval_step :: "'p approvals \<Rightarrow> 'p approvals \<Rightarrow> bool" where
  register: "fresh_record r \<Longrightarrow> approval_step m (snd (register_approval r m))"
| settle: "approval_step m (snd (settle now i d by_whom m))"
| consume: "approval_step m (snd (consume_allow_once i m))"
| expiry: "(n, i) \<in> set (expiry_timers m) \<Longrightarrow> approval_step m (fire_expiry now n i m)"
| cleanup: "(n, i) \<in> set (cleanup_timers m) \<Longrightarrow> approval_step m (fire_cleanup n i m)"

inductive approvals_reachable :: "'p approvals \<Rightarrow> bool" where
  start: "approvals_reachable new_manager"
| step: "approvals_reachable m \<Longrightarrow> approval_step m m' \<Longrightarrow> approvals_reachable m'"

section \<open>The invariant\<close>

text \<open>Over the map, the timers, the settlements, the consumptions and the number of entries made.\<close>

definition entry_ok :: "(nat \<times> string) set \<Rightarrow> (nat \<times> decision option) list \<Rightarrow> nat list \<Rightarrow> nat \<Rightarrow>
    string \<Rightarrow> 'p approval_entry \<Rightarrow> bool" where
  "entry_ok T S C n i e \<longleftrightarrow> entry_no e < n \<and>
     (unresolved e \<longleftrightarrow> entry_no e \<notin> fst ` set S) \<and> (unresolved e \<longleftrightarrow> (entry_no e, i) \<in> T) \<and>
     (ap_decision (entry_record e) = Some Allow_Once \<longrightarrow>
       (entry_no e, Some Allow_Once) \<in> set S \<and> entry_no e \<notin> set C)"

definition view_ok :: "(string \<Rightarrow> 'p approval_entry option) \<Rightarrow> (nat \<times> string) set \<Rightarrow>
    (nat \<times> decision option) list \<Rightarrow> nat list \<Rightarrow> nat \<Rightarrow> bool" where
  "view_ok P T S C n \<longleftrightarrow>
     (\<forall>i e. P i = Some e \<longrightarrow> entry_ok T S C n i e) \<and>
     (\<forall>i j e f. P i = Some e \<longrightarrow> P j = Some f \<longrightarrow> entry_no e = entry_no f \<longrightarrow> i = j) \<and>
     (\<forall>k i. (k, i) \<in> T \<longrightarrow> (\<exists>e. P i = Some e \<and> entry_no e = k)) \<and>
     (\<forall>k < n. k \<in> fst ` set S \<or> (\<exists>i. (k, i) \<in> T)) \<and>
     distinct (map fst S) \<and> (\<forall>k \<in> fst ` set S. k < n) \<and>
     distinct C \<and> (\<forall>k \<in> set C. (k, Some Allow_Once) \<in> set S)"

definition approvals_ok :: "'p approvals \<Rightarrow> bool" where
  "approvals_ok m \<longleftrightarrow> distinct (map fst (pending m)) \<and>
     view_ok (entry_of_id m) (set (expiry_timers m)) (settlements m) (consumptions m) (next_entry m) \<and>
     fst ` set (cleanup_timers m) \<subseteq> fst ` set (settlements m)"

lemmas view_entry = view_ok_def [THEN iffD1, THEN conjunct1, rule_format]
lemmas view_inj = view_ok_def [THEN iffD1, THEN conjunct2, THEN conjunct1, rule_format]
lemmas view_timer = view_ok_def [THEN iffD1, THEN conjunct2, THEN conjunct2, THEN conjunct1, rule_format]
lemmas view_answered = view_ok_def [THEN iffD1, THEN conjunct2, THEN conjunct2, THEN conjunct2, THEN conjunct1, rule_format]
lemmas view_distinct = view_ok_def [THEN iffD1, THEN conjunct2, THEN conjunct2, THEN conjunct2, THEN conjunct2, THEN conjunct1, rule_format]
lemmas view_settled = view_ok_def [THEN iffD1, THEN conjunct2, THEN conjunct2, THEN conjunct2, THEN conjunct2, THEN conjunct2, THEN conjunct1, rule_format]
lemmas view_once = view_ok_def [THEN iffD1, THEN conjunct2, THEN conjunct2, THEN conjunct2, THEN conjunct2, THEN conjunct2, THEN conjunct2, THEN conjunct1, rule_format]
lemmas view_consumed = view_ok_def [THEN iffD1, THEN conjunct2, THEN conjunct2, THEN conjunct2, THEN conjunct2, THEN conjunct2, THEN conjunct2, THEN conjunct2, rule_format]

lemma view_okI:
  assumes "\<And>i e. P i = Some e \<Longrightarrow> entry_ok T S C n i e"
    and "\<And>i j e f. P i = Some e \<Longrightarrow> P j = Some f \<Longrightarrow> entry_no e = entry_no f \<Longrightarrow> i = j"
    and "\<And>k i. (k, i) \<in> T \<Longrightarrow> \<exists>e. P i = Some e \<and> entry_no e = k"
    and "\<And>k. k < n \<Longrightarrow> k \<notin> fst ` set S \<Longrightarrow> \<exists>i. (k, i) \<in> T"
    and "distinct (map fst S)" and "\<And>k. k \<in> fst ` set S \<Longrightarrow> k < n"
    and "distinct C" and "\<And>k. k \<in> set C \<Longrightarrow> (k, Some Allow_Once) \<in> set S"
  shows "view_ok P T S C n"
  using assms unfolding view_ok_def by blast

text \<open>A map whose entry \<open>i\<close> is replaced by one of the same number.\<close>

lemma view_replace:
  assumes "view_ok P T S C n" and "P i = Some e" and "entry_no e' = entry_no e"
  shows "(P(i \<mapsto> e')) j = Some f \<Longrightarrow> (P(i \<mapsto> e')) k = Some g \<Longrightarrow> entry_no f = entry_no g \<Longrightarrow> j = k"
  using assms view_inj [OF assms(1)] by (metis fun_upd_apply option.inject)

lemma view_register:
  assumes v: "view_ok P T S C n" and i: "P i = None" and e: "entry_no e = n" "unresolved e" "ap_decision (entry_record e) = None"
  shows "view_ok (P(i \<mapsto> e)) (insert (n, i) T) S C (Suc n)"
proof (rule view_okI)
  note small = view_settled [OF v]
  have old: "entry_no f < n" if "P j = Some f" for j f
    using view_entry [OF v that] by (simp add: entry_ok_def)
  show "entry_ok (insert (n, i) T) S C (Suc n) j f" if f: "(P(i \<mapsto> e)) j = Some f" for j f
  proof (cases "j = i")
    case True
    then show ?thesis using f e small by (fastforce simp: entry_ok_def)
  next
    case False
    then have "P j = Some f" using f by simp
    from view_entry [OF v this] False old [OF this] show ?thesis by (auto simp: entry_ok_def)
  qed
  show "j = k" if "(P(i \<mapsto> e)) j = Some f" "(P(i \<mapsto> e)) k = Some g" "entry_no f = entry_no g" for j k f g
    using that e(1) old view_inj [OF v] by (metis fun_upd_apply less_irrefl option.inject)
  show "\<exists>f. (P(i \<mapsto> e)) j = Some f \<and> entry_no f = k" if "(k, j) \<in> insert (n, i) T" for k j
    using that view_timer [OF v] e(1) i by fastforce
  show "\<exists>j. (k, j) \<in> insert (n, i) T" if "k < Suc n" "k \<notin> fst ` set S" for k
    using that view_answered [OF v, of k] by (cases "k = n") auto
  show "k < Suc n" if "k \<in> fst ` set S" for k using small [OF that] by simp
qed (use view_distinct [OF v] view_once [OF v] view_consumed [OF v] in auto)

lemma view_settle:
  assumes v: "view_ok P T S C n" and e: "P i = Some e" "unresolved e"
    and e': "entry_no e' = entry_no e" "\<not> unresolved e'" "ap_decision (entry_record e') = d"
  shows "view_ok (P(i \<mapsto> e')) {t \<in> T. fst t \<noteq> entry_no e} (S @ [(entry_no e, d)]) C n"
proof (rule view_okI)
  have ok: "entry_ok T S C n i e" by (rule view_entry [OF v e(1)])
  have new: "entry_no e \<notin> fst ` set S" "entry_no e < n" using ok e(2) by (auto simp: entry_ok_def)
  have nc: "entry_no e \<notin> set C" using view_consumed [OF v] new(1) by force
  show "entry_ok {t \<in> T. fst t \<noteq> entry_no e} (S @ [(entry_no e, d)]) C n j f"
    if f: "(P(i \<mapsto> e')) j = Some f" for j f
  proof (cases "j = i")
    case True
    then show ?thesis using f e' new nc by (auto simp: entry_ok_def)
  next
    case False
    then have "P j = Some f" "entry_no f \<noteq> entry_no e" using f view_inj [OF v e(1), of j f] by auto
    then show ?thesis using view_entry [OF v, of j f] by (auto simp: entry_ok_def)
  qed
  show "\<exists>f. (P(i \<mapsto> e')) j = Some f \<and> entry_no f = k" if "(k, j) \<in> {t \<in> T. fst t \<noteq> entry_no e}" for k j
    using that view_timer [OF v, of k j] e(1) by auto
  show "\<exists>j. (k, j) \<in> {t \<in> T. fst t \<noteq> entry_no e}" if "k < n" "k \<notin> fst ` set (S @ [(entry_no e, d)])" for k
    using that view_answered [OF v, of k] by auto
  show "distinct (map fst (S @ [(entry_no e, d)]))" using view_distinct [OF v] new(1) by auto
  show "k < n" if "k \<in> fst ` set (S @ [(entry_no e, d)])" for k
    using that view_settled [OF v] new(2) by auto
qed (use view_replace [OF v e(1) e'(1)] view_once [OF v] view_consumed [OF v] in \<open>blast | simp\<close>)+

lemma view_consume:
  assumes v: "view_ok P T S C n" and e: "P i = Some e" "ap_decision (entry_record e) = Some Allow_Once"
    and e': "entry_no e' = entry_no e" "unresolved e' = unresolved e" "ap_decision (entry_record e') = None"
  shows "view_ok (P(i \<mapsto> e')) T S (C @ [entry_no e]) n"
proof (rule view_okI)
  have ok: "entry_ok T S C n i e" by (rule view_entry [OF v e(1)])
  have new: "entry_no e \<notin> set C" "(entry_no e, Some Allow_Once) \<in> set S" using ok e(2) by (auto simp: entry_ok_def)
  show "entry_ok T S (C @ [entry_no e]) n j f" if f: "(P(i \<mapsto> e')) j = Some f" for j f
  proof (cases "j = i")
    case True
    then show ?thesis using f e' ok by (auto simp: entry_ok_def)
  next
    case False
    then have "P j = Some f" "entry_no f \<noteq> entry_no e" using f view_inj [OF v e(1), of j f] by auto
    then show ?thesis using view_entry [OF v, of j f] by (auto simp: entry_ok_def)
  qed
  show "\<exists>f. (P(i \<mapsto> e')) j = Some f \<and> entry_no f = k" if "(k, j) \<in> T" for k j
    using view_timer [OF v that] e(1) e'(1) by (cases "j = i") auto
  show "distinct (C @ [entry_no e])" using view_once [OF v] new(1) by simp
  show "(k, Some Allow_Once) \<in> set S" if "k \<in> set (C @ [entry_no e])" for k
    using that view_consumed [OF v] new(2) by auto
qed (use view_replace [OF v e(1) e'(1)] view_answered [OF v] view_distinct [OF v] view_settled [OF v] in \<open>blast | simp\<close>)+

lemma view_delete:
  assumes v: "view_ok P T S C n" and e: "P i = Some e" "\<not> unresolved e"
  shows "view_ok (P(i := None)) T S C n"
proof (rule view_okI)
  have ok: "entry_ok T S C n i e" by (rule view_entry [OF v e(1)])
  show "\<exists>f. (P(i := None)) j = Some f \<and> entry_no f = k" if "(k, j) \<in> T" for k j
    using view_timer [OF v that] that e ok by (cases "j = i") (auto simp: entry_ok_def)
  show "entry_ok T S C n j f" if "(P(i := None)) j = Some f" for j f
    using that view_entry [OF v, of j f] by (simp split: if_splits)
  show "j = k" if "(P(i := None)) j = Some f" "(P(i := None)) k = Some g" "entry_no f = entry_no g" for j k f g
    using that view_inj [OF v, of j f k g] by (simp split: if_splits)
qed (use view_answered [OF v] view_distinct [OF v] view_settled [OF v] view_once [OF v] view_consumed [OF v] in \<open>blast | simp\<close>)+

lemma settle_pending: "distinct (map fst (pending m)) \<Longrightarrow> distinct (map fst (pending (snd (settle now i d w m))))"
  by (auto simp: settle_def distinct_update split: option.split)

lemma ok_settle:
  assumes "approvals_ok m"
  shows "approvals_ok (snd (settle now i d w m))"
proof (cases "\<exists>e. entry_of_id m i = Some e \<and> unresolved e")
  case True
  then obtain e where e: "entry_of_id m i = Some e" "unresolved e" by blast
  let ?e = "e\<lparr>entry_record := (entry_record e)\<lparr>resolved_at := Some now, ap_decision := d, ap_resolved_by := Some w\<rparr>\<rparr>"
  have "view_ok ((entry_of_id m)(i \<mapsto> ?e)) {t \<in> set (expiry_timers m). fst t \<noteq> entry_no e}
      (settlements m @ [(entry_no e, d)]) (consumptions m) (next_entry m)"
    by (rule view_settle [where P = "entry_of_id m", OF _ e]) (use assms in \<open>simp_all add: approvals_ok_def unresolved_def\<close>)
  then show ?thesis
    using assms e settle_pending [of m now i d w]
    by (auto simp: settle_def approvals_ok_def drop_timer_def update_conv' image_iff subset_iff)
next
  case False
  then have "snd (settle now i d w m) = m" by (auto simp: settle_def split: option.split)
  then show ?thesis using assms by simp
qed

lemma ok_register:
  assumes "approvals_ok m" and "fresh_record r"
  shows "approvals_ok (snd (register_approval r m))"
proof (cases "entry_of_id m (ap_id r)")
  case None
  let ?e = "\<lparr>entry_record = r, entry_no = next_entry m\<rparr>"
  have "view_ok ((entry_of_id m)(ap_id r \<mapsto> ?e)) (insert (next_entry m, ap_id r) (set (expiry_timers m)))
      (settlements m) (consumptions m) (Suc (next_entry m))"
    by (rule view_register [where P = "entry_of_id m", OF _ None])
      (use assms in \<open>simp_all add: approvals_ok_def fresh_record_def unresolved_def\<close>)
  then show ?thesis
    using assms(1) None by (simp add: register_approval_def approvals_ok_def update_conv' distinct_update)
next
  case (Some e)
  then have "snd (register_approval r m) = m" by (simp add: register_approval_def)
  then show ?thesis using assms by simp
qed

lemma ok_consume:
  assumes "approvals_ok m"
  shows "approvals_ok (snd (consume_allow_once i m))"
proof (cases "\<exists>e. entry_of_id m i = Some e \<and> ap_decision (entry_record e) = Some Allow_Once")
  case True
  then obtain e where e: "entry_of_id m i = Some e" "ap_decision (entry_record e) = Some Allow_Once" by blast
  let ?e = "e\<lparr>entry_record := (entry_record e)\<lparr>ap_consumed := Some Allow_Once, ap_decision := None\<rparr>\<rparr>"
  have "view_ok ((entry_of_id m)(i \<mapsto> ?e)) (set (expiry_timers m)) (settlements m)
      (consumptions m @ [entry_no e]) (next_entry m)"
    by (rule view_consume [where P = "entry_of_id m", OF _ e]) (use assms in \<open>simp_all add: approvals_ok_def unresolved_def\<close>)
  then show ?thesis
    using assms e by (simp add: consume_allow_once_def approvals_ok_def update_conv' distinct_update)
next
  case False
  then have "snd (consume_allow_once i m) = m" by (auto simp: consume_allow_once_def split: option.split)
  then show ?thesis using assms by simp
qed

lemma armed_timer:
  assumes "approvals_ok m" and "(n, i) \<in> set (expiry_timers m)"
  obtains e where "entry_of_id m i = Some e" "entry_no e = n" "unresolved e"
  using assms unfolding approvals_ok_def view_ok_def entry_ok_def by metis

lemma fire_expiry_settles:
  assumes "approvals_ok m" and "(n, i) \<in> set (expiry_timers m)"
  shows "fire_expiry now n i m = snd (settle now i None None m)"
proof -
  obtain e where "entry_of_id m i = Some e" "entry_no e = n" "unresolved e" by (rule armed_timer [OF assms])
  then show ?thesis by (simp add: fire_expiry_def expire_approval_def settle_def drop_timer_def)
qed

lemma ok_cleanup:
  assumes "approvals_ok m" and "(n, i) \<in> set (cleanup_timers m)"
  shows "approvals_ok (fire_cleanup n i m)"
proof -
  have c: "fst ` set (remove1 (n, i) (cleanup_timers m)) \<subseteq> fst ` set (settlements m)"
    using assms(1) set_remove1_subset unfolding approvals_ok_def by fast
  show ?thesis
  proof (cases "\<exists>e. entry_of_id m i = Some e \<and> entry_no e = n")
    case True
    then obtain e where e: "entry_of_id m i = Some e" "entry_no e = n" by blast
    have "n \<in> fst ` set (settlements m)" using assms by (force simp: approvals_ok_def)
    then have "\<not> unresolved e" using assms(1) e by (auto simp: approvals_ok_def view_ok_def entry_ok_def)
    then have "view_ok ((entry_of_id m)(i := None)) (set (expiry_timers m)) (settlements m) (consumptions m) (next_entry m)"
      using assms(1) e(1) by (intro view_delete) (auto simp: approvals_ok_def)
    then show ?thesis
      using assms(1) c e by (simp add: fire_cleanup_def Let_def approvals_ok_def AList.delete_conv' AList.distinct_delete)
  next
    case False
    then show ?thesis
      using assms(1) c by (auto simp: fire_cleanup_def Let_def approvals_ok_def split: option.split)
  qed
qed

lemma reachable_approvals_ok: "approvals_reachable m \<Longrightarrow> approvals_ok m"
proof (induction rule: approvals_reachable.induct)
  case start
  then show ?case by (simp add: approvals_ok_def view_ok_def new_manager_def)
next
  case (step m m')
  show ?case using step(2,3)
    by (cases rule: approval_step.cases)
      (simp_all add: ok_register ok_settle ok_consume ok_cleanup fire_expiry_settles)
qed

section \<open>What a manager promises\<close>

text \<open>C17: in every state a manager can reach, whatever the order of requests, decisions, expiries,
  consumptions and timers, every approval was decided at most once, and an approval is consumed at most once
  and only after it was decided to be allowed once.\<close>

theorem allow_once_runs_once:
  assumes "approvals_reachable m"
  shows "distinct (map fst (settlements m)) \<and> distinct (consumptions m) \<and>
    (\<forall>n \<in> set (consumptions m). (n, Some Allow_Once) \<in> set (settlements m))"
  using reachable_approvals_ok [OF assms] unfolding approvals_ok_def view_ok_def by (elim conjE) (intro conjI)

text \<open>C18: every request is answered: in every reachable state each registered approval has been decided, or
  its timer is armed and, when it fires, answers it with null.\<close>

theorem every_approval_answered:
  assumes "approvals_reachable m" and "n < next_entry m"
  shows "n \<in> fst ` set (settlements m) \<or>
    (\<exists>i. (n, i) \<in> set (expiry_timers m) \<and> settlements (fire_expiry now n i m) = settlements m @ [(n, None)])"
proof (cases "n \<in> fst ` set (settlements m)")
  case False
  have ok: "approvals_ok m" by (rule reachable_approvals_ok [OF assms(1)])
  then have v: "view_ok (entry_of_id m) (set (expiry_timers m)) (settlements m) (consumptions m) (next_entry m)"
    by (simp add: approvals_ok_def)
  obtain i where i: "(n, i) \<in> set (expiry_timers m)" using view_answered [OF v assms(2)] False by blast
  obtain e where "entry_of_id m i = Some e" "entry_no e = n" "unresolved e" by (rule armed_timer [OF ok i])
  then have "settlements (fire_expiry now n i m) = settlements m @ [(n, None)]"
    by (simp add: fire_expiry_settles [OF ok i] settle_def)
  then show ?thesis using i by blast
qed simp

text \<open>The ids a text may stand for.\<close>

definition abbreviates :: "string \<Rightarrow> 'p approvals \<Rightarrow> string \<Rightarrow> bool" where
  "abbreviates input m i \<longleftrightarrow> (\<exists>e. entry_of_id m i = Some e \<and> unresolved e) \<and>
     starts_with (lower_or_empty (Some (trim input))) (lower_or_empty (Some i))"

text \<open>C19: a text typed for an approval finds the pending approval with that very id or, when there is no
  entry of that id, the one pending approval whose id starts with it, upper and lower case being the same; it
  never picks one of several.\<close>

theorem lookup_picks_no_other:
  assumes "approvals_reachable m"
  shows "case lookup_pending input m of
      Exact i \<Rightarrow> i = trim input \<and> (\<exists>e. entry_of_id m i = Some e \<and> unresolved e)
    | Prefix i \<Rightarrow> entry_of_id m (trim input) = None \<and> (\<forall>j. abbreviates input m j \<longleftrightarrow> j = i)
    | Ambiguous found \<Rightarrow> 2 \<le> length found \<and> distinct found \<and> (\<forall>j. abbreviates input m j \<longleftrightarrow> j \<in> set found)
    | Nothing \<Rightarrow> trim input = [] \<or> (\<exists>e. entry_of_id m (trim input) = Some e \<and> \<not> unresolved e) \<or> (\<forall>j. \<not> abbreviates input m j)"
proof -
  have d: "distinct (map fst (pending m))"
    using reachable_approvals_ok [OF assms] by (simp add: approvals_ok_def)
  let ?P = "\<lambda>(i, e). unresolved e \<and> starts_with (lower_or_empty (Some (trim input))) (lower_or_empty (Some i))"
  let ?ms = "map fst (filter ?P (pending m))"
  have a: "abbreviates input m j \<longleftrightarrow> j \<in> set ?ms" for j
    using d by (force simp: abbreviates_def)
  have dm: "distinct ?ms" using d by (rule distinct_filter_keys)
  consider "trim input = []" | e where "trim input \<noteq> []" "entry_of_id m (trim input) = Some e"
    | "trim input \<noteq> []" "entry_of_id m (trim input) = None" by blast
  then show ?thesis
  proof cases
    case 1
    then show ?thesis by (simp add: lookup_pending_def lookup_approval_def)
  next
    case 2
    then show ?thesis by (simp add: lookup_pending_def lookup_approval_def Let_def)
  next
    case 3
    have "lookup_pending input m = (case ?ms of [] \<Rightarrow> Nothing | [i] \<Rightarrow> Prefix i | _ \<Rightarrow> Ambiguous ?ms)"
      using 3 by (simp add: lookup_pending_def lookup_approval_def Let_def)
    then show ?thesis using 3 dm a
      by (cases ?ms rule: remdups_adj.cases) simp_all
  qed
qed

section \<open>An instance\<close>

text \<open>Two requests, the first allowed once and consumed, the second expired.\<close>

definition two_requests :: "nat approvals" where
  "two_requests = snd (register_approval (create_approval 2 1000 (Some ''Deploy-2'') ''u2'' 6)
     (snd (register_approval (create_approval 1 1000 (Some ''deploy-1'') ''u1'' 5) new_manager)))"

definition one_consumed :: "nat approvals" where
  "one_consumed = snd (consume_allow_once ''deploy-1'' (snd (settle 7 ''deploy-1'' (Some Allow_Once) None two_requests)))"

lemma fresh_create [simp]: "fresh_record (create_approval r t i u now)"
  by (simp add: fresh_record_def create_approval_def)

lemma two_requests_reachable: "approvals_reachable two_requests"
  unfolding two_requests_def
  by (intro approvals_reachable.step [OF _ approval_step.register] approvals_reachable.start fresh_create)

lemma one_consumed_reachable: "approvals_reachable one_consumed"
  unfolding one_consumed_def
  by (rule approvals_reachable.step [OF _ approval_step.consume],
      rule approvals_reachable.step [OF _ approval_step.settle], rule two_requests_reachable)

lemma second_use_refused: "fst (consume_allow_once ''deploy-1'' one_consumed) = False"
  by code_simp

lemma allow_once_runs_once_witness:
  "consumptions one_consumed = [0] \<and> (0, Some Allow_Once) \<in> set (settlements one_consumed)"
proof -
  have "consumptions one_consumed = [0]" by code_simp
  then show ?thesis using allow_once_runs_once [OF one_consumed_reachable] by simp
qed

lemma every_approval_answered_witness:
  "\<exists>i. (1, i) \<in> set (expiry_timers one_consumed) \<and>
     settlements (fire_expiry 2000 1 i one_consumed) = settlements one_consumed @ [(1, None)]"
proof -
  have n: "1 < next_entry one_consumed" and "1 \<notin> fst ` set (settlements one_consumed)" by code_simp+
  then show ?thesis using every_approval_answered [OF one_consumed_reachable n, of 2000] by simp
qed

lemma lookup_picks_no_other_witness:
  "\<forall>j. abbreviates '' deploy-2 '' two_requests j = (j = ''Deploy-2'')"
proof -
  have "lookup_pending '' deploy-2 '' two_requests = Prefix ''Deploy-2''" by code_simp
  then show ?thesis using lookup_picks_no_other [OF two_requests_reachable, of "'' deploy-2 ''"] by simp
qed

end
