(* ===== verification/Dedupe_Cache.thy ===== *)
theory Dedupe_Cache
  imports Client_Address Insertion_Map Complex_Main
begin

text \<open>
  The cache that recognises repeated messages, \<^verbatim>\<open>infra/dedupe.ts\<close>, with the eviction loop of
  \<^verbatim>\<open>infra/map-size.ts\<close>.  A check remembers its key for \<^verbatim>\<open>ttlMs\<close> milliseconds and the cache keeps at most
  \<^verbatim>\<open>maxSize\<close> keys, the oldest making room.  The loop is a \<^verbatim>\<open>while\<close> whose end is proved:
  \<open>None\<close> is a run that does not return.
\<close>

section \<open>Eviction\<close>

definition evict_loop :: "int \<Rightarrow> (string \<times> 'v) list \<Rightarrow> (string \<times> 'v) list option" where
  "evict_loop limit = while_option (\<lambda>m. int (length m) > limit \<and> m \<noteq> []) (\<lambda>m. AList.delete (fst (hd m)) m)"

definition prune_map :: "rat \<Rightarrow> (string \<times> 'v) list \<Rightarrow> (string \<times> 'v) list option" where
  "prune_map max_size m = (let limit = max 0 \<lfloor>max_size\<rfloor> in if limit \<le> 0 then Some [] else evict_loop limit m)"

lemma delete_hd_shorter: "m \<noteq> [] \<Longrightarrow> length (AList.delete (fst (hd m)) m) < length m"
  by (cases m) (auto simp: AList.delete_eq less_Suc_eq_le length_filter_le)

lemma evict_loop_ends: "\<exists>m'. evict_loop limit m = Some m'"
  unfolding evict_loop_def
  by (rule measure_while_option_Some [where P = "\<lambda>_. True" and f = length]) (simp_all add: delete_hd_shorter)

lemma evict_loop_size:
  assumes "evict_loop limit m = Some m'" and "0 \<le> limit"
  shows "int (length m') \<le> limit" and "length m' \<le> length m"
proof -
  have "\<not> (int (length m') > limit \<and> m' \<noteq> [])"
    using while_option_stop [OF assms(1) [unfolded evict_loop_def]] by simp
  then show "int (length m') \<le> limit" using assms(2) by (cases m') auto
  show "length m' \<le> length m"
    by (rule while_option_rule [OF _ assms(1) [unfolded evict_loop_def], where P = "\<lambda>x. length x \<le> length m"])
      (auto intro: order_trans [OF AList.length_delete_le])
qed

lemma evict_loop_keeps_last:
  assumes "evict_loop limit (pre @ post) = Some m" and "int (length post) \<le> limit" and "distinct (map fst (pre @ post))"
  shows "\<exists>pre'. m = pre' @ post \<and> set pre' \<subseteq> set pre \<and> distinct (map fst m)"
proof -
  let ?P = "\<lambda>x. \<exists>pre'. x = pre' @ post \<and> set pre' \<subseteq> set pre \<and> distinct (map fst x)"
  have "?P (AList.delete (fst (hd x)) x)" if x: "?P x" "int (length x) > limit \<and> x \<noteq> []" for x
  proof -
    obtain pre' where pre': "x = pre' @ post" "set pre' \<subseteq> set pre" "distinct (map fst x)" using x(1) by blast
    then have "pre' \<noteq> []" using x(2) assms(2) by auto
    then obtain p q where "pre' = p # q" by (cases pre') auto
    moreover have "AList.delete (fst (hd x)) x = tl x" using pre'(3) by (rule delete_hd)
    ultimately show ?thesis using pre' by auto
  qed
  then show ?thesis
    by (rule while_option_rule [OF _ assms(1) [unfolded evict_loop_def], where P = ?P]) (use assms(3) in auto)
qed

section \<open>The cache\<close>

record dedupe_options =
  ttl_option :: int
  size_option :: rat

type_synonym dedupe_cache = "(string \<times> int) list"

definition ttl_ms :: "dedupe_options \<Rightarrow> int" where
  "ttl_ms o1 = max 0 (ttl_option o1)"

definition max_size :: "dedupe_options \<Rightarrow> int" where
  "max_size o1 = max 0 \<lfloor>size_option o1\<rfloor>"

definition touch_key :: "string \<Rightarrow> int \<Rightarrow> dedupe_cache \<Rightarrow> dedupe_cache" where
  "touch_key key now c = AList.update key now (AList.delete key c)"

definition prune_cache :: "dedupe_options \<Rightarrow> int \<Rightarrow> dedupe_cache \<Rightarrow> dedupe_cache option" where
  "prune_cache o1 now c =
     (let c1 = (if ttl_ms o1 > 0 then filter (\<lambda>(_, t). \<not> t < now - ttl_ms o1) c else c) in
      if max_size o1 \<le> 0 then Some [] else prune_map (of_int (max_size o1)) c1)"

definition has_unexpired :: "dedupe_options \<Rightarrow> string \<Rightarrow> int \<Rightarrow> bool \<Rightarrow> dedupe_cache \<Rightarrow> bool \<times> dedupe_cache" where
  "has_unexpired o1 key now touch_on_read c = (case map_of c key of
       None \<Rightarrow> (False, c)
     | Some t \<Rightarrow>
         if ttl_ms o1 > 0 \<and> now - t \<ge> ttl_ms o1 then (False, AList.delete key c)
         else (True, if touch_on_read then touch_key key now c else c))"

definition dedupe_check ::
  "dedupe_options \<Rightarrow> string option \<Rightarrow> int \<Rightarrow> dedupe_cache \<Rightarrow> (bool \<times> dedupe_cache) option" where
  "dedupe_check o1 key now c = (case given key of None \<Rightarrow> Some (False, c)
     | Some k \<Rightarrow> (case has_unexpired o1 k now True c of
         (True, c1) \<Rightarrow> Some (True, c1)
       | (False, c1) \<Rightarrow> map_option (Pair False) (prune_cache o1 now (touch_key k now c1))))"

definition dedupe_peek :: "dedupe_options \<Rightarrow> string option \<Rightarrow> int \<Rightarrow> dedupe_cache \<Rightarrow> bool \<times> dedupe_cache" where
  "dedupe_peek o1 key now c = (case given key of None \<Rightarrow> (False, c)
     | Some k \<Rightarrow> has_unexpired o1 k now False c)"

definition dedupe_delete :: "string option \<Rightarrow> dedupe_cache \<Rightarrow> dedupe_cache" where
  "dedupe_delete key c = (case given key of None \<Rightarrow> c | Some k \<Rightarrow> AList.delete k c)"

datatype dedupe_op = Seen "string option" | Peek "string option" | Forget "string option" | Clear_All

fun dedupe_do :: "dedupe_options \<Rightarrow> int \<Rightarrow> dedupe_op \<Rightarrow> dedupe_cache option \<Rightarrow> dedupe_cache option" where
  "dedupe_do o1 now x None = None"
| "dedupe_do o1 now (Seen key) (Some c) = map_option snd (dedupe_check o1 key now c)"
| "dedupe_do o1 now (Peek key) (Some c) = Some (snd (dedupe_peek o1 key now c))"
| "dedupe_do o1 now (Forget key) (Some c) = Some (dedupe_delete key c)"
| "dedupe_do o1 now Clear_All (Some c) = Some []"

section \<open>Checks return\<close>

lemma touch_eq: "touch_key key now c = AList.delete key c @ [(key, now)]"
proof -
  have "AList.update key now xs = xs @ [(key, now)]" if "key \<notin> fst ` set xs" for xs :: dedupe_cache
    using that by (induction xs) auto
  then show ?thesis by (simp add: touch_key_def AList.delete_notin_dom)
qed

lemma prune_cache_returns: "\<exists>c'. prune_cache o1 now c = Some c' \<and> int (length c') \<le> max_size o1"
proof (cases "max_size o1 \<le> 0")
  case True
  then show ?thesis by (simp add: prune_cache_def max_size_def)
next
  case False
  let ?c = "if ttl_ms o1 > 0 then filter (\<lambda>(_, t). \<not> t < now - ttl_ms o1) c else c"
  obtain c' where c': "evict_loop (max_size o1) ?c = Some c'" using evict_loop_ends by blast
  then have "prune_cache o1 now c = Some c'"
    using False by (simp add: prune_cache_def prune_map_def Let_def)
  then show ?thesis using evict_loop_size(1) [OF c'] False by simp
qed

lemma unexpired_size: "length (snd (has_unexpired o1 k now b c)) \<le> length c"
proof (cases "map_of c k")
  case (Some t)
  then have "length (AList.delete k c) < length c"
    by (auto simp: AList.delete_eq intro!: length_filter_less dest: map_of_SomeD)
  then show ?thesis using Some by (auto simp: has_unexpired_def touch_eq Let_def)
qed (simp add: has_unexpired_def)

text \<open>C20: a check always returns: whatever the options, the key, the clock and the cache, the eviction loop
  ends, and the cache it leaves is no larger than the maximum or than it was.\<close>

theorem dedupe_check_returns:
  "\<exists>b c'. dedupe_check o1 key now c = Some (b, c') \<and> int (length c') \<le> max (max_size o1) (int (length c))"
proof (cases "given key")
  case None
  then show ?thesis by (auto simp: dedupe_check_def)
next
  case (Some k)
  obtain b c1 where h: "has_unexpired o1 k now True c = (b, c1)" by (cases "has_unexpired o1 k now True c")
  show ?thesis
  proof (cases b)
    case True
    then show ?thesis using Some h unexpired_size [of o1 k now True c] by (auto simp: dedupe_check_def)
  next
    case False
    obtain c' where "prune_cache o1 now (touch_key k now c1) = Some c'" "int (length c') \<le> max_size o1"
      using prune_cache_returns by blast
    then show ?thesis using Some h False by (auto simp: dedupe_check_def)
  qed
qed

section \<open>Repeats are caught\<close>

text \<open>The key is in the cache since \<open>t\<close> or later, with at most \<open>n\<close> younger keys.\<close>

definition remembers :: "int \<Rightarrow> string \<Rightarrow> int \<Rightarrow> dedupe_cache \<Rightarrow> bool" where
  "remembers t k n c \<longleftrightarrow> distinct (map fst c) \<and>
     (\<exists>pre ts post. c = pre @ (k, ts) # post \<and> t \<le> ts \<and> int (length post) \<le> n)"

definition in_time :: "dedupe_options \<Rightarrow> int \<Rightarrow> int \<Rightarrow> bool" where
  "in_time o1 t now \<longleftrightarrow> t \<le> now \<and> (0 < ttl_ms o1 \<longrightarrow> now < t + ttl_ms o1)"

lemma remembers_weaken: "remembers t k n c \<Longrightarrow> n \<le> n' \<Longrightarrow> remembers t k n' c"
  by (fastforce simp: remembers_def)

lemma remembers_value:
  assumes "remembers t k n c"
  shows "\<exists>ts \<ge> t. map_of c k = Some ts"
proof -
  obtain ts pre post where c: "c = pre @ (k, ts) # post" "t \<le> ts" "distinct (map fst c)"
    using assms unfolding remembers_def by blast
  then have "map_of c k = Some ts" by (intro map_of_is_SomeI) auto
  then show ?thesis using c(2) by blast
qed

lemma remembers_delete:
  assumes "remembers t k n c" and "k' \<noteq> k"
  shows "remembers t k n (AList.delete k' c)"
proof -
  obtain pre ts post where c: "c = pre @ (k, ts) # post" "t \<le> ts" "int (length post) \<le> n"
    using assms(1) by (auto simp: remembers_def)
  then have "AList.delete k' c = AList.delete k' pre @ (k, ts) # AList.delete k' post"
    using assms(2) by (simp add: AList.delete_eq)
  moreover have "int (length (AList.delete k' post)) \<le> n" using c(3) AList.length_delete_le [of k' post] by linarith
  moreover have "distinct (map fst (AList.delete k' c))"
    using assms(1) by (simp add: remembers_def AList.distinct_delete)
  ultimately show ?thesis using c(2) unfolding remembers_def by blast
qed

lemma remembers_touch_self:
  assumes "distinct (map fst c)" and "t \<le> now" and "0 \<le> n"
  shows "remembers t k n (touch_key k now c)"
proof -
  have "touch_key k now c = AList.delete k c @ (k, now) # []" by (simp add: touch_eq)
  moreover have "distinct (map fst (touch_key k now c))"
    using assms(1) AList.delete_notin_dom [of k c] by (simp add: touch_eq AList.distinct_delete)
  ultimately show ?thesis using assms(2,3) unfolding remembers_def by (metis list.size(3) of_nat_0)
qed

lemma remembers_touch_other:
  assumes "remembers t k n c" and "k' \<noteq> k"
  shows "remembers t k (n + 1) (touch_key k' now c)"
proof -
  obtain pre ts post where c: "AList.delete k' c = pre @ (k, ts) # post" "t \<le> ts" "int (length post) \<le> n"
    "distinct (map fst (AList.delete k' c))"
    using remembers_delete [OF assms] by (auto simp: remembers_def)
  then have "touch_key k' now c = pre @ (k, ts) # (post @ [(k', now)])" by (simp add: touch_eq)
  moreover have "distinct (map fst (touch_key k' now c))"
    using c(4) AList.delete_notin_dom [of k' c] by (simp add: touch_eq)
  ultimately show ?thesis using c unfolding remembers_def by (intro conjI exI) auto
qed

lemma remembers_prune:
  assumes "remembers t k n c" and "in_time o1 t now" and "n < max_size o1" and "prune_cache o1 now c = Some c'"
  shows "remembers t k n c'"
proof -
  obtain pre ts post where c: "c = pre @ (k, ts) # post" "t \<le> ts" "int (length post) \<le> n"
    using assms(1) by (auto simp: remembers_def)
  define P where "P = (\<lambda>(_ :: string, x :: int). ttl_ms o1 > 0 \<longrightarrow> \<not> x < now - ttl_ms o1)"
  have k: "P (k, ts)" using c(2) assms(2) by (auto simp: P_def in_time_def)
  have f: "(if ttl_ms o1 > 0 then filter (\<lambda>(_, t). \<not> t < now - ttl_ms o1) c else c) = filter P c"
    by (cases "ttl_ms o1 > 0") (simp_all add: P_def)
  then have e: "evict_loop (max_size o1) (filter P pre @ (k, ts) # filter P post) = Some c'"
    using assms(3,4) k c(1,3) by (simp add: prune_cache_def prune_map_def Let_def split: if_splits)
  have len: "int (length (filter P post)) \<le> n" using c(3) length_filter_le [of P post] by linarith
  have d: "distinct (map fst (filter P pre @ (k, ts) # filter P post))"
    using distinct_filter_keys [of c P] assms(1) k c(1) by (simp add: remembers_def)
  have "\<exists>pre'. c' = pre' @ ((k, ts) # filter P post) \<and> set pre' \<subseteq> set (filter P pre) \<and> distinct (map fst c')"
    by (rule evict_loop_keeps_last [OF e _ d]) (use len assms(3) in simp)
  then show ?thesis using c(2) len unfolding remembers_def by blast
qed

lemma seen_in_time:
  assumes "remembers t k n c" and "in_time o1 t now"
  shows "has_unexpired o1 k now b c = (True, if b then touch_key k now c else c)"
  using remembers_value [OF assms(1)] assms(2) by (auto simp: has_unexpired_def in_time_def)

lemma remembers_seen:
  assumes r: "remembers t k n c" and now: "in_time o1 t now" and n: "0 \<le> n" "n + 1 < max_size o1"
    and chk: "dedupe_check o1 key now c = Some (b, c')"
  shows "remembers t k (n + 1) c'"
proof (cases "given key")
  case None
  then show ?thesis using chk r remembers_weaken [of t k n c "n + 1"] by (simp add: dedupe_check_def)
next
  case (Some k')
  show ?thesis
  proof (cases "k' = k")
    case True
    then show ?thesis
      using chk Some r n now seen_in_time [OF r now] remembers_touch_self [of c t now "n + 1" k]
      by (auto simp: dedupe_check_def remembers_def in_time_def)
  next
    case False
    show ?thesis
    proof (cases "has_unexpired o1 k' now True c")
      case (Pair hit c1)
      have c1: "hit \<Longrightarrow> c1 = touch_key k' now c" "\<not> hit \<Longrightarrow> c1 = c \<or> c1 = AList.delete k' c"
        using Pair by (auto simp: has_unexpired_def split: option.splits if_splits)
      show ?thesis
      proof (cases hit)
        case True
        then show ?thesis
          using chk Some Pair c1 remembers_touch_other [OF r False] by (auto simp: dedupe_check_def)
      next
        case miss: False
        then have "remembers t k n c1" using c1(2) r remembers_delete [OF r False] by auto
        then have "remembers t k (n + 1) (touch_key k' now c1)" by (rule remembers_touch_other) (rule False)
        then show ?thesis
          using remembers_prune [OF _ now n(2)] chk Some Pair miss by (auto simp: dedupe_check_def)
      qed
    qed
  qed
qed

text \<open>Operations that do not drop the key on purpose.\<close>

definition leaves_key :: "string \<Rightarrow> dedupe_op \<Rightarrow> bool" where
  "leaves_key k x = (case x of Forget key \<Rightarrow> key \<noteq> Some k | Clear_All \<Rightarrow> False | _ \<Rightarrow> True)"

lemma remembers_do:
  assumes "remembers t k n c" and "in_time o1 t now" and "0 \<le> n" and "n + 1 < max_size o1" and "leaves_key k x"
  shows "\<exists>c'. dedupe_do o1 now x (Some c) = Some c' \<and> remembers t k (n + 1) c'"
proof (cases x)
  case (Seen key)
  then show ?thesis using dedupe_check_returns [of o1 key now c] remembers_seen [OF assms(1-4)] by fastforce
next
  case (Peek key)
  have "remembers t k n (snd (dedupe_peek o1 key now c))"
  proof (cases "given key")
    case (Some k')
    then show ?thesis
      using assms(1) seen_in_time [OF assms(1,2), of False] remembers_delete [OF assms(1), of k']
      by (cases "k' = k") (auto simp: dedupe_peek_def has_unexpired_def split: option.split)
  qed (use assms(1) in \<open>simp add: dedupe_peek_def\<close>)
  then show ?thesis using Peek remembers_weaken [of t k n _ "n + 1"] by simp
next
  case (Forget key)
  have "remembers t k n (dedupe_delete key c)"
    using assms(1,5) Forget remembers_delete [OF assms(1)]
    by (auto simp: dedupe_delete_def leaves_key_def split: option.split)
  then show ?thesis using Forget remembers_weaken [of t k n _ "n + 1"] by simp
qed (use assms(5) in \<open>simp add: leaves_key_def\<close>)

lemma remembers_run:
  assumes "remembers t k n c" and "0 \<le> n" and "\<forall>(now, x) \<in> set ops. in_time o1 t now \<and> leaves_key k x"
    and "n + int (length ops) < max_size o1"
  shows "\<exists>c'. run_ops (dedupe_do o1) ops (Some c) = Some c' \<and> remembers t k (n + int (length ops)) c'"
  using assms
proof (induction ops arbitrary: c n)
  case (Cons x ops)
  obtain now y where x: "x = (now, y)" by (cases x)
  obtain c1 where c1: "dedupe_do o1 now y (Some c) = Some c1" "remembers t k (n + 1) c1"
    using remembers_do [OF Cons.prems(1), of o1 now y] Cons.prems(2-4) x by fastforce
  have "\<exists>c'. run_ops (dedupe_do o1) ops (Some c1) = Some c' \<and> remembers t k (n + 1 + int (length ops)) c'"
    using Cons.prems x by (intro Cons.IH c1(2)) auto
  then show ?case using x c1(1) by (simp add: algebra_simps)
qed simp

text \<open>C21: a repeat is caught: a key checked at some time is reported as seen by every later check within the
  time to live, whatever fewer other operations than the cache has places come in between, short of
  forgetting that key or clearing the cache.\<close>

theorem repeat_is_caught:
  assumes "distinct (map fst c)" and "k \<noteq> []" and "dedupe_check o1 (Some k) t c = Some (b, c1)"
    and "\<forall>(now, x) \<in> set ops. in_time o1 t now \<and> leaves_key k x" and "int (length ops) < max_size o1"
    and "in_time o1 t now"
  shows "\<exists>c2 c3. run_ops (dedupe_do o1) ops (Some c1) = Some c2 \<and> dedupe_check o1 (Some k) now c2 = Some (True, c3)"
proof -
  have g: "given (Some k) = Some k" using assms(2) by (simp add: given_def)
  have "remembers t k 0 (touch_key k t c')" if "distinct (map fst c')" for c'
    using that by (rule remembers_touch_self) simp_all
  moreover have "distinct (map fst (AList.delete k c))" using assms(1) by (rule AList.distinct_delete)
  moreover have "in_time o1 t t \<or> \<not> 0 < max_size o1"
    using assms(6) by (auto simp: in_time_def)
  ultimately have "remembers t k 0 c1"
    using assms(1,3,5) remembers_prune [of t k 0 _ o1 t]
    by (auto simp: dedupe_check_def g has_unexpired_def split: option.splits if_splits)
  then obtain c2 where c2: "run_ops (dedupe_do o1) ops (Some c1) = Some c2" "remembers t k (int (length ops)) c2"
    using remembers_run [of t k 0 c1 ops o1] assms(4,5) by auto
  then show ?thesis
    using seen_in_time [OF c2(2) assms(6), of True] by (simp add: dedupe_check_def g)
qed

definition small_cache :: dedupe_options where
  "small_cache = \<lparr>ttl_option = 100, size_option = 5 / 2\<rparr>"

lemma small_cache_size [simp]: "max_size small_cache = 2" "ttl_ms small_cache = 100"
  by (simp_all add: max_size_def ttl_ms_def small_cache_def floor_eq_iff)

lemma repeat_is_caught_witness:
  "\<exists>c2 c3. run_ops (dedupe_do small_cache) [(60, Seen (Some ''b''))] (Some [(''a'', 50)]) = Some c2 \<and>
     dedupe_check small_cache (Some ''a'') 149 c2 = Some (True, c3)"
proof (rule repeat_is_caught [where c = "[]" and t = 50 and b = False])
  show "dedupe_check small_cache (Some ''a'') 50 [] = Some (False, [(''a'', 50)])"
    by (simp add: dedupe_check_def has_unexpired_def prune_cache_def prune_map_def evict_loop_def touch_key_def
        while_option_unfold)
qed (simp_all add: in_time_def leaves_key_def)

text \<open>The oldest key makes room for the third.\<close>

lemma oldest_evicted:
  "dedupe_check small_cache (Some ''c'') 70 [(''a'', 50), (''b'', 60)] = Some (False, [(''b'', 60), (''c'', 70)])"
  by (simp add: dedupe_check_def has_unexpired_def prune_cache_def prune_map_def evict_loop_def touch_key_def
      while_option_unfold)

end
