(* ===== verification/Write_Budget.thy ===== *)
theory Write_Budget
  imports Task_Flow Insertion_Map
begin

text \<open>
  The budget of control-plane writes, \<^verbatim>\<open>gateway/control-plane-rate-limit.ts\<close>: a fixed window per client of
  three writes a minute, in a map of at most 10,000 clients.  \<open>budget_do\<close> is a write or the periodic prune and
  keeps a log of the writes that were allowed.
\<close>

section \<open>Clients\<close>

record write_client =
  device_id :: "string option"
  write_ip :: "string option"
  conn_id :: "string option"

definition normalize_part :: "string option \<Rightarrow> string \<Rightarrow> string" where
  "normalize_part v fallback = (case v of None \<Rightarrow> fallback
     | Some s \<Rightarrow> if length (trim s) > 0 then trim s else fallback)"

definition write_key :: "write_client option \<Rightarrow> string" where
  "write_key client =
     (let device = normalize_part (Option.bind client device_id) ''unknown-device'';
          ip = normalize_part (Option.bind client write_ip) ''unknown-ip'';
          conn = normalize_part (Option.bind client conn_id) [] in
      if device = ''unknown-device'' \<and> ip = ''unknown-ip'' \<and> conn \<noteq> []
      then device @ ''|'' @ ip @ ''|conn='' @ conn
      else device @ ''|'' @ ip)"

section \<open>Buckets\<close>

record bucket =
  bucket_count :: int
  window_start :: int

record write_result =
  write_allowed :: bool
  write_retry :: int
  write_remaining :: int
  result_key :: string

definition max_requests :: int where "max_requests = 3"
definition window_length :: int where "window_length = 60000"
definition max_stale :: int where "max_stale = 5 * 60000"
definition max_buckets :: nat where "max_buckets = 10000"

type_synonym buckets = "(string \<times> bucket) list"

text \<open>The hard cap: a new client takes the place of the oldest.\<close>

definition make_room :: "string \<Rightarrow> buckets \<Rightarrow> buckets" where
  "make_room key bs = (if key \<notin> fst ` set bs \<and> length bs \<ge> max_buckets
     then (case bs of [] \<Rightarrow> bs | (oldest, _) # _ \<Rightarrow> AList.delete oldest bs) else bs)"

definition consume_budget :: "write_client option \<Rightarrow> int \<Rightarrow> buckets \<Rightarrow> write_result \<times> buckets" where
  "consume_budget client now bs =
     (let key = write_key client;
          opened = (\<lparr>write_allowed = True, write_retry = 0, write_remaining = max_requests - 1, result_key = key\<rparr>,
            AList.update key \<lparr>bucket_count = 1, window_start = now\<rparr> (make_room key bs)) in
      case map_of bs key of
        None \<Rightarrow> opened
      | Some b \<Rightarrow>
          if now - window_start b \<ge> window_length then opened
          else if bucket_count b \<ge> max_requests
          then (\<lparr>write_allowed = False, write_retry = max 0 (window_start b + window_length - now),
              write_remaining = 0, result_key = key\<rparr>, bs)
          else let b1 = b\<lparr>bucket_count := bucket_count b + 1\<rparr> in
            (\<lparr>write_allowed = True, write_retry = 0, write_remaining = max 0 (max_requests - bucket_count b1),
              result_key = key\<rparr>, AList.update key b1 bs))"

definition prune_buckets :: "int \<Rightarrow> buckets \<Rightarrow> nat \<times> buckets" where
  "prune_buckets now bs = (let stale = (\<lambda>(_ :: string, b). now - window_start b > max_stale) in
     (length (filter stale bs), filter (\<lambda>p. \<not> stale p) bs))"

datatype budget_op = Write "write_client option" | Prune_Buckets

fun budget_do :: "int \<Rightarrow> budget_op \<Rightarrow> buckets \<times> (int \<times> string) list \<Rightarrow> buckets \<times> (int \<times> string) list" where
  "budget_do now (Write client) (bs, hist) = (case consume_budget client now bs of
     (r, bs') \<Rightarrow> (bs', if write_allowed r then hist @ [(now, result_key r)] else hist))"
| "budget_do now Prune_Buckets (bs, hist) = (snd (prune_buckets now bs), hist)"

section \<open>The cap\<close>

lemma make_room_distinct: "distinct (map fst bs) \<Longrightarrow> distinct (map fst (make_room key bs))"
  by (auto simp: make_room_def AList.distinct_delete split: list.split)

lemma make_room_length:
  assumes "length bs \<le> max_buckets" and "distinct (map fst bs)"
  shows "length (AList.update key b (make_room key bs)) \<le> max_buckets"
proof (cases "key \<in> fst ` set bs")
  case True
  then show ?thesis using assms(1) by (simp add: make_room_def length_alist_update)
next
  case False
  show ?thesis
  proof (cases "length bs \<ge> max_buckets")
    case full: True
    then obtain p q where bs: "bs = p # q" by (cases bs) (auto simp: max_buckets_def)
    have "make_room key bs = tl bs"
      using delete_hd [OF assms(2)] False full bs by (simp add: make_room_def split_beta)
    then show ?thesis using assms(1) bs False by (simp add: length_alist_update)
  qed (use False in \<open>simp add: make_room_def length_alist_update\<close>)
qed

definition good_bucket :: "bucket \<Rightarrow> bool" where
  "good_bucket b \<longleftrightarrow> 1 \<le> bucket_count b \<and> bucket_count b \<le> max_requests"

definition capped :: "buckets \<Rightarrow> bool" where
  "capped bs \<longleftrightarrow> distinct (map fst bs) \<and> length bs \<le> max_buckets \<and> (\<forall>p \<in> set bs. good_bucket (snd p))"

lemma set_make_room: "p \<in> set (make_room key bs) \<Longrightarrow> p \<in> set bs"
  by (auto simp: make_room_def set_alist_delete split: list.splits if_splits)

lemma capped_open:
  assumes "capped bs"
  shows "capped (AList.update key \<lparr>bucket_count = 1, window_start = now\<rparr> (make_room key bs))"
  unfolding capped_def
proof (intro conjI ballI)
  show "distinct (map fst (AList.update key \<lparr>bucket_count = 1, window_start = now\<rparr> (make_room key bs)))"
    using assms by (intro distinct_update make_room_distinct) (simp add: capped_def)
  show "length (AList.update key \<lparr>bucket_count = 1, window_start = now\<rparr> (make_room key bs)) \<le> max_buckets"
    using assms by (intro make_room_length) (simp_all add: capped_def)
  show "good_bucket (snd p)" if "p \<in> set (AList.update key \<lparr>bucket_count = 1, window_start = now\<rparr> (make_room key bs))" for p
    using set_alist_update [OF that] set_make_room [of p key bs] assms
    by (auto simp: capped_def good_bucket_def max_requests_def)
qed

lemma capped_count:
  assumes "capped bs" and "map_of bs key = Some b" and "bucket_count b < max_requests"
  shows "capped (AList.update key (b\<lparr>bucket_count := bucket_count b + 1\<rparr>) bs)"
  unfolding capped_def
proof (intro conjI ballI)
  have k: "(key, b) \<in> set bs" using assms(2) by (rule map_of_SomeD)
  show "distinct (map fst (AList.update key (b\<lparr>bucket_count := bucket_count b + 1\<rparr>) bs))"
    using assms(1) by (intro distinct_update) (simp add: capped_def)
  show "length (AList.update key (b\<lparr>bucket_count := bucket_count b + 1\<rparr>) bs) \<le> max_buckets"
    using k assms(1) by (force simp: length_alist_update capped_def)
  show "good_bucket (snd p)" if "p \<in> set (AList.update key (b\<lparr>bucket_count := bucket_count b + 1\<rparr>) bs)" for p
    using set_alist_update [OF that] k assms(1,3) by (force simp: capped_def good_bucket_def)
qed

lemma capped_write: "capped bs \<Longrightarrow> capped (snd (consume_budget client now bs))"
  by (auto simp: consume_budget_def Let_def capped_open capped_count split: option.split)

lemma capped_prune: "capped bs \<Longrightarrow> capped (snd (prune_buckets now bs))"
  by (auto simp: prune_buckets_def Let_def capped_def distinct_filter_keys intro: order_trans [OF length_filter_le])

interpretation cap: timed_store budget_do "\<lambda>_ s :: buckets \<times> (int \<times> string) list. capped (fst s)" "\<lambda>_. True"
proof
  fix x now and s :: "buckets \<times> (int \<times> string) list"
  assume "capped (fst s)"
  then show "capped (fst (budget_do now x s))"
    by (cases s; cases x) (simp_all add: split_beta capped_write capped_prune)
qed

section \<open>Writes of one client\<close>

definition writes :: "string \<Rightarrow> (int \<times> string) list \<Rightarrow> int list" where
  "writes key hist = map fst (filter (\<lambda>(_, k). k = key) hist)"

definition recent :: "int \<Rightarrow> int list \<Rightarrow> int list" where
  "recent now ts = filter (\<lambda>t. now - window_length < t) ts"

text \<open>The writes before a window was opened, its first and its later ones.\<close>

definition in_bucket :: "bucket \<Rightarrow> int list \<Rightarrow> bool" where
  "in_bucket b ts \<longleftrightarrow> (\<exists>old new. ts = old @ window_start b # new \<and>
     1 + int (length new) = bucket_count b \<and> bucket_count b \<le> max_requests \<and>
     (\<forall>t \<in> set old. t \<le> window_start b) \<and> length (recent (window_start b) old) \<le> 2 \<and>
     (\<forall>t \<in> set new. t < window_start b + window_length))"

definition writes_ok :: "string set \<Rightarrow> string \<Rightarrow> int \<Rightarrow> buckets \<times> (int \<times> string) list \<Rightarrow> bool" where
  "writes_ok K key now s \<longleftrightarrow> distinct (map fst (fst s)) \<and> fst ` set (fst s) \<subseteq> K \<and>
     (case map_of (fst s) key of None \<Rightarrow> recent now (writes key (snd s)) = []
      | Some b \<Rightarrow> window_start b \<le> now \<and> in_bucket b (writes key (snd s)))"

lemma recent_append [simp]: "recent now (xs @ ys) = recent now xs @ recent now ys"
  "recent now [] = []" "recent now (x # xs) = (if now - window_length < x then x # recent now xs else recent now xs)"
  by (simp_all add: recent_def)

lemma recent_length: "length (recent now ts) \<le> length ts"
  by (simp add: recent_def)

lemma recent_mono: "t \<le> now \<Longrightarrow> length (recent now ts) \<le> length (recent t ts)"
  by (induction ts) auto

lemma recent_old: "\<forall>t \<in> set ts. t \<le> now - window_length \<Longrightarrow> recent now ts = []"
  by (auto simp: recent_def filter_empty_conv)

lemma recent_in_bucket:
  assumes "in_bucket b ts" and "window_start b \<le> now"
  shows "length (recent now ts) \<le> 5"
    and "window_start b + window_length \<le> now \<Longrightarrow> length (recent now ts) \<le> 2"
    and "window_start b + max_stale < now \<Longrightarrow> recent now ts = []"
proof -
  obtain old new where ts: "ts = old @ window_start b # new" "int (length new) \<le> 2"
    "\<forall>t \<in> set old. t \<le> window_start b" "length (recent (window_start b) old) \<le> 2"
    "\<forall>t \<in> set new. t < window_start b + window_length"
    using assms(1) by (auto simp: in_bucket_def max_requests_def)
  have new: "length (recent now new) \<le> 2" using ts(2) recent_length [of now new] by linarith
  have old: "length (recent now old) \<le> 2" using recent_mono [OF assms(2), of old] ts(4) by linarith
  show "length (recent now ts) \<le> 5" using new old by (simp add: ts(1))
  show "length (recent now ts) \<le> 2" if "window_start b + window_length \<le> now"
  proof -
    have "recent now old = []" using ts(3) that by (intro recent_old) auto
    then show ?thesis using that new by (simp add: ts(1))
  qed
  show "recent now ts = []" if "window_start b + max_stale < now"
    using ts(3,5) that by (intro recent_old) (fastforce simp: ts(1) max_stale_def window_length_def)
qed

lemma room_for_known:
  assumes "writes_ok K key now s" and "finite K" and "card K \<le> max_buckets" and "k \<in> K"
  shows "make_room k (fst s) = fst s"
proof (cases "k \<in> fst ` set (fst s)")
  case False
  have "length (fst s) = card (fst ` set (fst s))"
    using assms(1) distinct_card [of "map fst (fst s)"] by (simp add: writes_ok_def)
  also have "\<dots> < card K"
    using assms(1,2,4) False by (intro psubset_card_mono) (auto simp: writes_ok_def)
  finally show ?thesis using assms(3) by (simp add: make_room_def)
qed (simp add: make_room_def)

lemma writes_append [simp]: "writes key (hist @ [(t, k)]) = writes key hist @ (if k = key then [t] else [])"
  by (simp add: writes_def)

lemma writes_later:
  assumes "writes_ok K key t s" and "t \<le> now"
  shows "writes_ok K key now s"
proof (cases "map_of (fst s) key")
  case None
  then show ?thesis using assms recent_mono [OF assms(2), of "writes key (snd s)"] by (simp add: writes_ok_def)
next
  case (Some b)
  then show ?thesis using assms by (simp add: writes_ok_def del: map_of_eq_Some_iff)
qed

lemma in_bucket_open:
  assumes "\<forall>x \<in> set ts. x \<le> now" and "length (recent now ts) \<le> 2"
  shows "in_bucket \<lparr>bucket_count = 1, window_start = now\<rparr> (ts @ [now])"
  using assms unfolding in_bucket_def
  by (intro exI [of _ ts] exI [of _ "[]"]) (simp add: max_requests_def)

lemma in_bucket_more:
  assumes "in_bucket b ts" and "bucket_count b < max_requests" and "now - window_start b < window_length"
  shows "in_bucket (b\<lparr>bucket_count := bucket_count b + 1\<rparr>) (ts @ [now])"
proof -
  obtain old new where "ts = old @ window_start b # new" "1 + int (length new) = bucket_count b"
    "\<forall>t \<in> set old. t \<le> window_start b" "length (recent (window_start b) old) \<le> 2"
    "\<forall>t \<in> set new. t < window_start b + window_length"
    using assms(1) by (auto simp: in_bucket_def)
  then show ?thesis
    using assms(2,3) unfolding in_bucket_def
    by (intro exI [of _ old] exI [of _ "new @ [now]"]) auto
qed

lemma in_bucket_over:
  assumes "in_bucket b ts" and "window_start b \<le> now" and "now - window_start b \<ge> window_length"
  shows "in_bucket \<lparr>bucket_count = 1, window_start = now\<rparr> (ts @ [now])"
proof (rule in_bucket_open)
  have "0 < window_length" by (simp add: window_length_def)
  then show "\<forall>x \<in> set ts. x \<le> now" using assms by (fastforce simp: in_bucket_def)
  show "length (recent now ts) \<le> 2" by (rule recent_in_bucket(2) [OF assms(1,2)]) (use assms(3) in simp)
qed

lemma in_bucket_first:
  assumes "recent now ts = []"
  shows "in_bucket \<lparr>bucket_count = 1, window_start = now\<rparr> (ts @ [now])"
proof (rule in_bucket_open)
  have "\<not> now - window_length < x" if "x \<in> set ts" for x
    using assms that unfolding recent_def filter_empty_conv by blast
  moreover have "0 < window_length" by (simp add: window_length_def)
  ultimately show "\<forall>x \<in> set ts. x \<le> now" by fastforce
qed (simp add: assms)

lemma writes_ok_update:
  assumes "distinct (map fst bs)" and "fst ` set bs \<subseteq> K" and "k \<in> K"
    and "k = key \<Longrightarrow> window_start b \<le> now \<and> in_bucket b (writes key hist)"
    and "k \<noteq> key \<Longrightarrow> writes_ok K key now (bs, hist)"
  shows "writes_ok K key now (AList.update k b bs, hist)"
  using assms
  by (cases "k = key") (auto simp: writes_ok_def dom_update distinct_update update_conv'
      simp del: map_of_eq_Some_iff cong: option.case_cong)

lemma writes_ok_write:
  assumes ok: "writes_ok K key now (bs, hist)" and K: "finite K" "card K \<le> max_buckets" "write_key client \<in> K"
  shows "writes_ok K key now (budget_do now (Write client) (bs, hist))"
proof -
  let ?k = "write_key client"
  have d: "distinct (map fst bs)" "fst ` set bs \<subseteq> K" using ok by (simp_all add: writes_ok_def)
  have room: "make_room ?k bs = bs" using room_for_known [OF ok K] by simp
  have other: "?k \<noteq> key \<Longrightarrow> writes_ok K key now (bs, hist @ [(now, ?k)])"
    using ok by (simp add: writes_ok_def cong: option.case_cong)
  have opened: "writes_ok K key now
      (AList.update ?k \<lparr>bucket_count = 1, window_start = now\<rparr> bs, hist @ [(now, ?k)])"
    if "map_of bs ?k = None \<or> (\<exists>b. map_of bs ?k = Some b \<and> now - window_start b \<ge> window_length)"
  proof (rule writes_ok_update [OF d K(3) _ other])
    assume "?k = key"
    then show "window_start \<lparr>bucket_count = 1, window_start = now\<rparr> \<le> now \<and>
        in_bucket \<lparr>bucket_count = 1, window_start = now\<rparr> (writes key (hist @ [(now, ?k)]))"
      using that ok in_bucket_first [of now "writes key hist"] in_bucket_over [of _ "writes key hist" now]
      by (auto simp: writes_ok_def simp del: map_of_eq_Some_iff)
  qed
  have more: "writes_ok K key now
      (AList.update ?k (b\<lparr>bucket_count := bucket_count b + 1\<rparr>) bs, hist @ [(now, ?k)])"
    if b: "map_of bs ?k = Some b" "bucket_count b < max_requests" "now - window_start b < window_length" for b
  proof (rule writes_ok_update [OF d K(3) _ other])
    assume "?k = key"
    then show "window_start (b\<lparr>bucket_count := bucket_count b + 1\<rparr>) \<le> now \<and>
        in_bucket (b\<lparr>bucket_count := bucket_count b + 1\<rparr>) (writes key (hist @ [(now, ?k)]))"
      using ok b in_bucket_more [of b "writes key hist" now]
      by (auto simp: writes_ok_def simp del: map_of_eq_Some_iff)
  qed
  show ?thesis
  proof (cases "map_of bs ?k")
    case None
    then show ?thesis using opened room by (simp add: consume_budget_def Let_def)
  next
    case (Some b)
    then show ?thesis
      using opened more [OF Some] ok room
      by (auto simp: consume_budget_def Let_def not_le simp del: map_of_eq_Some_iff)
  qed
qed

lemma writes_ok_prune:
  assumes "writes_ok K key now (bs, hist)"
  shows "writes_ok K key now (snd (prune_buckets now bs), hist)"
proof -
  have d: "distinct (map fst bs)" using assms by (simp add: writes_ok_def)
  let ?stale = "\<lambda>(_ :: string, b). now - window_start b > max_stale"
  have m: "map_of (filter (\<lambda>(k, b). \<not> now - window_start b > max_stale) bs) key =
      (case map_of bs key of None \<Rightarrow> None | Some b \<Rightarrow> if \<not> now - window_start b > max_stale then Some b else None)"
    by (rule map_of_filter [OF d])
  have e: "snd (prune_buckets now bs) = filter (\<lambda>(k, b). \<not> now - window_start b > max_stale) bs"
    by (simp add: prune_buckets_def Let_def case_prod_unfold)
  have s: "fst ` set (filter (\<lambda>(k, b). \<not> now - window_start b > max_stale) bs) \<subseteq> K"
    "distinct (map fst (filter (\<lambda>(k, b). \<not> now - window_start b > max_stale) bs))"
    using assms d by (auto simp: writes_ok_def distinct_filter_keys)
  show ?thesis
  proof (cases "map_of bs key")
    case None
    then show ?thesis using assms m s by (simp add: e writes_ok_def)
  next
    case (Some b)
    then have b: "window_start b \<le> now" "in_bucket b (writes key hist)"
      using assms by (simp_all add: writes_ok_def del: map_of_eq_Some_iff)
    show ?thesis
      using m s Some b recent_in_bucket(3) [OF b(2,1)]
      by (auto simp: e writes_ok_def simp del: map_of_eq_Some_iff)
  qed
qed

definition known_client :: "string set \<Rightarrow> budget_op \<Rightarrow> bool" where
  "known_client K x = (case x of Write client \<Rightarrow> write_key client \<in> K | Prune_Buckets \<Rightarrow> True)"

interpretation burst: timed_store budget_do "writes_ok K key"
    "\<lambda>x. finite K \<and> card K \<le> max_buckets \<and> known_client K x" for K key
proof
  fix x now s
  assume "finite K \<and> card K \<le> max_buckets \<and> known_client K x" "writes_ok K key now s"
  then show "writes_ok K key now (budget_do now x s)"
    by (cases s; cases x) (simp_all add: known_client_def writes_ok_write writes_ok_prune del: budget_do.simps(1))
qed (rule writes_later)

text \<open>C22: control-plane writes are bounded: whatever the writes and prunes, the map never holds more than
  10,000 clients; and as long as no more than 10,000 clients write, so that none is evicted, no client is
  allowed more than five writes in any minute.\<close>

theorem control_plane_writes_bounded:
  assumes "clock_order t ops" and "final_clock t ops \<le> now"
  shows "length (fst (run_ops budget_do ops ([], []))) \<le> 10000 \<and>
    (card {write_key client |client. Write client \<in> snd ` set ops} \<le> 10000 \<longrightarrow>
      length (recent now (writes key (snd (run_ops budget_do ops ([], []))))) \<le> 5)"
proof (intro conjI impI)
  let ?s = "run_ops budget_do ops ([], [])" and ?K = "{write_key client |client. Write client \<in> snd ` set ops}"
  have "capped (fst ?s)"
    using assms by (intro cap.run_final [where t = t]) (simp_all add: capped_def)
  then show "length (fst ?s) \<le> 10000" by (simp add: capped_def max_buckets_def)
  assume c: "card ?K \<le> 10000"
  have "?K \<subseteq> (\<lambda>x. case x of Write client \<Rightarrow> write_key client | Prune_Buckets \<Rightarrow> []) ` snd ` set ops"
    by force
  then have "finite ?K" by (rule finite_subset) simp
  moreover have "known_client ?K x" if "x \<in> snd ` set ops" for x
    using that by (cases x) (auto simp: known_client_def simp del: image_iff)
  ultimately have "writes_ok ?K key now ?s"
    using assms c
    by (intro burst.run_later [of ?K key t])
      (simp_all add: writes_ok_def writes_def max_buckets_def del: image_iff)
  then show "length (recent now (writes key (snd ?s))) \<le> 5"
    using recent_in_bucket(1) [of _ "writes key (snd ?s)" now]
    by (auto simp: writes_ok_def split: option.splits simp del: map_of_eq_Some_iff)
qed

definition laptop :: "write_client option" where
  "laptop = Some \<lparr>device_id = Some ''d1'', write_ip = None, conn_id = None\<rparr>"

text \<open>Five writes are allowed within two milliseconds, across the end of a window.\<close>

definition five_writes :: "(int \<times> budget_op) list" where
  "five_writes = map (\<lambda>t. (t, Write laptop)) [0, 59999, 59999, 60000, 60000, 60000, 60000]"

lemma five_writes_allowed:
  "snd (run_ops budget_do five_writes ([], [])) =
     map (\<lambda>t. (t, ''d1|unknown-ip'')) [0, 59999, 59999, 60000, 60000, 60000]"
  by code_simp

lemma control_plane_writes_bounded_witness:
  "length (recent 60000 (writes ''d1|unknown-ip'' (snd (run_ops budget_do five_writes ([], []))))) \<le> 5"
proof -
  have "{write_key client |client. Write client \<in> snd ` set five_writes} = {write_key laptop}"
    by (auto simp: five_writes_def)
  moreover have "clock_order 0 five_writes" "final_clock 0 five_writes \<le> 60000" by (simp_all add: five_writes_def)
  ultimately show ?thesis using control_plane_writes_bounded [of 0 five_writes 60000] by simp
qed

end
