(* ===== verification/Task_Registry.thy ===== *)
theory Task_Registry
  imports Task_Store
begin

text \<open>
  The registry of background tasks, \<^verbatim>\<open>src/tasks/task-registry.ts\<close>: records and delivery states in
  memory with four indexes, written through to SQLite, mirrored into the flows of \<open>Task_Flow\<close>, and
  announced to the session that owns a task.  What the module calls outside (the session's event
  queue, the heartbeat, the channel) is recorded in \<open>outbox\<close>; a message handed to a channel is a
  pending \<open>send\<close> until it settles.  \<open>task_env\<close> holds what the registry takes from elsewhere: the JSON
  columns, \<^verbatim>\<open>normalizeDeliveryContext\<close>, the routing predicates and the wording of the announcements.
  The clock is read once per operation.
\<close>

section \<open>State\<close>

datatype event_kind = KStatus task_status | KProgress

record task_event =
  e_at :: int
  e_kind :: event_kind
  e_summary :: "string option"

datatype effect =
    SystemEvent string string string "js option"
  | Heartbeat string string
  | SendMessage string string string "js option"
  | TaskUpserted task_record "task_record option"
  | TaskDeleted string task_record
  | TasksRestored "task_record list"

text \<open>Whom an announcement is for: the session, where it came from, and the flow it speaks for.\<close>

record delivery_owner =
  o_session :: "string option"
  o_origin :: "js option"
  o_flow :: "string option"

datatype send =
    SendTerminal task_record string delivery_owner
  | SendChange task_record task_event string delivery_owner "js option"

type_synonym index = "(string \<times> string list) list"

record task_env =
  jio :: json_io
  norm_origin :: "js \<Rightarrow> js option"
  group_session :: "string option \<Rightarrow> bool"
  message_channel :: "string \<Rightarrow> bool"
  terminal_text :: "task_record \<Rightarrow> string"
  followup_text :: "task_record \<Rightarrow> string"
  started_text :: "task_record \<Rightarrow> string"
  progress_text :: "task_record \<Rightarrow> string option \<Rightarrow> string option"

record tasks_state =
  records :: "(string \<times> task_record) list"
  delivery :: "(string \<times> delivery_state) list"
  by_run :: index
  by_owner :: index
  by_flow :: index
  by_session :: index
  delivering :: "string list"
  restored :: bool
  task_rows :: "(string \<times> task_row) list"
  delivery_rows :: "(string \<times> delivery_row) list"
  flow_reg :: registry
  sends :: "send list"
  outbox :: "effect list"

definition emit :: "effect list \<Rightarrow> tasks_state \<Rightarrow> tasks_state" where
  "emit es s = s\<lparr>outbox := outbox s @ es\<rparr>"

definition record_of :: "tasks_state \<Rightarrow> string \<Rightarrow> task_record option" where
  "record_of s i = map_of (records s) i"

section \<open>Indexes\<close>

definition ids_at :: "index \<Rightarrow> string \<Rightarrow> string list" where
  "ids_at ix k = (case map_of ix k of None \<Rightarrow> [] | Some us \<Rightarrow> us)"

definition add_key :: "string option \<Rightarrow> string \<Rightarrow> index \<Rightarrow> index" where
  "add_key k i ix = (case k of None \<Rightarrow> ix
     | Some k \<Rightarrow> let us = ids_at ix k in AList.update k (if i \<in> set us then us else us @ [i]) ix)"

definition del_key :: "string option \<Rightarrow> string \<Rightarrow> index \<Rightarrow> index" where
  "del_key k i ix = (case k of None \<Rightarrow> ix
     | Some k \<Rightarrow> (case map_of ix k of None \<Rightarrow> ix
         | Some us \<Rightarrow> let rest = remove1 i us in
             if rest = [] then AList.delete k ix else AList.update k rest ix))"

definition run_key :: "task_record \<Rightarrow> string option" where
  "run_key t = norm_opt (t_run t)"

definition owner_of :: "task_record \<Rightarrow> string option" where
  "owner_of t = norm_opt (Some (t_owner t))"

definition flow_key :: "task_record \<Rightarrow> string option" where
  "flow_key t = norm_opt (t_parent_flow t)"

definition session_keys :: "task_record \<Rightarrow> string list" where
  "session_keys t = (let ks = List.map_filter id [owner_of t, norm_opt (t_child t)] in
     case ks of [a, b] \<Rightarrow> if a = b then [a] else [a, b] | _ \<Rightarrow> ks)"

definition add_keys :: "string list \<Rightarrow> string \<Rightarrow> index \<Rightarrow> index" where
  "add_keys ks i ix = fold (\<lambda>k. add_key (Some k) i) ks ix"

definition del_keys :: "string list \<Rightarrow> string \<Rightarrow> index \<Rightarrow> index" where
  "del_keys ks i ix = fold (\<lambda>k. del_key (Some k) i) ks ix"

definition build_index :: "(task_record \<Rightarrow> string list) \<Rightarrow> (string \<times> task_record) list \<Rightarrow> index" where
  "build_index keys ts = fold (\<lambda>(i, t). add_keys (keys t) i) ts []"

definition opt_list :: "'a option \<Rightarrow> 'a list" where
  "opt_list v = (case v of None \<Rightarrow> [] | Some x \<Rightarrow> [x])"

definition rebuild_runs :: "tasks_state \<Rightarrow> tasks_state" where
  "rebuild_runs s = s\<lparr>by_run := build_index (\<lambda>t. opt_list (run_key t)) (records s)\<rparr>"

definition rebuild_all :: "tasks_state \<Rightarrow> tasks_state" where
  "rebuild_all s = (rebuild_runs s)\<lparr>
     by_owner := build_index (\<lambda>t. opt_list (owner_of t)) (records s),
     by_flow := build_index (\<lambda>t. opt_list (flow_key t)) (records s),
     by_session := build_index session_keys (records s)\<rparr>"

section \<open>Lookups\<close>

definition records_at :: "tasks_state \<Rightarrow> string list \<Rightarrow> task_record list" where
  "records_at s us = List.map_filter (record_of s) us"

definition tasks_by_run :: "tasks_state \<Rightarrow> string \<Rightarrow> task_record list" where
  "tasks_by_run s run = records_at s (ids_at (by_run s) (trim run))"

definition run_scope_key :: "task_record \<Rightarrow> task_runtime \<times> task_scope \<times> string \<times> string" where
  "run_scope_key t = (t_runtime t, t_scope t, opt_else (owner_of t) [], opt_else (norm_opt (t_child t)) [])"

definition tasks_by_scope ::
  "tasks_state \<Rightarrow> string \<Rightarrow> task_runtime option \<Rightarrow> string option \<Rightarrow> task_record list" where
  "tasks_by_scope s run rt session =
     (let matches = filter (\<lambda>t. rt = None \<or> rt = Some (t_runtime t)) (tasks_by_run s run) in
      case norm_opt session of
        Some k \<Rightarrow>
          (let children = filter (\<lambda>t. norm_opt (t_child t) = Some k) matches in
           if children \<noteq> [] then children
           else filter (\<lambda>t. t_scope t = SSession \<and> owner_of t = Some k) matches)
      | None \<Rightarrow> if length (remdups (map run_scope_key matches)) \<le> 1 then matches else [])"

definition peers_of :: "tasks_state \<Rightarrow> task_record \<Rightarrow> task_record list" where
  "peers_of s t = (case run_key t of None \<Rightarrow> []
     | Some run \<Rightarrow> filter (\<lambda>u. run_scope_key u = run_scope_key t) (tasks_by_run s run))"

definition lookup_priority :: "task_record \<Rightarrow> int" where
  "lookup_priority t = (if t_runtime t = RCli then 1 else 0)"

definition pick_preferred :: "task_record list \<Rightarrow> task_record option" where
  "pick_preferred ts = (case sort_key lookup_priority (sort_key t_created ts) of [] \<Rightarrow> None | t # _ \<Rightarrow> Some t)"

text \<open>Newest first; among equals the one inserted last.\<close>

definition newest_first :: "task_record list \<Rightarrow> task_record list" where
  "newest_first ts = sort_key (\<lambda>t. - t_created t) (rev ts)"

definition list_from_index :: "tasks_state \<Rightarrow> index \<Rightarrow> string option \<Rightarrow> task_record list" where
  "list_from_index s ix k = (case k of None \<Rightarrow> [] | Some k \<Rightarrow> newest_first (records_at s (ids_at ix k)))"

definition tasks_of_flow :: "tasks_state \<Rightarrow> string \<Rightarrow> task_record list" where
  "tasks_of_flow s fid = list_from_index s (by_flow s) (norm_opt (Some fid))"

definition has_active_tasks :: "tasks_state \<Rightarrow> string \<Rightarrow> bool" where
  "has_active_tasks s fid = list_ex (\<lambda>t. active_task (t_status t)) (tasks_of_flow s fid)"

section \<open>Linking a task to a flow\<close>

datatype task_error =
    OwnerRequired
  | ScopeKindNotSession
  | ParentFlowNotFound
  | OwnerKeyMismatch
  | CancelRequested
  | FlowTerminal flow_status

definition assert_task_owner :: "string \<Rightarrow> task_scope \<Rightarrow> task_error + unit" where
  "assert_task_owner owner scope = (if trim owner = [] \<and> scope \<noteq> SSystem then Inl OwnerRequired else Inr ())"

definition flow_closed :: "flow_status \<Rightarrow> bool" where
  "flow_closed st \<longleftrightarrow> st = FSucceeded \<or> st = FFailed \<or> st = FCancelled \<or> st = FLost"

definition flow_at :: "task_env \<Rightarrow> string \<Rightarrow> tasks_state \<Rightarrow> flow option \<times> tasks_state" where
  "flow_at e i s = (case get_flow (jio e) i (flow_reg s) of (f, r) \<Rightarrow> (f, s\<lparr>flow_reg := r\<rparr>))"

definition assert_link_allowed ::
  "task_env \<Rightarrow> string \<Rightarrow> task_scope \<Rightarrow> string option \<Rightarrow> tasks_state \<Rightarrow> (task_error + unit) \<times> tasks_state" where
  "assert_link_allowed e owner scope parent s = (case norm_opt parent of None \<Rightarrow> (Inr (), s)
     | Some fid \<Rightarrow>
         if scope \<noteq> SSession then (Inl ScopeKindNotSession, s)
         else (case flow_at e fid s of
             (None, s1) \<Rightarrow> (Inl ParentFlowNotFound, s1)
           | (Some f, s1) \<Rightarrow>
               if norm_opt (Some (owner_key f)) \<noteq> norm_opt (Some owner) then (Inl OwnerKeyMismatch, s1)
               else if cancel_requested_at f \<noteq> None then (Inl CancelRequested, s1)
               else if flow_closed (status f) then (Inl (FlowTerminal (status f)), s1)
               else (Inr (), s1)))"

section \<open>Write-through\<close>

definition persist_task :: "task_env \<Rightarrow> task_record \<Rightarrow> tasks_state \<Rightarrow> tasks_state" where
  "persist_task e t s = s\<lparr>task_rows := AList.update (t_id t) (bind_task t) (task_rows s),
     delivery_rows := (case map_of (delivery s) (t_id t) of
         None \<Rightarrow> AList.delete (t_id t) (delivery_rows s)
       | Some d \<Rightarrow> AList.update (t_id t) (bind_delivery (jio e) d) (delivery_rows s))\<rparr>"

definition upsert_delivery :: "task_env \<Rightarrow> string \<Rightarrow> js option \<Rightarrow> int option \<Rightarrow> tasks_state \<Rightarrow> tasks_state" where
  "upsert_delivery e i origin notified s =
     (let next = \<lparr>d_origin = Option.bind origin (norm_origin e), d_notified = notified\<rparr> in
      if d_origin next = None \<and> notified = None \<and> map_of (delivery s) i = None then s
      else s\<lparr>delivery := AList.update i next (delivery s),
        delivery_rows := AList.update i (bind_delivery (jio e) next) (delivery_rows s)\<rparr>)"

definition delivery_origin :: "tasks_state \<Rightarrow> string \<Rightarrow> js option" where
  "delivery_origin s i = Option.bind (map_of (delivery s) i) d_origin"

section \<open>Restoring\<close>

definition restore_tasks :: "task_env \<Rightarrow> tasks_state \<Rightarrow> tasks_state" where
  "restore_tasks e s = (if restored s then s
     else let s1 = s\<lparr>restored := True\<rparr> in
       if task_rows s = [] \<and> delivery_rows s = [] then s1
       else let s2 = rebuild_all (s1\<lparr>
           records := fold (\<lambda>(i, t). AList.update i (normalize_timestamps t)) (load_tasks (task_rows s)) (records s),
           delivery := fold (\<lambda>(i, d). AList.update i d) (load_delivery (jio e) (delivery_rows s)) (delivery s)\<rparr>) in
         emit [TasksRestored (map snd (records s2))] s2)"

definition reload_tasks :: "task_env \<Rightarrow> tasks_state \<Rightarrow> tasks_state" where
  "reload_tasks e s = restore_tasks e (s\<lparr>records := [], delivery := [], by_run := [], by_owner := [],
     by_flow := [], by_session := [], delivering := [], restored := False\<rparr>)"

section \<open>Updating a record\<close>

definition cancel_flow_patch :: "int \<Rightarrow> flow_patch" where
  "cancel_flow_patch ended = empty_patch\<lparr>p_status := Some FCancelled, p_blocked_task := Clear,
     p_blocked_summary := Clear, p_wait := Some JNull, p_ended := Put ended, p_updated := Some ended\<rparr>"

definition awaits_cancel :: "flow \<Rightarrow> bool" where
  "awaits_cancel f \<longleftrightarrow> mode f = Managed \<and> cancel_requested_at f \<noteq> None \<and> \<not> flow_closed (status f)"

fun cancel_attempts :: "nat \<Rightarrow> task_env \<Rightarrow> int \<Rightarrow> string \<Rightarrow> int \<Rightarrow> flow \<Rightarrow> tasks_state \<Rightarrow> tasks_state" where
  "cancel_attempts 0 e now fid ended f s = s"
| "cancel_attempts (Suc n) e now fid ended f s =
     (case update_expected (jio e) now fid (revision f) (cancel_flow_patch ended) (flow_reg s) of
        (Inr (RevisionConflict cur), r) \<Rightarrow>
          let s1 = s\<lparr>flow_reg := r\<rparr> in
          if \<not> awaits_cancel cur \<or> has_active_tasks s1 fid then s1
          else cancel_attempts n e now fid ended cur s1
      | (_, r) \<Rightarrow> s\<lparr>flow_reg := r\<rparr>)"

definition sync_cancellation :: "task_env \<Rightarrow> int \<Rightarrow> task_record \<Rightarrow> tasks_state \<Rightarrow> tasks_state" where
  "sync_cancellation e now t s = (case flow_key t of None \<Rightarrow> s
     | Some fid \<Rightarrow> (case flow_at e fid s of
         (None, s1) \<Rightarrow> s1
       | (Some f, s1) \<Rightarrow>
           if \<not> awaits_cancel f \<or> has_active_tasks s1 fid then s1
           else cancel_attempts 2 e now fid (opt_else (t_ended t) (opt_else (t_last_event t) now)) f s1))"

definition sync_flow :: "task_env \<Rightarrow> int \<Rightarrow> task_record \<Rightarrow> tasks_state \<Rightarrow> tasks_state" where
  "sync_flow e now t s = s\<lparr>flow_reg := snd (sync_flow_from_task (jio e) now t (flow_reg s))\<rparr>"

definition reindex :: "string \<Rightarrow> task_record \<Rightarrow> task_record \<Rightarrow> tasks_state \<Rightarrow> tasks_state" where
  "reindex i cur next s =
     (let s1 = (if t_run next \<noteq> None \<and> t_run next \<noteq> Some [] \<and> t_run next \<noteq> t_run cur
           then rebuild_runs s else s);
          s2 = (if owner_of cur \<noteq> owner_of next \<or> norm_opt (t_child cur) \<noteq> norm_opt (t_child next)
           then s1\<lparr>by_owner := add_key (owner_of next) i (del_key (owner_of cur) i (by_owner s1)),
             by_session := add_keys (session_keys next) i (del_keys (session_keys cur) i (by_session s1))\<rparr>
           else s1) in
      if map_option trim (t_parent_flow cur) \<noteq> map_option trim (t_parent_flow next)
      then s2\<lparr>by_flow := add_key (flow_key next) i (del_key (flow_key cur) i (by_flow s2))\<rparr> else s2)"

definition update_record ::
  "task_env \<Rightarrow> int \<Rightarrow> string \<Rightarrow> (task_record \<Rightarrow> task_record) \<Rightarrow> tasks_state \<Rightarrow> task_record option \<times> tasks_state" where
  "update_record e now i patch s = (case record_of s i of None \<Rightarrow> (None, s)
     | Some cur \<Rightarrow>
         let next = with_cleanup now (normalize_timestamps (patch cur));
             s1 = persist_task e next (reindex i cur next (s\<lparr>records := AList.update i next (records s)\<rparr>))
         in (Some next, emit [TaskUpserted next (Some cur)] (sync_cancellation e now next (sync_flow e now next s1))))"

end
