(* ===== verification/Task_Operations.thy ===== *)
theory Task_Operations
  imports Task_Registry
begin

text \<open>
  The operations of \<^verbatim>\<open>src/tasks/task-registry.ts\<close>: announcing a task's end and its progress, creating,
  updating, linking, cancelling and deleting tasks, the agent-event listener, and the lookups.  An
  asynchronous function runs up to its first \<^verbatim>\<open>await\<close> in the caller's turn; what follows the \<^verbatim>\<open>await\<close> is an
  operation of its own (\<open>settle_send\<close>, \<open>cancel_commit\<close>).
\<close>

section \<open>Whom to tell\<close>

definition linked_flow :: "task_env \<Rightarrow> task_record \<Rightarrow> tasks_state \<Rightarrow> flow option \<times> tasks_state" where
  "linked_flow e t s = (case flow_key t of None \<Rightarrow> (None, s)
     | Some fid \<Rightarrow> if t_scope t \<noteq> SSession then (None, s)
         else (case flow_at e fid s of
             (None, s1) \<Rightarrow> (None, s1)
           | (Some f, s1) \<Rightarrow> (if norm_opt (Some (owner_key f)) \<noteq> owner_of t then None else Some f, s1)))"

definition delivery_owner_of :: "task_env \<Rightarrow> task_record \<Rightarrow> tasks_state \<Rightarrow> delivery_owner \<times> tasks_state" where
  "delivery_owner_of e t s = (case linked_flow e t s of
       (Some f, s1) \<Rightarrow> (\<lparr>o_session = Some (trim (owner_key f)),
          o_origin = Option.bind (case requester_origin f of Some x \<Rightarrow> Some x
             | None \<Rightarrow> delivery_origin s1 (t_id t)) (norm_origin e),
          o_flow = Some (flow_id f)\<rparr>, s1)
     | (None, s1) \<Rightarrow> (if t_scope t \<noteq> SSession then \<lparr>o_session = None, o_origin = None, o_flow = None\<rparr>
         else \<lparr>o_session = Some (trim (t_owner t)),
           o_origin = Option.bind (delivery_origin s1 (t_id t)) (norm_origin e), o_flow = None\<rparr>, s1))"

definition owner_session :: "delivery_owner \<Rightarrow> string option" where
  "owner_session w = norm_opt (o_session w)"

text \<open>A string property of a delivery context.\<close>

fun js_field :: "js option \<Rightarrow> string \<Rightarrow> string option" where
  "js_field (Some (JObj kvs)) k = (case map_of kvs k of Some (JStr x) \<Rightarrow> norm_opt (Some x) | _ \<Rightarrow> None)"
| "js_field v k = None"

definition can_deliver :: "task_env \<Rightarrow> delivery_owner \<Rightarrow> bool" where
  "can_deliver e w \<longleftrightarrow> \<not> group_session e (o_session w) \<and>
     (case (js_field (o_origin w) ''channel'', js_field (o_origin w) ''to'') of
        (Some ch, Some _) \<Rightarrow> message_channel e ch | _ \<Rightarrow> False)"

definition missing_owner_status :: "task_record \<Rightarrow> delivery_status" where
  "missing_owner_status t = (if t_scope t = SSystem then DNotApplicable else DParentMissing)"

definition queue_event :: "task_env \<Rightarrow> task_record \<Rightarrow> string \<Rightarrow> tasks_state \<Rightarrow> tasks_state" where
  "queue_event e t msg s = (case delivery_owner_of e t s of (w, s1) \<Rightarrow>
     (case owner_session w of None \<Rightarrow> s1
      | Some k \<Rightarrow> emit [SystemEvent k msg (''task:'' @ t_id t) (o_origin w), Heartbeat ''background-task'' k] s1))"

definition queue_followup :: "task_env \<Rightarrow> task_record \<Rightarrow> tasks_state \<Rightarrow> tasks_state" where
  "queue_followup e t s =
     (if t_status t \<noteq> TSucceeded \<or> t_outcome t \<noteq> Some OBlocked then s
      else case delivery_owner_of e t s of (w, s1) \<Rightarrow>
        (case owner_session w of None \<Rightarrow> s1
         | Some k \<Rightarrow> emit [SystemEvent k (followup_text e t) (''task:'' @ t_id t @ '':blocked-followup'') (o_origin w),
             Heartbeat ''background-task-blocked'' k] s1))"

definition queue_terminal :: "task_env \<Rightarrow> task_record \<Rightarrow> string \<Rightarrow> tasks_state \<Rightarrow> tasks_state" where
  "queue_terminal e t msg s =
     (let s1 = queue_event e t msg s in if t_outcome t = Some OBlocked then queue_followup e t s1 else s1)"

section \<open>Idempotency keys\<close>

definition status_text :: "task_status \<Rightarrow> string" where
  "status_text st = (case st of TQueued \<Rightarrow> ''queued'' | TRunning \<Rightarrow> ''running'' | TSucceeded \<Rightarrow> ''succeeded''
     | TFailed \<Rightarrow> ''failed'' | TTimedOut \<Rightarrow> ''timed_out'' | TCancelled \<Rightarrow> ''cancelled'' | TLost \<Rightarrow> ''lost'')"

definition outcome_text :: "task_record \<Rightarrow> string" where
  "outcome_text t = (if t_status t \<noteq> TSucceeded then ''default''
     else case t_outcome t of None \<Rightarrow> ''default'' | Some OSucceeded \<Rightarrow> ''succeeded'' | Some OBlocked \<Rightarrow> ''blocked'')"

definition terminal_send_key :: "delivery_owner \<Rightarrow> task_record \<Rightarrow> string" where
  "terminal_send_key w t = (case o_flow w of
       Some f \<Rightarrow> ''flow-terminal:'' @ f @ '':'' @ t_id t @ '':'' @ status_text (t_status t) @ '':'' @ outcome_text t
     | None \<Rightarrow> ''task-terminal:'' @ t_id t @ '':'' @ status_text (t_status t) @ '':'' @ outcome_text t)"

definition kind_text :: "event_kind \<Rightarrow> string" where
  "kind_text k = (case k of KStatus st \<Rightarrow> status_text st | KProgress \<Rightarrow> ''progress'')"

definition change_send_key :: "delivery_owner \<Rightarrow> task_record \<Rightarrow> task_event \<Rightarrow> string" where
  "change_send_key w t ev = (case o_flow w of
       Some f \<Rightarrow> ''flow-event:'' @ f @ '':'' @ t_id t @ '':'' @ int_str (e_at ev) @ '':'' @ kind_text (e_kind ev)
     | None \<Rightarrow> ''task-event:'' @ t_id t @ '':'' @ int_str (e_at ev) @ '':'' @ kind_text (e_kind ev))"

section \<open>Announcing the end of a task\<close>

definition set_delivery :: "delivery_status \<Rightarrow> int \<Rightarrow> task_record \<Rightarrow> task_record" where
  "set_delivery d now t = t\<lparr>t_delivery := d, t_last_event := Some now\<rparr>"

definition deliver_terminal :: "task_env \<Rightarrow> int \<Rightarrow> string \<Rightarrow> tasks_state \<Rightarrow> tasks_state" where
  "deliver_terminal e now i s0 = (let s = restore_tasks e s0 in
     case record_of s i of None \<Rightarrow> s
     | Some t \<Rightarrow>
         if \<not> auto_deliver_terminal t \<or> i \<in> set (delivering s) then s
         else let preferred = (if t_run t = None \<or> t_run t = Some [] then None else pick_preferred (peers_of s t)) in
           if suppress_duplicate t (map_option t_id preferred)
           then snd (update_record e now i (set_delivery DNotApplicable now) s)
           else case delivery_owner_of e t s of (w, s1) \<Rightarrow>
             (case owner_session w of
                None \<Rightarrow> snd (update_record e now i (set_delivery (missing_owner_status t) now) s1)
              | Some k \<Rightarrow>
                  let msg = terminal_text e t in
                  if \<not> can_deliver e w
                  then snd (update_record e now i (set_delivery DSessionQueued now) (queue_terminal e t msg s1))
                  else s1\<lparr>delivering := delivering s1 @ [i], sends := sends s1 @ [SendTerminal t msg w]\<rparr>))"

section \<open>Announcing progress\<close>

definition change_text :: "task_env \<Rightarrow> task_record \<Rightarrow> task_event \<Rightarrow> string option" where
  "change_text e t ev = (case e_kind ev of
       KStatus TRunning \<Rightarrow> Some (started_text e t)
     | KProgress \<Rightarrow> progress_text e t (e_summary ev)
     | _ \<Rightarrow> None)"

definition deliver_change :: "task_env \<Rightarrow> int \<Rightarrow> string \<Rightarrow> task_event option \<Rightarrow> tasks_state \<Rightarrow> tasks_state" where
  "deliver_change e now i latest s0 = (let s = restore_tasks e s0 in
     case record_of s i of None \<Rightarrow> s
     | Some t \<Rightarrow>
         if \<not> auto_deliver_change t then s
         else case latest of None \<Rightarrow> s
         | Some ev \<Rightarrow>
             if opt_else (Option.bind (map_of (delivery s) i) d_notified) 0 \<ge> e_at ev then s
             else case change_text e t ev of None \<Rightarrow> s
             | Some msg \<Rightarrow> if msg = [] then s
                 else case delivery_owner_of e t s of (w, s1) \<Rightarrow>
                   (case owner_session w of
                      None \<Rightarrow> snd (update_record e now i (set_delivery (missing_owner_status t) now) s1)
                    | Some k \<Rightarrow>
                        if \<not> can_deliver e w
                        then snd (update_record e now i (\<lambda>t. t\<lparr>t_last_event := Some now\<rparr>)
                               (upsert_delivery e i (delivery_origin s i) (Some (e_at ev)) (queue_event e t msg s1)))
                        else s1\<lparr>sends := sends s1 @ [SendChange t ev msg w (delivery_origin s i)]\<rparr>))"

text \<open>
  After its runtime is loaded a message is handed to the channel, with the idempotency key of that
  moment; it is then accepted or refused.  A runtime that does not load refuses as well.
\<close>

definition dispatch_send :: "task_env \<Rightarrow> send \<Rightarrow> tasks_state \<Rightarrow> tasks_state" where
  "dispatch_send e m s = (case m of
       SendTerminal t msg w \<Rightarrow> (case delivery_owner_of e t s of (w', s1) \<Rightarrow>
         emit [SendMessage (terminal_send_key w' t) (opt_else (owner_session w) []) msg (o_origin w)] s1)
     | SendChange t ev msg w origin \<Rightarrow>
         emit [SendMessage (change_send_key w t ev) (opt_else (owner_session w) []) msg (o_origin w)] s)"

definition settle_send :: "task_env \<Rightarrow> int \<Rightarrow> send \<Rightarrow> bool \<Rightarrow> tasks_state \<Rightarrow> tasks_state" where
  "settle_send e now m accepted s0 = (let s = s0\<lparr>sends := remove1 m (sends s0)\<rparr> in
     case m of
       SendTerminal t msg w \<Rightarrow>
         (let s1 = (if accepted
              then snd (update_record e now (t_id t) (set_delivery DDelivered now)
                     (if t_outcome t = Some OBlocked then queue_followup e t s else s))
              else snd (update_record e now (t_id t) (set_delivery DFailed now) (queue_terminal e t msg s)))
          in s1\<lparr>delivering := remove1 (t_id t) (delivering s1)\<rparr>)
     | SendChange t ev msg w origin \<Rightarrow>
         if accepted
         then snd (update_record e now (t_id t) (\<lambda>t. t\<lparr>t_last_event := Some now\<rparr>)
                (upsert_delivery e (t_id t) origin (Some (e_at ev)) s))
         else s)"

section \<open>Setters by identifier\<close>

definition patch_summary :: "string field \<Rightarrow> string option \<Rightarrow> string option" where
  "patch_summary p cur = (case p of Keep \<Rightarrow> cur | Clear \<Rightarrow> None | Put x \<Rightarrow> norm_summary (Some x))"

definition terminal_outcome :: "task_status \<Rightarrow> task_outcome option \<Rightarrow> task_outcome option" where
  "terminal_outcome st v = (case v of Some x \<Rightarrow> Some x
     | None \<Rightarrow> if st = TSucceeded then Some OSucceeded else None)"

definition patch_outcome :: "task_status \<Rightarrow> task_outcome field \<Rightarrow> task_outcome option \<Rightarrow> task_outcome option" where
  "patch_outcome st p cur = (case p of Keep \<Rightarrow> cur | Clear \<Rightarrow> terminal_outcome st None
     | Put x \<Rightarrow> terminal_outcome st (Some x))"

definition patch_some :: "'a option \<Rightarrow> 'a option \<Rightarrow> 'a option" where
  "patch_some p cur = (case p of None \<Rightarrow> cur | Some x \<Rightarrow> Some x)"

definition set_progress where
  "set_progress e now i summary seen s = update_record e now i (\<lambda>t. t\<lparr>
     t_progress_summary := patch_summary summary (t_progress_summary t),
     t_last_event := patch_some seen (t_last_event t)\<rparr>) (restore_tasks e s)"

definition set_timing where
  "set_timing e now i started ended seen s = update_record e now i (\<lambda>t. t\<lparr>
     t_started := patch_some started (t_started t), t_ended := patch_some ended (t_ended t),
     t_last_event := patch_some seen (t_last_event t)\<rparr>) (restore_tasks e s)"

definition set_cleanup_after where
  "set_cleanup_after e now i (c :: int) s = update_record e now i (\<lambda>t. t\<lparr>t_cleanup := Some c\<rparr>) (restore_tasks e s)"

text \<open>\<open>TLost\<close>, \<open>TQueued\<close> and \<open>TRunning\<close> are outside the type of the status parameter.\<close>

definition end_status :: "task_status \<Rightarrow> bool" where
  "end_status st \<longleftrightarrow> st = TSucceeded \<or> st = TFailed \<or> st = TTimedOut \<or> st = TCancelled"

definition mark_terminal where
  "mark_terminal e now i st ended seen err summary outcome s = update_record e now i (\<lambda>t. t\<lparr>
     t_status := st, t_ended := Some ended, t_last_event := Some (opt_else seen ended),
     t_error := patch_some err (t_error t),
     t_terminal_summary := patch_summary summary (t_terminal_summary t),
     t_outcome := patch_outcome st outcome (t_outcome t)\<rparr>) (restore_tasks e s)"

definition mark_lost where
  "mark_lost e now i ended seen err cleanup s = update_record e now i (\<lambda>t. t\<lparr>
     t_status := TLost, t_ended := Some ended, t_last_event := Some (opt_else seen ended),
     t_error := patch_some err (t_error t), t_cleanup := patch_some cleanup (t_cleanup t)\<rparr>) (restore_tasks e s)"

definition set_notify_policy where
  "set_notify_policy e now i np s =
     update_record e now i (\<lambda>t. t\<lparr>t_notify := np, t_last_event := Some now\<rparr>) (restore_tasks e s)"

section \<open>Updates by run\<close>

definition apply_allowed :: "task_status \<Rightarrow> task_status \<Rightarrow> bool" where
  "apply_allowed cur next =
     (if cur = next then True else if \<not> terminal_task cur then True
      else if \<not> terminal_task next then False else cur = TSucceeded \<and> next \<noteq> TLost)"

record run_update =
  u_status :: "task_status option"
  u_started :: "int option"
  u_ended :: "int option"
  u_last :: "int option"
  u_error :: "string option"
  u_progress :: "string field"
  u_terminal :: "string field"
  u_outcome :: "task_outcome field"
  u_event :: "string option"

definition run_patch :: "run_update \<Rightarrow> task_status \<Rightarrow> task_record \<Rightarrow> task_record" where
  "run_patch u next t = t\<lparr>t_status := opt_else (u_status u) (t_status t),
     t_started := patch_some (u_started u) (t_started t), t_ended := patch_some (u_ended u) (t_ended t),
     t_last_event := patch_some (u_last u) (t_last_event t), t_error := patch_some (u_error u) (t_error t),
     t_progress_summary := patch_summary (u_progress u) (t_progress_summary t),
     t_terminal_summary := patch_summary (u_terminal u) (t_terminal_summary t),
     t_outcome := patch_outcome next (u_outcome u) (t_outcome t)\<rparr>"

definition field_else :: "'a field \<Rightarrow> 'a option \<Rightarrow> 'a option" where
  "field_else p cur = (case p of Put x \<Rightarrow> Some x | _ \<Rightarrow> cur)"

definition run_event :: "int \<Rightarrow> run_update \<Rightarrow> task_record \<Rightarrow> task_event option" where
  "run_event now u t =
     (let next = opt_else (u_status u) (t_status t);
          time = opt_else (u_last u) (opt_else (u_ended u) now);
          summary = (case norm_summary (u_event u) of Some x \<Rightarrow> Some x
            | None \<Rightarrow> if next = TFailed then norm_summary (patch_some (u_error u) (t_error t))
                else if next = TSucceeded then norm_summary (field_else (u_terminal u) (t_terminal_summary t))
                else None) in
      if u_status u \<noteq> None \<and> u_status u \<noteq> Some (t_status t) \<or> norm_summary (u_event u) \<noteq> None
      then Some \<lparr>e_at = time,
        e_kind = (if u_status u \<noteq> None \<and> next \<noteq> t_status t then KStatus next else KProgress),
        e_summary = norm_summary summary\<rparr>
      else None)"

definition announce :: "task_env \<Rightarrow> int \<Rightarrow> string \<Rightarrow> task_event option \<Rightarrow> tasks_state \<Rightarrow> tasks_state" where
  "announce e now i ev s = deliver_terminal e now i (deliver_change e now i ev s)"

definition update_one :: "task_env \<Rightarrow> int \<Rightarrow> run_update \<Rightarrow> task_record \<Rightarrow> tasks_state \<Rightarrow> tasks_state" where
  "update_one e now u t s =
     (let next = opt_else (u_status u) (t_status t) in
      if u_status u \<noteq> None \<and> \<not> apply_allowed (t_status t) next then s
      else case update_record e now (t_id t) (run_patch u next) s of
          (None, s1) \<Rightarrow> s1
        | (Some n, s1) \<Rightarrow> announce e now (t_id n) (run_event now u t) s1)"

definition update_state_by_run ::
  "task_env \<Rightarrow> int \<Rightarrow> string \<Rightarrow> task_runtime option \<Rightarrow> string option \<Rightarrow> run_update \<Rightarrow> tasks_state \<Rightarrow> tasks_state" where
  "update_state_by_run e now run rt session u s0 = (let s = restore_tasks e s0 in
     fold (update_one e now u) (tasks_by_scope s run rt session) s)"

definition no_update :: run_update where
  "no_update = \<lparr>u_status = None, u_started = None, u_ended = None, u_last = None, u_error = None,
     u_progress = Keep, u_terminal = Keep, u_outcome = Keep, u_event = None\<rparr>"

definition mark_running_by_run where
  "mark_running_by_run e now run rt session started seen progress ev s =
     update_state_by_run e now run rt session (no_update\<lparr>u_status := Some TRunning, u_started := started,
       u_last := seen, u_progress := progress, u_event := ev\<rparr>) s"

definition record_progress_by_run where
  "record_progress_by_run e now run rt session seen progress ev s =
     update_state_by_run e now run rt session (no_update\<lparr>u_last := seen, u_progress := progress, u_event := ev\<rparr>) s"

definition finalize_by_run where
  "finalize_by_run e now run rt session st started ended seen err progress summary outcome s =
     update_state_by_run e now run rt session \<lparr>u_status = Some st, u_started = started, u_ended = Some ended,
       u_last = seen, u_error = err, u_progress = progress, u_terminal = summary, u_outcome = outcome,
       u_event = None\<rparr> s"

definition set_run_delivery where
  "set_run_delivery e now run rt session d err s0 = (let s = restore_tasks e s0 in
     fold (\<lambda>t. snd \<circ> update_record e now (t_id t) (\<lambda>t. t\<lparr>t_delivery := d, t_error := patch_some err (t_error t)\<rparr>))
       (tasks_by_scope s run rt session) s)"

end
