(* ===== verification/Task_Lifecycle.thy ===== *)
theory Task_Lifecycle
  imports Task_Operations
begin

text \<open>
  The rest of \<^verbatim>\<open>src/tasks/task-registry.ts\<close>: creating a task or merging it into the one its run already
  has, linking it to a flow, the agent-event listener, cancelling, deleting, the lookups and the summary of
  \<^verbatim>\<open>task-registry.summary.ts\<close>; and \<open>task_step\<close>, every operation that can change the registry.
\<close>

section \<open>Creating a task\<close>

record task_params =
  n_runtime :: task_runtime
  n_kind :: "string option"
  n_source :: "string option"
  n_requester :: "string option"
  n_owner :: "string option"
  n_scope :: "task_scope option"
  n_origin :: "js option"
  n_child :: "string option"
  n_parent_flow :: "string option"
  n_parent_task :: "string option"
  n_agent :: "string option"
  n_run :: "string option"
  n_label :: "string option"
  n_task :: string
  n_prefer :: bool
  n_status :: "task_status option"
  n_delivery :: "delivery_status option"
  n_notify :: "notify_policy option"
  n_started :: "int option"
  n_last :: "int option"
  n_cleanup :: "int option"
  n_progress :: "string option"
  n_terminal :: "string option"
  n_outcome :: "task_outcome option"

definition requester_session_key :: "task_params \<Rightarrow> string" where
  "requester_session_key p = (case norm_opt (n_requester p) of Some k \<Rightarrow> k
     | None \<Rightarrow> if n_scope p = Some SSystem then []
         else (case n_owner p of None \<Rightarrow> [] | Some k \<Rightarrow> trim k))"

definition scope_kind :: "task_params \<Rightarrow> string \<Rightarrow> task_scope" where
  "scope_kind p requester = (case n_scope p of Some k \<Rightarrow> k
     | None \<Rightarrow> if trim requester = [] then SSystem else SSession)"

definition task_owner_key :: "task_params \<Rightarrow> string \<Rightarrow> string" where
  "task_owner_key p requester = (case norm_opt (n_owner p) of Some k \<Rightarrow> k | None \<Rightarrow> trim requester)"

definition task_agent :: "string option \<Rightarrow> string \<Rightarrow> string \<Rightarrow> string option" where
  "task_agent given owner requester = (case norm_opt given of Some a \<Rightarrow> Some a
     | None \<Rightarrow> (case parse_agent_key (Some owner) of Some (a, _) \<Rightarrow> Some a
         | None \<Rightarrow> map_option fst (parse_agent_key (Some requester))))"

definition initial_delivery :: "string \<Rightarrow> task_scope \<Rightarrow> delivery_status" where
  "initial_delivery owner scope = (if scope = SSystem then DNotApplicable
     else if trim owner = [] then DParentMissing else DPending)"

definition initial_notify ::
  "notify_policy option \<Rightarrow> delivery_status option \<Rightarrow> string \<Rightarrow> task_scope \<Rightarrow> notify_policy" where
  "initial_notify given d owner scope = (case given of Some np \<Rightarrow> np
     | None \<Rightarrow> if opt_else d (initial_delivery owner scope) = DNotApplicable then Silent else DoneOnly)"

definition same_text :: "string option \<Rightarrow> string option \<Rightarrow> bool" where
  "same_text a b \<longleftrightarrow> opt_else (norm_opt a) [] = opt_else (norm_opt b) []"

definition find_existing :: "tasks_state \<Rightarrow> task_params \<Rightarrow> string \<Rightarrow> task_scope \<Rightarrow> task_record option" where
  "find_existing s p owner scope = (case norm_opt (n_run p) of None \<Rightarrow> None
     | Some run \<Rightarrow>
         let matches = filter (\<lambda>t. t_runtime t = n_runtime p \<and> t_scope t = scope \<and>
               same_text (Some (t_owner t)) (Some owner) \<and> same_text (t_child t) (n_child p) \<and>
               same_text (t_parent_flow t) (n_parent_flow p)) (tasks_by_run s run) in
         case List.find (\<lambda>t. same_text (t_label t) (n_label p) \<and> same_text (Some (t_task t)) (Some (n_task p))) matches of
           Some t \<Rightarrow> Some t
         | None \<Rightarrow> if n_runtime p \<noteq> RAcp then None else pick_preferred matches)"

text \<open>A blank field of the record is filled by the parameter.\<close>

definition fill :: "string option \<Rightarrow> string option \<Rightarrow> string option" where
  "fill new cur = (if norm_opt new \<noteq> None \<and> norm_opt cur = None then norm_opt new else cur)"

definition merge_patch :: "task_params \<Rightarrow> string option \<Rightarrow> task_record \<Rightarrow> task_record" where
  "merge_patch p agent t = t\<lparr>
     t_source := fill (n_source p) (t_source t), t_kind := fill (n_kind p) (t_kind t),
     t_parent_flow := fill (n_parent_flow p) (t_parent_flow t),
     t_parent_task := fill (n_parent_task p) (t_parent_task t), t_agent := fill agent (t_agent t),
     t_label := (if n_prefer p
       then (if norm_opt (n_label p) \<noteq> None \<and> \<not> same_text (t_label t) (n_label p) then norm_opt (n_label p) else t_label t)
       else fill (n_label p) (t_label t)),
     t_task := (if n_prefer p \<and> trim (n_task p) \<noteq> [] \<and> \<not> same_text (Some (t_task t)) (Some (n_task p))
       then trim (n_task p) else t_task t),
     t_delivery := (if n_delivery p = Some DPending \<and> t_delivery t \<noteq> DDelivered then DPending else t_delivery t),
     t_notify := (if t_notify t = Silent then initial_notify (n_notify p) (n_delivery p) (t_owner t) (t_scope t)
       else t_notify t)\<rparr>"

text \<open>
  Whether the patch object has a key: \<^verbatim>\<open>deliveryStatus\<close> is set whenever the task may be pending again,
  even if it is already.
\<close>

definition merge_writes :: "task_params \<Rightarrow> string option \<Rightarrow> task_record \<Rightarrow> bool" where
  "merge_writes p agent t \<longleftrightarrow> merge_patch p agent t \<noteq> t \<or> n_delivery p = Some DPending \<and> t_delivery t \<noteq> DDelivered"

definition merge_existing ::
  "task_env \<Rightarrow> int \<Rightarrow> task_params \<Rightarrow> string option \<Rightarrow> task_record \<Rightarrow> tasks_state \<Rightarrow> (task_error + task_record) \<times> tasks_state" where
  "merge_existing e now p agent t s =
     (let origin = Option.bind (n_origin p) (norm_origin e);
          s1 = (if origin \<noteq> None \<and> delivery_origin s (t_id t) = None
            then upsert_delivery e (t_id t) origin (Option.bind (map_of (delivery s) (t_id t)) d_notified) s else s) in
      case (if norm_opt (n_parent_flow p) \<noteq> None \<and> norm_opt (t_parent_flow t) = None
          then assert_link_allowed e (t_owner t) (t_scope t) (n_parent_flow p) s1 else (Inr (), s1)) of
        (Inl err, s2) \<Rightarrow> (Inl err, s2)
      | (Inr _, s2) \<Rightarrow>
          if \<not> merge_writes p agent t then (Inr t, s2)
          else (case update_record e now (t_id t) (merge_patch p agent) s2 of
              (None, s3) \<Rightarrow> (Inr t, s3) | (Some n, s3) \<Rightarrow> (Inr n, s3)))"

definition new_task :: "string \<Rightarrow> int \<Rightarrow> task_params \<Rightarrow> string \<Rightarrow> string \<Rightarrow> task_scope \<Rightarrow> string option \<Rightarrow> task_record" where
  "new_task uuid now p requester owner scope agent =
     (let st = opt_else (n_status p) TQueued; d = opt_else (n_delivery p) (initial_delivery owner scope) in
      with_cleanup now (normalize_timestamps \<lparr>t_id = uuid, t_runtime = n_runtime p, t_kind = norm_opt (n_kind p),
        t_source = norm_opt (n_source p), t_requester = requester, t_owner = owner, t_scope = scope,
        t_child = n_child p, t_parent_flow = norm_opt (n_parent_flow p),
        t_parent_task = norm_opt (n_parent_task p), t_agent = agent, t_run = norm_opt (n_run p),
        t_label = norm_opt (n_label p), t_task = n_task p, t_status = st, t_delivery = d,
        t_notify = initial_notify (n_notify p) (Some d) owner scope, t_created = now, t_started = n_started p,
        t_ended = None, t_last_event = Some (opt_else (n_last p) (opt_else (n_started p) now)),
        t_cleanup = n_cleanup p, t_error = None, t_progress_summary = norm_summary (n_progress p),
        t_terminal_summary = norm_summary (n_terminal p), t_outcome = terminal_outcome st (n_outcome p)\<rparr>))"

definition index_task :: "task_record \<Rightarrow> tasks_state \<Rightarrow> tasks_state" where
  "index_task t s = s\<lparr>by_run := add_key (run_key t) (t_id t) (by_run s),
     by_owner := add_key (owner_of t) (t_id t) (by_owner s), by_flow := add_key (flow_key t) (t_id t) (by_flow s),
     by_session := add_keys (session_keys t) (t_id t) (by_session s)\<rparr>"

definition insert_record :: "task_env \<Rightarrow> int \<Rightarrow> js option \<Rightarrow> task_record \<Rightarrow> tasks_state \<Rightarrow> tasks_state" where
  "insert_record e now origin t s =
     (let s1 = upsert_delivery e (t_id t) (Option.bind origin (norm_origin e)) None
            (s\<lparr>records := AList.update (t_id t) t (records s)\<rparr>) in
      emit [TaskUpserted t None] (sync_flow e now t (persist_task e t (index_task t s1))))"

definition insert_task :: "task_env \<Rightarrow> int \<Rightarrow> js option \<Rightarrow> task_record \<Rightarrow> tasks_state \<Rightarrow> tasks_state" where
  "insert_task e now origin t s = (let s1 = insert_record e now origin t s in
     if terminal_task (t_status t) then deliver_terminal e now (t_id t) s1 else s1)"

definition create_task_record ::
  "task_env \<Rightarrow> string \<Rightarrow> int \<Rightarrow> task_params \<Rightarrow> tasks_state \<Rightarrow> (task_error + task_record) \<times> tasks_state" where
  "create_task_record e uuid now p s0 =
     (let s = restore_tasks e s0; requester = requester_session_key p; scope = scope_kind p requester;
          owner = task_owner_key p requester; agent = task_agent (n_agent p) owner requester in
      case assert_task_owner owner scope of Inl err \<Rightarrow> (Inl err, s)
      | Inr _ \<Rightarrow> (case assert_link_allowed e owner scope (n_parent_flow p) s of
          (Inl err, s1) \<Rightarrow> (Inl err, s1)
        | (Inr _, s1) \<Rightarrow> (case find_existing s1 p owner scope of
            Some t \<Rightarrow> merge_existing e now p agent t s1
          | None \<Rightarrow> let t = new_task uuid now p requester owner scope agent in
              (Inr t, insert_task e now (n_origin p) t s1))))"

section \<open>Linking, cancelling, deleting\<close>

definition link_task_to_flow ::
  "task_env \<Rightarrow> int \<Rightarrow> string \<Rightarrow> string \<Rightarrow> tasks_state \<Rightarrow> (task_error + task_record option) \<times> tasks_state" where
  "link_task_to_flow e now i fid s0 = (let s = restore_tasks e s0; k = trim fid in
     if k = [] then (Inr None, s)
     else case record_of s i of None \<Rightarrow> (Inr None, s)
     | Some t \<Rightarrow> if flow_key t \<noteq> None then (Inr (Some t), s)
         else (case assert_link_allowed e (t_owner t) (t_scope t) (Some k) s of
             (Inl err, s1) \<Rightarrow> (Inl err, s1)
           | (Inr _, s1) \<Rightarrow> map_prod Inr id (update_record e now i (\<lambda>t. t\<lparr>t_parent_flow := Some k\<rparr>) s1)))"

text \<open>
  A command-line task is cancelled at once; for an ACP session or a subagent the registry first awaits its
  control runtime (\<open>CancelAwaits\<close>), then commits.
\<close>

datatype cancel_result =
    CancelNotFound
  | CancelAlreadyTerminal task_record
  | CancelNoChild task_record
  | CancelUnsupported task_record
  | CancelAwaits task_record
  | Cancelled "task_record option"

definition cancel_commit ::
  "task_env \<Rightarrow> int \<Rightarrow> string \<Rightarrow> string option \<Rightarrow> tasks_state \<Rightarrow> cancel_result \<times> tasks_state" where
  "cancel_commit e now i reason s =
     (case update_record e now i (\<lambda>t. t\<lparr>t_status := TCancelled, t_ended := Some now, t_last_event := Some now,
          t_error := Some (opt_else (norm_opt reason) ''Cancelled by operator.'')\<rparr>) s of
        (None, s1) \<Rightarrow> (Cancelled None, s1)
      | (Some t, s1) \<Rightarrow> (Cancelled (Some t), deliver_terminal e now (t_id t) s1))"

definition cancel_task ::
  "task_env \<Rightarrow> int \<Rightarrow> string \<Rightarrow> string option \<Rightarrow> tasks_state \<Rightarrow> cancel_result \<times> tasks_state" where
  "cancel_task e now i reason s0 = (let s = restore_tasks e s0 in
     case record_of s (trim i) of None \<Rightarrow> (CancelNotFound, s)
     | Some t \<Rightarrow>
         if terminal_task (t_status t) then (CancelAlreadyTerminal t, s)
         else if t_runtime t = RCli then cancel_commit e now (t_id t) reason s
         else if norm_opt (t_child t) = None then (CancelNoChild t, s)
         else if t_runtime t = RAcp \<or> t_runtime t = RSubagent then (CancelAwaits t, s)
         else (CancelUnsupported t, s))"

definition remove_record :: "string \<Rightarrow> task_record \<Rightarrow> tasks_state \<Rightarrow> tasks_state" where
  "remove_record i t s =
     (let s1 = rebuild_runs (s\<lparr>by_owner := del_key (owner_of t) i (by_owner s),
            by_flow := del_key (flow_key t) i (by_flow s), by_session := del_keys (session_keys t) i (by_session s),
            records := AList.delete i (records s), delivery := AList.delete i (delivery s)\<rparr>) in
      emit [TaskDeleted (t_id t) t] (s1\<lparr>task_rows := AList.delete i (task_rows s1),
        delivery_rows := AList.delete i (delivery_rows s1)\<rparr>))"

definition delete_task_record :: "task_env \<Rightarrow> string \<Rightarrow> tasks_state \<Rightarrow> bool \<times> tasks_state" where
  "delete_task_record e i s0 = (let s = restore_tasks e s0 in
     case record_of s i of None \<Rightarrow> (False, s) | Some t \<Rightarrow> (True, remove_record i t s))"

section \<open>Agent events\<close>

record agent_event =
  a_run :: string
  a_session :: "string option"
  a_ts :: int
  a_stream :: string
  a_phase :: "string option"
  a_started :: "int option"
  a_ended :: "int option"
  a_aborted :: bool
  a_error :: "string option"

definition event_time :: "int \<Rightarrow> agent_event \<Rightarrow> int" where
  "event_time now v = (if a_ts v \<noteq> 0 then a_ts v else now)"

text \<open>The status an event moves a task to, if any.\<close>

definition event_status :: "agent_event \<Rightarrow> task_status option" where
  "event_status v = (if a_stream v \<noteq> ''lifecycle'' then None
     else if a_phase v = Some ''start'' then Some TRunning
     else if a_phase v = Some ''end'' then Some (if a_aborted v then TTimedOut else TSucceeded)
     else if a_phase v = Some ''error'' then Some TFailed else None)"

definition event_patch :: "int \<Rightarrow> agent_event \<Rightarrow> task_record \<Rightarrow> task_record" where
  "event_patch at' v t =
     (let started = patch_some (a_started v) (t_started t); ends = a_phase v = Some ''end'' \<or> a_phase v = Some ''error'' in
      if a_stream v = ''lifecycle''
      then t\<lparr>t_last_event := Some at',
        t_started := (if started = None \<or> started = Some 0 then t_started t else started),
        t_status := opt_else (event_status v) (t_status t),
        t_ended := (if ends then Some (opt_else (a_ended v) at') else t_ended t),
        t_error := (if a_phase v = Some ''error'' then patch_some (a_error v) (t_error t) else t_error t)\<rparr>
      else if a_stream v = ''error''
      then t\<lparr>t_last_event := Some at', t_error := patch_some (a_error v) (t_error t)\<rparr>
      else t\<lparr>t_last_event := Some at'\<rparr>)"

definition state_change_event :: "int \<Rightarrow> agent_event \<Rightarrow> task_record \<Rightarrow> task_event option" where
  "state_change_event at' v t = (case event_status v of None \<Rightarrow> None
     | Some st \<Rightarrow> if st = t_status t then None
         else Some \<lparr>e_at = at', e_kind = KStatus st, e_summary = norm_summary
           (if st = TFailed then patch_some (a_error v) (t_error t)
            else if st = TSucceeded then t_terminal_summary t else None)\<rparr>)"

definition event_one :: "task_env \<Rightarrow> int \<Rightarrow> agent_event \<Rightarrow> task_record \<Rightarrow> tasks_state \<Rightarrow> tasks_state" where
  "event_one e now v t s = (if terminal_task (t_status t) then s
     else case update_record e now (t_id t) (event_patch (event_time now v) v) s of
         (None, s1) \<Rightarrow> s1
       | (Some _, s1) \<Rightarrow> announce e now (t_id t) (state_change_event (event_time now v) v t) s1)"

definition on_agent_event :: "task_env \<Rightarrow> int \<Rightarrow> agent_event \<Rightarrow> tasks_state \<Rightarrow> tasks_state" where
  "on_agent_event e now v s0 = (let s = restore_tasks e s0 in
     fold (event_one e now v) (tasks_by_scope s (a_run v) None (a_session v)) s)"

section \<open>Lookups and summary\<close>

definition get_task_record :: "tasks_state \<Rightarrow> string \<Rightarrow> task_record option" where
  "get_task_record s i = record_of s (trim i)"

definition list_task_records :: "tasks_state \<Rightarrow> task_record list" where
  "list_task_records s = newest_first (map snd (records s))"

definition find_task_by_run :: "tasks_state \<Rightarrow> string \<Rightarrow> task_record option" where
  "find_task_by_run s run = pick_preferred (tasks_by_run s run)"

definition tasks_of_owner :: "tasks_state \<Rightarrow> string \<Rightarrow> task_record list" where
  "tasks_of_owner s k = list_from_index s (by_owner s) (norm_opt (Some k))"

definition tasks_of_session :: "tasks_state \<Rightarrow> string \<Rightarrow> task_record list" where
  "tasks_of_session s k = list_from_index s (by_session s) (norm_opt (Some k))"

definition tasks_of_agent :: "tasks_state \<Rightarrow> string \<Rightarrow> task_record list" where
  "tasks_of_agent s agent = (if trim agent = [] then []
     else sort_key (\<lambda>t. - t_created t)
       (filter (\<lambda>t. map_option trim (t_agent t) = Some (trim agent)) (map snd (records s))))"

definition first_of :: "task_record list \<Rightarrow> task_record option" where
  "first_of ts = (case ts of [] \<Rightarrow> None | t # _ \<Rightarrow> Some t)"

definition resolve_task_token :: "tasks_state \<Rightarrow> string \<Rightarrow> task_record option" where
  "resolve_task_token s token = (let k = trim token in if k = [] then None
     else case get_task_record s k of Some t \<Rightarrow> Some t
     | None \<Rightarrow> (case find_task_by_run s k of Some t \<Rightarrow> Some t | None \<Rightarrow> first_of (tasks_of_session s k)))"

definition has_active_child :: "tasks_state \<Rightarrow> string \<Rightarrow> string option \<Rightarrow> bool" where
  "has_active_child s session skip = (case norm_opt (Some session) of None \<Rightarrow> False
     | Some k \<Rightarrow> list_ex (\<lambda>i. Some i \<noteq> skip \<and> (case record_of s i of None \<Rightarrow> False
         | Some t \<Rightarrow> active_task (t_status t) \<and> norm_opt (t_child t) = Some k)) (ids_at (by_session s) k))"

record task_summary =
  total_count :: nat
  active_count :: nat
  terminal_count :: nat
  failure_count :: nat
  status_count :: "task_status \<Rightarrow> nat"
  runtime_count :: "task_runtime \<Rightarrow> nat"

definition empty_summary :: task_summary where
  "empty_summary = \<lparr>total_count = 0, active_count = 0, terminal_count = 0, failure_count = 0,
     status_count = (\<lambda>_. 0), runtime_count = (\<lambda>_. 0)\<rparr>"

definition count_task :: "task_record \<Rightarrow> task_summary \<Rightarrow> task_summary" where
  "count_task t m = (let m1 = m\<lparr>total_count := total_count m + 1,
         status_count := (status_count m)(t_status t := status_count m (t_status t) + 1),
         runtime_count := (runtime_count m)(t_runtime t := runtime_count m (t_runtime t) + 1)\<rparr>;
       m2 = (if t_status t = TQueued \<or> t_status t = TRunning then m1\<lparr>active_count := active_count m1 + 1\<rparr>
         else m1\<lparr>terminal_count := terminal_count m1 + 1\<rparr>) in
     if t_status t = TFailed \<or> t_status t = TTimedOut \<or> t_status t = TLost
     then m2\<lparr>failure_count := failure_count m2 + 1\<rparr> else m2)"

definition summarize_tasks :: "task_record list \<Rightarrow> task_summary" where
  "summarize_tasks ts = fold count_task ts empty_summary"

end
