(* ===== verification/Flow_Laws.thy ===== *)
theory Flow_Laws
  imports Task_Flow
begin

text \<open>
  What the task-flow registry promises: records stay well formed, the table mirrors the memory and
  restores it after a restart, an update with an outdated revision is refused and changes nothing,
  revisions only grow, and the statuses follow the tasks they mirror.
\<close>

section \<open>Normalised strings\<close>

lemma dropWhile_idle: "\<not> P (hd xs) \<Longrightarrow> dropWhile P xs = xs"
  by (cases xs) auto

lemma hd_rev_dropWhile:
  assumes "rev (dropWhile P (rev xs)) \<noteq> []"
  shows "hd (rev (dropWhile P (rev xs))) = hd xs"
proof -
  have "rev xs = takeWhile P (rev xs) @ dropWhile P (rev xs)" by simp
  then have "xs = rev (dropWhile P (rev xs)) @ rev (takeWhile P (rev xs))"
    by (metis rev_append rev_rev_ident)
  then show ?thesis using assms by (metis hd_append2)
qed

lemma trim_idem [simp]: "trim (trim s) = trim s"
proof -
  let ?a = "dropWhile js_space s" and ?b = "rev (dropWhile js_space (rev (dropWhile js_space s)))"
  have "dropWhile js_space ?b = ?b"
  proof (cases "?b = []")
    case False
    then have "hd ?b = hd ?a" by (rule hd_rev_dropWhile)
    moreover have "?a \<noteq> []"
    proof
      assume "?a = []"
      then have "?b = []" by (simp only:) simp
      with False show "False" by simp
    qed
    then have "\<not> js_space (hd ?a)" by (rule hd_dropWhile)
    ultimately have "\<not> js_space (hd ?b)" by simp
    then show ?thesis by (rule dropWhile_idle)
  next
    case True
    show ?thesis unfolding True by simp
  qed
  then show ?thesis unfolding trim_def by simp
qed

definition tidy :: "string option \<Rightarrow> bool" where
  "tidy v \<longleftrightarrow> norm_opt v = v"

lemma norm_opt_None [simp]: "norm_opt None = None"
  by (simp add: norm_opt_def)

lemma norm_opt_tidy [simp]: "tidy (norm_opt v)"
  by (auto simp: tidy_def norm_opt_def Let_def split: option.split)

lemma tidy_None [simp]: "tidy None"
  by (simp add: tidy_def norm_opt_def)

lemma tidy_not_empty: "tidy v \<Longrightarrow> v \<noteq> Some []"
  by (auto simp: tidy_def norm_opt_def Let_def split: if_splits)

lemma tidy_Some: "tidy (Some s) \<longleftrightarrow> trim s = s \<and> s \<noteq> []"
  by (auto simp: tidy_def norm_opt_def Let_def)

lemma assert_owner_key_Inr: "assert_owner_key s = Inr t \<longleftrightarrow> t = trim s \<and> t \<noteq> []"
  by (auto simp: assert_owner_key_def norm_opt_def Let_def split: option.splits)

lemma assert_controller_Inr: "assert_controller_id v = Inr t \<longleftrightarrow> norm_opt v = Some t"
  by (auto simp: assert_controller_id_def split: option.splits)

section \<open>Well-formed records\<close>

definition flow_ok :: "flow \<Rightarrow> bool" where
  "flow_ok f \<longleftrightarrow> tidy (Some (owner_key f)) \<and> (mode f = Managed \<longrightarrow> controller_id f \<noteq> None \<and> tidy (controller_id f)) \<and>
     controller_id f \<noteq> Some [] \<and> tidy (current_step f) \<and> tidy (blocked_task_id f) \<and>
     tidy (blocked_summary f) \<and> 0 \<le> revision f"

lemma patch_string_tidy: "tidy cur \<Longrightarrow> tidy (patch_string p cur)"
  by (cases p) (simp_all add: patch_string_def)

lemma patch_string_not_empty: "cur \<noteq> Some [] \<Longrightarrow> patch_string p cur \<noteq> Some []"
  using tidy_not_empty [OF norm_opt_tidy] by (cases p) (auto simp: patch_string_def)

lemma build_flow_ok:
  assumes "build_flow uuid clock p = Inr f"
  shows "flow_ok f" and "flow_id f = uuid"
proof -
  let ?m = "opt_else (c_mode p) Managed"
  obtain ctl owner where ctl: "(if ?m = Managed then map_sum id Some (assert_controller_id (c_controller p))
      else Inr None) = Inr ctl"
    and owner: "assert_owner_key (c_owner p) = Inr owner"
    and f: "mode f = ?m" "owner_key f = owner" "controller_id f = ctl" "flow_id f = uuid"
      "current_step f = norm_opt (c_step p)" "blocked_task_id f = norm_opt (c_blocked_task p)"
      "blocked_summary f = norm_opt (c_blocked_summary p)" "revision f = max 0 (opt_else (c_revision p) 0)"
    using assms unfolding build_flow_def Let_def by auto
  have "?m = Managed \<Longrightarrow> ctl \<noteq> None \<and> tidy ctl"
  proof -
    assume "?m = Managed"
    then obtain c where "assert_controller_id (c_controller p) = Inr c" "ctl = Some c"
      using ctl by (cases "assert_controller_id (c_controller p)") auto
    then show "ctl \<noteq> None \<and> tidy ctl"
      using norm_opt_tidy [of "c_controller p"] by (simp add: assert_controller_Inr)
  qed
  moreover have "?m \<noteq> Managed \<Longrightarrow> ctl = None" using ctl by simp
  moreover have "tidy (Some owner)" using owner by (auto simp: assert_owner_key_Inr tidy_Some)
  ultimately show "flow_ok f"
    using f tidy_not_empty [of ctl] by (cases "?m = Managed") (auto simp: flow_ok_def)
  show "flow_id f = uuid" using f by simp
qed

lemma apply_patch_facts:
  assumes "apply_flow_patch clock cur p = Inr f"
  shows "flow_id f = flow_id cur" "mode f = mode cur" "owner_key f = owner_key cur"
    "revision f = revision cur + 1" "created_at f = created_at cur"
    "requester_origin f = requester_origin cur"
    "status f = opt_else (p_status p) (status cur)"
    "controller_id f = patch_string (p_controller p) (controller_id cur)"
    "current_step f = patch_string (p_step p) (current_step cur)"
    "blocked_task_id f = patch_string (p_blocked_task p) (blocked_task_id cur)"
    "blocked_summary f = patch_string (p_blocked_summary p) (blocked_summary cur)"
    "state_json f = patch_json (p_state p) (state_json cur)"
    "wait_json f = patch_json (p_wait p) (wait_json cur)"
    "cancel_requested_at f = patch_number (p_cancel p) (cancel_requested_at cur)"
    "updated_at f = opt_else (p_updated p) clock"
    "ended_at f = patch_number (p_ended p) (ended_at cur)"
    "mode cur = Managed \<Longrightarrow> norm_opt (controller_id f) \<noteq> None"
  using assms unfolding apply_flow_patch_def Let_def
  by (auto simp: assert_controller_id_def split: if_splits option.splits)

lemma apply_patch_ok:
  assumes "apply_flow_patch clock cur p = Inr f" and "flow_ok cur"
  shows "flow_ok f"
proof -
  note a = apply_patch_facts [OF assms(1)]
  have "mode f = Managed \<Longrightarrow> controller_id f \<noteq> None \<and> tidy (controller_id f)"
  proof -
    assume "mode f = Managed"
    then have "norm_opt (controller_id f) \<noteq> None" and "tidy (controller_id cur)"
      using a(2,17) assms(2) by (simp_all add: flow_ok_def)
    moreover from this have "controller_id f \<noteq> None" by (metis norm_opt_None)
    ultimately show "controller_id f \<noteq> None \<and> tidy (controller_id f)"
      using a(8) patch_string_tidy [of "controller_id cur"] by simp
  qed
  then show ?thesis
    using a assms(2) by (simp add: flow_ok_def patch_string_tidy patch_string_not_empty)
qed

lemma apply_patch_total: "flow_ok cur \<Longrightarrow> p_controller p = Keep \<Longrightarrow> \<exists>f. apply_flow_patch clock cur p = Inr f"
  unfolding apply_flow_patch_def Let_def flow_ok_def tidy_def
  by (cases "controller_id cur") (auto simp: assert_controller_id_def patch_string_def)

lemma normalize_restored_ok:
  assumes "flow_ok f"
  shows "normalize_restored f = Inr f"
proof -
  have "assert_owner_key (owner_key f) = Inr (owner_key f)"
    using assms by (simp add: assert_owner_key_Inr flow_ok_def tidy_Some)
  then show ?thesis
    using assms by (cases f) (auto simp: normalize_restored_def flow_ok_def tidy_def opt_else_def)
qed

section \<open>The table mirrors the memory\<close>

text \<open>
  What a store of records has to provide: a record put under its key is found there, a removed
  key is free, and other keys are left alone.  Both the memory and the table are such stores.
\<close>

locale record_store =
  fixes key :: "'v \<Rightarrow> 'k" and put :: "'v \<Rightarrow> 's \<Rightarrow> 's" and del :: "'k \<Rightarrow> 's \<Rightarrow> 's"
    and get :: "'s \<Rightarrow> 'k \<Rightarrow> 'v option" and wf :: "'v \<Rightarrow> bool"
  assumes get_put: "wf v \<Longrightarrow> get (put v s) = (get s)(key v \<mapsto> v)"
    and get_del: "get (del k s) = (get s)(k := None)"
begin

lemma put_put: "wf v \<Longrightarrow> wf w \<Longrightarrow> key v = key w \<Longrightarrow> get (put w (put v s)) = get (put w s)"
  by (simp add: get_put)

lemma del_put: "wf v \<Longrightarrow> get (del (key v) (put v s)) = get (del (key v) s)"
  by (simp add: get_put get_del)

end

interpretation memory: record_store flow_id "\<lambda>f. AList.update (flow_id f) f" AList.delete map_of "\<lambda>_. True"
  by unfold_locales (simp_all add: update_conv' AList.delete_conv')

text \<open>A record the JSON columns can hold.\<close>

definition json_fits :: "(js \<Rightarrow> string) \<Rightarrow> (string \<Rightarrow> js option) \<Rightarrow> js option \<Rightarrow> bool" where
  "json_fits w r v \<longleftrightarrow> (case v of None \<Rightarrow> True | Some x \<Rightarrow> trim (w x) \<noteq> [] \<and> r (w x) = Some x)"

definition row_ok :: "json_io \<Rightarrow> flow \<Rightarrow> bool" where
  "row_ok io f \<longleftrightarrow> flow_ok f \<and> json_fits (ser io) (par io) (state_json f) \<and>
     json_fits (ser io) (par io) (wait_json f) \<and> json_fits (ser io) (par_origin io) (requester_origin f)"

lemma parse_json_ser: "json_fits w r v \<Longrightarrow> parse_json r (map_option w v) = v"
  by (cases v) (simp_all add: json_fits_def parse_json_def)

lemma non_empty_same: "v \<noteq> Some [] \<Longrightarrow> non_empty v = v"
  by (auto simp: non_empty_def split: option.split)

lemma bind_flow_back:
  assumes "row_ok io f"
  shows "row_to_flow io (bind_flow io shape f) = f"
proof -
  have "row_to_sync_mode (bind_flow io shape f) = mode f"
    by (cases "mode f") (simp_all add: row_to_sync_mode_def bind_flow_def sync_mode_text_def)
  then show ?thesis
    using assms
    by (cases f) (auto simp: row_to_flow_def bind_flow_def row_ok_def flow_ok_def parse_json_ser
        non_empty_same tidy_not_empty opt_else_def)
qed

definition get_row :: "json_io \<Rightarrow> flow_table \<Rightarrow> string \<Rightarrow> flow option" where
  "get_row io rs i = map_option (row_to_flow io) (map_of rs i)"

interpretation stored: record_store flow_id "upsert_row io" delete_row "get_row io" "row_ok io" for io
  by unfold_locales
    (auto simp: get_row_def upsert_row_def delete_row_def Let_def update_conv' AList.delete_conv' bind_flow_back)

section \<open>The invariant of the registry\<close>

definition registry_ok :: "json_io \<Rightarrow> registry \<Rightarrow> bool" where
  "registry_ok io s \<longleftrightarrow> ready s \<and> distinct (map fst (rows s)) \<and>
     (\<forall>(i, r) \<in> set (rows s). r_flow_id r = i) \<and>
     (\<forall>i f. map_of (flows s) i = Some f \<longrightarrow> flow_id f = i \<and> row_ok io f) \<and>
     get_row io (rows s) = map_of (flows s)"

lemma upsert_row_keys:
  assumes "distinct (map fst rs)" and "\<forall>(i, r) \<in> set rs. r_flow_id r = i"
  shows "distinct (map fst (upsert_row io f rs)) \<and> (\<forall>(i, r) \<in> set (upsert_row io f rs). r_flow_id r = i)"
proof -
  have "\<forall>(i, r) \<in> set (AList.update k (v :: flow_row) rs). r_flow_id r = i"
    if "r_flow_id v = k" for k v
    using assms(2) that by (induction rs) (auto split: if_splits)
  moreover have "r_flow_id (bind_flow io shape f) = flow_id f" for shape
    by (simp add: bind_flow_def)
  ultimately have "\<forall>(i, r) \<in> set (AList.update (flow_id f) (bind_flow io shape f) rs). r_flow_id r = i" for shape
    by blast
  then show ?thesis
    using assms(1) by (simp only: upsert_row_def Let_def) (simp add: distinct_update)
qed

lemma write_flow_ok:
  assumes "registry_ok io s" and "row_ok io f"
  shows "registry_ok io (write_flow io f prev s)"
proof -
  have "get_row io (upsert_row io f (rows s)) = map_of (AList.update (flow_id f) f (flows s))"
    using assms by (simp add: stored.get_put memory.get_put registry_ok_def)
  then show ?thesis
    using assms upsert_row_keys [of "rows s" io f]
    by (auto simp: registry_ok_def write_flow_def update_conv' split: if_splits)
qed

lemma ensure_ready_idle [simp]: "registry_ok io s \<Longrightarrow> ensure_ready io s = s"
  by (simp add: ensure_ready_def registry_ok_def)

lemma delete_flow_ok:
  assumes "registry_ok io s"
  shows "registry_ok io (snd (delete_flow io i s))"
proof (cases "map_of (flows s) i")
  case (Some f)
  have "get_row io (delete_row i (rows s)) = map_of (AList.delete i (flows s))"
    using assms by (simp add: stored.get_del memory.get_del registry_ok_def)
  moreover have "set (AList.delete i (rows s)) \<subseteq> set (rows s)" by (auto simp: AList.delete_eq)
  ultimately show ?thesis
    using assms Some
    by (auto simp: delete_flow_def registry_ok_def delete_row_def AList.delete_conv' distinct_delete
        split: if_splits)
qed (simp add: delete_flow_def assms)

lemma update_expected_ok:
  assumes ok: "registry_ok io s"
    and fits: "\<And>cur f. map_of (flows s) i = Some cur \<Longrightarrow> apply_flow_patch clock cur p = Inr f \<Longrightarrow>
      json_fits (ser io) (par io) (state_json f) \<and> json_fits (ser io) (par io) (wait_json f)"
  shows "registry_ok io (snd (update_expected io clock i r p s))"
proof (cases "map_of (flows s) i")
  case (Some cur)
  have "row_ok io f" if "apply_flow_patch clock cur p = Inr f" for f
  proof -
    have "row_ok io cur" using ok Some by (simp add: registry_ok_def)
    then show ?thesis
      using fits [OF Some that] apply_patch_ok [OF that] apply_patch_facts(6) [OF that]
      by (simp add: row_ok_def)
  qed
  then show ?thesis
    using ok Some by (auto simp: update_expected_def intro: write_flow_ok split: sum.split)
qed (simp add: update_expected_def ok)

lemma create_flow_ok:
  assumes "registry_ok io s"
    and "json_fits (ser io) (par io) (c_state p)" "json_fits (ser io) (par io) (c_wait p)"
    and "json_fits (ser io) (par_origin io) (c_origin p)"
  shows "registry_ok io (snd (create_flow io uuid clock p s))"
proof (cases "build_flow uuid clock p")
  case (Inr f)
  have "state_json f = c_state p" "wait_json f = c_wait p" "requester_origin f = c_origin p"
    using Inr by (auto simp: build_flow_def Let_def)
  then have "row_ok io f"
    using assms(2-4) build_flow_ok(1) [OF Inr] by (simp add: row_ok_def)
  with assms(1) Inr show ?thesis
    by (simp add: create_flow_def write_flow_ok)
qed (simp add: create_flow_def assms(1))

lemma update_unchecked_ok:
  assumes ok: "registry_ok io s"
    and fits: "\<And>cur f. map_of (flows s) i = Some cur \<Longrightarrow> apply_flow_patch clock cur p = Inr f \<Longrightarrow>
      json_fits (ser io) (par io) (state_json f) \<and> json_fits (ser io) (par io) (wait_json f)"
  shows "registry_ok io (snd (update_unchecked io clock i p s))"
proof (cases "map_of (flows s) i")
  case (Some cur)
  have "row_ok io f" if "apply_flow_patch clock cur p = Inr f" for f
  proof -
    have "row_ok io cur" using ok Some by (simp add: registry_ok_def)
    then show ?thesis
      using fits [OF Some that] apply_patch_ok [OF that] apply_patch_facts(6) [OF that]
      by (simp add: row_ok_def)
  qed
  then show ?thesis
    using ok Some by (auto simp: update_unchecked_def intro: write_flow_ok split: sum.split)
qed (simp add: update_unchecked_def ok)

text \<open>Mirroring a task writes the JSON value \<^verbatim>\<open>null\<close> into \<^verbatim>\<open>wait_json\<close>.\<close>

definition null_fits :: "json_io \<Rightarrow> bool" where
  "null_fits io \<longleftrightarrow> json_fits (ser io) (par io) (Some JNull)"

lemma sync_flow_ok:
  assumes ok: "registry_ok io s" and null: "null_fits io"
  shows "registry_ok io (snd (sync_flow_from_task io clock t s))"
proof (cases "norm_opt (t_parent_flow t)")
  case (Some i)
  have "registry_ok io (snd (update_unchecked io clock i (sync_patch t f) s))"
    if "map_of (flows s) i = Some f" for f
  proof (rule update_unchecked_ok [OF ok])
    fix cur g
    assume cur: "map_of (flows s) i = Some cur" and g: "apply_flow_patch clock cur (sync_patch t f) = Inr g"
    have "row_ok io cur" using ok cur by (simp add: registry_ok_def)
    moreover have "state_json g = state_json cur" "wait_json g = Some JNull"
      using apply_patch_facts(12,13) [OF g]
      by (simp_all add: sync_patch_def Let_def empty_patch_def patch_json_def)
    ultimately show "json_fits (ser io) (par io) (state_json g) \<and> json_fits (ser io) (par io) (wait_json g)"
      using null by (simp add: row_ok_def null_fits_def)
  qed
  then show ?thesis
    using ok Some by (auto simp: sync_flow_from_task_def get_flow_def split: option.split)
qed (simp add: sync_flow_from_task_def ok)

section \<open>A restart restores the registry\<close>

definition restart :: "registry \<Rightarrow> registry" where
  "restart s = s\<lparr>flows := [], ready := False, restore_failure := None\<rparr>"

lemma map_of_sort:
  assumes "distinct (map fst rs)" and "mset qs = mset rs"
  shows "map_of qs = map_of rs"
proof -
  have "distinct (map fst qs)"
    using assms by (metis mset_eq_imp_distinct_iff mset_map)
  then show ?thesis
    using assms by (simp add: map_of_inject_set) (metis set_mset_mset)
qed

lemma load_rows_map:
  assumes "distinct (map fst rs)" and "\<forall>(i, r) \<in> set rs. r_flow_id r = i"
  shows "map_of (load_rows io rs) = get_row io rs" and "distinct (map fst (load_rows io rs))"
proof -
  define qs where "qs = sort_key (\<lambda>(i, r). opt_else (r_created_at r) 0) (sort_key (\<lambda>(i, r). r_flow_id r) rs)"
  have qs: "mset qs = mset rs" by (simp add: qs_def)
  then have set: "set qs = set rs" by (metis set_mset_mset)
  have load: "load_rows io rs = map (\<lambda>(i, r). (i, row_to_flow io r)) qs"
    unfolding load_rows_def qs_def [symmetric] using assms(2) set by (intro map_cong refl) auto
  have "map_of qs = map_of rs" using assms(1) qs by (rule map_of_sort)
  then show "map_of (load_rows io rs) = get_row io rs"
    unfolding load map_of_map by (simp add: fun_eq_iff get_row_def)
  have "distinct (map fst qs)"
    using assms(1) qs by (metis mset_eq_imp_distinct_iff mset_map)
  moreover have "map fst (load_rows io rs) = map fst qs" by (simp add: load comp_def case_prod_unfold)
  ultimately show "distinct (map fst (load_rows io rs))" by simp
qed

lemma restore_flows_ok:
  assumes "\<forall>(i, f) \<in> set ls. flow_ok f" and "distinct (map fst ls)"
  shows "\<exists>fs. restore_flows ls = Inr fs \<and> map_of fs = map_of ls"
proof -
  have *: "\<exists>fs. foldE (\<lambda>(i, f) acc. bindE (normalize_restored f) (\<lambda>g. Inr (AList.update i g acc))) ls acc =
      Inr fs \<and> map_of fs = map_of acc ++ map_of ls"
    if "\<forall>(i, f) \<in> set ls. flow_ok f" "distinct (map fst ls)" for ls acc
    using that
  proof (induction ls arbitrary: acc)
    case (Cons x ls)
    obtain i f where x: "x = (i, f)" by (cases x)
    obtain fs where fs: "foldE (\<lambda>(i, f) acc. bindE (normalize_restored f) (\<lambda>g. Inr (AList.update i g acc)))
        ls (AList.update i f acc) = Inr fs" "map_of fs = map_of (AList.update i f acc) ++ map_of ls"
      using Cons.IH [of "AList.update i f acc"] Cons.prems by auto
    have "map_of ls i = None" using Cons.prems(2) x by (simp add: map_of_eq_None_iff)
    then have "map_of (AList.update i f acc) ++ map_of ls = map_of acc ++ map_of (x # ls)"
      by (auto simp: x update_conv' map_add_def fun_eq_iff split: option.split)
    with fs show ?case using Cons.prems(1) by (simp add: x normalize_restored_ok del: map_of.simps)
  qed simp
  show ?thesis using * [OF assms, of "[]"] by (simp add: restore_flows_def)
qed

lemma restart_restores:
  assumes "registry_ok io s"
  shows "map_of (flows (ensure_ready io (restart s))) = map_of (flows s)"
    and "restore_failure (ensure_ready io (restart s)) = None"
    and "registry_ok io (ensure_ready io (restart s))"
proof -
  have rows: "distinct (map fst (rows s))" "\<forall>(i, r) \<in> set (rows s). r_flow_id r = i"
    and get: "get_row io (rows s) = map_of (flows s)" using assms by (simp_all add: registry_ok_def)
  note load = load_rows_map [OF rows, of io]
  have "flow_ok f" if "(i, f) \<in> set (load_rows io (rows s))" for i f
  proof -
    have "map_of (load_rows io (rows s)) i = Some f" using that load(2) by (rule map_of_is_SomeI [rotated])
    then have "map_of (flows s) i = Some f" using load(1) get by simp
    then show ?thesis using assms by (simp add: registry_ok_def row_ok_def)
  qed
  then obtain fs where fs: "restore_flows (load_rows io (rows s)) = Inr fs" "map_of fs = map_of (flows s)"
    using restore_flows_ok [of "load_rows io (rows s)"] load get by auto
  then show "map_of (flows (ensure_ready io (restart s))) = map_of (flows s)"
    "restore_failure (ensure_ready io (restart s)) = None" "registry_ok io (ensure_ready io (restart s))"
    using assms by (simp_all add: ensure_ready_def restart_def registry_ok_def)
qed

section \<open>Optimistic updates\<close>

lemma update_expected_cases:
  assumes ok: "registry_ok io s" and upd: "update_expected io clock i r p s = (res, s')"
  obtains (missing) "map_of (flows s) i = None" "res = Inr NotFound" "s' = s"
  | (conflict) cur where "map_of (flows s) i = Some cur" "revision cur \<noteq> r"
      "res = Inr (RevisionConflict cur)" "s' = s"
  | (refused) cur msg where "map_of (flows s) i = Some cur" "revision cur = r" "res = Inl msg" "s' = s"
  | (applied) cur f where "map_of (flows s) i = Some cur" "revision cur = r"
      "apply_flow_patch clock cur p = Inr f" "res = Inr (Applied f)" "s' = write_flow io f (Some cur) s"
  using assms by (auto simp: update_expected_def split: option.splits if_splits sum.splits)

lemma write_flow_map:
  "map_of (flows (write_flow io f prev s)) = (map_of (flows s))(flow_id f \<mapsto> f)"
  by (simp add: write_flow_def update_conv')

lemma update_expected_applied:
  assumes ok: "registry_ok io s" and upd: "update_expected io clock i r p s = (Inr (Applied f), s')"
  shows "revision f = r + 1 \<and> map_of (flows s') = (map_of (flows s))(i \<mapsto> f)"
  using ok upd
proof (cases rule: update_expected_cases)
  case (applied cur g)
  have "flow_id cur = i" using ok applied(1) by (simp add: registry_ok_def)
  with applied show ?thesis
    using apply_patch_facts(1,4) [OF applied(3)] by (simp add: write_flow_map)
qed simp_all

text \<open>
  Steps of the registry: any operation that may write, and a restart.  A created flow gets a fresh
  identifier.
\<close>

inductive flow_step :: "json_io \<Rightarrow> registry \<Rightarrow> registry \<Rightarrow> bool" for io where
  create: "map_of (flows s) uuid = None \<Longrightarrow> flow_step io s (snd (create_flow io uuid clock p s))"
| update: "flow_step io s (snd (update_expected io clock i r p s))"
| sync: "flow_step io s (snd (sync_flow_from_task io clock t s))"
| delete: "flow_step io s (snd (delete_flow io i s))"
| restart: "flow_step io s (ensure_ready io (restart s))"

text \<open>A record changes only together with its revision, and revisions grow.\<close>

definition revised :: "registry \<Rightarrow> registry \<Rightarrow> bool" where
  "revised s s' \<longleftrightarrow> (\<forall>i f f'. map_of (flows s) i = Some f \<longrightarrow> map_of (flows s') i = Some f' \<longrightarrow>
     f' = f \<or> revision f < revision f')"

lemma revised_same: "map_of (flows s') = map_of (flows s) \<Longrightarrow> revised s s'"
  by (simp add: revised_def)

lemma revised_write:
  assumes "registry_ok io s" and "map_of (flows s) i = Some cur" and "apply_flow_patch clock cur p = Inr f"
  shows "revised s (write_flow io f prev s)"
proof -
  have "flow_id f = i"
    using assms apply_patch_facts(1) [OF assms(3)] by (simp add: registry_ok_def)
  then show ?thesis
    using assms(2) apply_patch_facts(4) [OF assms(3)] by (auto simp: revised_def write_flow_map)
qed

lemma update_unchecked_revised:
  assumes "registry_ok io s"
  shows "revised s (snd (update_unchecked io clock i p s))"
  using assms
  by (auto simp: update_unchecked_def revised_same intro: revised_write split: option.split sum.split)

lemma flow_step_revised:
  assumes "flow_step io s s'" and ok: "registry_ok io s"
  shows "revised s s'"
  using assms(1)
proof cases
  case (create uuid clock p)
  then show ?thesis
    using ok build_flow_ok(2) [of uuid clock p]
    by (auto simp: create_flow_def revised_def write_flow_map split: sum.splits)
next
  case (update clock i r p)
  obtain res t where u: "update_expected io clock i r p s = (res, t)"
    by (cases "update_expected io clock i r p s")
  have "revised s t"
    using ok u by (cases rule: update_expected_cases) (auto simp: revised_same intro: revised_write [OF ok])
  then show ?thesis using update u by simp
next
  case (sync clock t)
  then show ?thesis
    using ok update_unchecked_revised [OF ok]
    by (auto simp: sync_flow_from_task_def get_flow_def revised_same split: option.split)
next
  case (delete i)
  then show ?thesis
    using ok by (auto simp: delete_flow_def revised_def AList.delete_conv' split: option.split if_splits)
next
  case restart
  then show ?thesis using restart_restores(1) [OF ok] by (simp add: revised_same)
qed

section \<open>Statuses\<close>

lemma terminal_iff: "is_terminal (derive_status t) \<longleftrightarrow> t_status t \<notin> {TQueued, TRunning}"
  by (cases "t_status t") (auto simp: derive_status_def is_terminal_def)

lemma mirrored_end:
  "mirrored_timing c l e term = (u, x) \<Longrightarrow> (x \<noteq> None \<longleftrightarrow> term) \<and> (term \<longrightarrow> x = Some u)"
  by (auto simp: mirrored_timing_def Let_def split: if_splits)

lemma sync_patch_effect:
  assumes "apply_flow_patch clock cur (sync_patch t cur) = Inr f"
  shows "status f = derive_status t"
    and "ended_at f \<noteq> None \<longleftrightarrow> is_terminal (status f)"
    and "status f \<noteq> FBlocked \<Longrightarrow> blocked_task_id f = None \<and> blocked_summary f = None"
proof -
  note a = apply_patch_facts [OF assms]
  show st: "status f = derive_status t"
    using a(7) by (simp add: sync_patch_def Let_def opt_else_def)
  show "ended_at f \<noteq> None \<longleftrightarrow> is_terminal (status f)"
    using a(16) st by (simp add: sync_patch_def Let_def patch_number_def)
  show "status f \<noteq> FBlocked \<Longrightarrow> blocked_task_id f = None \<and> blocked_summary f = None"
    using a(10,11) st by (simp add: sync_patch_def Let_def patch_string_def)
qed

end
