(* ===== verification/Registry_Laws.thy ===== *)
theory Registry_Laws
  imports Task_Lifecycle Flow_Laws
begin

text \<open>
  What the task registry promises.  Every operation is a chain of a few primitives (restoring, updating one
  record, inserting one, bookkeeping); the locale \<open>task_relation\<close> lifts a relation between registry states
  from the primitives to the operations.  Its interpretations give the evolution of records, the agreement
  of the four indexes and of the SQLite rows with the records, and well-formed time stamps.
\<close>

section \<open>What a patch may do to a record\<close>

definition task_change :: "task_record \<Rightarrow> task_record \<Rightarrow> bool" where
  "task_change t t' \<longleftrightarrow> t_id t' = t_id t \<and> t_runtime t' = t_runtime t \<and> t_requester t' = t_requester t \<and>
     t_owner t' = t_owner t \<and> t_scope t' = t_scope t \<and> t_child t' = t_child t \<and> t_run t' = t_run t \<and>
     t_created t' = t_created t \<and> (terminal_task (t_status t) \<longrightarrow> terminal_task (t_status t')) \<and>
     (flow_key t \<noteq> None \<longrightarrow> t_parent_flow t' = t_parent_flow t)"

lemma end_status_terminal: "end_status st \<Longrightarrow> terminal_task st"
  by (auto simp: end_status_def terminal_task_def)

lemma apply_allowed_terminal: "apply_allowed cur next \<Longrightarrow> terminal_task cur \<Longrightarrow> terminal_task next"
  by (auto simp: apply_allowed_def split: if_splits)

lemma patch_changes [simp]:
  "task_change t (set_delivery d now t)"
  "task_change t (t\<lparr>t_last_event := x\<rparr>)"
  "task_change t (t\<lparr>t_cleanup := x\<rparr>)"
  "task_change t (t\<lparr>t_notify := np, t_last_event := x\<rparr>)"
  "task_change t (t\<lparr>t_delivery := d, t_error := y\<rparr>)"
  "task_change t (t\<lparr>t_progress_summary := y, t_last_event := x\<rparr>)"
  "task_change t (t\<lparr>t_started := x, t_ended := x', t_last_event := x''\<rparr>)"
  by (simp_all add: task_change_def set_delivery_def)

lemma run_patch_change:
  "u_status u = None \<or> apply_allowed (t_status t) (opt_else (u_status u) (t_status t)) \<Longrightarrow>
     task_change t (run_patch u next t)"
  by (cases "u_status u") (auto simp: task_change_def run_patch_def opt_else_def apply_allowed_terminal)

lemma event_patch_change: "\<not> terminal_task (t_status t) \<Longrightarrow> task_change t (event_patch n v t)"
  by (simp add: task_change_def event_patch_def Let_def)

lemma merge_patch_change: "task_change t (merge_patch p agent t)"
  by (simp add: task_change_def merge_patch_def fill_def flow_key_def)

section \<open>From primitives to operations\<close>

lemma update_record_None: "record_of s i = None \<Longrightarrow> update_record e now i patch s = (None, s)"
  by (simp add: update_record_def)

lemma owner_frame:
  "delivery_owner_of e t s = (w, s1) \<Longrightarrow> records s1 = records s \<and> delivering s1 = delivering s"
  by (auto simp: delivery_owner_of_def linked_flow_def flow_at_def split: option.splits prod.splits if_splits)

text \<open>\<open>own\<close> are the identifiers whose records the operation at hand may update.\<close>

locale record_steps = step_preorder R for R :: "tasks_state \<Rightarrow> tasks_state \<Rightarrow> bool" +
  fixes e :: task_env and own :: "string \<Rightarrow> bool"
  assumes restore: "R s (restore_tasks e s)"
    and update: "own i \<Longrightarrow> record_of s i = Some t \<Longrightarrow> task_change t (patch t) \<Longrightarrow> R s (snd (update_record e now i patch s))"
    and emits: "R s (emit es s)"
    and flow: "R s (snd (flow_at e i s))"
    and delivery: "R s (upsert_delivery e i origin n s)"
    and begin_terminal: "own i \<Longrightarrow> record_of s i = Some t \<Longrightarrow> i \<notin> set (delivering s) \<Longrightarrow>
      R s (s\<lparr>delivering := delivering s @ [i], sends := sends s @ [SendTerminal t msg w]\<rparr>)"
    and begin_change: "R s (s\<lparr>sends := sends s @ [SendChange t ev msg w origin]\<rparr>)"
begin

lemma update_all: "own i \<Longrightarrow> (\<And>t. record_of s i = Some t \<Longrightarrow> task_change t (patch t)) \<Longrightarrow> R s (snd (update_record e now i patch s))"
  using update [where s = s and i = i] by (cases "record_of s i") (auto simp: update_record_None intro: refl)

lemma flow': "flow_at e i s = (f, s1) \<Longrightarrow> R s s1"
  using flow [of s i] by simp

lemma owner_lookup: "delivery_owner_of e t s = (w, s1) \<Longrightarrow> R s s1"
  by (auto simp: delivery_owner_of_def linked_flow_def intro: refl dest: flow' split: option.splits prod.splits if_splits)

lemma link_check: "assert_link_allowed e owner scope parent s = (res, s1) \<Longrightarrow> R s s1"
  by (auto simp: assert_link_allowed_def intro: refl dest: flow' split: option.splits prod.splits if_splits)

lemma queue_event: "R s (queue_event e t msg s)"
proof -
  obtain w s1 where w: "delivery_owner_of e t s = (w, s1)" by (cases "delivery_owner_of e t s")
  show ?thesis
    using owner_lookup [OF w] trans [OF owner_lookup [OF w] emits] by (simp add: queue_event_def w split: option.split)
qed

lemma queue_followup: "R s (queue_followup e t s)"
proof -
  obtain w s1 where w: "delivery_owner_of e t s = (w, s1)" by (cases "delivery_owner_of e t s")
  show ?thesis
    using owner_lookup [OF w] trans [OF owner_lookup [OF w] emits] refl
    by (simp add: queue_followup_def w split: option.split)
qed

lemma queue_terminal: "R s (queue_terminal e t msg s)"
  using queue_event trans [OF queue_event queue_followup] by (simp add: queue_terminal_def Let_def)

lemma deliver_terminal: "own i \<Longrightarrow> R s (deliver_terminal e now i s)"
proof -
  assume own: "own i"
  let ?s = "restore_tasks e s"
  have "R ?s (deliver_terminal e now i s)"
  proof (cases "record_of ?s i")
    case (Some t)
    obtain w s1 where w: "delivery_owner_of e t ?s = (w, s1)" by (cases "delivery_owner_of e t ?s")
    have upd: "R s2 (snd (update_record e now i (set_delivery d now) s2))" for s2 d
      by (rule update_all [OF own]) simp
    have q: "R ?s (snd (update_record e now i (set_delivery d now) (queue_terminal e t msg s1)))" for d msg
      by (rule trans [OF owner_lookup [OF w] trans [OF queue_terminal upd]])
    have m: "R ?s (snd (update_record e now i (set_delivery d now) s1))" for d
      by (rule trans [OF owner_lookup [OF w] upd])
    have n: "i \<notin> set (delivering ?s) \<Longrightarrow>
        R ?s (s1\<lparr>delivering := delivering s1 @ [i], sends := sends s1 @ [SendTerminal t msg w]\<rparr>)" for msg
      using trans [OF owner_lookup [OF w] begin_terminal [OF own, of s1 t msg w]] owner_frame [OF w] Some
      by (simp add: record_of_def)
    show ?thesis
      unfolding deliver_terminal_def Let_def Some option.case w prod.case
      using upd q m n by (auto intro: refl split: option.split)
  qed (simp add: deliver_terminal_def refl)
  then show ?thesis by (rule trans [OF restore])
qed

lemma deliver_change: "own i \<Longrightarrow> R s (deliver_change e now i ev s)"
proof -
  assume own: "own i"
  let ?s = "restore_tasks e s"
  have "R ?s (deliver_change e now i ev s)"
  proof (cases "record_of ?s i")
    case (Some t)
    obtain w s1 where w: "delivery_owner_of e t ?s = (w, s1)" by (cases "delivery_owner_of e t ?s")
    have upd: "R s2 (snd (update_record e now i (set_delivery d now) s2))" for s2 d
      by (rule update_all [OF own]) simp
    have upd2: "R s2 (snd (update_record e now i (\<lambda>t. t\<lparr>t_last_event := x\<rparr>) s2))" for s2 x
      by (rule update_all [OF own]) simp
    have q: "R ?s (snd (update_record e now i (\<lambda>t. t\<lparr>t_last_event := x\<rparr>) (upsert_delivery e i o' n (queue_event e t msg s1))))"
      for o' n msg x
      by (rule trans [OF owner_lookup [OF w] trans [OF queue_event trans [OF delivery upd2]]])
    have m: "R ?s (snd (update_record e now i (set_delivery d now) s1))" for d
      by (rule trans [OF owner_lookup [OF w] upd])
    have n: "R ?s (s1\<lparr>sends := sends s1 @ [SendChange t ev msg w origin]\<rparr>)" for ev msg origin
      by (rule trans [OF owner_lookup [OF w] begin_change])
    show ?thesis
      unfolding deliver_change_def Let_def Some option.case w prod.case
      using upd q m n by (auto intro: refl split: option.split)
  qed (simp add: deliver_change_def refl)
  then show ?thesis by (rule trans [OF restore])
qed

lemma announce: "own i \<Longrightarrow> R s (announce e now i ev s)"
  unfolding announce_def by (rule trans [OF deliver_change deliver_terminal])

lemma dispatch_send: "R s (dispatch_send e m s)"
  using emits trans [OF owner_lookup emits] by (auto simp: dispatch_send_def split: send.split prod.split)

lemma update_one:
  assumes "own (t_id t)" and "record_of s (t_id t) = Some t"
  shows "R s (update_one e now u t s)"
proof (cases "u_status u \<noteq> None \<and> \<not> apply_allowed (t_status t) (opt_else (u_status u) (t_status t))")
  case False
  let ?p = "run_patch u (opt_else (u_status u) (t_status t))"
  obtain n s1 where s1: "update_record e now (t_id t) ?p s = (Some n, s1)"
    using assms(2) by (auto simp: update_record_def Let_def)
  then have n: "t_id n = t_id t"
    using assms(2) by (auto simp: update_record_def Let_def with_cleanup_def normalize_timestamps_def run_patch_def)
  have "R s s1"
    using update [OF assms(1,2), of ?p now] run_patch_change [of u t] False by (simp add: s1)
  moreover have "R s1 (announce e now (t_id n) ev s1)" for ev by (rule announce) (simp add: n assms(1))
  ultimately show ?thesis using trans refl by (auto simp: update_one_def Let_def s1)
qed (simp add: update_one_def Let_def refl)

lemma event_one:
  assumes "own (t_id t)" and "record_of s (t_id t) = Some t"
  shows "R s (event_one e now v t s)"
proof (cases "terminal_task (t_status t)")
  case False
  let ?p = "event_patch (event_time now v) v"
  obtain n s1 where s1: "update_record e now (t_id t) ?p s = (Some n, s1)"
    using assms(2) by (auto simp: update_record_def Let_def)
  have "R s s1"
    using update [OF assms, of ?p now] event_patch_change [OF False] by (simp add: s1)
  moreover have "R s1 (announce e now (t_id t) ev s1)" for ev by (rule announce) (rule assms(1))
  ultimately show ?thesis using trans by (simp add: event_one_def s1 False)
qed (simp add: event_one_def refl)

end

text \<open>A relation blind to the sends in flight is kept when one settles.\<close>

locale settling = record_steps +
  assumes sending: "R s (s\<lparr>delivering := ds, sends := ms\<rparr>)"
begin

lemma sends_only: "R s (s\<lparr>sends := ms\<rparr>)"
  using sending [where s = s and ms = ms and ds = "delivering s"] by simp

lemma delivering_only: "R s (s\<lparr>delivering := ds\<rparr>)"
  using sending [where s = s and ms = "sends s" and ds = ds] by simp

lemma settle_send: "own (case m of SendTerminal t msg w \<Rightarrow> t_id t | SendChange t ev msg w origin \<Rightarrow> t_id t) \<Longrightarrow>
  R s (settle_send e now m accepted s)"
proof (cases m)
  case (SendTerminal t msg w)
  assume "own (case m of SendTerminal t msg w \<Rightarrow> t_id t | SendChange t ev msg w origin \<Rightarrow> t_id t)"
  then have own: "own (t_id t)" using SendTerminal by simp
  have upd: "R s2 (snd (update_record e now (t_id t) (set_delivery d now) s2))" for s2 d
    by (rule update_all [OF own]) simp
  have fin: "R s2 (s3\<lparr>delivering := ds\<rparr>)" if "R s2 s3" for s2 s3 ds using that delivering_only by (rule trans)
  have "R (s\<lparr>sends := ms\<rparr>) (snd (update_record e now (t_id t) (set_delivery d now) (queue_followup e t (s\<lparr>sends := ms\<rparr>))))"
    "R (s\<lparr>sends := ms\<rparr>) (snd (update_record e now (t_id t) (set_delivery d now) (queue_terminal e t msg (s\<lparr>sends := ms\<rparr>))))" for ms d
    by (rule trans [OF queue_followup upd], rule trans [OF queue_terminal upd])
  then have "R (s\<lparr>sends := remove1 m (sends s)\<rparr>) (settle_send e now m accepted s)"
    using upd unfolding settle_send_def SendTerminal Let_def by (auto intro: fin)
  then show ?thesis by (rule trans [OF sends_only])
next
  case (SendChange t ev msg w origin)
  assume "own (case m of SendTerminal t msg w \<Rightarrow> t_id t | SendChange t ev msg w origin \<Rightarrow> t_id t)"
  then have own: "own (t_id t)" using SendChange by simp
  have upd: "R s2 (snd (update_record e now (t_id t) (\<lambda>t. t\<lparr>t_last_event := x\<rparr>) s2))" for s2 x
    by (rule update_all [OF own]) simp
  have "R (s\<lparr>sends := remove1 m (sends s)\<rparr>) (settle_send e now m accepted s)"
    using trans [OF delivery upd] unfolding settle_send_def SendChange Let_def by (auto intro: refl)
  then show ?thesis by (rule trans [OF sends_only])
qed

end

section \<open>What the primitives leave alone\<close>

lemma emit_frame [simp]:
  "records (emit es s) = records s" "delivery (emit es s) = delivery s" "by_run (emit es s) = by_run s"
  "by_owner (emit es s) = by_owner s" "by_flow (emit es s) = by_flow s" "by_session (emit es s) = by_session s"
  "restored (emit es s) = restored s" "task_rows (emit es s) = task_rows s"
  "delivery_rows (emit es s) = delivery_rows s" "delivering (emit es s) = delivering s"
  "sends (emit es s) = sends s" "flow_reg (emit es s) = flow_reg s"
  by (simp_all add: emit_def)

lemma flow_at_only: "snd (flow_at e i s) = s\<lparr>flow_reg := flow_reg (snd (flow_at e i s))\<rparr>"
  by (simp add: flow_at_def split: prod.split)

lemma cancel_attempts_only:
  "cancel_attempts n e now fid ended f s = s\<lparr>flow_reg := flow_reg (cancel_attempts n e now fid ended f s)\<rparr>"
proof (induction n arbitrary: f s)
  case (Suc n)
  show ?case
    by (auto simp: Let_def split: prod.split sum.split update_result.split)
      (subst (1 2) Suc.IH, simp)+
qed simp

lemma sync_cancellation_only:
  "sync_cancellation e now t s = s\<lparr>flow_reg := flow_reg (sync_cancellation e now t s)\<rparr>"
proof (cases "flow_key t")
  case (Some fid)
  obtain f s1 where f: "flow_at e fid s = (f, s1)" by (cases "flow_at e fid s")
  have s1: "s1 = s\<lparr>flow_reg := flow_reg s1\<rparr>" using flow_at_only [of e fid s] by (simp add: f)
  show ?thesis
  proof (cases f)
    case (Some g)
    have "cancel_attempts 2 e now fid c g s1 = s\<lparr>flow_reg := flow_reg (cancel_attempts 2 e now fid c g s1)\<rparr>" for c
      using cancel_attempts_only [of 2 e now fid c g s1] s1 by (metis (no_types, lifting) tasks_state.surjective tasks_state.update_convs(11))
    then show ?thesis using s1 \<open>flow_key t = Some fid\<close> by (simp add: sync_cancellation_def f Some)
  qed (use s1 Some in \<open>simp add: sync_cancellation_def f\<close>)
qed (simp add: sync_cancellation_def)

text \<open>The record an update leaves behind.\<close>

definition revise :: "int \<Rightarrow> (task_record \<Rightarrow> task_record) \<Rightarrow> task_record \<Rightarrow> task_record" where
  "revise now patch t = with_cleanup now (normalize_timestamps (patch t))"

lemma update_record_form:
  assumes "record_of s i = Some t"
  shows "\<exists>r. snd (update_record e now i patch s) = emit [TaskUpserted (revise now patch t) (Some t)]
    ((persist_task e (revise now patch t) (reindex i t (revise now patch t)
      (s\<lparr>records := AList.update i (revise now patch t) (records s)\<rparr>)))\<lparr>flow_reg := r\<rparr>)"
proof -
  let ?n = "revise now patch t"
  let ?s = "persist_task e ?n (reindex i t ?n (s\<lparr>records := AList.update i ?n (records s)\<rparr>))"
  have "sync_cancellation e now ?n (sync_flow e now ?n ?s) =
      ?s\<lparr>flow_reg := flow_reg (sync_cancellation e now ?n (sync_flow e now ?n ?s))\<rparr>"
    by (subst sync_cancellation_only) (simp add: sync_flow_def)
  then obtain r where r: "sync_cancellation e now ?n (sync_flow e now ?n ?s) = ?s\<lparr>flow_reg := r\<rparr>" by blast
  have "snd (update_record e now i patch s) = emit [TaskUpserted ?n (Some t)] (sync_cancellation e now ?n (sync_flow e now ?n ?s))"
    using assms by (simp add: update_record_def Let_def revise_def)
  then show ?thesis unfolding r by blast
qed

lemma reindex_frame [simp]:
  "records (reindex i t n s) = records s" "delivery (reindex i t n s) = delivery s"
  "restored (reindex i t n s) = restored s" "task_rows (reindex i t n s) = task_rows s"
  "delivery_rows (reindex i t n s) = delivery_rows s" "delivering (reindex i t n s) = delivering s"
  "sends (reindex i t n s) = sends s" "flow_reg (reindex i t n s) = flow_reg s"
  by (simp_all add: reindex_def rebuild_runs_def Let_def)

lemma persist_frame [simp]:
  "records (persist_task e t s) = records s" "delivery (persist_task e t s) = delivery s"
  "by_run (persist_task e t s) = by_run s" "by_owner (persist_task e t s) = by_owner s"
  "by_flow (persist_task e t s) = by_flow s" "by_session (persist_task e t s) = by_session s"
  "restored (persist_task e t s) = restored s" "delivering (persist_task e t s) = delivering s"
  "sends (persist_task e t s) = sends s" "flow_reg (persist_task e t s) = flow_reg s"
  by (simp_all add: persist_task_def)

lemma delivery_frame [simp]:
  "records (upsert_delivery e i x n s) = records s" "by_run (upsert_delivery e i x n s) = by_run s"
  "by_owner (upsert_delivery e i x n s) = by_owner s" "by_flow (upsert_delivery e i x n s) = by_flow s"
  "by_session (upsert_delivery e i x n s) = by_session s" "restored (upsert_delivery e i x n s) = restored s"
  "task_rows (upsert_delivery e i x n s) = task_rows s" "delivering (upsert_delivery e i x n s) = delivering s"
  "sends (upsert_delivery e i x n s) = sends s" "flow_reg (upsert_delivery e i x n s) = flow_reg s"
  by (simp_all add: upsert_delivery_def Let_def)

lemma update_record_frame [simp]:
  "restored (snd (update_record e now i patch s)) = restored s"
  "delivery (snd (update_record e now i patch s)) = delivery s"
  "delivering (snd (update_record e now i patch s)) = delivering s"
  "sends (snd (update_record e now i patch s)) = sends s"
proof -
  have "restored (snd (update_record e now i patch s)) = restored s \<and>
    delivery (snd (update_record e now i patch s)) = delivery s \<and>
    delivering (snd (update_record e now i patch s)) = delivering s \<and> sends (snd (update_record e now i patch s)) = sends s"
  proof (cases "record_of s i")
    case (Some t)
    show ?thesis using update_record_form [OF Some, of e now patch] by auto
  qed (simp add: update_record_None)
  then show "restored (snd (update_record e now i patch s)) = restored s"
    "delivery (snd (update_record e now i patch s)) = delivery s"
    "delivering (snd (update_record e now i patch s)) = delivering s"
    "sends (snd (update_record e now i patch s)) = sends s" by simp_all
qed

lemma update_record_at:
  "record_of s i = Some t \<Longrightarrow>
     record_of (snd (update_record e now i patch s)) = (record_of s)(i \<mapsto> revise now patch t)"
  using update_record_form [of s i t e now patch] by (auto simp: record_of_def update_conv' fun_eq_iff)

lemma update_record_result:
  "record_of s i = Some t \<Longrightarrow> fst (update_record e now i patch s) = Some (revise now patch t)"
  by (simp add: update_record_def Let_def revise_def)

lemma restore_idle [simp]: "restored s \<Longrightarrow> restore_tasks e s = s"
  by (simp add: restore_tasks_def)

lemma restored_restore [simp]: "restored (restore_tasks e s)"
  by (auto simp: restore_tasks_def Let_def rebuild_all_def rebuild_runs_def emit_def)

text \<open>An operation on one task leaves the records of the others alone.\<close>

interpretation others: settling
  "\<lambda>s s'. restored s \<longrightarrow> restored s' \<and> (\<forall>j. j \<noteq> i \<longrightarrow> record_of s' j = record_of s j)" e "\<lambda>j. j = i" for e i
proof unfold_locales
  fix s :: tasks_state and t k patch now
  assume "k = i" "record_of s k = Some t"
  then show "restored s \<longrightarrow> restored (snd (update_record e now k patch s)) \<and>
      (\<forall>j. j \<noteq> i \<longrightarrow> record_of (snd (update_record e now k patch s)) j = record_of s j)"
    by (simp add: update_record_at)
next
  fix s :: tasks_state and k
  show "restored s \<longrightarrow> restored (snd (flow_at e k s)) \<and>
      (\<forall>j. j \<noteq> i \<longrightarrow> record_of (snd (flow_at e k s)) j = record_of s j)"
    by (subst (1 2) flow_at_only) (simp add: record_of_def)
qed (auto simp: record_of_def)

end
