(* ===== verification/Registry_Indexes.thy ===== *)
theory Registry_Indexes
  imports Registry_Laws
begin

text \<open>
  The four indexes of the task registry agree with its records after every operation: each lists,
  without repetition, exactly the tasks with the key.  The locale \<open>task_relation\<close> extends the
  primitives of \<open>record_steps\<close> by the insertion of a record and covers every operation that keeps
  its records.
\<close>

section \<open>Keys added and removed\<close>

definition index_exact :: "(task_record \<Rightarrow> string list) \<Rightarrow> index \<Rightarrow> (string \<Rightarrow> task_record option) \<Rightarrow> bool" where
  "index_exact keys ix rs \<longleftrightarrow> (\<forall>k. distinct (ids_at ix k) \<and>
     set (ids_at ix k) = {i. \<exists>t. rs i = Some t \<and> k \<in> set (keys t)})"

lemma ids_add_key: "ids_at (add_key (Some k) i ix) =
    (ids_at ix)(k := if i \<in> set (ids_at ix k) then ids_at ix k else ids_at ix k @ [i])"
  by (auto simp: ids_at_def add_key_def Let_def update_conv' fun_eq_iff split: option.split)

lemma ids_del_key: "ids_at (del_key (Some k) i ix) = (ids_at ix)(k := remove1 i (ids_at ix k))"
  by (auto simp: ids_at_def del_key_def Let_def update_conv' AList.delete_conv' fun_eq_iff split: option.split)

lemma add_keys_distinct: "(\<And>k. distinct (ids_at ix k)) \<Longrightarrow> distinct (ids_at (add_keys ks i ix) k)"
  unfolding add_keys_def by (induction ks arbitrary: ix) (auto simp: ids_add_key)

lemma add_keys_set: "set (ids_at (add_keys ks i ix) k) = set (ids_at ix k) \<union> (if k \<in> set ks then {i} else {})"
  unfolding add_keys_def by (induction ks arbitrary: ix) (auto simp: ids_add_key)

lemma del_keys_distinct: "(\<And>k. distinct (ids_at ix k)) \<Longrightarrow> distinct (ids_at (del_keys ks i ix) k)"
  unfolding del_keys_def by (induction ks arbitrary: ix) (auto simp: ids_del_key)

lemma del_keys_set:
  "(\<And>k. distinct (ids_at ix k)) \<Longrightarrow>
     set (ids_at (del_keys ks i ix) k) = set (ids_at ix k) - (if k \<in> set ks then {i} else {})"
  unfolding del_keys_def
proof (induction ks arbitrary: ix)
  case (Cons x ks)
  have "distinct (ids_at (del_key (Some x) i ix) k)" for k using Cons.prems by (simp add: ids_del_key)
  then show ?case using Cons.IH [of "del_key (Some x) i ix"] Cons.prems by (auto simp: ids_del_key)
qed simp

lemma add_key_list: "add_key v i ix = add_keys (opt_list v) i ix"
  by (cases v) (simp_all add: add_keys_def opt_list_def add_key_def)

lemma del_key_list: "del_key v i ix = del_keys (opt_list v) i ix"
  by (cases v) (simp_all add: del_keys_def opt_list_def del_key_def)

lemma index_add:
  assumes "index_exact keys ix rs" and "rs i = None"
  shows "index_exact keys (add_keys (keys t) i ix) (rs(i \<mapsto> t))"
  using assms add_keys_distinct [of ix "keys t" i]
  by (auto simp: index_exact_def add_keys_set split: if_splits)

lemma index_remove:
  assumes "index_exact keys ix rs" and "rs i = Some t"
  shows "index_exact keys (del_keys (keys t) i ix) (rs(i := None))"
proof -
  have d: "distinct (ids_at ix k)" for k using assms(1) by (simp add: index_exact_def)
  show ?thesis
    using assms del_keys_distinct [OF d, of "keys t" i]
    by (auto simp: index_exact_def del_keys_set [OF d] split: if_splits)
qed

lemma index_move:
  assumes "index_exact keys ix rs" and "rs i = Some t"
  shows "index_exact keys (add_keys (keys n) i (del_keys (keys t) i ix)) (rs(i \<mapsto> n))"
  using index_add [OF index_remove [OF assms], of i n] by simp

lemma index_same:
  assumes "index_exact keys ix rs" and "rs i = Some t" and "set (keys n) = set (keys t)"
  shows "index_exact keys ix (rs(i \<mapsto> n))"
  using assms by (auto simp: index_exact_def)

lemma build_index_exact:
  assumes "distinct (map fst ts)"
  shows "index_exact keys (build_index keys ts) (map_of ts)"
proof -
  have "(\<forall>k. distinct (ids_at ix k)) \<longrightarrow>
      (\<forall>k. distinct (ids_at (fold (\<lambda>(i, t). add_keys (keys t) i) ts ix) k) \<and>
        set (ids_at (fold (\<lambda>(i, t). add_keys (keys t) i) ts ix) k) =
          set (ids_at ix k) \<union> {i. \<exists>t. (i, t) \<in> set ts \<and> k \<in> set (keys t)})" for ix ts
  proof (induction ts arbitrary: ix)
    case (Cons x ts)
    show ?case
    proof
      assume "\<forall>k. distinct (ids_at ix k)"
      then have "\<forall>k. distinct (ids_at (add_keys (keys (snd x)) (fst x) ix) k)" using add_keys_distinct by blast
      with Cons [of "add_keys (keys (snd x)) (fst x) ix"]
      show "\<forall>k. distinct (ids_at (fold (\<lambda>(i, t). add_keys (keys t) i) (x # ts) ix) k) \<and>
        set (ids_at (fold (\<lambda>(i, t). add_keys (keys t) i) (x # ts) ix) k) =
          set (ids_at ix k) \<union> {i. \<exists>t. (i, t) \<in> set (x # ts) \<and> k \<in> set (keys t)}"
        by (cases x) (auto simp: add_keys_set split: if_splits)
    qed
  qed simp
  from this [of "[]" ts] show ?thesis
    using assms by (simp add: index_exact_def build_index_def ids_at_def)
qed

section \<open>The invariant\<close>

definition tasks_indexed :: "tasks_state \<Rightarrow> bool" where
  "tasks_indexed s \<longleftrightarrow> distinct (map fst (records s)) \<and> (\<forall>i t. record_of s i = Some t \<longrightarrow> t_id t = i) \<and>
     index_exact (\<lambda>t. opt_list (run_key t)) (by_run s) (record_of s) \<and>
     index_exact (\<lambda>t. opt_list (owner_of t)) (by_owner s) (record_of s) \<and>
     index_exact (\<lambda>t. opt_list (flow_key t)) (by_flow s) (record_of s) \<and>
     index_exact session_keys (by_session s) (record_of s)"

text \<open>The record and index fields of a state.\<close>

definition same_tables :: "tasks_state \<Rightarrow> tasks_state \<Rightarrow> bool" where
  "same_tables s s' \<longleftrightarrow> records s' = records s \<and> by_run s' = by_run s \<and> by_owner s' = by_owner s \<and>
     by_flow s' = by_flow s \<and> by_session s' = by_session s"

lemma indexed_same: "same_tables s s' \<Longrightarrow> tasks_indexed s' = tasks_indexed s"
proof -
  assume same: "same_tables s s'"
  then have "record_of s' = record_of s" by (simp add: same_tables_def record_of_def fun_eq_iff)
  with same show ?thesis by (simp add: tasks_indexed_def same_tables_def)
qed

lemma records_by_run:
  assumes "tasks_indexed s"
  shows "\<forall>t \<in> set (tasks_by_run s run). record_of s (t_id t) = Some t" and "distinct (map t_id (tasks_by_run s run))"
proof -
  have ids: "distinct (ids_at (by_run s) k)" "set (ids_at (by_run s) k) \<subseteq> dom (record_of s)" for k
    using assms by (auto simp: tasks_indexed_def index_exact_def)
  have at: "t_id t = i" if "record_of s i = Some t" for i t using assms that by (simp add: tasks_indexed_def)
  have "map t_id (records_at s us) = us" if "set us \<subseteq> dom (record_of s)" for us
    using that by (induction us) (auto simp: records_at_def map_filter_simps at split: option.split)
  then show "distinct (map t_id (tasks_by_run s run))" using ids by (simp add: tasks_by_run_def)
  show "\<forall>t \<in> set (tasks_by_run s run). record_of s (t_id t) = Some t"
    by (auto simp: tasks_by_run_def records_at_def List.map_filter_def at)
qed

lemma records_by_scope:
  assumes "tasks_indexed s"
  shows "\<forall>t \<in> set (tasks_by_scope s run rt k). record_of s (t_id t) = Some t"
    and "distinct (map t_id (tasks_by_scope s run rt k))"
  using records_by_run [OF assms, of run]
  by (auto simp: tasks_by_scope_def Let_def distinct_map_filter split: option.split)

section \<open>Time stamps\<close>

lemma earliest_le: "earliest t \<le> t_created t" "t_started t = Some x \<Longrightarrow> earliest t \<le> x"
    "t_last_event t = Some x \<Longrightarrow> earliest t \<le> x" "t_ended t = Some x \<Longrightarrow> earliest t \<le> x"
  by (auto simp: earliest_def Let_def split: option.splits)

text \<open>Creation, start, and last event or end, in this order.\<close>

definition in_order :: "task_record \<Rightarrow> bool" where
  "in_order t \<longleftrightarrow> (case t_started t of None \<Rightarrow> True | Some x \<Rightarrow> t_created t \<le> x) \<and>
     (\<forall>y. t_last_event t = Some y \<or> t_ended t = Some y \<longrightarrow> t_created t \<le> y \<and>
        (case t_started t of None \<Rightarrow> True | Some x \<Rightarrow> x \<le> y))"

lemma normalize_in_order: "in_order (normalize_timestamps t)"
  by (auto simp: in_order_def normalize_timestamps_def Let_def opt_else_def split: option.splits)

lemma in_order_normal: "in_order t \<Longrightarrow> normalize_timestamps t = t"
proof -
  assume o: "in_order t"
  then have e: "earliest t = t_created t"
    by (auto simp: in_order_def earliest_def Let_def split: option.splits)
  have st: "map_option (\<lambda>x. max x (t_created t)) (t_started t) = t_started t"
    using o by (auto simp: in_order_def split: option.splits)
  have "map_option (\<lambda>x. max x (opt_else (t_started t) (t_created t))) v = v"
    if "v = t_last_event t \<or> v = t_ended t" for v
    using o that by (cases v) (auto simp: in_order_def opt_else_def split: option.splits)
  then show "normalize_timestamps t = t" by (simp add: normalize_timestamps_def e Let_def st)
qed

lemma in_order_cleanup [simp]: "in_order (t\<lparr>t_cleanup := x\<rparr>) = in_order t"
  by (simp add: in_order_def split: option.split)

lemma with_cleanup_in_order: "in_order (with_cleanup n t) = in_order t"
  by (simp add: with_cleanup_def)

lemma with_cleanup_time: "terminal_task (t_status (with_cleanup n t)) \<Longrightarrow> t_cleanup (with_cleanup n t) \<noteq> None"
  by (auto simp: with_cleanup_def split: if_splits)

lemma revise_ok: "in_order (revise n p t)" "terminal_task (t_status (revise n p t)) \<Longrightarrow> t_cleanup (revise n p t) \<noteq> None"
  by (simp add: revise_def with_cleanup_in_order normalize_in_order)
    (simp only: revise_def, rule with_cleanup_time)

lemma new_task_ok:
  "t_id (new_task uuid now p requester owner scope agent) = uuid"
  "in_order (new_task uuid now p requester owner scope agent)"
  "terminal_task (t_status (new_task uuid now p requester owner scope agent)) \<Longrightarrow>
     t_cleanup (new_task uuid now p requester owner scope agent) \<noteq> None"
  by (simp add: new_task_def Let_def with_cleanup_def normalize_timestamps_def,
      simp only: new_task_def Let_def with_cleanup_in_order normalize_in_order,
      simp only: new_task_def Let_def, rule with_cleanup_time)

section \<open>The operations\<close>

locale task_relation = record_steps R e "\<lambda>_. True" for R :: "tasks_state \<Rightarrow> tasks_state \<Rightarrow> bool" and e +
  assumes insert: "record_of s (t_id t) = None \<Longrightarrow> normalize_timestamps t = t \<Longrightarrow>
      (terminal_task (t_status t) \<longrightarrow> t_cleanup t \<noteq> None) \<Longrightarrow> R s (insert_record e now origin t s)"
begin

lemma update_any: "(\<And>t. record_of s i = Some t \<Longrightarrow> task_change t (patch t)) \<Longrightarrow> R s (snd (update_record e now i patch s))"
  by (rule update_all) simp_all

lemma restored_op: "R (restore_tasks e s) s' \<Longrightarrow> R s s'"
  using restore by (rule trans)

lemma fold_tasks:
  assumes "restored s" and "\<forall>t \<in> set ts. record_of s (t_id t) = Some t" and "distinct (map t_id ts)"
    and step: "\<And>t s. record_of s (t_id t) = Some t \<Longrightarrow> R s (f t s)"
    and frame: "\<And>t s. record_of s (t_id t) = Some t \<Longrightarrow> restored s \<Longrightarrow>
      restored (f t s) \<and> (\<forall>j. j \<noteq> t_id t \<longrightarrow> record_of (f t s) j = record_of s j)"
  shows "R s (fold f ts s)"
  using assms(1-3)
proof (induction ts arbitrary: s)
  case (Cons t ts)
  have t: "record_of s (t_id t) = Some t" using Cons.prems(2) by simp
  note f = frame [OF t Cons.prems(1)]
  have "R (f t s) (fold f ts (f t s))"
  proof (rule Cons.IH)
    show "restored (f t s)" using f by simp
    show "\<forall>u \<in> set ts. record_of (f t s) (t_id u) = Some u"
    proof
      fix u
      assume u: "u \<in> set ts"
      then have "t_id u \<in> t_id ` set ts" by (rule imageI)
      then have "t_id u \<noteq> t_id t" using Cons.prems(3) by auto
      then show "record_of (f t s) (t_id u) = Some u" using f Cons.prems(2) u by simp
    qed
    show "distinct (map t_id ts)" using Cons.prems(3) by simp
  qed
  then show ?case using trans [OF step [OF t]] by simp
qed (simp add: refl)

lemma by_scope:
  assumes "restored s" "tasks_indexed s"
    and step: "\<And>t s. record_of s (t_id t) = Some t \<Longrightarrow> R s (f t s)"
    and frame: "\<And>t s. record_of s (t_id t) = Some t \<Longrightarrow> restored s \<Longrightarrow>
      restored (f t s) \<and> (\<forall>j. j \<noteq> t_id t \<longrightarrow> record_of (f t s) j = record_of s j)"
  shows "R s (fold f (tasks_by_scope s run rt k) s)"
  using assms records_by_scope [OF assms(2), of run rt k] by (intro fold_tasks) auto

lemma update_state_by_run:
  "restored s \<Longrightarrow> tasks_indexed s \<Longrightarrow> R s (update_state_by_run e now run rt k u s)"
  unfolding update_state_by_run_def Let_def restore_idle
  by (rule by_scope) (use others.update_one update_one in blast)+

lemma on_agent_event: "restored s \<Longrightarrow> tasks_indexed s \<Longrightarrow> R s (on_agent_event e now v s)"
  unfolding on_agent_event_def Let_def restore_idle
  by (rule by_scope) (use others.event_one event_one in blast)+

lemma set_run_delivery: "restored s \<Longrightarrow> tasks_indexed s \<Longrightarrow> R s (set_run_delivery e now run rt k d err s)"
  unfolding set_run_delivery_def Let_def restore_idle comp_def
  by (rule by_scope) (simp_all add: update_any update_record_at)

lemma setters:
  "R s (snd (set_progress e now i x n s))" "R s (snd (set_timing e now i a b n s))"
  "R s (snd (set_cleanup_after e now i c s))" "R s (snd (set_notify_policy e now i np s))"
  "end_status st \<Longrightarrow> R s (snd (mark_terminal e now i st ended n err x oc s))"
  "R s (snd (mark_lost e now i ended n err cl s))"
  unfolding set_progress_def set_timing_def set_cleanup_after_def set_notify_policy_def mark_terminal_def mark_lost_def
  by (rule restored_op, rule update_any, simp add: task_change_def terminal_task_def end_status_def flow_key_def;
      blast?)+

lemma cancel_commit: "R s (snd (cancel_commit e now i reason s))"
proof -
  let ?p = "\<lambda>t. t\<lparr>t_status := TCancelled, t_ended := Some now, t_last_event := Some now,
    t_error := Some (opt_else (norm_opt reason) ''Cancelled by operator.'')\<rparr>"
  have u: "R s (snd (update_record e now i ?p s))"
    by (rule update_any) (simp add: task_change_def terminal_task_def flow_key_def)
  have "R s2 (deliver_terminal e now j s2)" for j s2 by (rule deliver_terminal) simp
  from u trans [OF u this] show ?thesis
    unfolding cancel_commit_def by (cases "update_record e now i ?p s") (simp split: option.split)
qed

lemma cancel_task: "R s (snd (cancel_task e now i reason s))"
  by (rule restored_op) (auto simp: cancel_task_def Let_def intro: refl cancel_commit split: option.split)

lemma link_task: "R s (snd (link_task_to_flow e now i fid s))"
proof (rule restored_op)
  let ?s = "restore_tasks e s"
  have "R ?s (snd (update_record e now i (\<lambda>t. t\<lparr>t_parent_flow := Some (trim fid)\<rparr>) s1))"
    if l: "assert_link_allowed e owner scope p ?s = (res, s1)" and t: "record_of ?s i = Some t" "flow_key t = None"
    for owner scope p res s1 t
  proof -
    have same: "record_of s1 = record_of ?s"
    proof -
      have "records (snd (assert_link_allowed e owner scope p ?s)) = records ?s"
        by (auto simp: assert_link_allowed_def flow_at_def split: option.split prod.split)
      then show ?thesis by (simp add: l record_of_def fun_eq_iff)
    qed
    show ?thesis
      by (rule trans [OF link_check [OF l] update_any]) (use t in \<open>simp add: same task_change_def\<close>)
  qed
  then show "R ?s (snd (link_task_to_flow e now i fid s))"
    using link_check
    by (auto simp: link_task_to_flow_def Let_def intro: refl split: option.split prod.split sum.split)
qed

lemma insert_task:
  assumes "record_of s (t_id t) = None" "normalize_timestamps t = t" "terminal_task (t_status t) \<longrightarrow> t_cleanup t \<noteq> None"
  shows "R s (insert_task e now origin t s)"
proof -
  have "R s2 (deliver_terminal e now j s2)" for j s2 by (rule deliver_terminal) simp
  then show ?thesis
    using insert [OF assms] trans by (simp add: insert_task_def Let_def) blast
qed

lemma merge_existing: "R s (snd (merge_existing e now p agent t s))"
proof -
  let ?s1 = "if Option.bind (n_origin p) (norm_origin e) \<noteq> None \<and> delivery_origin s (t_id t) = None
    then upsert_delivery e (t_id t) (Option.bind (n_origin p) (norm_origin e))
      (Option.bind (map_of (delivery s) (t_id t)) d_notified) s else s"
  have 1: "R s ?s1" by (simp add: delivery refl)
  have 2: "R ?s1 s2" if "(if c then assert_link_allowed e ow sc pf ?s1 else (Inr (), ?s1)) = (res, s2)" for c ow sc pf res s2
    using that link_check refl by (auto split: if_splits)
  have 3: "R s3 (snd (update_record e now (t_id t) (merge_patch p agent) s3))" for s3
    by (rule update_any) (rule merge_patch_change)
  obtain res s2 where c: "(if norm_opt (n_parent_flow p) \<noteq> None \<and> norm_opt (t_parent_flow t) = None
      then assert_link_allowed e (t_owner t) (t_scope t) (n_parent_flow p) ?s1 else (Inr (), ?s1)) = (res, s2)"
    by fastforce
  obtain r s3 where u: "update_record e now (t_id t) (merge_patch p agent) s2 = (r, s3)" by fastforce
  have "R s s2" by (rule trans [OF 1 2 [OF c]])
  moreover have "R s s3" using trans [OF \<open>R s s2\<close> 3 [of s2]] by (simp add: u)
  ultimately show ?thesis
    by (simp only: merge_existing_def Let_def c prod.case u) (simp split: sum.split option.split)
qed

lemma create_task:
  assumes "restored s" and "record_of s uuid = None"
  shows "R s (snd (create_task_record e uuid now p s))"
proof -
  let ?rq = "requester_session_key p"
  let ?sc = "scope_kind p ?rq" and ?ow = "task_owner_key p ?rq"
  obtain res s1 where a: "assert_link_allowed e ?ow ?sc (n_parent_flow p) s = (res, s1)" by fastforce
  have same: "record_of s1 = record_of s"
  proof -
    have "records (snd (assert_link_allowed e ?ow ?sc (n_parent_flow p) s)) = records s"
      by (auto simp: assert_link_allowed_def flow_at_def split: option.split prod.split)
    then show ?thesis by (simp add: a record_of_def fun_eq_iff)
  qed
  have 1: "R s s1" using a by (rule link_check)
  have 2: "R s1 (snd (merge_existing e now p ag t s1))" for ag t by (rule merge_existing)
  have 3: "R s1 (insert_task e now (n_origin p) (new_task uuid now p ?rq ?ow ?sc ag) s1)" for ag
    using assms(2) new_task_ok [of uuid now p ?rq ?ow ?sc ag]
    by (intro insert_task) (simp_all add: same in_order_normal)
  show ?thesis
    using 1 trans [OF 1 2] trans [OF 1 3] assms(1)
    by (simp add: create_task_record_def Let_def a refl split: sum.split option.split)
qed

end

section \<open>The indexes stay exact\<close>

lemma revise_fields [simp]:
  "t_id (revise n p t) = t_id (p t)" "t_run (revise n p t) = t_run (p t)" "t_owner (revise n p t) = t_owner (p t)"
  "t_child (revise n p t) = t_child (p t)" "t_parent_flow (revise n p t) = t_parent_flow (p t)"
  "t_status (revise n p t) = t_status (p t)" "t_runtime (revise n p t) = t_runtime (p t)"
  "t_scope (revise n p t) = t_scope (p t)" "t_delivery (revise n p t) = t_delivery (p t)"
  by (simp_all add: revise_def with_cleanup_def normalize_timestamps_def Let_def)

lemma revise_keys [simp]:
  "run_key (revise n p t) = run_key (p t)" "owner_of (revise n p t) = owner_of (p t)"
  "flow_key (revise n p t) = flow_key (p t)" "session_keys (revise n p t) = session_keys (p t)"
  by (simp_all only: run_key_def owner_of_def flow_key_def session_keys_def revise_fields)

lemma indexed_update:
  assumes "tasks_indexed s" and t: "record_of s i = Some t" and ch: "task_change t (patch t)"
  shows "tasks_indexed (snd (update_record e now i patch s))"
proof -
  let ?n = "revise now patch t"
  let ?s = "s\<lparr>records := AList.update i ?n (records s)\<rparr>"
  obtain r where form: "snd (update_record e now i patch s) =
      emit [TaskUpserted ?n (Some t)] ((persist_task e ?n (reindex i t ?n ?s))\<lparr>flow_reg := r\<rparr>)"
    using update_record_form [OF t] by blast
  have rec: "record_of (reindex i t ?n ?s) = (record_of s)(i \<mapsto> ?n)"
    by (simp add: record_of_def fun_eq_iff update_conv')
  have keys: "t_run ?n = t_run t" "owner_of ?n = owner_of t" "t_child ?n = t_child t" "t_id ?n = t_id t"
    using ch by (simp_all add: task_change_def) (simp add: owner_of_def)
  then have session: "session_keys ?n = session_keys t" and run: "run_key ?n = run_key t"
    by (simp_all add: session_keys_def run_key_def)
  have reindex: "by_run (reindex i t ?n ?s) = by_run s" "by_owner (reindex i t ?n ?s) = by_owner s"
    "by_session (reindex i t ?n ?s) = by_session s"
    "by_flow (reindex i t ?n ?s) = (if map_option trim (t_parent_flow t) \<noteq> map_option trim (t_parent_flow ?n)
       then add_key (flow_key ?n) i (del_key (flow_key t) i (by_flow s)) else by_flow s)"
    using keys by (simp_all add: reindex_def Let_def)
  have flow: "index_exact (\<lambda>t. opt_list (flow_key t)) (by_flow (reindex i t ?n ?s)) ((record_of s)(i \<mapsto> ?n))"
  proof (cases "map_option trim (t_parent_flow t) = map_option trim (t_parent_flow ?n)")
    case True
    then have "flow_key ?n = flow_key t"
      by (cases "t_parent_flow t"; cases "t_parent_flow ?n") (auto simp: flow_key_def norm_opt_def Let_def)
    then show ?thesis using assms(1) t True unfolding reindex by (simp add: tasks_indexed_def index_same)
  next
    case False
    then show ?thesis
      using assms(1) t index_move [of "\<lambda>t. opt_list (flow_key t)" "by_flow s" "record_of s" i t ?n]
      unfolding reindex by (simp add: tasks_indexed_def add_key_list del_key_list)
  qed
  have "tasks_indexed (reindex i t ?n ?s)"
    unfolding tasks_indexed_def rec
  proof (intro conjI)
    show "index_exact (\<lambda>t. opt_list (flow_key t)) (by_flow (reindex i t ?n ?s)) ((record_of s)(i \<mapsto> ?n))" by (rule flow)
  qed (use assms(1) t keys session run in \<open>auto simp: tasks_indexed_def reindex index_same distinct_update\<close>)
  moreover have "same_tables (reindex i t ?n ?s) (snd (update_record e now i patch s))"
    unfolding form by (simp add: same_tables_def)
  ultimately show ?thesis by (simp add: indexed_same)
qed

lemma indexed_insert:
  assumes "tasks_indexed s" and "record_of s (t_id t) = None"
  shows "tasks_indexed (insert_record e now origin t s)"
proof -
  let ?s = "index_task t (upsert_delivery e (t_id t) (Option.bind origin (norm_origin e)) None
    (s\<lparr>records := AList.update (t_id t) t (records s)\<rparr>))"
  have rec: "record_of ?s = (record_of s)(t_id t \<mapsto> t)"
    by (simp add: record_of_def index_task_def update_conv' fun_eq_iff)
  have "tasks_indexed ?s"
    using assms unfolding tasks_indexed_def rec
    by (simp add: index_task_def distinct_update add_key_list index_add
        index_add [where keys = "\<lambda>t. opt_list (run_key t)"] index_add [where keys = "\<lambda>t. opt_list (owner_of t)"]
        index_add [where keys = "\<lambda>t. opt_list (flow_key t)"])
  moreover have "same_tables ?s (insert_record e now origin t s)"
    by (simp add: same_tables_def insert_record_def Let_def sync_flow_def)
  ultimately show ?thesis by (simp add: indexed_same)
qed

lemma indexed_remove:
  assumes "tasks_indexed s" and "record_of s i = Some t"
  shows "tasks_indexed (remove_record i t s)"
proof -
  have rec: "record_of (remove_record i t s) = (record_of s)(i := None)"
    by (simp add: remove_record_def Let_def rebuild_runs_def record_of_def fun_eq_iff AList.delete_conv')
  have "distinct (map fst (AList.delete i (records s)))" using assms(1) by (simp add: tasks_indexed_def distinct_delete)
  moreover have "map_of (AList.delete i (records s)) = (record_of s)(i := None)"
    by (simp add: fun_eq_iff record_of_def AList.delete_conv')
  ultimately show ?thesis
    using assms build_index_exact [where ts = "AList.delete i (records s)" and keys = "\<lambda>t. opt_list (run_key t)"]
    unfolding tasks_indexed_def rec
    by (auto simp: remove_record_def Let_def rebuild_runs_def del_key_list intro!: index_remove)
qed

lemma indexed_frame [simp]:
  "tasks_indexed (emit es s) = tasks_indexed s" "tasks_indexed (upsert_delivery e i x n s) = tasks_indexed s"
  "tasks_indexed (s\<lparr>delivering := ds, sends := ms\<rparr>) = tasks_indexed s"
  "tasks_indexed (s\<lparr>sends := ms\<rparr>) = tasks_indexed s"
  "tasks_indexed (s\<lparr>delivering := ds\<rparr>) = tasks_indexed s" "tasks_indexed (snd (flow_at e i s)) = tasks_indexed s"
  by (rule indexed_same, simp add: same_tables_def flow_at_def split: prod.split)+

lemma restored_flow_at [simp]: "restored (snd (flow_at e i s)) = restored s"
  by (simp add: flow_at_def split: prod.split)

interpretation idx: task_relation "\<lambda>s s'. restored s \<and> tasks_indexed s \<longrightarrow> restored s' \<and> tasks_indexed s'" e for e
proof unfold_locales
  fix s :: tasks_state and i t patch now
  assume "record_of s i = Some t" "task_change t (patch t)"
  then show "restored s \<and> tasks_indexed s \<longrightarrow>
      restored (snd (update_record e now i patch s)) \<and> tasks_indexed (snd (update_record e now i patch s))"
    by (simp add: indexed_update)
next
  fix s :: tasks_state and t :: task_record and now origin
  assume "record_of s (t_id t) = None"
  moreover have "restored (insert_record e now origin t s) = restored s"
    by (simp add: insert_record_def Let_def sync_flow_def index_task_def)
  ultimately show "restored s \<and> tasks_indexed s \<longrightarrow>
      restored (insert_record e now origin t s) \<and> tasks_indexed (insert_record e now origin t s)"
    by (simp add: indexed_insert)
qed simp_all

end
