(* ===== verification/Registry_Steps.thy ===== *)
theory Registry_Steps
  imports Registry_Indexes
begin

text \<open>
  The steps of the task registry and what every reachable state satisfies: exact indexes, time stamps in
  order, a cleanup time on every ended task, and SQLite rows from which the memory can be rebuilt.
\<close>

section \<open>Steps\<close>

text \<open>
  An operation, begun in a restored registry.  A send in flight may be handed on or settle at any time; the
  commit of a cancellation that awaited a control runtime comes at any later time.
\<close>

inductive task_op :: "task_env \<Rightarrow> tasks_state \<Rightarrow> tasks_state \<Rightarrow> bool" for e where
  create: "record_of s uuid = None \<Longrightarrow> task_op e s (snd (create_task_record e uuid now p s))"
| link: "task_op e s (snd (link_task_to_flow e now i fid s))"
| progress: "task_op e s (snd (set_progress e now i summary seen s))"
| timing: "task_op e s (snd (set_timing e now i started ended seen s))"
| cleanup: "task_op e s (snd (set_cleanup_after e now i c s))"
| policy: "task_op e s (snd (set_notify_policy e now i np s))"
| ends: "end_status st \<Longrightarrow> task_op e s (snd (mark_terminal e now i st ended seen err summary outcome s))"
| lost: "task_op e s (snd (mark_lost e now i ended seen err c s))"
| run: "task_op e s (update_state_by_run e now run rt session u s)"
| run_delivery: "task_op e s (set_run_delivery e now run rt session d err s)"
| agent_event: "task_op e s (on_agent_event e now v s)"
| cancel: "task_op e s (snd (cancel_task e now i reason s))"
| commit: "task_op e s (snd (cancel_commit e now i reason s))"
| deliver: "task_op e s (deliver_terminal e now i s)"
| notify: "task_op e s (deliver_change e now i ev s)"
| dispatch: "m \<in> set (sends s) \<Longrightarrow> task_op e s (dispatch_send e m s)"
| settle: "m \<in> set (sends s) \<Longrightarrow> task_op e s (settle_send e now m accepted s)"
| flows: "flow_step (jio e) (flow_reg s) r \<Longrightarrow> task_op e s (s\<lparr>flow_reg := r\<rparr>)"

text \<open>Every operation first restores the registry.\<close>

inductive task_step :: "task_env \<Rightarrow> tasks_state \<Rightarrow> tasks_state \<Rightarrow> bool" for e where
  op: "task_op e (restore_tasks e s) s' \<Longrightarrow> task_step e s s'"
| remove: "task_step e s (snd (delete_task_record e i s))"
| reload: "task_step e s (reload_tasks e s)"

text \<open>A process starts with a store it may find filled, an empty memory and any flow registry.\<close>

definition rows_ok :: "tasks_state \<Rightarrow> bool" where
  "rows_ok s \<longleftrightarrow> distinct (map fst (task_rows s)) \<and> (\<forall>(i, r) \<in> set (task_rows s). w_id r = i) \<and>
     distinct (map fst (delivery_rows s))"

definition cold :: "tasks_state \<Rightarrow> bool" where
  "cold s \<longleftrightarrow> \<not> restored s \<and> records s = [] \<and> delivery s = [] \<and> by_run s = [] \<and> by_owner s = [] \<and>
     by_flow s = [] \<and> by_session s = [] \<and> delivering s = []"

definition starts :: "tasks_state \<Rightarrow> bool" where
  "starts s \<longleftrightarrow> cold s \<and> rows_ok s \<and> sends s = [] \<and> outbox s = []"

inductive tasks_reachable :: "task_env \<Rightarrow> tasks_state \<Rightarrow> tasks_state \<Rightarrow> bool" for e s0 where
  start: "starts s0 \<Longrightarrow> tasks_reachable e s0 s0"
| step: "tasks_reachable e s0 s \<Longrightarrow> task_step e s s' \<Longrightarrow> tasks_reachable e s0 s'"

locale registry_relation = task_relation +
  assumes flow_ops: "flow_step (jio e) (flow_reg s) r \<Longrightarrow> R s (s\<lparr>flow_reg := r\<rparr>)"
    and settles: "m \<in> set (sends s) \<Longrightarrow> R s (settle_send e now m accepted s)"
begin

lemma op: "task_op e s s' \<Longrightarrow> restored s \<Longrightarrow> tasks_indexed s \<Longrightarrow> R s s'"
proof (induction rule: task_op.induct)
  case (create s uuid now p)
  then show ?case by (intro create_task)
next
  case (settle m s now accepted)
  then show ?case by (intro settles)
next
  case (link s now i fid)
  show ?case by (rule link_task)
next
  case (progress s now i summary seen)
  show ?case by (rule setters(1))
next
  case (timing s now i started ended seen)
  show ?case by (rule setters(2))
next
  case (cleanup s now i c)
  show ?case by (rule setters(3))
next
  case (policy s now i np)
  show ?case by (rule setters(4))
next
  case (ends st s now i ended seen err summary outcome)
  show ?case by (rule setters(5) [OF ends(1)])
next
  case (lost s now i ended seen err c)
  show ?case by (rule setters(6))
next
  case (run s now run rt session u)
  show ?case by (rule update_state_by_run [OF run(1,2)])
next
  case (run_delivery s now run rt session d err)
  show ?case by (rule set_run_delivery [OF run_delivery(1,2)])
next
  case (agent_event s now v)
  show ?case by (rule on_agent_event [OF agent_event(1,2)])
next
  case (cancel s now i reason)
  show ?case by (rule cancel_task)
next
  case (commit s now i reason)
  show ?case by (rule cancel_commit)
next
  case (deliver s now i)
  show ?case by (rule deliver_terminal [OF TrueI])
next
  case (notify s now i ev)
  show ?case by (rule deliver_change [OF TrueI])
next
  case (dispatch m s)
  show ?case by (rule dispatch_send)
next
  case (flows s r)
  show ?case by (rule flow_ops [OF flows(1)])
qed

end

text \<open>A relation that ignores the sends in flight.\<close>

locale sending_relation = task_relation + settling R e "\<lambda>_. True" +
  assumes flows_only: "R s (s\<lparr>flow_reg := r\<rparr>)"

sublocale sending_relation \<subseteq> registry_relation
  by unfold_locales (rule flows_only, rule settle_send, simp)

lemma same_flows: "same_tables s (s\<lparr>flow_reg := r\<rparr>)"
  by (simp add: same_tables_def)

interpretation index_steps: sending_relation
  "\<lambda>s s'. restored s \<and> tasks_indexed s \<longrightarrow> restored s' \<and> tasks_indexed s'" e for e
  by unfold_locales (simp_all add: indexed_same [OF same_flows])

section \<open>Restoring\<close>

lemma fold_update_map:
  assumes "distinct (map fst ls)"
  shows "map_of (fold (\<lambda>(i, x). AList.update i (f x)) ls acc) i =
      (case map_of ls i of None \<Rightarrow> map_of acc i | Some x \<Rightarrow> Some (f x))"
    and "distinct (map fst acc) \<Longrightarrow> distinct (map fst (fold (\<lambda>(i, x). AList.update i (f x)) ls acc))"
  using assms
proof (induction ls arbitrary: acc)
  case (Cons x ls)
  { case 1
    then have "map_of ls (fst x) = None" by (simp add: map_of_eq_None_iff)
    with 1 show ?case
      using Cons(1) [of "AList.update (fst x) (f (snd x)) acc"]
      by (auto simp: case_prod_unfold update_conv' split: option.split) }
  { case 2 then show ?case
      using Cons(2) [of "AList.update (fst x) (f (snd x)) acc"] by (simp add: case_prod_unfold distinct_update) }
qed simp_all

lemma sorted_rows:
  assumes "distinct (map fst rs)"
  shows "map_of (sort_key f (sort_key g rs)) = map_of rs" "distinct (map fst (sort_key f rs))"
    "map_of (sort_key f rs) = map_of rs"
  using assms map_of_sort [OF assms, of "sort_key f (sort_key g rs)"] map_of_sort [OF assms, of "sort_key f rs"]
    mset_eq_imp_distinct_iff [of "map fst (sort_key f rs)" "map fst rs"]
  by simp_all

lemma load_tasks_map:
  assumes "distinct (map fst rs)" and "\<forall>(i, r) \<in> set rs. w_id r = i"
  shows "map_of (load_tasks rs) i = map_option row_to_task (map_of rs i)" and "distinct (map fst (load_tasks rs))"
proof -
  define qs where "qs = sort_key (\<lambda>(i, r). opt_else (w_created r) 0) (sort_key (\<lambda>(i, r). w_id r) rs)"
  have load: "load_tasks rs = map (\<lambda>(i, r). (i, row_to_task r)) qs"
    unfolding load_tasks_def qs_def [symmetric] using assms(2) by (intro map_cong refl) (auto simp: qs_def)
  have qs: "map_of qs = map_of rs" "distinct (map fst qs)"
    unfolding qs_def by (rule sorted_rows(1) [OF assms(1)], rule sorted_rows(2) [OF sorted_rows(2) [OF assms(1)]])
  show "map_of (load_tasks rs) i = map_option row_to_task (map_of rs i)" by (simp add: load map_of_map qs)
  have "map fst (load_tasks rs) = map fst qs" by (simp add: load comp_def case_prod_unfold)
  then show "distinct (map fst (load_tasks rs))" using qs(2) by simp
qed

lemma load_delivery_map:
  assumes "distinct (map fst rs)"
  shows "map_of (load_delivery io rs) i = map_option (row_to_delivery io) (map_of rs i)"
    and "distinct (map fst (load_delivery io rs))"
proof -
  show "map_of (load_delivery io rs) i = map_option (row_to_delivery io) (map_of rs i)"
    by (simp add: load_delivery_def map_of_map sorted_rows(3) [OF assms])
  have "map fst (load_delivery io rs) = map fst (sort_key fst rs)"
    by (simp add: load_delivery_def comp_def case_prod_unfold)
  then show "distinct (map fst (load_delivery io rs))" using sorted_rows(2) [OF assms] by simp
qed

definition load_row :: "task_row \<Rightarrow> task_record" where
  "load_row r = normalize_timestamps (row_to_task r)"

lemma restore_cold:
  assumes "cold s" and "rows_ok s"
  shows "record_of (restore_tasks e s) i = map_option load_row (map_of (task_rows s) i)"
    and "map_of (delivery (restore_tasks e s)) i = map_option (row_to_delivery (jio e)) (map_of (delivery_rows s) i)"
    and "task_rows (restore_tasks e s) = task_rows s" and "delivery_rows (restore_tasks e s) = delivery_rows s"
    and "tasks_indexed (restore_tasks e s)"
proof -
  have c: "\<not> restored s" "records s = []" "delivery s = []" "by_run s = []" "by_owner s = []" "by_flow s = []"
    "by_session s = []" using assms(1) by (simp_all add: cold_def)
  have r: "distinct (map fst (task_rows s))" "\<forall>(i, r) \<in> set (task_rows s). w_id r = i"
    "distinct (map fst (delivery_rows s))" using assms(2) by (simp_all add: rows_ok_def)
  note load = load_tasks_map [OF r(1,2)] and dload = load_delivery_map [OF r(3), of "jio e"]
  let ?rs = "fold (\<lambda>(i, t). AList.update i (normalize_timestamps t)) (load_tasks (task_rows s)) []"
  have rec: "map_of ?rs i = map_option load_row (map_of (task_rows s) i)" for i
    using fold_update_map(1) [OF load(2), where acc = "[]" and f = normalize_timestamps and i = i]
    by (cases "map_of (task_rows s) i") (simp_all add: load(1) load_row_def)
  have dist: "distinct (map fst ?rs)" using fold_update_map(2) [OF load(2), where acc = "[]"] by simp
  show recs: "record_of (restore_tasks e s) i = map_option load_row (map_of (task_rows s) i)" for i
    using rec [of i] c by (simp add: restore_tasks_def record_of_def Let_def rebuild_all_def rebuild_runs_def)
  have "map_of (fold (\<lambda>(i, d). AList.update i d) (load_delivery (jio e) (delivery_rows s)) []) i =
      map_option (row_to_delivery (jio e)) (map_of (delivery_rows s) i)"
    using fold_update_map(1) [OF dload(2), where acc = "[]" and f = "\<lambda>d. d" and i = i]
    by (cases "map_of (delivery_rows s) i") (simp_all add: dload(1))
  then show "map_of (delivery (restore_tasks e s)) i = map_option (row_to_delivery (jio e)) (map_of (delivery_rows s) i)"
    using c by (simp add: restore_tasks_def Let_def rebuild_all_def rebuild_runs_def)
  show "task_rows (restore_tasks e s) = task_rows s" "delivery_rows (restore_tasks e s) = delivery_rows s"
    by (simp_all add: restore_tasks_def Let_def rebuild_all_def rebuild_runs_def)
  have ids: "t_id t = i" if t: "map_of ?rs i = Some t" for i t
  proof -
    obtain q where "map_of (task_rows s) i = Some q" "t = load_row q" using t unfolding rec by auto
    moreover have "w_id q = i" using map_of_SomeD [OF calculation(1)] r(2) by auto
    ultimately show ?thesis by (simp add: load_row_def row_to_task_def normalize_timestamps_def Let_def)
  qed
  show "tasks_indexed (restore_tasks e s)"
  proof (cases "task_rows s = [] \<and> delivery_rows s = []")
    case True
    then show ?thesis
      using c by (simp add: restore_tasks_def tasks_indexed_def record_of_def index_exact_def ids_at_def)
  next
    case False
    have ix: "index_exact keys (build_index keys ?rs) (map_of ?rs)" for keys
      using dist by (rule build_index_exact)
    have form: "records (restore_tasks e s) = ?rs"
      "by_run (restore_tasks e s) = build_index (\<lambda>t. opt_list (run_key t)) ?rs"
      "by_owner (restore_tasks e s) = build_index (\<lambda>t. opt_list (owner_of t)) ?rs"
      "by_flow (restore_tasks e s) = build_index (\<lambda>t. opt_list (flow_key t)) ?rs"
      "by_session (restore_tasks e s) = build_index session_keys ?rs"
      using False c by (auto simp: restore_tasks_def Let_def rebuild_all_def rebuild_runs_def)
    have map: "record_of (restore_tasks e s) = map_of ?rs" by (simp add: fun_eq_iff recs rec)
    show ?thesis unfolding tasks_indexed_def map form using dist ids ix by simp
  qed
qed

end
