(* ===== verification/Registry_Invariants.thy ===== *)
theory Registry_Invariants
  imports Registry_Steps
begin

text \<open>
  Interpretations of \<open>sending_relation\<close>: how a record may change while it stays, its time stamps, and
  the SQLite rows from which a reload rebuilds the memory.
\<close>

section \<open>Frames\<close>

lemma record_frame [simp]:
  "record_of (emit es s) = record_of s" "record_of (upsert_delivery e i x n s) = record_of s"
  "record_of (s\<lparr>delivering := ds, sends := ms\<rparr>) = record_of s" "record_of (s\<lparr>flow_reg := r\<rparr>) = record_of s"
  "record_of (s\<lparr>sends := ms\<rparr>) = record_of s" "record_of (s\<lparr>delivering := ds\<rparr>) = record_of s"
  "record_of (snd (flow_at e i s)) = record_of s" "record_of (s\<lparr>delivery := d, delivery_rows := dr\<rparr>) = record_of s"
  by (simp_all add: record_of_def fun_eq_iff flow_at_def split: prod.split)

lemma insert_record_frame [simp]:
  "record_of (insert_record e now origin t s) = (record_of s)(t_id t \<mapsto> t)"
  "restored (insert_record e now origin t s) = restored s"
  by (simp_all add: insert_record_def Let_def sync_flow_def index_task_def record_of_def fun_eq_iff update_conv')

lemma flow_at_rows [simp]:
  "task_rows (snd (flow_at e i s)) = task_rows s" "delivery_rows (snd (flow_at e i s)) = delivery_rows s"
  "delivery (snd (flow_at e i s)) = delivery s"
  by (simp_all add: flow_at_def split: prod.split)

section \<open>How a record changes while it stays\<close>

definition task_grows :: "task_record \<Rightarrow> task_record \<Rightarrow> bool" where
  "task_grows t t' \<longleftrightarrow> t_id t' = t_id t \<and> t_runtime t' = t_runtime t \<and> t_requester t' = t_requester t \<and>
     t_owner t' = t_owner t \<and> t_scope t' = t_scope t \<and> t_child t' = t_child t \<and> t_run t' = t_run t \<and>
     t_created t' \<le> t_created t \<and> (terminal_task (t_status t) \<longrightarrow> terminal_task (t_status t')) \<and>
     (flow_key t \<noteq> None \<longrightarrow> flow_key t' = flow_key t)"

definition records_grow :: "tasks_state \<Rightarrow> tasks_state \<Rightarrow> bool" where
  "records_grow s s' \<longleftrightarrow> (\<forall>i t. record_of s i = Some t \<longrightarrow> (\<exists>t'. record_of s' i = Some t' \<and> task_grows t t'))"

lemma task_grows_refl [simp]: "task_grows t t"
  by (simp add: task_grows_def)

lemma task_grows_trans: "task_grows t u \<Longrightarrow> task_grows u v \<Longrightarrow> task_grows t v"
  by (auto simp: task_grows_def)

lemma revise_created: "t_created (revise now patch t) \<le> t_created (patch t)"
  using earliest_le(1) [of "patch t"] by (simp add: revise_def with_cleanup_def normalize_timestamps_def Let_def)

lemma revise_requester [simp]: "t_requester (revise now patch t) = t_requester (patch t)"
  by (simp add: revise_def with_cleanup_def normalize_timestamps_def Let_def)

lemma revise_grows: "task_change t (patch t) \<Longrightarrow> task_grows t (revise now patch t)"
  using revise_created [of now patch t] by (auto simp: task_change_def task_grows_def flow_key_def)

lemma records_grow_same: "record_of s' = record_of s \<Longrightarrow> records_grow s s'"
  by (simp add: records_grow_def)

lemma records_grow_trans: "records_grow s t \<Longrightarrow> records_grow t u \<Longrightarrow> records_grow s u"
  unfolding records_grow_def by (fast intro: task_grows_trans)

interpretation life: sending_relation "\<lambda>s s'. restored s \<longrightarrow> restored s' \<and> records_grow s s'" e for e
proof unfold_locales
  fix s t u
  assume "restored s \<longrightarrow> restored t \<and> records_grow s t" "restored t \<longrightarrow> restored u \<and> records_grow t u"
  then show "restored s \<longrightarrow> restored u \<and> records_grow s u"
    by (auto intro: records_grow_trans)
next
  fix s :: tasks_state and i t patch now
  assume "record_of s i = Some t" "task_change t (patch t)"
  then show "restored s \<longrightarrow> restored (snd (update_record e now i patch s)) \<and>
      records_grow s (snd (update_record e now i patch s))"
    using revise_grows [of t patch now] by (simp add: records_grow_def update_record_at)
qed (simp_all add: records_grow_same, simp add: records_grow_def)

section \<open>Time stamps\<close>

definition all_records :: "(task_record \<Rightarrow> bool) \<Rightarrow> tasks_state \<Rightarrow> bool" where
  "all_records P s \<longleftrightarrow> (\<forall>t \<in> ran (record_of s). P t)"

definition ordered :: "tasks_state \<Rightarrow> bool" where
  "ordered = all_records in_order"

definition retained :: "tasks_state \<Rightarrow> bool" where
  "retained = all_records (\<lambda>t. terminal_task (t_status t) \<longrightarrow> t_cleanup t \<noteq> None)"

lemma all_records_upd: "P t \<Longrightarrow> \<forall>t \<in> ran m. P t \<Longrightarrow> \<forall>t \<in> ran (m(i \<mapsto> t)). P t"
  by (auto simp: ran_def split: if_splits)

lemma all_records_frame [simp]:
  "all_records P (emit es s) = all_records P s" "all_records P (upsert_delivery e i x n s) = all_records P s"
  "all_records P (s\<lparr>delivering := ds, sends := ms\<rparr>) = all_records P s"
  "all_records P (s\<lparr>sends := ms\<rparr>) = all_records P s"
  "all_records P (s\<lparr>delivering := ds\<rparr>) = all_records P s"
  "all_records P (s\<lparr>flow_reg := r\<rparr>) = all_records P s" "all_records P (snd (flow_at e i s)) = all_records P s"
  by (simp_all add: all_records_def)

lemma all_records_relation:
  assumes revised: "\<And>now patch t. P (revise now patch t)"
    and fresh: "\<And>t. normalize_timestamps t = t \<Longrightarrow> (terminal_task (t_status t) \<longrightarrow> t_cleanup t \<noteq> None) \<Longrightarrow> P t"
  shows "sending_relation (\<lambda>s s'. restored s \<and> all_records P s \<longrightarrow> restored s' \<and> all_records P s') e"
proof unfold_locales
  fix s :: tasks_state and i t patch now
  assume "record_of s i = Some t"
  then show "restored s \<and> all_records P s \<longrightarrow> restored (snd (update_record e now i patch s)) \<and>
      all_records P (snd (update_record e now i patch s))"
    using all_records_upd [of P "revise now patch t" "record_of s" i, OF revised] by (simp add: all_records_def update_record_at)
next
  fix s :: tasks_state and t :: task_record and now origin
  assume "normalize_timestamps t = t" "terminal_task (t_status t) \<longrightarrow> t_cleanup t \<noteq> None"
  then show "restored s \<and> all_records P s \<longrightarrow>
      restored (insert_record e now origin t s) \<and> all_records P (insert_record e now origin t s)"
    using all_records_upd [of P t "record_of s" "t_id t", OF fresh] by (simp add: all_records_def)
qed simp_all

lemma normal_in_order: "normalize_timestamps t = t \<Longrightarrow> in_order t"
  using normalize_in_order [of t] by simp

interpretation order: sending_relation "\<lambda>s s'. restored s \<and> ordered s \<longrightarrow> restored s' \<and> ordered s'" e for e
  unfolding ordered_def by (rule all_records_relation) (simp_all add: revise_ok normal_in_order)

interpretation retention: sending_relation "\<lambda>s s'. restored s \<and> retained s \<longrightarrow> restored s' \<and> retained s'" e for e
  unfolding retained_def by (rule all_records_relation) (use revise_ok(2) in blast)+

section \<open>Rows\<close>

text \<open>A row was written from its record, or its record was read from it.\<close>

definition written :: "task_row \<Rightarrow> task_record \<Rightarrow> bool" where
  "written r t \<longleftrightarrow> r = bind_task t \<or> t = load_row r"

definition delivery_written :: "json_io \<Rightarrow> delivery_row \<Rightarrow> delivery_state \<Rightarrow> bool" where
  "delivery_written io r d \<longleftrightarrow> r = bind_delivery io d \<or> d = row_to_delivery io r"

definition stored :: "task_env \<Rightarrow> tasks_state \<Rightarrow> bool" where
  "stored e s \<longleftrightarrow> rows_ok s \<and> (\<forall>i. rel_option written (map_of (task_rows s) i) (record_of s i)) \<and>
     (\<forall>i. rel_option (delivery_written (jio e)) (map_of (delivery_rows s) i) (map_of (delivery s) i))"

lemma rows_ok_update:
  assumes "rows_ok s" and "w_id r = i" and "distinct (map fst ds)"
  shows "rows_ok (s\<lparr>task_rows := AList.update i r (task_rows s), delivery_rows := ds\<rparr>)"
proof -
  have "w_id q = k" if "(k, q) \<in> set (AList.update i r (task_rows s))" for k q
  proof -
    have "map_of (AList.update i r (task_rows s)) k = Some q"
      using assms(1) that by (intro map_of_is_SomeI) (simp_all add: rows_ok_def distinct_update)
    then have "k = i \<and> q = r \<or> map_of (task_rows s) k = Some q" by (auto simp: update_conv' split: if_splits)
    then show ?thesis using assms(1,2) map_of_SomeD [of "task_rows s" k q] by (auto simp: rows_ok_def)
  qed
  then show ?thesis using assms by (auto simp: rows_ok_def distinct_update)
qed

lemma stored_persist:
  assumes "stored e s" and rec: "record_of s' = (record_of s)(t_id t \<mapsto> t)"
    and same: "task_rows s' = task_rows s" "delivery_rows s' = delivery_rows s" "delivery s' = delivery s"
  shows "stored e (persist_task e t s')"
proof -
  let ?p = "persist_task e t s'"
  have ok: "rows_ok s" using assms(1) by (simp add: stored_def)
  have dist: "distinct (map fst (delivery_rows ?p))"
    using ok by (auto simp: persist_task_def same rows_ok_def distinct_update distinct_delete split: option.split)
  have form: "task_rows ?p = AList.update (t_id t) (bind_task t) (task_rows s)"
    by (simp add: persist_task_def same)
  have "rows_ok ?p"
    using rows_ok_update [OF ok _ dist, of "bind_task t" "t_id t"] form
    by (simp add: rows_ok_def bind_task_def)
  moreover have "record_of ?p = (record_of s)(t_id t \<mapsto> t)" using rec by (simp add: record_of_def fun_eq_iff)
  moreover have "rel_option (delivery_written (jio e)) (map_of (delivery_rows ?p) i) (map_of (delivery ?p) i)" for i
    using assms(1) by (auto simp: stored_def persist_task_def same update_conv' AList.delete_conv'
        delivery_written_def split: option.split)
  ultimately show ?thesis using assms(1) by (simp add: stored_def form update_conv' written_def)
qed

lemma stored_same:
  "record_of s' = record_of s \<Longrightarrow> task_rows s' = task_rows s \<Longrightarrow> delivery_rows s' = delivery_rows s \<Longrightarrow>
     delivery s' = delivery s \<Longrightarrow> stored e s' = stored e s"
  by (simp add: stored_def rows_ok_def)

lemma stored_frame [simp]:
  "stored e (emit es s) = stored e s" "stored e (s\<lparr>delivering := ds, sends := ms\<rparr>) = stored e s"
  "stored e (s\<lparr>sends := ms\<rparr>) = stored e s" "stored e (s\<lparr>delivering := ds\<rparr>) = stored e s"
  "stored e (s\<lparr>flow_reg := r\<rparr>) = stored e s" "stored e (snd (flow_at e i s)) = stored e s"
  by (rule stored_same; simp)+

lemma stored_delivery: "stored e s \<Longrightarrow> stored e (upsert_delivery e i origin n s)"
  by (auto simp: stored_def upsert_delivery_def Let_def rows_ok_def distinct_update update_conv' delivery_written_def)

lemma stored_update:
  assumes "stored e s" and "tasks_indexed s" and t: "record_of s i = Some t" and "task_change t (patch t)"
  shows "stored e (snd (update_record e now i patch s))"
proof -
  let ?n = "revise now patch t"
  let ?s = "s\<lparr>records := AList.update i ?n (records s)\<rparr>"
  obtain r where form: "snd (update_record e now i patch s) =
      emit [TaskUpserted ?n (Some t)] ((persist_task e ?n (reindex i t ?n ?s))\<lparr>flow_reg := r\<rparr>)"
    using update_record_form [OF t] by blast
  have "t_id ?n = i" using assms(2-4) by (simp add: tasks_indexed_def task_change_def)
  then have "stored e (persist_task e ?n (reindex i t ?n ?s))"
    by (intro stored_persist [OF assms(1)]) (simp_all add: record_of_def fun_eq_iff update_conv')
  then show ?thesis unfolding form by (subst stored_same) simp_all
qed

lemma stored_insert:
  assumes "stored e s"
  shows "stored e (insert_record e now origin t s)"
proof -
  let ?s = "upsert_delivery e (t_id t) (Option.bind origin (norm_origin e)) None s"
  let ?s' = "index_task t (upsert_delivery e (t_id t) (Option.bind origin (norm_origin e)) None
    (s\<lparr>records := AList.update (t_id t) t (records s)\<rparr>))"
  have "stored e ?s" using assms by (rule stored_delivery)
  moreover have "record_of ?s' = (record_of ?s)(t_id t \<mapsto> t)"
    by (simp add: record_of_def fun_eq_iff index_task_def update_conv')
  moreover have "task_rows ?s' = task_rows ?s" "delivery_rows ?s' = delivery_rows ?s" "delivery ?s' = delivery ?s"
    by (simp_all add: index_task_def upsert_delivery_def Let_def)
  ultimately have "stored e (persist_task e t ?s')" by (rule stored_persist)
  then show ?thesis
    by (simp add: insert_record_def Let_def sync_flow_def)
qed

interpretation rows: sending_relation
  "\<lambda>s s'. restored s \<and> tasks_indexed s \<and> stored e s \<longrightarrow> restored s' \<and> tasks_indexed s' \<and> stored e s'" e for e
proof unfold_locales
  fix s :: tasks_state and i t patch now
  assume "record_of s i = Some t" "task_change t (patch t)"
  then show "restored s \<and> tasks_indexed s \<and> stored e s \<longrightarrow> restored (snd (update_record e now i patch s)) \<and>
      tasks_indexed (snd (update_record e now i patch s)) \<and> stored e (snd (update_record e now i patch s))"
    by (simp add: indexed_update stored_update)
next
  fix s :: tasks_state and t :: task_record and now origin
  assume "record_of s (t_id t) = None"
  then show "restored s \<and> tasks_indexed s \<and> stored e s \<longrightarrow> restored (insert_record e now origin t s) \<and>
      tasks_indexed (insert_record e now origin t s) \<and> stored e (insert_record e now origin t s)"
    by (simp add: indexed_insert stored_insert)
qed (simp_all add: stored_delivery indexed_same [OF same_flows])

section \<open>Reachable states\<close>

definition tasks_ok :: "task_env \<Rightarrow> tasks_state \<Rightarrow> bool" where
  "tasks_ok e s \<longleftrightarrow> (if restored s then tasks_indexed s \<and> stored e s \<and> ordered s else cold s \<and> rows_ok s)"

lemma rows_ok_of: "tasks_ok e s \<Longrightarrow> rows_ok s"
  by (auto simp: tasks_ok_def stored_def split: if_splits)

lemma load_row_written: "written r (load_row r)"
  by (simp add: written_def)

lemma restore_ok:
  assumes "tasks_ok e s"
  shows "tasks_ok e (restore_tasks e s)"
proof (cases "restored s")
  case False
  then have c: "cold s" "rows_ok s" using assms by (simp_all add: tasks_ok_def)
  note r = restore_cold [OF c, of e]
  have "rows_ok (restore_tasks e s)" using c(2) r(3,4) by (simp add: rows_ok_def)
  moreover have "rel_option written (map_of (task_rows s) i) (map_option load_row (map_of (task_rows s) i))" for i
    by (cases "map_of (task_rows s) i") (simp_all add: load_row_written)
  moreover have "rel_option (delivery_written (jio e)) (map_of (delivery_rows s) i)
      (map_option (row_to_delivery (jio e)) (map_of (delivery_rows s) i))" for i
    by (cases "map_of (delivery_rows s) i") (simp_all add: delivery_written_def)
  moreover have "ordered (restore_tasks e s)"
    by (auto simp: ordered_def all_records_def ran_def r(1) load_row_def normalize_in_order)
  ultimately show ?thesis using r(5) by (simp add: tasks_ok_def stored_def r(1-4))
qed (use assms in simp)

lemma set_delete: "set (AList.delete i xs) \<subseteq> set xs"
  by (auto simp: AList.delete_eq)

lemma remove_ok:
  assumes "tasks_ok e s" and "restored s" and t: "record_of s i = Some t"
  shows "tasks_ok e (remove_record i t s)"
proof -
  have rec: "record_of (remove_record i t s) = (record_of s)(i := None)"
    by (simp add: remove_record_def Let_def rebuild_runs_def record_of_def fun_eq_iff AList.delete_conv')
  have form: "task_rows (remove_record i t s) = AList.delete i (task_rows s)"
    "delivery_rows (remove_record i t s) = AList.delete i (delivery_rows s)"
    "delivery (remove_record i t s) = AList.delete i (delivery s)" "restored (remove_record i t s) = restored s"
    by (simp_all add: remove_record_def Let_def rebuild_runs_def)
  have ok: "tasks_indexed s" "stored e s" "ordered s" using assms(1,2) by (simp_all add: tasks_ok_def)
  have "rows_ok (remove_record i t s)"
    using ok(2) set_delete [of i "task_rows s"] by (auto simp: stored_def rows_ok_def form distinct_delete)
  then have "stored e (remove_record i t s)"
    using ok(2) by (simp add: stored_def form rec AList.delete_conv')
  moreover have "ordered (remove_record i t s)"
    using ok(3) by (auto simp: ordered_def all_records_def ran_def rec split: if_splits)
  ultimately show ?thesis using assms(2) indexed_remove [OF ok(1) t] by (simp add: tasks_ok_def form)
qed

lemma delete_ok: "tasks_ok e s \<Longrightarrow> tasks_ok e (snd (delete_task_record e i s))"
  using restore_ok [of e s] remove_ok [of e "restore_tasks e s" i]
  by (simp add: delete_task_record_def Let_def split: option.split)

lemma reload_ok: "tasks_ok e s \<Longrightarrow> tasks_ok e (reload_tasks e s)"
  unfolding reload_tasks_def
  by (rule restore_ok) (use rows_ok_of [of e s] in \<open>simp add: tasks_ok_def cold_def rows_ok_def\<close>)

lemma op_ok:
  assumes "task_op e s s'" and "restored s" and "tasks_ok e s"
  shows "tasks_ok e s' \<and> restored s'"
  using rows.op [OF assms(1)] order.op [OF assms(1)] assms(2,3) by (simp add: tasks_ok_def)

lemma step_ok: "task_step e s s' \<Longrightarrow> tasks_ok e s \<Longrightarrow> tasks_ok e s'"
  by (erule task_step.cases) (auto simp: delete_ok reload_ok dest: op_ok [OF _ _ restore_ok])

lemma tasks_reachable_ok: "tasks_reachable e s0 s \<Longrightarrow> tasks_ok e s"
proof (induction rule: tasks_reachable.induct)
  case start
  then show ?case by (simp add: starts_def tasks_ok_def cold_def)
qed (rule step_ok)

text \<open>Ended tasks keep a cleanup time also at rest.\<close>

definition rows_retained :: "tasks_state \<Rightarrow> bool" where
  "rows_retained s \<longleftrightarrow> (\<forall>r \<in> ran (map_of (task_rows s)). terminal_task (w_status r) \<longrightarrow> w_cleanup r \<noteq> None)"

lemma load_row_status [simp]: "t_status (load_row r) = w_status r" "t_cleanup (load_row r) = w_cleanup r"
  by (simp_all add: load_row_def row_to_task_def normalize_timestamps_def Let_def)

lemma retained_rows: "stored e s \<Longrightarrow> retained s \<Longrightarrow> rows_retained s"
proof (unfold rows_retained_def, intro ballI)
  fix r
  assume s: "stored e s" "retained s" and "r \<in> ran (map_of (task_rows s))"
  then obtain i where r: "map_of (task_rows s) i = Some r" by (auto simp: ran_def)
  then obtain t where t: "record_of s i = Some t" "written r t"
    using s(1) by (metis (no_types, lifting) option_rel_Some1 stored_def)
  then have "terminal_task (t_status t) \<longrightarrow> t_cleanup t \<noteq> None"
    using s(2) by (auto simp: retained_def all_records_def ran_def)
  then show "terminal_task (w_status r) \<longrightarrow> w_cleanup r \<noteq> None"
    using t(2) by (auto simp: written_def bind_task_def)
qed

lemma restore_retained:
  assumes "cold s" "rows_ok s" "rows_retained s"
  shows "retained (restore_tasks e s)"
  using assms(3) by (auto simp: retained_def all_records_def rows_retained_def ran_def restore_cold(1) [OF assms(1,2)])

definition retains :: "tasks_state \<Rightarrow> bool" where
  "retains s \<longleftrightarrow> (if restored s then retained s else rows_retained s)"

lemma retains_restore: "tasks_ok e s \<Longrightarrow> retains s \<Longrightarrow> retained (restore_tasks e s)"
  using restore_retained [of s e] by (cases "restored s") (simp_all add: retains_def tasks_ok_def)

lemma step_retains:
  assumes "task_step e s s'" and ok: "tasks_ok e s" and r: "retains s"
  shows "retains s'"
  using assms(1)
proof cases
  case op
  then show ?thesis
    using retention.op [OF op] retains_restore [OF ok r] restore_ok [OF ok] by (simp add: retains_def tasks_ok_def)
next
  case (remove i)
  show ?thesis
  proof (cases "record_of (restore_tasks e s) i")
    case (Some t)
    have "record_of (remove_record i t (restore_tasks e s)) = (record_of (restore_tasks e s))(i := None)"
      "restored (remove_record i t (restore_tasks e s))"
      by (simp_all add: remove_record_def Let_def rebuild_runs_def record_of_def fun_eq_iff AList.delete_conv')
    then show ?thesis
      using retains_restore [OF ok r] remove Some
      by (auto simp: delete_task_record_def Let_def retains_def retained_def all_records_def ran_def split: if_splits)
  qed (use remove retains_restore [OF ok r] in \<open>simp add: delete_task_record_def Let_def retains_def\<close>)
next
  case reload
  have "rows_retained s" using r ok retained_rows by (auto simp: retains_def tasks_ok_def split: if_splits)
  then have "retained s'"
    unfolding reload reload_tasks_def
    by (intro restore_retained) (use rows_ok_of [OF ok] in \<open>simp_all add: cold_def rows_ok_def rows_retained_def\<close>)
  then show ?thesis by (simp add: retains_def reload reload_tasks_def)
qed

lemma reachable_retains:
  "tasks_reachable e s0 s \<Longrightarrow> rows_retained s0 \<Longrightarrow> retains s"
proof (induction rule: tasks_reachable.induct)
  case start
  then show ?case by (simp add: starts_def cold_def retains_def)
next
  case (step s s')
  then show ?case using step_retains tasks_reachable_ok by blast
qed

end
