(* ===== verification/Registry_Flows.thy ===== *)
theory Registry_Flows
  imports Registry_Invariants
begin

text \<open>
  Tasks and flows together: what an update of a task does to its flow, and when a task may be linked to one.
\<close>

section \<open>Active tasks of a flow\<close>

lemma tidy_key: "flow_key t = Some k \<Longrightarrow> norm_opt (Some k) = Some k"
  using norm_opt_tidy [of "t_parent_flow t"] by (simp add: flow_key_def tidy_def)

lemma records_at_set:
  assumes "tasks_indexed s" and "index_exact keys ix (record_of s)"
  shows "set (records_at s (ids_at ix k)) = {t. t \<in> ran (record_of s) \<and> k \<in> set (keys t)}"
proof -
  have ids: "set (ids_at ix k) = {i. \<exists>t. record_of s i = Some t \<and> k \<in> set (keys t)}"
    using assms(2) by (simp add: index_exact_def)
  have recs: "set (records_at s us) = {t. \<exists>i \<in> set us. record_of s i = Some t}" for us
    by (induction us) (auto simp: records_at_def map_filter_simps split: option.split)
  show ?thesis unfolding recs ids by (auto simp: ran_def)
qed

lemma records_at_distinct:
  assumes "tasks_indexed s" and "index_exact keys ix (record_of s)"
  shows "distinct (records_at s (ids_at ix k))"
proof -
  have "distinct (List.map_filter (record_of s) us)" if "distinct us" for us
    using that
  proof (induction us)
    case (Cons i us)
    have "t_id t \<in> set us" if "t \<in> set (List.map_filter (record_of s) us)" for t
      using that assms(1) by (induction us) (auto simp: map_filter_simps tasks_indexed_def split: option.splits)
    then have "record_of s i = Some t \<Longrightarrow> t \<notin> set (List.map_filter (record_of s) us)" for t
      using Cons.prems assms(1) unfolding tasks_indexed_def by auto
    then show ?case using Cons by (auto simp: map_filter_simps split: option.split)
  qed (simp add: map_filter_simps)
  moreover have "distinct (ids_at ix k)" using assms(2) by (simp add: index_exact_def)
  ultimately show ?thesis by (simp add: records_at_def)
qed

lemma opt_list_member: "k \<in> set (opt_list v) \<longleftrightarrow> v = Some k"
  by (auto simp: opt_list_def split: option.split)

lemma has_active_iff:
  assumes "tasks_indexed s" and "norm_opt (Some fid) = Some k"
  shows "has_active_tasks s fid \<longleftrightarrow> (\<exists>u \<in> ran (record_of s). flow_key u = Some k \<and> active_task (t_status u))"
proof -
  have ix: "index_exact (\<lambda>t. opt_list (flow_key t)) (by_flow s) (record_of s)"
    using assms(1) by (simp add: tasks_indexed_def)
  have "set (tasks_of_flow s fid) = {t. t \<in> ran (record_of s) \<and> flow_key t = Some k}"
    using records_at_set [OF assms(1) ix, of k]
    by (simp add: tasks_of_flow_def list_from_index_def newest_first_def assms(2) opt_list_member)
  then have "has_active_tasks s fid \<longleftrightarrow> (\<exists>u \<in> {t. t \<in> ran (record_of s) \<and> flow_key t = Some k}. active_task (t_status u))"
    by (simp only: has_active_tasks_def list_ex_iff)
  then show ?thesis by blast
qed

lemma has_active_frame:
  "records s' = records s \<Longrightarrow> by_flow s' = by_flow s \<Longrightarrow> has_active_tasks s' fid = has_active_tasks s fid"
proof -
  assume same: "records s' = records s" "by_flow s' = by_flow s"
  then have "record_of s' = record_of s" by (simp add: fun_eq_iff record_of_def)
  with same show ?thesis
    by (simp add: has_active_tasks_def tasks_of_flow_def list_from_index_def records_at_def split: option.split)
qed

section \<open>Mirroring and cancelling\<close>

lemma sync_mirrored:
  assumes ok: "registry_ok io r" and key: "norm_opt (t_parent_flow t) = Some i"
    and cur: "map_of (flows r) i = Some cur" "mode cur = TaskMirrored"
  shows "\<exists>f. map_of (flows (snd (sync_flow_from_task io now t r))) = (map_of (flows r))(i \<mapsto> f) \<and>
    mode f = TaskMirrored \<and> status f = derive_status t \<and> (ended_at f \<noteq> None \<longleftrightarrow> is_terminal (status f)) \<and>
    revision f = revision cur + 1"
proof -
  have "flow_ok cur" and id: "flow_id cur = i" using ok cur by (simp_all add: registry_ok_def row_ok_def)
  moreover have "p_controller (sync_patch t cur) = Keep" by (simp add: sync_patch_def Let_def empty_patch_def)
  ultimately obtain f where f: "apply_flow_patch now cur (sync_patch t cur) = Inr f" using apply_patch_total by blast
  have "sync_flow_from_task io now t r = (Inr (Some f), write_flow io f (Some cur) r)"
    using ok key cur f by (simp add: sync_flow_from_task_def get_flow_def update_unchecked_def)
  then show ?thesis
    using apply_patch_facts(1,2,4) [OF f] sync_patch_effect(1,2) [OF f] id cur by (auto simp: write_flow_map)
qed

lemma sync_managed:
  assumes "registry_ok io r" and "norm_opt (t_parent_flow t) = Some i"
    and "map_of (flows r) i = None \<or> mode (the (map_of (flows r) i)) \<noteq> TaskMirrored"
  shows "snd (sync_flow_from_task io now t r) = r"
  using assms by (auto simp: sync_flow_from_task_def get_flow_def split: option.split)

text \<open>The flow registry after an update of a record.\<close>

lemma update_record_flows:
  assumes t: "record_of s i = Some t"
  shows "let n = revise now patch t; s' = snd (update_record e now i patch s) in
    \<exists>s1. flow_reg s1 = snd (sync_flow_from_task (jio e) now n (flow_reg s)) \<and>
    (\<forall>fid. has_active_tasks s1 fid = has_active_tasks s' fid) \<and>
    flow_reg s' = flow_reg (sync_cancellation e now n s1)"
proof -
  define n s' where n_def: "n = revise now patch t" and s'_def: "s' = snd (update_record e now i patch s)"
  let ?p = "persist_task e n (reindex i t n (s\<lparr>records := AList.update i n (records s)\<rparr>))"
  let ?s1 = "sync_flow e now n ?p"
  have form: "s' = emit [TaskUpserted n (Some t)] (sync_cancellation e now n ?s1)"
    using t by (simp add: s'_def n_def update_record_def Let_def revise_def)
  have only: "sync_cancellation e now n ?s1 = ?s1\<lparr>flow_reg := flow_reg (sync_cancellation e now n ?s1)\<rparr>"
    by (rule sync_cancellation_only)
  have "records s' = records ?s1" "by_flow s' = by_flow ?s1" unfolding form by (subst only, simp)+
  then have "has_active_tasks s' fid = has_active_tasks ?s1 fid" for fid by (rule has_active_frame)
  moreover have "flow_reg ?s1 = snd (sync_flow_from_task (jio e) now n (flow_reg s))" by (simp add: sync_flow_def)
  moreover have "flow_reg s' = flow_reg (sync_cancellation e now n ?s1)" by (simp add: form)
  ultimately have "\<exists>s1. flow_reg s1 = snd (sync_flow_from_task (jio e) now n (flow_reg s)) \<and>
      (\<forall>fid. has_active_tasks s1 fid = has_active_tasks s' fid) \<and>
      flow_reg s' = flow_reg (sync_cancellation e now n s1)" by metis
  then show ?thesis by (simp add: n_def s'_def Let_def)
qed

lemma flow_at_ok: "registry_ok (jio e) (flow_reg s) \<Longrightarrow> flow_at e i s = (map_of (flows (flow_reg s)) i, s)"
  by (simp add: flow_at_def get_flow_def Let_def)

lemma update_mirrored:
  assumes t: "record_of s i = Some t" and key: "flow_key (patch t) = Some fid"
    and ok: "registry_ok (jio e) (flow_reg s)" and null: "null_fits (jio e)"
    and f: "map_of (flows (flow_reg s)) fid = Some f" "mode f = TaskMirrored"
  shows "\<exists>f'. map_of (flows (flow_reg (snd (update_record e now i patch s)))) = (map_of (flows (flow_reg s)))(fid \<mapsto> f') \<and>
    mode f' = TaskMirrored \<and> status f' = derive_status (revise now patch t) \<and>
    (ended_at f' \<noteq> None \<longleftrightarrow> is_terminal (status f')) \<and> revision f' = revision f + 1"
proof -
  let ?n = "revise now patch t"
  obtain s1 where s1: "flow_reg s1 = snd (sync_flow_from_task (jio e) now ?n (flow_reg s))"
    "flow_reg (snd (update_record e now i patch s)) = flow_reg (sync_cancellation e now ?n s1)"
    using update_record_flows [OF t, of now patch e] by (auto simp: Let_def)
  have k: "flow_key ?n = Some fid" using key by simp
  obtain f' where f': "map_of (flows (flow_reg s1)) = (map_of (flows (flow_reg s)))(fid \<mapsto> f')" "mode f' = TaskMirrored"
    "status f' = derive_status ?n" "ended_at f' \<noteq> None \<longleftrightarrow> is_terminal (status f')" "revision f' = revision f + 1"
    using sync_mirrored [OF ok k [unfolded flow_key_def] f, of now] s1(1) by auto
  have ok1: "registry_ok (jio e) (flow_reg s1)" unfolding s1(1) by (rule sync_flow_ok [OF ok null])
  have "sync_cancellation e now ?n s1 = s1"
    using f'(1,2) by (simp add: sync_cancellation_def key flow_at_ok [OF ok1] awaits_cancel_def)
  with f' show ?thesis by (auto simp: s1(2))
qed

definition cancel_time :: "int \<Rightarrow> task_record \<Rightarrow> int" where
  "cancel_time now t = opt_else (t_ended t) (opt_else (t_last_event t) now)"

lemma update_managed:
  assumes ix: "tasks_indexed s" and t: "record_of s i = Some t" and ch: "task_change t (patch t)"
    and key: "flow_key (patch t) = Some fid" and ok: "registry_ok (jio e) (flow_reg s)"
    and f: "map_of (flows (flow_reg s)) fid = Some f" "mode f = Managed"
    and s'_def: "s' = snd (update_record e now i patch s)"
  shows "if awaits_cancel f \<and> (\<forall>u \<in> ran (record_of s'). flow_key u = Some fid \<longrightarrow> \<not> active_task (t_status u))
    then \<exists>f'. map_of (flows (flow_reg s')) = (map_of (flows (flow_reg s)))(fid \<mapsto> f') \<and> status f' = FCancelled \<and>
      ended_at f' = Some (cancel_time now (revise now patch t)) \<and> blocked_task_id f' = None \<and> blocked_summary f' = None
    else flow_reg s' = flow_reg s"
proof -
  let ?n = "revise now patch t"
  obtain s1 where s1: "flow_reg s1 = snd (sync_flow_from_task (jio e) now ?n (flow_reg s))"
    "\<forall>k. has_active_tasks s1 k = has_active_tasks s' k" "flow_reg s' = flow_reg (sync_cancellation e now ?n s1)"
    using update_record_flows [OF t, of now patch e] by (auto simp: Let_def s'_def)
  have k: "flow_key ?n = Some fid" using key by simp
  have same: "flow_reg s1 = flow_reg s"
    unfolding s1(1) by (rule sync_managed [OF ok k [unfolded flow_key_def]]) (simp add: f)
  have "tasks_indexed s'" unfolding s'_def by (rule indexed_update [where patch = patch, OF ix t ch])
  then have active: "has_active_tasks s1 fid \<longleftrightarrow>
      (\<exists>u \<in> ran (record_of s'). flow_key u = Some fid \<and> active_task (t_status u))"
    using s1(2) has_active_iff [OF _ tidy_key [OF key]] by simp
  have ok1: "registry_ok (jio e) (flow_reg s1)" using ok same by simp
  have sync: "sync_cancellation e now ?n s1 = (if \<not> awaits_cancel f \<or> has_active_tasks s1 fid then s1
      else cancel_attempts 2 e now fid (cancel_time now ?n) f s1)"
    using f same by (simp add: sync_cancellation_def key flow_at_ok [OF ok1] cancel_time_def)
  have "flow_ok f" and id: "flow_id f = fid" using ok f by (simp_all add: registry_ok_def row_ok_def)
  moreover have "p_controller (cancel_flow_patch c) = Keep" for c by (simp add: cancel_flow_patch_def empty_patch_def)
  ultimately obtain f' where f': "apply_flow_patch now f (cancel_flow_patch (cancel_time now ?n)) = Inr f'"
    using apply_patch_total by blast
  have "cancel_attempts 2 e now fid (cancel_time now ?n) f s1 = s1\<lparr>flow_reg := write_flow (jio e) f' (Some f) (flow_reg s)\<rparr>"
    using ok f f' by (simp add: numeral_2_eq_2 update_expected_def same)
  moreover have "status f' = FCancelled" "ended_at f' = Some (cancel_time now ?n)" "blocked_task_id f' = None"
    "blocked_summary f' = None" "flow_id f' = fid"
    using apply_patch_facts(1,7,10,11,16) [OF f'] id
    by (simp_all add: cancel_flow_patch_def patch_number_def patch_string_def opt_else_def)
  ultimately show ?thesis
    using sync active by (auto simp: s1(3) same write_flow_map)
qed

section \<open>Linking\<close>

definition linkable :: "registry \<Rightarrow> string \<Rightarrow> task_scope \<Rightarrow> string \<Rightarrow> bool" where
  "linkable r owner scope fid \<longleftrightarrow> scope = SSession \<and> (\<exists>f. map_of (flows r) fid = Some f \<and>
     norm_opt (Some (owner_key f)) = norm_opt (Some owner) \<and> cancel_requested_at f = None \<and> \<not> flow_closed (status f))"

lemma link_allowed_iff:
  assumes "registry_ok (jio e) (flow_reg s)"
  shows "snd (assert_link_allowed e owner scope p s) = s"
    and "fst (assert_link_allowed e owner scope p s) = Inr () \<longleftrightarrow>
      (case norm_opt p of None \<Rightarrow> True | Some fid \<Rightarrow> linkable (flow_reg s) owner scope fid)"
  by (auto simp: assert_link_allowed_def linkable_def flow_at_ok [OF assms] split: option.splits)

lemma link_checked:
  assumes "restored s" and ok: "registry_ok (jio e) (flow_reg s)"
    and t: "record_of s i = Some t" "flow_key t = None" and k: "trim fid \<noteq> []"
  shows "if linkable (flow_reg s) (t_owner t) (t_scope t) (trim fid)
    then \<exists>t'. link_task_to_flow e now i fid s = (Inr (Some t'), snd (link_task_to_flow e now i fid s)) \<and>
      record_of (snd (link_task_to_flow e now i fid s)) = (record_of s)(i \<mapsto> t') \<and> flow_key t' = Some (trim fid)
    else \<exists>err. link_task_to_flow e now i fid s = (Inl err, s)"
proof -
  have norm: "norm_opt (Some (trim fid)) = Some (trim fid)" using k by (simp add: norm_opt_def Let_def)
  obtain res s1 where a: "assert_link_allowed e (t_owner t) (t_scope t) (Some (trim fid)) s = (res, s1)" by fastforce
  have s1: "s1 = s" and res: "res = Inr () \<longleftrightarrow> linkable (flow_reg s) (t_owner t) (t_scope t) (trim fid)"
    using link_allowed_iff [OF ok, of "t_owner t" "t_scope t" "Some (trim fid)"] by (simp_all add: a norm)
  let ?p = "\<lambda>t. t\<lparr>t_parent_flow := Some (trim fid)\<rparr>"
  have "fst (update_record e now i ?p s) = Some (revise now ?p t)" using t(1) by (rule update_record_result)
  moreover have "flow_key (revise now ?p t) = Some (trim fid)" by (simp add: flow_key_def norm)
  moreover have "record_of (snd (update_record e now i ?p s)) = (record_of s)(i \<mapsto> revise now ?p t)"
    using t(1) by (rule update_record_at)
  ultimately show ?thesis
    using assms(1) t k res
    by (cases res; cases "update_record e now i ?p s") (auto simp: link_task_to_flow_def Let_def a s1)
qed

end
