(* ===== verification/Registry_Creation.thy ===== *)
theory Registry_Creation
  imports Registry_Flows
begin

text \<open>
  Creating a task: a refused request leaves records and rows alone, a new run gets one record, and the
  same run asked for again finds it.
\<close>

section \<open>Records by run\<close>

lemma by_run_set:
  assumes "tasks_indexed s"
  shows "set (tasks_by_run s run) = {t \<in> ran (record_of s). run_key t = Some (trim run)}"
proof -
  have "index_exact (\<lambda>t. opt_list (run_key t)) (by_run s) (record_of s)" using assms by (simp add: tasks_indexed_def)
  then show ?thesis using records_at_set [OF assms, of _ "by_run s" "trim run"] by (simp add: tasks_by_run_def opt_list_member)
qed

text \<open>What \<^verbatim>\<open>findExistingTaskForCreate\<close> asks of a record.\<close>

definition same_run :: "task_params \<Rightarrow> string \<Rightarrow> task_scope \<Rightarrow> task_record \<Rightarrow> bool" where
  "same_run p owner scope t \<longleftrightarrow> t_runtime t = n_runtime p \<and> t_scope t = scope \<and>
     same_text (Some (t_owner t)) (Some owner) \<and> same_text (t_child t) (n_child p) \<and>
     same_text (t_parent_flow t) (n_parent_flow p)"

definition same_job :: "task_params \<Rightarrow> task_record \<Rightarrow> bool" where
  "same_job p t \<longleftrightarrow> same_text (t_label t) (n_label p) \<and> same_text (Some (t_task t)) (Some (n_task p))"

lemma norm_opt_trim: "norm_opt v = Some r \<Longrightarrow> trim r = r \<and> r \<noteq> []"
  by (auto simp: norm_opt_def Let_def split: option.splits if_splits)

lemma norm_opt_idem [simp]: "norm_opt (norm_opt v) = norm_opt v"
  using norm_opt_tidy [of v] by (simp add: tidy_def)

lemma pick_preferred_None: "pick_preferred ts = None \<longleftrightarrow> ts = []"
  by (auto simp: pick_preferred_def split: list.splits dest: arg_cong [where f = length])

lemma pick_preferred_in: "pick_preferred ts = Some t \<Longrightarrow> t \<in> set ts"
proof -
  assume "pick_preferred ts = Some t"
  then have "t \<in> set (sort_key lookup_priority (sort_key t_created ts))"
    by (auto simp: pick_preferred_def simp del: set_sort split: list.splits)
  then show ?thesis by simp
qed

lemma find_existing_form:
  assumes "norm_opt (n_run p) = Some r"
  shows "find_existing s p owner scope = (let ms = filter (same_run p owner scope) (tasks_by_run s r) in
    case List.find (same_job p) ms of Some t \<Rightarrow> Some t
    | None \<Rightarrow> if n_runtime p \<noteq> RAcp then None else pick_preferred ms)"
  by (simp only: find_existing_def assms option.case Let_def same_run_def [abs_def] same_job_def [abs_def])

lemma find_in: "List.find P xs = Some t \<Longrightarrow> t \<in> set xs \<and> P t"
  by (metis find_Some_iff nth_mem)

lemma candidates:
  assumes "tasks_indexed s" and "norm_opt (n_run p) = Some r"
  shows "set (filter P (tasks_by_run s r)) = {t \<in> ran (record_of s). run_key t = Some r \<and> P t}"
  using by_run_set [OF assms(1), of r] norm_opt_trim [OF assms(2)] by auto

lemma find_existing_None:
  assumes "tasks_indexed s" and r: "norm_opt (n_run p) = Some r"
  shows "find_existing s p owner scope = None \<longleftrightarrow>
    (\<forall>t \<in> ran (record_of s). run_key t = Some r \<longrightarrow> same_run p owner scope t \<longrightarrow> \<not> same_job p t \<and> n_runtime p \<noteq> RAcp)"
proof -
  let ?ms = "filter (same_run p owner scope) (tasks_by_run s r)"
  have "find_existing s p owner scope = None \<longleftrightarrow>
      List.find (same_job p) ?ms = None \<and> (n_runtime p \<noteq> RAcp \<or> ?ms = [])"
    by (simp add: find_existing_form [OF r] Let_def pick_preferred_None split: option.split)
  also have "\<dots> \<longleftrightarrow> (\<forall>t \<in> set ?ms. \<not> same_job p t \<and> n_runtime p \<noteq> RAcp)"
    by (auto simp: find_None_iff filter_empty_conv)
  finally show ?thesis unfolding candidates [OF assms] by blast
qed

lemma find_existing_Some:
  assumes "tasks_indexed s" and r: "norm_opt (n_run p) = Some r" and f: "find_existing s p owner scope = Some t"
  shows "t \<in> ran (record_of s) \<and> run_key t = Some r \<and> same_run p owner scope t \<and> (same_job p t \<or> n_runtime p = RAcp)"
proof -
  let ?ms = "filter (same_run p owner scope) (tasks_by_run s r)"
  have "t \<in> set ?ms \<and> (same_job p t \<or> n_runtime p = RAcp)"
  proof (cases "List.find (same_job p) ?ms")
    case None
    then have "pick_preferred ?ms = Some t \<and> n_runtime p = RAcp"
      using f by (simp add: find_existing_form [OF r] Let_def split: if_splits)
    then show ?thesis using pick_preferred_in by blast
  next
    case (Some u)
    then have "u = t" using f by (simp add: find_existing_form [OF r] Let_def)
    then show ?thesis using find_in [OF Some] by simp
  qed
  then show ?thesis unfolding candidates [OF assms(1) r] by blast
qed

lemma find_existing_needs_run: "norm_opt (n_run p) = None \<Longrightarrow> find_existing s p owner scope = None"
  by (simp add: find_existing_def)

section \<open>The frames of creation\<close>

lemma link_check_frame [simp]:
  "record_of (snd (assert_link_allowed e owner scope p s)) = record_of s"
  "task_rows (snd (assert_link_allowed e owner scope p s)) = task_rows s"
  "delivery (snd (assert_link_allowed e owner scope p s)) = delivery s"
  "delivery_rows (snd (assert_link_allowed e owner scope p s)) = delivery_rows s"
  "restored (snd (assert_link_allowed e owner scope p s)) = restored s"
  "tasks_indexed (snd (assert_link_allowed e owner scope p s)) = tasks_indexed s"
proof -
  have "snd (assert_link_allowed e owner scope p s) = s \<or> (\<exists>i. snd (assert_link_allowed e owner scope p s) = snd (flow_at e i s))"
  proof (cases "norm_opt p")
    case (Some i)
    obtain f s1 where "flow_at e i s = (f, s1)" by (cases "flow_at e i s")
    then have "snd (assert_link_allowed e owner scope p s) \<in> {s, snd (flow_at e i s)}"
      using Some by (simp add: assert_link_allowed_def split: option.split)
    then show ?thesis by blast
  qed (simp add: assert_link_allowed_def)
  then show "record_of (snd (assert_link_allowed e owner scope p s)) = record_of s"
    "task_rows (snd (assert_link_allowed e owner scope p s)) = task_rows s"
    "delivery (snd (assert_link_allowed e owner scope p s)) = delivery s"
    "delivery_rows (snd (assert_link_allowed e owner scope p s)) = delivery_rows s"
    "restored (snd (assert_link_allowed e owner scope p s)) = restored s"
    "tasks_indexed (snd (assert_link_allowed e owner scope p s)) = tasks_indexed s"
    by auto
qed

text \<open>A merge cannot be refused: the record found already belongs to the flow that was checked.\<close>

lemma merge_total:
  assumes "same_run p owner scope t"
  shows "\<exists>u. fst (merge_existing e now p agent t s) = Inr u"
proof -
  have "\<not> (norm_opt (n_parent_flow p) \<noteq> None \<and> norm_opt (t_parent_flow t) = None)"
    using assms norm_opt_trim by (auto simp: same_run_def same_text_def opt_else_def split: option.splits)
  then show ?thesis
    by (simp only: merge_existing_def Let_def if_False prod.case sum.case) (auto split: prod.split option.split)
qed

lemma merge_records:
  assumes "record_of s (t_id t) = Some t" and "same_run p owner scope t"
  shows "dom (record_of (snd (merge_existing e now p agent t s))) = dom (record_of s)"
    and "fst (merge_existing e now p agent t s) = Inr u \<Longrightarrow> t_id u = t_id t"
proof -
  have no: "\<not> (norm_opt (n_parent_flow p) \<noteq> None \<and> norm_opt (t_parent_flow t) = None)"
    using assms(2) norm_opt_trim by (auto simp: same_run_def same_text_def opt_else_def split: option.splits)
  define s1 where "s1 = (if Option.bind (n_origin p) (norm_origin e) \<noteq> None \<and> delivery_origin s (t_id t) = None
    then upsert_delivery e (t_id t) (Option.bind (n_origin p) (norm_origin e))
      (Option.bind (map_of (delivery s) (t_id t)) d_notified) s else s)"
  have form: "merge_existing e now p agent t s = (if \<not> merge_writes p agent t then (Inr t, s1)
      else (case update_record e now (t_id t) (merge_patch p agent) s1 of
          (None, s3) \<Rightarrow> (Inr t, s3) | (Some n, s3) \<Rightarrow> (Inr n, s3)))"
    using no by (simp only: merge_existing_def Let_def if_False prod.case sum.case s1_def)
  have s1: "record_of s1 = record_of s" by (simp add: s1_def)
  have t: "record_of s1 (t_id t) = Some t" using assms(1) by (simp add: s1)
  obtain s3 where u: "update_record e now (t_id t) (merge_patch p agent) s1 = (Some (revise now (merge_patch p agent) t), s3)"
    using update_record_result [OF t, of e now "merge_patch p agent"] by (cases "update_record e now (t_id t) (merge_patch p agent) s1") auto
  have s3: "record_of s3 = (record_of s)(t_id t \<mapsto> revise now (merge_patch p agent) t)"
    using update_record_at [OF t, of e now "merge_patch p agent"] by (simp add: u s1)
  show "dom (record_of (snd (merge_existing e now p agent t s))) = dom (record_of s)"
    using assms(1) by (auto simp: form u s1 s3)
  show "fst (merge_existing e now p agent t s) = Inr u \<Longrightarrow> t_id u = t_id t"
    by (auto simp: form u merge_patch_def split: if_splits)
qed

section \<open>Creation\<close>

lemma create_refused:
  assumes "restored s" and "tasks_indexed s" and c: "create_task_record e uuid now p s = (Inl err, s')"
  shows "record_of s' = record_of s \<and> task_rows s' = task_rows s \<and> delivery s' = delivery s \<and>
    delivery_rows s' = delivery_rows s"
proof -
  let ?rq = "requester_session_key p"
  let ?sc = "scope_kind p ?rq" and ?ow = "task_owner_key p ?rq"
  obtain res s1 where a: "assert_link_allowed e ?ow ?sc (n_parent_flow p) s = (res, s1)" by fastforce
  have s1: "s1 = snd (assert_link_allowed e ?ow ?sc (n_parent_flow p) s)" by (simp add: a)
  have "tasks_indexed s1" using assms(2) by (simp add: s1)
  have "fst (merge_existing e now p ag t s1) \<noteq> Inl err" if f: "find_existing s1 p ?ow ?sc = Some t" for t ag
  proof -
    obtain r where "norm_opt (n_run p) = Some r" using f by (cases "norm_opt (n_run p)") (auto simp: find_existing_def)
    then have "same_run p ?ow ?sc t" using find_existing_Some [OF \<open>tasks_indexed s1\<close> _ f] by blast
    then show ?thesis using merge_total [of p ?ow ?sc t] by (metis sum.distinct(1))
  qed
  then have "s' = s \<or> s' = s1"
    using c assms(1) a
    by (auto simp: create_task_record_def Let_def split: sum.splits option.splits) (metis fst_conv)
  then show ?thesis by (auto simp: s1)
qed

lemma create_new:
  assumes "restored s" and "record_of s uuid = None" and st: "\<not> terminal_task (opt_else (n_status p) TQueued)"
    and ix: "tasks_indexed s" and c: "create_task_record e uuid now p s = (Inr t, s')" and id: "t_id t = uuid"
  shows "record_of s' = (record_of s)(uuid \<mapsto> t)" and "restored s'" and "tasks_indexed s'"
    and "t = new_task uuid now p (requester_session_key p) (task_owner_key p (requester_session_key p))
      (scope_kind p (requester_session_key p))
      (task_agent (n_agent p) (task_owner_key p (requester_session_key p)) (requester_session_key p))"
    and "find_existing s p (task_owner_key p (requester_session_key p)) (scope_kind p (requester_session_key p)) = None"
proof -
  let ?rq = "requester_session_key p"
  let ?sc = "scope_kind p ?rq" and ?ow = "task_owner_key p ?rq"
  let ?t = "new_task uuid now p ?rq ?ow ?sc (task_agent (n_agent p) ?ow ?rq)"
  obtain res s1 where a: "assert_link_allowed e ?ow ?sc (n_parent_flow p) s = (res, s1)" by fastforce
  have s1: "s1 = snd (assert_link_allowed e ?ow ?sc (n_parent_flow p) s)" by (simp add: a)
  have rec1: "record_of s1 = record_of s" "restored s1" and ix1: "tasks_indexed s1" using assms(1) ix by (simp_all add: s1)
  have same_find: "find_existing s1 p ?ow ?sc = find_existing s p ?ow ?sc"
  proof -
    have "by_run s1 = by_run s" by (auto simp: s1 assert_link_allowed_def flow_at_def split: option.split prod.split)
    then show ?thesis by (simp add: find_existing_def tasks_by_run_def records_at_def rec1 Let_def cong: option.case_cong)
  qed
  have none: "find_existing s1 p ?ow ?sc = None"
  proof (rule ccontr)
    assume "find_existing s1 p ?ow ?sc \<noteq> None"
    then obtain u where u: "find_existing s1 p ?ow ?sc = Some u" by blast
    obtain r where r: "norm_opt (n_run p) = Some r" using u by (cases "norm_opt (n_run p)") (auto simp: find_existing_def)
    note f = find_existing_Some [OF ix1 r u]
    then obtain j where "record_of s1 j = Some u" by (auto simp: ran_def)
    moreover then have "t_id u = j" using ix1 by (simp add: tasks_indexed_def)
    ultimately have u': "record_of s1 (t_id u) = Some u" by simp
    have "fst (merge_existing e now p (task_agent (n_agent p) ?ow ?rq) u s1) = Inr t"
      using c assms(1) a u by (auto simp: create_task_record_def Let_def split: sum.splits)
    then have "t_id t = t_id u" using merge_records(2) [OF u'] f by blast
    then show False using u' assms(2) id rec1 by simp
  qed
  have "Inr ?t = (Inr t :: task_error + task_record) \<and> s' = insert_task e now (n_origin p) ?t s1"
    using c assms(1) a none by (auto simp: create_task_record_def Let_def split: sum.splits)
  then have t: "t = ?t" and s': "s' = insert_task e now (n_origin p) ?t s1" by simp_all
  have "t_status ?t = opt_else (n_status p) TQueued"
    by (simp add: new_task_def Let_def with_cleanup_def normalize_timestamps_def)
  then have s'': "s' = insert_record e now (n_origin p) ?t s1" using st by (simp add: s' insert_task_def)
  show "record_of s' = (record_of s)(uuid \<mapsto> t)" "restored s'"
    using rec1 by (simp_all add: s'' t new_task_ok(1))
  show "tasks_indexed s'" unfolding s'' by (rule indexed_insert [OF ix1]) (use assms(2) in \<open>simp add: rec1 new_task_ok(1)\<close>)
  show "t = ?t" by (rule t)
  show "find_existing s p ?ow ?sc = None" using none same_find by simp
qed

lemma create_twice:
  assumes s: "restored s" "tasks_indexed s" "record_of s uuid = None"
    and st: "\<not> terminal_task (opt_else (n_status p) TQueued)" and run: "norm_opt (n_run p) \<noteq> None"
    and c: "create_task_record e uuid now p s = (Inr t, s1)" "t_id t = uuid"
    and c2: "create_task_record e uuid2 now2 p s1 = (res, s2)"
  shows "dom (record_of s2) = dom (record_of s1) \<and> (\<forall>u. res = Inr u \<longrightarrow> t_id u = uuid)"
proof -
  let ?rq = "requester_session_key p"
  let ?sc = "scope_kind p ?rq" and ?ow = "task_owner_key p ?rq"
  obtain r where r: "norm_opt (n_run p) = Some r" using run by blast
  note n = create_new [OF s(1,3) st s(2) c]
  obtain a s1' where a: "assert_link_allowed e ?ow ?sc (n_parent_flow p) s1 = (a, s1')" by fastforce
  have s1': "s1' = snd (assert_link_allowed e ?ow ?sc (n_parent_flow p) s1)" by (simp add: a)
  have f: "record_of s1' = (record_of s)(uuid \<mapsto> t)" "tasks_indexed s1'" using n(1-3) by (simp_all add: s1')
  have new: "run_key t = Some r" "same_run p ?ow ?sc t" "same_job p t"
    using r norm_opt_idem [of "n_run p"] by (simp_all add: n(4) new_task_def Let_def with_cleanup_def normalize_timestamps_def run_key_def
        same_run_def same_job_def same_text_def)
  have none: "find_existing s1' p ?ow ?sc \<noteq> None"
    using new f(1) by (auto simp: find_existing_None [OF f(2) r] ran_def)
  then obtain u where u: "find_existing s1' p ?ow ?sc = Some u" by blast
  note fu = find_existing_Some [OF f(2) r u]
  have "u = t"
  proof (rule ccontr)
    assume "u \<noteq> t"
    then have "u \<in> ran (record_of s)" using fu f(1) by (auto simp: ran_def split: if_splits)
    then show False using n(5) fu by (auto simp: find_existing_None [OF s(2) r])
  qed
  have t: "record_of s1' (t_id t) = Some t" using f(1) c(2) by simp
  have dom: "dom (record_of s1') = dom (record_of s1)" by (simp add: s1')
  note m = merge_records [OF t new(2), of e now2 "task_agent (n_agent p) ?ow ?rq"]
  have "(\<exists>err. res = Inl err \<and> (s2 = s1 \<or> s2 = s1')) \<or>
      (res, s2) = merge_existing e now2 p (task_agent (n_agent p) ?ow ?rq) t s1'"
    using c2 n(2) a u \<open>u = t\<close> by (auto simp: create_task_record_def Let_def split: sum.splits)
  then show ?thesis
  proof
    assume "\<exists>err. res = Inl err \<and> (s2 = s1 \<or> s2 = s1')"
    then show ?thesis using dom by auto
  next
    assume e: "(res, s2) = merge_existing e now2 p (task_agent (n_agent p) ?ow ?rq) t s1'"
    have "dom (record_of s2) = dom (record_of s1)" using m(1) dom by (metis e snd_conv)
    moreover have "t_id v = uuid" if "res = Inr v" for v using m(2) [of v] c(2) that by (metis e fst_conv)
    ultimately show ?thesis by blast
  qed
qed

end
