(* ===== verification/Registry_Announcements.thy ===== *)
theory Registry_Announcements
  imports Registry_Invariants
begin

text \<open>
  The announcement of a task's end: \<open>delivering\<close> holds the tasks whose announcement is in flight, once
  each, as long as the registry is not reloaded.
\<close>

section \<open>Announcements in flight\<close>

fun ends_of :: "send \<Rightarrow> string list" where
  "ends_of (SendTerminal t msg w) = [t_id t]"
| "ends_of (SendChange t ev msg w origin) = []"

definition in_flight :: "tasks_state \<Rightarrow> string list" where
  "in_flight s = concat (map ends_of (sends s))"

definition announced :: "tasks_state \<Rightarrow> bool" where
  "announced s \<longleftrightarrow> distinct (delivering s) \<and> mset (in_flight s) = mset (delivering s)"

lemma in_flight_remove:
  "m \<in> set ms \<Longrightarrow> mset (concat (map ends_of (remove1 m ms))) = mset (concat (map ends_of ms)) - mset (ends_of m)"
proof -
  assume "m \<in> set ms"
  then obtain a b where "ms = a @ m # b" "m \<notin> set a" by (meson split_list_first)
  then show ?thesis by (simp add: remove1_append)
qed

lemma announced_same: "delivering s' = delivering s \<Longrightarrow> sends s' = sends s \<Longrightarrow> announced s' = announced s"
  by (simp add: announced_def in_flight_def)

lemma owner_sends: "delivery_owner_of e t s = (w, s1) \<Longrightarrow> sends s1 = sends s"
  by (auto simp: delivery_owner_of_def linked_flow_def flow_at_def split: option.splits prod.splits if_splits)

lemma queue_frame [simp]:
  "sends (queue_event e t msg s) = sends s" "delivering (queue_event e t msg s) = delivering s"
  "sends (queue_followup e t s) = sends s" "delivering (queue_followup e t s) = delivering s"
  "sends (queue_terminal e t msg s) = sends s" "delivering (queue_terminal e t msg s) = delivering s"
proof -
  show ev: "sends (queue_event e t msg s) = sends s" "delivering (queue_event e t msg s) = delivering s" for s
    by (auto simp: queue_event_def owner_sends owner_frame split: prod.split option.split)
  show fo: "sends (queue_followup e t s) = sends s" "delivering (queue_followup e t s) = delivering s" for s
    by (auto simp: queue_followup_def owner_sends owner_frame split: prod.split option.split)
  show "sends (queue_terminal e t msg s) = sends s" "delivering (queue_terminal e t msg s) = delivering s"
    by (simp_all add: queue_terminal_def Let_def ev fo)
qed

lemma settle_announced:
  assumes m: "m \<in> set (sends s)" and "announced s"
  shows "announced (settle_send e now m accepted s)"
proof (cases m)
  case (SendTerminal t msg w)
  have "sends (settle_send e now m accepted s) = remove1 m (sends s)"
    "delivering (settle_send e now m accepted s) = remove1 (t_id t) (delivering s)"
    by (simp_all add: settle_send_def SendTerminal Let_def)
  moreover have "mset (concat (map ends_of (remove1 m (sends s)))) = mset (remove1 (t_id t) (delivering s))"
    using in_flight_remove [OF m] assms(2) by (simp add: SendTerminal announced_def in_flight_def)
  ultimately show ?thesis using assms(2) by (simp add: announced_def in_flight_def)
next
  case (SendChange t ev msg w origin)
  have "sends (settle_send e now m accepted s) = remove1 m (sends s)"
    "delivering (settle_send e now m accepted s) = delivering s"
    by (simp_all add: settle_send_def SendChange Let_def)
  then show ?thesis
    using in_flight_remove [OF m] assms(2) by (simp add: SendChange announced_def in_flight_def)
qed

lemma announced_frame [simp]:
  "announced (emit es s) = announced s" "announced (upsert_delivery e i x n s) = announced s"
  "announced (snd (update_record e now i patch s)) = announced s" "announced (snd (flow_at e i s)) = announced s"
  "announced (s\<lparr>flow_reg := r\<rparr>) = announced s" "announced (insert_record e now origin t s) = announced s"
  by (rule announced_same;
      simp add: flow_at_def insert_record_def Let_def sync_flow_def index_task_def split: prod.split)+

interpretation announcements: registry_relation
  "\<lambda>s s'. restored s \<and> tasks_indexed s \<and> announced s \<longrightarrow> restored s' \<and> tasks_indexed s' \<and> announced s'" e for e
proof unfold_locales
  fix s :: tasks_state and i t patch now
  assume "record_of s i = Some t" "task_change t (patch t)"
  then show "restored s \<and> tasks_indexed s \<and> announced s \<longrightarrow> restored (snd (update_record e now i patch s)) \<and>
      tasks_indexed (snd (update_record e now i patch s)) \<and> announced (snd (update_record e now i patch s))"
    by (simp add: indexed_update)
next
  fix s :: tasks_state and i t msg w
  assume "record_of s i = Some t" "i \<notin> set (delivering s)"
  then show "restored s \<and> tasks_indexed s \<and> announced s \<longrightarrow>
      restored (s\<lparr>delivering := delivering s @ [i], sends := sends s @ [SendTerminal t msg w]\<rparr>) \<and>
      tasks_indexed (s\<lparr>delivering := delivering s @ [i], sends := sends s @ [SendTerminal t msg w]\<rparr>) \<and>
      announced (s\<lparr>delivering := delivering s @ [i], sends := sends s @ [SendTerminal t msg w]\<rparr>)"
    using indexed_frame(3) [where s = s and ds = "delivering s @ [i]" and ms = "sends s @ [SendTerminal t msg w]"]
    by (auto simp: announced_def in_flight_def tasks_indexed_def)
next
  fix s :: tasks_state and t :: task_record and now origin
  assume "record_of s (t_id t) = None"
  then show "restored s \<and> tasks_indexed s \<and> announced s \<longrightarrow> restored (insert_record e now origin t s) \<and>
      tasks_indexed (insert_record e now origin t s) \<and> announced (insert_record e now origin t s)"
    by (simp add: indexed_insert)
next
  fix s :: tasks_state and m now accepted
  assume "m \<in> set (sends s)"
  then show "restored s \<and> tasks_indexed s \<and> announced s \<longrightarrow> restored (settle_send e now m accepted s) \<and>
      tasks_indexed (settle_send e now m accepted s) \<and> announced (settle_send e now m accepted s)"
    using index_steps.settles [of m s e now accepted] by (simp add: settle_announced)
next
  fix s :: tasks_state and t ev msg w origin
  show "restored s \<and> tasks_indexed s \<and> announced s \<longrightarrow>
      restored (s\<lparr>sends := sends s @ [SendChange t ev msg w origin]\<rparr>) \<and>
      tasks_indexed (s\<lparr>sends := sends s @ [SendChange t ev msg w origin]\<rparr>) \<and>
      announced (s\<lparr>sends := sends s @ [SendChange t ev msg w origin]\<rparr>)"
    by (simp add: announced_def in_flight_def)
qed (simp_all add: indexed_same [OF same_flows])

section \<open>A process that does not reload\<close>

inductive tasks_run :: "task_env \<Rightarrow> tasks_state \<Rightarrow> tasks_state \<Rightarrow> bool" for e s0 where
  start: "starts s0 \<Longrightarrow> tasks_run e s0 s0"
| op: "tasks_run e s0 s \<Longrightarrow> task_op e (restore_tasks e s) s' \<Longrightarrow> tasks_run e s0 s'"
| remove: "tasks_run e s0 s \<Longrightarrow> tasks_run e s0 (snd (delete_task_record e i s))"

lemma run_reachable: "tasks_run e s0 s \<Longrightarrow> tasks_reachable e s0 s"
  by (induction rule: tasks_run.induct) (auto intro: tasks_reachable.intros task_step.intros)

lemma restore_sends [simp]: "sends (restore_tasks e s) = sends s" "delivering (restore_tasks e s) = delivering s"
  by (simp_all add: restore_tasks_def Let_def rebuild_all_def rebuild_runs_def)

lemma run_announced: "tasks_run e s0 s \<Longrightarrow> announced s"
proof (induction rule: tasks_run.induct)
  case start
  then show ?case by (simp add: starts_def cold_def announced_def in_flight_def)
next
  case (op s s')
  have "tasks_ok e (restore_tasks e s)" using op(1) by (intro restore_ok tasks_reachable_ok run_reachable)
  moreover have "announced (restore_tasks e s)" using op(3) by (simp add: announced_def in_flight_def)
  ultimately show ?case using announcements.op [OF op(2)] by (simp add: tasks_ok_def)
next
  case (remove s i)
  have "sends (snd (delete_task_record e i s)) = sends s" "delivering (snd (delete_task_record e i s)) = delivering s"
    by (simp_all add: delete_task_record_def Let_def remove_record_def rebuild_runs_def split: option.split)
  then show ?case using remove(2) by (simp add: announced_def in_flight_def)
qed

end
