(* ===== verification/Flow_Properties.thy ===== *)
theory Flow_Properties
  imports Flow_Laws Insertion_Map
begin

text \<open>
  The properties of the task-flow registry: its records survive the SQLite row format and a restart,
  its invariant survives every operation, and updates are optimistic.
\<close>

section \<open>A small registry\<close>

text \<open>JSON columns that hold \<^verbatim>\<open>null\<close>, and an origin column that holds one chat.\<close>

definition null_io :: json_io where
  "null_io = \<lparr>ser = (\<lambda>_. ''null''), par = (\<lambda>_. Some JNull), 
     par_origin = (\<lambda>_. Some (JObj [(''channel'', JStr ''telegram''), (''to'', JStr ''42'')]))\<rparr>"

definition nightly :: create_params where
  "nightly = \<lparr>c_mode = None, c_owner = '' agent:main '', c_origin = None, c_controller = Some ''cron'',
     c_revision = None, c_status = None, c_notify = None, c_goal = ''Backup'', c_step = None,
     c_blocked_task = None, c_blocked_summary = None, c_state = None, c_wait = None, c_cancel = None,
     c_created = None, c_updated = None, c_ended = None\<rparr>"

definition mirrored :: create_params where
  "mirrored = nightly\<lparr>c_mode := Some TaskMirrored, c_controller := None\<rparr>"

definition no_flows :: registry where
  "no_flows = \<lparr>flows = [], ready = True, restore_failure = None, rows = [], events = []\<rparr>"

definition with_flow :: registry where
  "with_flow = snd (create_flow null_io ''m1'' 4 mirrored (snd (create_flow null_io ''f1'' 3 nightly no_flows)))"

text \<open>The registry with its two flows, as a value: the states below evaluate from it.\<close>

definition nightly_flow :: flow where
  "nightly_flow = \<lparr>flow_id = ''f1'', mode = Managed, owner_key = ''agent:main'', requester_origin = None,
     controller_id = Some ''cron'', revision = 0, status = FQueued, notify = DoneOnly, goal = ''Backup'',
     current_step = None, blocked_task_id = None, blocked_summary = None, state_json = None, wait_json = None,
     cancel_requested_at = None, created_at = 3, updated_at = 3, ended_at = None\<rparr>"

definition mirror_flow :: flow where
  "mirror_flow = nightly_flow\<lparr>flow_id := ''m1'', mode := TaskMirrored, controller_id := None, created_at := 4, updated_at := 4\<rparr>"

lemma with_flow_value [code]:
  "with_flow = \<lparr>flows = [(''f1'', nightly_flow), (''m1'', mirror_flow)], ready = True, restore_failure = None,
     rows = [(''f1'', bind_flow null_io None nightly_flow), (''m1'', bind_flow null_io None mirror_flow)],
     events = [Upserted nightly_flow None, Upserted mirror_flow None]\<rparr>"
  by code_simp

definition failed_task :: task_record where
  "failed_task = \<lparr>t_id = ''t1'', t_runtime = RCli, t_kind = None, t_source = None, t_requester = ''agent:main'',
     t_owner = ''agent:main'', t_scope = SSession, t_child = None, t_parent_flow = Some '' m1'',
     t_parent_task = None, t_agent = None, t_run = None, t_label = None, t_task = ''copy'',
     t_status = TTimedOut, t_delivery = DPending, t_notify = Silent, t_created = 4, t_started = None,
     t_ended = None, t_last_event = Some 9, t_cleanup = None, t_error = None, t_progress_summary = None,
     t_terminal_summary = None, t_outcome = None\<rparr>"

lemma null_fits_io [simp]: "null_fits null_io" "json_fits (ser null_io) (par null_io) None"
  "json_fits (ser null_io) (par null_io) (Some JNull)"
proof -
  have "trim ''null'' \<noteq> []" by code_simp
  then show "null_fits null_io" "json_fits (ser null_io) (par null_io) None"
    "json_fits (ser null_io) (par null_io) (Some JNull)"
    by (simp_all add: null_fits_def json_fits_def null_io_def)
qed

lemma with_flow_ok [simp]: "registry_ok null_io with_flow"
proof -
  have 0: "registry_ok null_io no_flows"
    by (simp add: registry_ok_def no_flows_def get_row_def fun_eq_iff)
  have 1: "registry_ok null_io (snd (create_flow null_io ''f1'' 3 nightly no_flows))"
    by (rule create_flow_ok [OF 0]) (simp_all add: nightly_def json_fits_def)
  show ?thesis
    unfolding with_flow_def by (rule create_flow_ok [OF 1]) (simp_all add: nightly_def mirrored_def json_fits_def)
qed

definition step_patch :: flow_patch where
  "step_patch = empty_patch\<lparr>p_step := Put ''copying''\<rparr>"

section \<open>Properties\<close>

text \<open>C38: the row format loses nothing: a well-formed record written by \<^verbatim>\<open>bindFlowRecord\<close> and read by
  \<^verbatim>\<open>rowToFlowRecord\<close> is the same record, whatever the legacy column \<^verbatim>\<open>shape\<close> holds.\<close>

theorem flow_row_round_trip:
  assumes "row_ok io f"
  shows "row_to_flow io (bind_flow io shape f) = f"
  using assms by (rule bind_flow_back)

lemma flow_row_round_trip_witness:
  "row_to_flow null_io (bind_flow null_io (Some ''single_task'') (the (map_of (flows with_flow) ''f1''))) =
     the (map_of (flows with_flow) ''f1'')"
proof (rule flow_row_round_trip)
  have "map_of (flows with_flow) ''f1'' \<noteq> None" by code_simp
  then obtain f where "map_of (flows with_flow) ''f1'' = Some f" by blast
  then show "row_ok null_io (the (map_of (flows with_flow) ''f1''))"
    using with_flow_ok by (simp add: registry_ok_def)
qed

text \<open>C36: the invariant of the registry (every record is well formed and filed under its identifier, and
  the SQLite table holds exactly the records of the memory) survives an optimistic update whose JSON
  values fit their columns, the mirroring of a task and a delete.\<close>

theorem registry_stays_consistent:
  assumes "registry_ok io s" and "null_fits io"
    and "json_fits (ser io) (par io) (p_state p)" and "json_fits (ser io) (par io) (p_wait p)"
  shows "registry_ok io (snd (update_expected io clock i r p s)) \<and>
    registry_ok io (snd (sync_flow_from_task io clock t s)) \<and> registry_ok io (snd (delete_flow io i s))"
proof -
  have "registry_ok io (snd (update_expected io clock i r p s))"
  proof (rule update_expected_ok [OF assms(1)])
    fix cur f
    assume "map_of (flows s) i = Some cur" and f: "apply_flow_patch clock cur p = Inr f"
    then have "row_ok io cur" using assms(1) by (simp add: registry_ok_def)
    then show "json_fits (ser io) (par io) (state_json f) \<and> json_fits (ser io) (par io) (wait_json f)"
      using assms(3,4) apply_patch_facts(12,13) [OF f]
      by (auto simp: row_ok_def patch_json_def split: option.split)
  qed
  then show ?thesis using sync_flow_ok [OF assms(1,2)] delete_flow_ok [OF assms(1)] by simp
qed

lemma registry_stays_consistent_witness:
  "registry_ok null_io (snd (update_expected null_io 5 ''f1'' 0 step_patch with_flow)) \<and>
    registry_ok null_io (snd (sync_flow_from_task null_io 5 failed_task with_flow)) \<and>
    registry_ok null_io (snd (delete_flow null_io ''f1'' with_flow))"
  by (rule registry_stays_consistent) (simp_all add: step_patch_def empty_patch_def)

text \<open>Updates are optimistic: after an update that was applied, a second writer who still expects the
  old revision is told of the conflict, gets the first writer's record, and changes nothing.\<close>

lemma no_lost_update:
  assumes "registry_ok io s" and "update_expected io clock i r p s = (Inr (Applied f), s')"
  shows "revision f = r + 1 \<and> map_of (flows s') = (map_of (flows s))(i \<mapsto> f) \<and>
    update_expected io clock' i r p' s' = (Inr (RevisionConflict f), s')"
proof -
  note f = update_expected_applied [OF assms]
  have "ready s'" using assms(2)
    by (auto simp: update_expected_def Let_def write_flow_def ensure_ready_idle [OF assms(1)]
        split: option.splits if_splits sum.splits) (use assms(1) in \<open>simp add: registry_ok_def\<close>)
  then have "ensure_ready io s' = s'" by (simp add: ensure_ready_def)
  then show ?thesis using f by (simp add: update_expected_def)
qed

lemma applied_result:
  "(case fst res of Inr (Applied f) \<Rightarrow> True | _ \<Rightarrow> False) \<Longrightarrow>
     res = (Inr (Applied (case fst res of Inr (Applied f) \<Rightarrow> f)), snd res)"
  by (cases res) (auto split: sum.splits update_result.splits)

text \<open>A record changes only together with its revision, and revisions grow: over any step of the
  registry, a restart included, a flow that is still there is either unchanged or has a larger
  revision.\<close>

lemma revisions_grow:
  assumes "flow_step io s s'" and "registry_ok io s"
    and "map_of (flows s) i = Some f" and "map_of (flows s') i = Some f'"
  shows "f' = f \<or> revision f < revision f'"
  using flow_step_revised [OF assms(1,2)] assms(3,4) by (simp add: revised_def)

text \<open>A restart restores the registry: loading the table of a consistent registry into an empty memory
  gives back every record under its identifier, without a restore failure.\<close>

lemma restart_restores_registry:
  assumes "registry_ok io s"
  shows "map_of (flows (ensure_ready io (s\<lparr>flows := [], ready := False, restore_failure := None\<rparr>))) = map_of (flows s) \<and>
    restore_failure (ensure_ready io (s\<lparr>flows := [], ready := False, restore_failure := None\<rparr>)) = None"
  using restart_restores(1,2) [OF assms] by (simp add: restart_def)

text \<open>A mirrored flow follows its task: after \<^verbatim>\<open>syncFlowFromTask\<close> its status is the one derived from
  the task, it has an end time exactly when that status is terminal, which is when the task no longer
  runs or waits, and blocking information only while it is blocked.\<close>

lemma mirrored_flow_follows_task:
  assumes "registry_ok io s" and "norm_opt (t_parent_flow t) = Some i" and "map_of (flows s) i = Some cur"
    and "mode cur = TaskMirrored"
    and "sync_flow_from_task io clock t s = (Inr (Some f), s')"
  shows "map_of (flows s') i = Some f \<and> status f = derive_status t \<and>
    (ended_at f \<noteq> None \<longleftrightarrow> t_status t \<noteq> TQueued \<and> t_status t \<noteq> TRunning) \<and>
    (status f = FBlocked \<or> blocked_task_id f = None \<and> blocked_summary f = None)"
proof -
  have upd: "update_unchecked io clock i (sync_patch t cur) s = (Inr (Some f), s')"
    using assms by (simp add: sync_flow_from_task_def get_flow_def)
  then have app: "apply_flow_patch clock cur (sync_patch t cur) = Inr f" and s': "s' = write_flow io f (Some cur) s"
    using assms(1,3) by (auto simp: update_unchecked_def Let_def split: sum.splits)
  have "flow_id f = i"
    using apply_patch_facts(1) [OF app] assms(1,3) by (simp add: registry_ok_def)
  then have "map_of (flows s') i = Some f" by (simp add: s' write_flow_map)
  then show ?thesis
    using sync_patch_effect [OF app] terminal_iff [of t] by auto
qed

lemma sync_result:
  "(case fst res of Inr (Some f) \<Rightarrow> True | _ \<Rightarrow> False) \<Longrightarrow>
     res = (Inr (Some (case fst res of Inr (Some f) \<Rightarrow> f)), snd res)"
  by (cases res) (auto split: sum.splits option.splits)

text \<open>A managed flow needs an owner and a controller: with either one blank, \<^verbatim>\<open>createManagedTaskFlow\<close>
  throws and the registry is as it was.\<close>

lemma managed_flow_needs_owner_and_controller:
  assumes "registry_ok io s" and "trim (c_owner p) = [] \<or> norm_opt (c_controller p) = None"
  shows "\<exists>msg. create_managed_flow io uuid clock p s = (Inl msg, s)"
proof (cases "norm_opt (c_controller p)")
  case None
  then show ?thesis by (simp add: create_managed_flow_def assert_controller_id_def)
next
  case (Some c)
  then have "norm_opt (Some (c_owner p)) = None" using assms(2) by (simp add: norm_opt_def)
  moreover have "norm_opt (Some c) = Some c" using norm_opt_tidy [of "c_controller p"] Some by (simp add: tidy_def)
  ultimately show ?thesis
    using assms(1) Some
    by (simp add: create_managed_flow_def assert_controller_id_def create_flow_def build_flow_def
        assert_owner_key_def opt_else_def)
qed

section \<open>Well-formed records\<close>

definition memory_ok :: "registry \<Rightarrow> bool" where
  "memory_ok s \<longleftrightarrow> (\<forall>(i, f) \<in> set (flows s). flow_ok f)"

lemma tidy_or_legacy: "tidy (Some (opt_else (norm_opt v) ''core/legacy-restored''))"
proof (cases "norm_opt v")
  case None
  have "trim ''core/legacy-restored'' = ''core/legacy-restored''" by code_simp
  then show ?thesis using None by (simp add: tidy_Some opt_else_def)
next
  case (Some x)
  then show ?thesis using norm_opt_tidy [of v] by (simp add: opt_else_def)
qed

lemma restored_ok:
  assumes "normalize_restored f = Inr g" and "controller_id f \<noteq> Some []"
  shows "flow_ok g"
proof -
  obtain owner where owner: "owner = trim (owner_key f)" "owner \<noteq> []"
    and g: "owner_key g = owner" "mode g = mode f"
      "controller_id g = (if mode f = Managed
         then Some (opt_else (norm_opt (controller_id f)) ''core/legacy-restored'') else controller_id f)"
      "current_step g = norm_opt (current_step f)" "blocked_task_id g = norm_opt (blocked_task_id f)"
      "blocked_summary g = norm_opt (blocked_summary f)" "revision g = max 0 (revision f)"
    using assms(1) by (auto simp: normalize_restored_def assert_owner_key_Inr)
  show ?thesis
    using owner assms(2) tidy_or_legacy [of "controller_id f"] tidy_not_empty [OF tidy_or_legacy, of "controller_id f"]
    unfolding flow_ok_def by (simp add: g tidy_Some)
qed

lemma row_controller: "controller_id (row_to_flow io r) \<noteq> Some []"
  by (auto simp: row_to_flow_def non_empty_def split: option.split)

lemma memory_update: "memory_ok s \<Longrightarrow> flow_ok f \<Longrightarrow> memory_ok (write_flow io f prev s)"
  using set_alist_update by (fastforce simp: memory_ok_def write_flow_def)

lemma restore_memory:
  assumes "restore_flows (load_rows io rs) = Inr fs" and "(i, f) \<in> set fs"
  shows "flow_ok f"
proof -
  have "\<forall>(i, f) \<in> set fs. flow_ok f"
    if "foldE (\<lambda>(i, f) acc. bindE (normalize_restored f) (\<lambda>g. Inr (AList.update i g acc))) ls acc = Inr fs"
      "\<forall>(i, f) \<in> set ls. controller_id f \<noteq> Some []" "\<forall>(i, f) \<in> set acc. flow_ok f" for ls acc
    using that
  proof (induction ls arbitrary: acc)
    case (Cons x ls)
    obtain i h where x: "x = (i, h)" by (cases x)
    obtain g where g: "normalize_restored h = Inr g"
      "foldE (\<lambda>(i, f) acc. bindE (normalize_restored f) (\<lambda>g. Inr (AList.update i g acc))) ls (AList.update i g acc) = Inr fs"
      using Cons.prems(1) by (auto simp: x)
    have "flow_ok g" using restored_ok [OF g(1)] Cons.prems(2) x by auto
    then have "\<forall>(i, f) \<in> set (AList.update i g acc). flow_ok f"
      using Cons.prems(3) by (fastforce dest: set_alist_update)
    then show ?case using Cons.IH [OF g(2)] Cons.prems(2) by auto
  qed simp
  moreover have "\<forall>(i, f) \<in> set (load_rows io rs). controller_id f \<noteq> Some []"
    using row_controller by (fastforce simp: load_rows_def)
  ultimately show ?thesis using assms by (fastforce simp: restore_flows_def)
qed

lemma ready_memory: "memory_ok s \<Longrightarrow> memory_ok (ensure_ready io s)"
  by (auto simp: ensure_ready_def memory_ok_def split: sum.split dest: restore_memory)

lemma memory_get: "memory_ok s \<Longrightarrow> map_of (flows s) i = Some f \<Longrightarrow> flow_ok f"
  by (auto simp: memory_ok_def dest: map_of_SomeD)

lemma create_memory: "memory_ok s \<Longrightarrow> memory_ok (snd (create_flow io uuid clock p s))"
  using ready_memory [of s io]
  by (auto simp: create_flow_def Let_def memory_update build_flow_ok split: sum.split)

lemma update_memory:
  assumes "memory_ok s"
  shows "memory_ok (snd (update_expected io clock i r p s))" and "memory_ok (snd (update_unchecked io clock i p s))"
  using ready_memory [OF assms, of io] memory_get [OF ready_memory [OF assms, of io], of i]
  by (auto simp: update_expected_def update_unchecked_def Let_def
      intro: memory_update apply_patch_ok split: option.split sum.split)

lemma sync_memory: "memory_ok s \<Longrightarrow> memory_ok (snd (sync_flow_from_task io clock t s))"
  using ready_memory [of s io]
  by (auto simp: sync_flow_from_task_def get_flow_def Let_def update_memory split: option.split prod.split)

lemma delete_memory: "memory_ok s \<Longrightarrow> memory_ok (snd (delete_flow io i s))"
  using ready_memory [of s io]
  by (auto simp: delete_flow_def Let_def memory_ok_def set_alist_delete split: option.split)

text \<open>C37: whatever the database file holds at the start (legacy or damaged rows included), in every state of
  the registry that follows every flow record in memory is well formed: its owner and optional texts are
  trimmed and not empty, a managed flow has a controller, and its revision is not negative.\<close>

theorem flow_records_well_formed:
  assumes "(flow_step io)\<^sup>*\<^sup>* s s'" and "flows s = []" and "(i, f) \<in> set (flows s')"
  shows "trim (owner_key f) = owner_key f \<and> owner_key f \<noteq> [] \<and>
    (mode f = Managed \<longrightarrow> controller_id f \<noteq> None \<and> norm_opt (controller_id f) = controller_id f) \<and>
    norm_opt (current_step f) = current_step f \<and> norm_opt (blocked_task_id f) = blocked_task_id f \<and>
    norm_opt (blocked_summary f) = blocked_summary f \<and> 0 \<le> revision f"
proof -
  have "memory_ok s'" using assms(1)
  proof (induction rule: rtranclp_induct)
    case base
    then show ?case using assms(2) by (simp add: memory_ok_def)
  next
    case (step s1 s2)
    have "memory_ok (restart s1)" by (simp add: memory_ok_def restart_def)
    with step(2,3) show ?case
      by (cases rule: flow_step.cases)
        (simp_all add: create_memory update_memory sync_memory delete_memory ready_memory)
  qed
  then have "flow_ok f" using assms(3) by (auto simp: memory_ok_def)
  then show ?thesis using tidy_Some [of "owner_key f"] unfolding flow_ok_def tidy_def by blast
qed

text \<open>A row with an untrimmed owner, no controller and a negative revision.\<close>

definition damaged :: registry where
  "damaged = no_flows\<lparr>ready := False, rows := [(''f9'', bind_flow null_io None
     ((snd (hd (flows with_flow)))\<lparr>flow_id := ''f9'', owner_key := '' agent:main '', controller_id := None, revision := -3\<rparr>))]\<rparr>"

lemma flow_records_well_formed_witness:
  "let f = snd (hd (flows (snd (delete_flow null_io ''none'' damaged)))) in
    owner_key f = ''agent:main'' \<and> controller_id f = Some ''core/legacy-restored'' \<and> 0 \<le> revision f"
proof -
  let ?s = "snd (delete_flow null_io ''none'' damaged)"
  have s: "(flow_step null_io)\<^sup>*\<^sup>* damaged ?s" by (rule r_into_rtranclp, rule flow_step.delete)
  have "flows ?s \<noteq> []" by code_simp
  then have m: "(fst (hd (flows ?s)), snd (hd (flows ?s))) \<in> set (flows ?s)" by (metis hd_in_set prod.collapse)
  have "0 \<le> revision (snd (hd (flows ?s)))"
    using flow_records_well_formed [OF s _ m] by (simp add: damaged_def no_flows_def)
  moreover have "owner_key (snd (hd (flows ?s))) = ''agent:main''"
    "controller_id (snd (hd (flows ?s))) = Some ''core/legacy-restored''" by code_simp+
  ultimately show ?thesis by (simp add: Let_def)
qed

end
