(* ===== verification/Registry_Properties.thy ===== *)
theory Registry_Properties
  imports Registry_Creation Registry_Announcements Flow_Properties
begin

text \<open>
  The properties of the task registry: lookups, lifetimes, time stamps, restarts, announcements, creation,
  and the flows its tasks belong to.
\<close>

section \<open>A small registry\<close>

definition plain_env :: task_env where
  "plain_env = \<lparr>jio = null_io, norm_origin = Some, group_session = (\<lambda>_. False),
     message_channel = (\<lambda>c. c = ''telegram''), terminal_text = (\<lambda>_. ''ended''), followup_text = (\<lambda>_. ''blocked''),
     started_text = (\<lambda>_. ''started''), progress_text = (\<lambda>_ m. m)\<rparr>"

definition idle_tasks :: tasks_state where
  "idle_tasks = \<lparr>records = [], delivery = [], by_run = [], by_owner = [], by_flow = [], by_session = [],
     delivering = [], restored = False, task_rows = [], delivery_rows = [], flow_reg = with_flow,
     sends = [], outbox = []\<rparr>"

definition copy_job :: task_params where
  "copy_job = \<lparr>n_runtime = RCli, n_kind = None, n_source = None, n_requester = Some ''agent:main'', n_owner = None,
     n_scope = None, n_origin = Some (JObj [(''channel'', JStr ''telegram''), (''to'', JStr ''42'')]),
     n_child = None, n_parent_flow = Some ''f1'', n_parent_task = None, n_agent = None, n_run = Some ''r1'',
     n_label = None, n_task = ''copy'', n_prefer = False, n_status = Some TRunning, n_delivery = None,
     n_notify = None, n_started = Some 7, n_last = None, n_cleanup = None, n_progress = None,
     n_terminal = Some '''', n_outcome = None\<rparr>"

definition awake :: tasks_state where
  "awake = restore_tasks plain_env idle_tasks"

definition running :: tasks_state where
  "running = snd (create_task_record plain_env ''t1'' 10 copy_job awake)"

definition stopped :: tasks_state where
  "stopped = snd (mark_terminal plain_env 20 ''t1'' TSucceeded 20 None None Keep Keep running)"

definition finished :: tasks_state where
  "finished = deliver_terminal plain_env 21 ''t1'' stopped"

text \<open>The same states as values, so that instances evaluate without replaying the operations.\<close>

definition copy_task :: task_record where
  "copy_task = \<lparr>t_id = ''t1'', t_runtime = RCli, t_kind = None, t_source = None, t_requester = ''agent:main'',
     t_owner = ''agent:main'', t_scope = SSession, t_child = None, t_parent_flow = Some ''f1'', t_parent_task = None,
     t_agent = None, t_run = Some ''r1'', t_label = None, t_task = ''copy'', t_status = TRunning,
     t_delivery = DPending, t_notify = DoneOnly, t_created = 7, t_started = Some 7, t_ended = None,
     t_last_event = Some 7, t_cleanup = None, t_error = None, t_progress_summary = None,
     t_terminal_summary = None, t_outcome = None\<rparr>"

definition copied_task :: task_record where
  "copied_task = copy_task\<lparr>t_status := TSucceeded, t_ended := Some 20, t_last_event := Some 20, t_cleanup := Some 604800020\<rparr>"

definition chat_origin :: js where
  "chat_origin = JObj [(''channel'', JStr ''telegram''), (''to'', JStr ''42'')]"

lemma running_value [code]:
  "running = \<lparr>records = [(''t1'', copy_task)], delivery = [(''t1'', \<lparr>d_origin = Some chat_origin, d_notified = None\<rparr>)],
     by_run = [(''r1'', [''t1''])], by_owner = [(''agent:main'', [''t1''])], by_flow = [(''f1'', [''t1''])],
     by_session = [(''agent:main'', [''t1''])], delivering = [], restored = True,
     task_rows = [(''t1'', bind_task copy_task)], delivery_rows = [(''t1'', \<lparr>x_origin_json = Some ''null'', x_notified = None\<rparr>)],
     flow_reg = with_flow, sends = [], outbox = [TaskUpserted copy_task None]\<rparr>"
  by code_simp

lemma stopped_value [code]:
  "stopped = running\<lparr>records := [(''t1'', copied_task)], task_rows := [(''t1'', bind_task copied_task)],
     outbox := [TaskUpserted copy_task None, TaskUpserted copied_task (Some copy_task)]\<rparr>"
  by code_simp

lemma finished_value [code]:
  "finished = stopped\<lparr>delivering := [''t1''], sends := [SendTerminal copied_task ''ended''
     \<lparr>o_session = Some ''agent:main'', o_origin = Some chat_origin, o_flow = Some ''f1''\<rparr>]\<rparr>"
  by code_simp

lemma demo_records [simp]: "record_of running ''t1'' = Some copy_task" "record_of stopped ''t1'' = Some copied_task"
  "record_of finished ''t1'' = Some copied_task" "record_of running ''t2'' = None"
  "flow_reg running = with_flow" "flow_reg stopped = with_flow" "flow_reg finished = with_flow"
  by (simp_all add: finished_value stopped_value running_value record_of_def)

lemma demo_ops: "task_op plain_env awake running" "task_op plain_env running stopped" "task_op plain_env stopped finished"
proof -
  have "task_rows awake = []" "restored awake" "rows_ok idle_tasks" "cold idle_tasks"
    by (simp_all add: awake_def idle_tasks_def cold_def rows_ok_def restore_cold(3))
  then have "record_of awake ''t1'' = None"
    unfolding awake_def by (subst restore_cold(1)) (simp_all add: idle_tasks_def)
  then show "task_op plain_env awake running" unfolding running_def by (rule task_op.create)
  show "task_op plain_env running stopped" unfolding stopped_def by (rule task_op.ends) (simp add: end_status_def)
  show "task_op plain_env stopped finished" unfolding finished_def by (rule task_op.deliver)
qed

lemma demo_ok [simp]: "restored awake" "restored running" "restored stopped" "restored finished"
  "tasks_ok plain_env awake" "tasks_ok plain_env running" "tasks_ok plain_env stopped"
proof -
  have "tasks_ok plain_env idle_tasks" by (simp add: tasks_ok_def cold_def rows_ok_def idle_tasks_def)
  then show awake: "tasks_ok plain_env awake" "restored awake" by (simp_all add: awake_def restore_ok)
  show running: "tasks_ok plain_env running" "restored running" using op_ok [OF demo_ops(1) awake(2,1)] by simp_all
  show stopped: "tasks_ok plain_env stopped" "restored stopped" using op_ok [OF demo_ops(2) running(2,1)] by simp_all
  show "restored finished" using op_ok [OF demo_ops(3) stopped(2,1)] by simp
qed

lemma demo_runs: "tasks_run plain_env idle_tasks running" "tasks_run plain_env idle_tasks stopped"
  "tasks_run plain_env idle_tasks finished"
proof -
  have start: "tasks_run plain_env idle_tasks idle_tasks"
    by (rule tasks_run.start) (simp add: starts_def cold_def rows_ok_def idle_tasks_def)
  show running: "tasks_run plain_env idle_tasks running"
    by (rule tasks_run.op [OF start]) (use demo_ops(1) in \<open>simp add: awake_def\<close>)
  show stopped: "tasks_run plain_env idle_tasks stopped"
    by (rule tasks_run.op [OF running]) (simp add: demo_ops)
  show "tasks_run plain_env idle_tasks finished" by (rule tasks_run.op [OF stopped]) (simp add: demo_ops)
qed

lemmas demo_reachable = demo_runs [THEN run_reachable]

lemma demo_indexed: "tasks_indexed awake" "tasks_indexed running"
  using demo_ok(5,6) by (simp_all add: tasks_ok_def)

lemma demo_flows: "registry_ok (jio plain_env) (flow_reg running)" "null_fits (jio plain_env)"
proof -
  have "flow_reg running = with_flow" by code_simp
  then show "registry_ok (jio plain_env) (flow_reg running)" "null_fits (jio plain_env)" by (simp_all add: plain_env_def)
qed

section \<open>Lookups\<close>

text \<open>C23: the task lookups by run, owner, flow and related session, which go through four indexes, find in
  every reachable state exactly the records that a scan of all records finds, each of them once; those by
  owner, flow and session list the newest first.\<close>

theorem registry_lookups_exact:
  assumes "tasks_reachable e s0 s" and "restored s"
  shows "set (tasks_by_run s k) = {t \<in> ran (record_of s). norm_opt (t_run t) = Some (trim k)} \<and>
    set (tasks_of_owner s k) = {t \<in> ran (record_of s). norm_opt (Some k) \<noteq> None \<and> norm_opt (Some (t_owner t)) = norm_opt (Some k)} \<and>
    set (tasks_of_flow s k) = {t \<in> ran (record_of s). norm_opt (Some k) \<noteq> None \<and> norm_opt (t_parent_flow t) = norm_opt (Some k)} \<and>
    set (tasks_of_session s k) = {t \<in> ran (record_of s). norm_opt (Some k) \<noteq> None \<and>
      (norm_opt (Some (t_owner t)) = norm_opt (Some k) \<or> norm_opt (t_child t) = norm_opt (Some k))} \<and>
    distinct (tasks_by_run s k) \<and> distinct (tasks_of_owner s k) \<and> distinct (tasks_of_flow s k) \<and>
    distinct (tasks_of_session s k) \<and> sorted (map (\<lambda>t. - t_created t) (tasks_of_owner s k)) \<and>
    sorted (map (\<lambda>t. - t_created t) (tasks_of_flow s k)) \<and> sorted (map (\<lambda>t. - t_created t) (tasks_of_session s k))"
proof -
  have ix: "tasks_indexed s" using tasks_reachable_ok [OF assms(1)] assms(2) by (simp add: tasks_ok_def)
  then have "index_exact (\<lambda>t. opt_list (owner_of t)) (by_owner s) (record_of s)"
    "index_exact (\<lambda>t. opt_list (flow_key t)) (by_flow s) (record_of s)"
    "index_exact session_keys (by_session s) (record_of s)" by (simp_all add: tasks_indexed_def)
  note at = this [THEN records_at_set [OF ix]] and once = this [THEN records_at_distinct [OF ix]]
  have run: "distinct (tasks_by_run s k)"
    using ix records_at_distinct [OF ix, of "\<lambda>t. opt_list (run_key t)" "by_run s"] by (simp add: tasks_by_run_def tasks_indexed_def)
  have keys: "x \<in> set (session_keys t) \<longleftrightarrow> owner_of t = Some x \<or> norm_opt (t_child t) = Some x" for x t
    by (auto simp: session_keys_def map_filter_simps Let_def split: option.split)
  show ?thesis
  proof (cases "norm_opt (Some k)")
    case (Some x)
    then show ?thesis
      using by_run_set [OF ix, of k] at [of x] once [of x] run
      by (auto simp: tasks_of_owner_def tasks_of_flow_def tasks_of_session_def list_from_index_def newest_first_def
          keys opt_list_member owner_of_def flow_key_def run_key_def)
  qed (use by_run_set [OF ix, of k] run in \<open>auto simp: tasks_of_owner_def tasks_of_flow_def tasks_of_session_def
      list_from_index_def run_key_def\<close>)
qed

lemma registry_lookups_exact_witness:
  "set (tasks_by_run finished ''r1'') = {t \<in> ran (record_of finished). norm_opt (t_run t) = Some (trim ''r1'')}"
  using registry_lookups_exact [OF demo_reachable(3), of "''r1''"] by simp

section \<open>Lifetimes\<close>

lemma load_row_bind:
  "t_id (load_row (bind_task t)) = t_id t" "t_runtime (load_row (bind_task t)) = t_runtime t"
  "t_owner (load_row (bind_task t)) = t_owner t" "t_scope (load_row (bind_task t)) = t_scope t"
  "t_status (load_row (bind_task t)) = t_status t"
  by (simp_all add: load_row_def row_to_task_def bind_task_def normalize_timestamps_def Let_def)

lemma load_row_created: "t_created (load_row (bind_task t)) \<le> t_created t"
  using earliest_le(1) [of "row_to_task (bind_task t)"]
  by (simp add: load_row_def normalize_timestamps_def Let_def) (simp add: row_to_task_def bind_task_def opt_else_def)

lemma reload_record:
  assumes "tasks_ok e s" and "restored s" and "record_of s i = Some t"
  shows "record_of (reload_tasks e s) i \<in> {Some t, Some (load_row (bind_task t))}"
proof -
  let ?c = "s\<lparr>records := [], delivery := [], by_run := [], by_owner := [], by_flow := [], by_session := [],
    delivering := [], restored := False\<rparr>"
  have "cold ?c" "rows_ok ?c" using rows_ok_of [OF assms(1)] by (simp_all add: cold_def rows_ok_def)
  note r = restore_cold(1) [OF this, of e]
  have "rel_option written (map_of (task_rows s) i) (record_of s i)"
    using assms(1,2) by (simp add: tasks_ok_def stored_def)
  then obtain w where "map_of (task_rows s) i = Some w" "written w t" using assms(3) by (auto simp: option_rel_Some2)
  then show ?thesis using r by (auto simp: reload_tasks_def written_def)
qed

lemma reload_absent:
  assumes "tasks_ok e s" and "restored s" and "record_of s i = None"
  shows "record_of (reload_tasks e s) i = None"
proof -
  let ?c = "s\<lparr>records := [], delivery := [], by_run := [], by_owner := [], by_flow := [], by_session := [],
    delivering := [], restored := False\<rparr>"
  have "cold ?c" "rows_ok ?c" using rows_ok_of [OF assms(1)] by (simp_all add: cold_def rows_ok_def)
  note r = restore_cold(1) [OF this, of e]
  have "rel_option written (map_of (task_rows s) i) (record_of s i)"
    using assms(1,2) by (simp add: tasks_ok_def stored_def)
  then have "map_of (task_rows s) i = None" using assms(3) by simp
  then show ?thesis using r by (simp add: reload_tasks_def)
qed

text \<open>C24: a task that has ended never becomes active again, and no step gives it another runtime, owner or
  scope or a later creation time: whatever the operation, the settlement of a send, a deletion or a reload
  from SQLite, a task that is still there has kept them.\<close>

theorem ended_task_stays_ended:
  assumes "tasks_reachable e s0 s" and "restored s" and "task_step e s s'"
    and "record_of s i = Some t" and "record_of s' i = Some t'"
  shows "(terminal_task (t_status t) \<longrightarrow> terminal_task (t_status t')) \<and> t_runtime t' = t_runtime t \<and>
    t_owner t' = t_owner t \<and> t_scope t' = t_scope t \<and> t_created t' \<le> t_created t"
  using assms(3)
proof cases
  case op
  then have "records_grow s s'"
    using life.op [of e s s'] tasks_reachable_ok [OF assms(1)] assms(2) by (simp add: tasks_ok_def)
  then have "task_grows t t'" using assms(4,5) unfolding records_grow_def by force
  then show ?thesis by (simp add: task_grows_def)
next
  case (remove j)
  have "record_of s' i = record_of s i \<or> record_of s' i = None"
    using assms(2) by (auto simp: remove delete_task_record_def remove_record_def rebuild_runs_def record_of_def
        AList.delete_conv' split: option.split)
  then show ?thesis using assms(4,5) by auto
next
  case reload
  then show ?thesis
    using reload_record [OF tasks_reachable_ok [OF assms(1)] assms(2,4)] load_row_created [of t] assms(5)
    by (auto simp: load_row_bind simp del: load_row_status)
qed

lemma ended_task_stays_ended_witness:
  "terminal_task (t_status (the (record_of (on_agent_event plain_env 30
     \<lparr>a_run = ''r1'', a_session = None, a_ts = 29, a_stream = ''lifecycle'', a_phase = Some ''start'', a_started = Some 29,
       a_ended = None, a_aborted = False, a_error = None\<rparr> stopped) ''t1'')))"
  (is "terminal_task (t_status (the (record_of (on_agent_event plain_env 30 ?v stopped) _)))")
proof -
  have "task_step plain_env stopped (on_agent_event plain_env 30 ?v stopped)"
    by (rule task_step.op) (simp add: task_op.agent_event)
  moreover have "record_of stopped ''t1'' = Some (the (record_of stopped ''t1''))"
    "record_of (on_agent_event plain_env 30 ?v stopped) ''t1'' = Some (the (record_of (on_agent_event plain_env 30 ?v stopped) ''t1''))"
    "terminal_task (t_status (the (record_of stopped ''t1'')))" by code_simp+
  ultimately show ?thesis
    using ended_task_stays_ended [OF demo_reachable(2)] by (meson demo_ok(3))
qed

section \<open>Time stamps\<close>

text \<open>In every reachable state the times of every task are in order (creation, then start, then last
  event and end) and, if the tasks found in the store at the start had one, every ended task has a
  cleanup time, so that maintenance will remove it.\<close>

lemma task_times_in_order:
  assumes "tasks_reachable e s0 s" and "restored s" and "record_of s i = Some t"
    and "rows_retained s0"
  shows "(\<forall>x. t_started t = Some x \<longrightarrow> t_created t \<le> x) \<and>
    (\<forall>y. t_last_event t = Some y \<or> t_ended t = Some y \<longrightarrow> t_created t \<le> y \<and> (\<forall>x. t_started t = Some x \<longrightarrow> x \<le> y)) \<and>
    (terminal_task (t_status t) \<longrightarrow> t_cleanup t \<noteq> None)"
proof -
  have "ordered s" using tasks_reachable_ok [OF assms(1)] assms(2) by (simp add: tasks_ok_def)
  then have "in_order t" using assms(3) by (auto simp: ordered_def all_records_def ran_def)
  moreover have "terminal_task (t_status t) \<longrightarrow> t_cleanup t \<noteq> None"
    using reachable_retains [OF assms(1,4)] assms(2,3) by (auto simp: retains_def retained_def all_records_def ran_def)
  ultimately show ?thesis by (cases "t_started t") (auto simp: in_order_def)
qed

section \<open>Restarts\<close>

text \<open>The record a row gives back: an empty optional text is absent, and a blank requester is the owner.\<close>

definition scrub :: "task_record \<Rightarrow> task_record" where
  "scrub t = t\<lparr>t_kind := non_empty (t_kind t), t_source := non_empty (t_source t),
     t_requester := (if t_scope t = SSystem then []
       else if trim (t_requester t) = [] then t_owner t else trim (t_requester t)),
     t_child := non_empty (t_child t), t_parent_flow := non_empty (t_parent_flow t),
     t_parent_task := non_empty (t_parent_task t), t_agent := non_empty (t_agent t), t_run := non_empty (t_run t),
     t_label := non_empty (t_label t), t_error := non_empty (t_error t),
     t_progress_summary := non_empty (t_progress_summary t),
     t_terminal_summary := non_empty (t_terminal_summary t)\<rparr>"

lemma bind_scrub: "row_to_task (bind_task t) = scrub t"
  by (simp add: row_to_task_def bind_task_def scrub_def norm_opt_def Let_def opt_else_def split: option.split)

lemma load_scrub: "in_order t \<Longrightarrow> load_row (bind_task t) = scrub t"
proof -
  assume "in_order t"
  then have "in_order (scrub t)" by (simp add: in_order_def scrub_def split: option.splits)
  then show ?thesis by (simp add: load_row_def bind_scrub in_order_normal)
qed

text \<open>C25: a reload rebuilds the memory from SQLite: in every reachable state the registry has, after
  \<^verbatim>\<open>reloadTaskRegistryFromStore\<close>, the same tasks under the same identifiers, each one as it was, or as it
  was up to empty optional texts and a blank requester.\<close>

theorem reload_restores_tasks:
  assumes "tasks_reachable e s0 s" and "restored s"
  shows "restored (reload_tasks e s) \<and> dom (record_of (reload_tasks e s)) = dom (record_of s) \<and>
    (\<forall>i t t'. record_of s i = Some t \<and> record_of (reload_tasks e s) i = Some t' \<longrightarrow> t' = t \<or> t' = scrub t)"
proof (intro conjI allI impI)
  note ok = tasks_reachable_ok [OF assms(1)]
  show "restored (reload_tasks e s)" by (simp add: reload_tasks_def)
  have "record_of (reload_tasks e s) i = None \<longleftrightarrow> record_of s i = None" for i
    using reload_record [OF ok assms(2), of i] reload_absent [OF ok assms(2), of i] by (cases "record_of s i") auto
  then show "dom (record_of (reload_tasks e s)) = dom (record_of s)"
    by (simp add: dom_def del: not_None_eq)
  fix i t t'
  assume t: "record_of s i = Some t \<and> record_of (reload_tasks e s) i = Some t'"
  have "ordered s" using ok assms(2) by (simp add: tasks_ok_def)
  then have "in_order t" using t by (auto simp: ordered_def all_records_def ran_def)
  then show "t' = t \<or> t' = scrub t" using t reload_record [OF ok assms(2), of i t] by (auto simp: load_scrub)
qed

lemma reload_restores_tasks_witness:
  "restored (reload_tasks plain_env finished) \<and> dom (record_of (reload_tasks plain_env finished)) = dom (record_of finished)"
  using reload_restores_tasks [OF demo_reachable(3)] by simp

section \<open>Announcements\<close>

text \<open>C27: the end of a task is announced by at most one message at a time: in a process that does not
  reload its registry, the terminal announcements in flight are for distinct tasks, namely those in
  \<^verbatim>\<open>tasksWithPendingDelivery\<close>.\<close>

theorem one_announcement_in_flight:
  assumes "tasks_run e s0 s"
  shows "distinct (in_flight s) \<and> set (in_flight s) = set (delivering s)"
  using run_announced [OF assms] mset_eq_imp_distinct_iff [of "in_flight s" "delivering s"] mset_eq_setD
  by (auto simp: announced_def)

lemma one_announcement_in_flight_witness: "distinct (in_flight finished) \<and> set (in_flight finished) = set (delivering finished)"
  by (rule one_announcement_in_flight [OF demo_runs(3)])

text \<open>
  A reload forgets the announcements in flight, and the next announcement sends a second message for the
  same task before the first has settled.
\<close>

lemma reload_announces_twice:
  "in_flight (deliver_terminal plain_env 22 ''t1'' (reload_tasks plain_env finished)) = [''t1'', ''t1'']"
  by code_simp

section \<open>Creation\<close>

text \<open>A refused request leaves the registry alone: when \<^verbatim>\<open>createTaskRecord\<close> throws (no owner, or a
  flow the task may not join), no record, no delivery state and no row has changed.\<close>

lemma refused_task_changes_nothing:
  assumes "tasks_reachable e s0 s" and "restored s"
    and "create_task_record e uuid now p s = (Inl err, s')"
  shows "record_of s' = record_of s \<and> delivery s' = delivery s \<and> task_rows s' = task_rows s \<and>
    delivery_rows s' = delivery_rows s"
  using create_refused [OF assms(2) _ assms(3)] tasks_reachable_ok [OF assms(1)] assms(2) by (simp add: tasks_ok_def)

lemma error_result: "(case fst res of Inl err \<Rightarrow> True | _ \<Rightarrow> False) \<Longrightarrow> res = (Inl (projl (fst res)), snd res)"
  by (cases res) (auto split: sum.splits)

text \<open>A run gets one task.  After a task was created for a run that has an identifier, asking again
  with the same parameters creates no second record, at any later time and with any fresh identifier; an
  answer, if not refused, is the first task.\<close>

lemma run_gets_one_task:
  assumes "tasks_reachable e s0 s" and "restored s" and "record_of s uuid = None"
    and "\<not> terminal_task (opt_else (n_status p) TQueued)" and "norm_opt (n_run p) \<noteq> None"
    and "create_task_record e uuid now p s = (Inr t, s1)" and "t_id t = uuid"
    and "create_task_record e uuid' now' p s1 = (res, s2)"
  shows "record_of s1 = (record_of s)(uuid \<mapsto> t) \<and> dom (record_of s2) = insert uuid (dom (record_of s)) \<and>
    (\<forall>u. res = Inr u \<longrightarrow> t_id u = uuid)"
proof -
  have ix: "tasks_indexed s" using tasks_reachable_ok [OF assms(1)] assms(2) by (simp add: tasks_ok_def)
  have "record_of s1 = (record_of s)(uuid \<mapsto> t)" by (rule create_new(1) [OF assms(2-4) ix assms(6,7)])
  moreover have "dom (record_of s2) = dom (record_of s1) \<and> (\<forall>u. res = Inr u \<longrightarrow> t_id u = uuid)"
    by (rule create_twice [OF assms(2) ix assms(3-8)])
  ultimately show ?thesis by simp
qed

lemma created_result:
  "(case fst res of Inr x \<Rightarrow> True | _ \<Rightarrow> False) \<Longrightarrow> res = (Inr (projr (fst res)), snd res)"
  by (cases res) (auto split: sum.splits)

section \<open>Tasks and their flows\<close>

text \<open>A task joins only an open flow of its own session: linking succeeds exactly when the task has
  session scope and the flow exists, belongs to the task's owner, has no cancellation request and has not
  ended; then the record carries the flow, and otherwise the error leaves the registry as it was.\<close>

lemma task_joins_own_open_flow:
  assumes "restored s" and "registry_ok (jio e) (flow_reg s)"
    and "record_of s i = Some t" and "norm_opt (t_parent_flow t) = None" and "trim fid \<noteq> []"
  shows "if t_scope t = SSession \<and> (\<exists>f. map_of (flows (flow_reg s)) (trim fid) = Some f \<and>
      norm_opt (Some (owner_key f)) = norm_opt (Some (t_owner t)) \<and> cancel_requested_at f = None \<and>
      \<not> flow_closed (status f))
    then \<exists>t'. fst (link_task_to_flow e now i fid s) = Inr (Some t') \<and> norm_opt (t_parent_flow t') = Some (trim fid) \<and>
      record_of (snd (link_task_to_flow e now i fid s)) = (record_of s)(i \<mapsto> t')
    else \<exists>err. link_task_to_flow e now i fid s = (Inl err, s)"
  using link_checked [where e = e and now = now, OF assms(1-3) _ assms(5)] assms(4)
  unfolding linkable_def flow_key_def by (auto split: if_splits) (metis fst_conv)+

text \<open>A task without a flow, in the registry that has one.\<close>

definition unlinked :: tasks_state where
  "unlinked = snd (create_task_record plain_env ''t2'' 30 (copy_job\<lparr>n_parent_flow := None\<rparr>) awake)"

definition loose_task :: task_record where
  "loose_task = copy_task\<lparr>t_id := ''t2'', t_parent_flow := None\<rparr>"

lemma unlinked_facts:
  "(\<lambda>s. restored s \<and> records s = [(''t2'', loose_task)] \<and> flow_reg s = with_flow) unlinked"
  by code_simp

text \<open>C31: a mirrored flow tracks its task through the registry: whatever an update makes of a task linked
  to a flow in mirrored mode, the flow then has the status derived from the task's new record, an end time
  exactly when that status is terminal and the next revision, and no other flow changes.\<close>

theorem mirrored_flow_tracks_task:
  assumes "record_of s i = Some t" and "norm_opt (t_parent_flow (patch t)) = Some fid"
    and "registry_ok (jio e) (flow_reg s)" and "null_fits (jio e)"
    and "map_of (flows (flow_reg s)) fid = Some f" and "mode f = TaskMirrored"
    and "update_record e now i patch s = (Some t', s')"
  shows "\<exists>f'. map_of (flows (flow_reg s')) = (map_of (flows (flow_reg s)))(fid \<mapsto> f') \<and> mode f' = TaskMirrored \<and>
    status f' = derive_status t' \<and> (ended_at f' \<noteq> None \<longleftrightarrow> is_terminal (status f')) \<and> revision f' = revision f + 1"
  using update_mirrored [where now = now and patch = patch, OF assms(1) assms(2) [folded flow_key_def] assms(3-6)]
    update_record_result [OF assms(1), of e now patch] by (simp add: assms(7))

lemma updated_result: "fst res \<noteq> None \<Longrightarrow> res = (Some (the (fst res)), snd res)"
  by (cases res) auto

lemma mirrored_flow_tracks_task_witness:
  "\<exists>f'. map_of (flows (flow_reg (snd (update_record plain_env 40 ''t1'' (\<lambda>t. t\<lparr>t_parent_flow := Some ''m1''\<rparr>) running)))) =
      (map_of (flows (flow_reg running)))(''m1'' \<mapsto> f') \<and> status f' = FRunning"
proof -
  let ?p = "\<lambda>t. t\<lparr>t_parent_flow := Some ''m1''\<rparr>" and ?t = "the (record_of running ''t1'')"
  let ?u = "update_record plain_env 40 ''t1'' ?p running" and ?f = "the (map_of (flows (flow_reg running)) ''m1'')"
  have r: "?u = (Some (the (fst ?u)), snd ?u)" by (rule updated_result) code_simp
  have h: "record_of running ''t1'' = Some ?t" "norm_opt (t_parent_flow (?p ?t)) = Some ''m1''"
    "map_of (flows (flow_reg running)) ''m1'' = Some ?f" "mode ?f = TaskMirrored" by code_simp+
  have "derive_status (the (fst ?u)) = FRunning" by code_simp
  with mirrored_flow_tracks_task [OF h(1,2) demo_flows h(3,4) r] show ?thesis by auto
qed

text \<open>C26: a cancellation completes with the last task.  An update of a task in a managed flow changes the
  flow only when its cancellation was requested, it has not ended and no task of it is active any more;
  then the flow is cancelled, at the end time of the task, with no blocking information left.\<close>

theorem cancellation_completes_with_last_task:
  assumes "tasks_reachable e s0 s" and "restored s" and "record_of s i = Some t" and "task_change t (patch t)"
    and "norm_opt (t_parent_flow (patch t)) = Some fid" and "registry_ok (jio e) (flow_reg s)"
    and "map_of (flows (flow_reg s)) fid = Some f" and "mode f = Managed"
    and "update_record e now i patch s = (Some t', s')"
  shows "if cancel_requested_at f \<noteq> None \<and> \<not> flow_closed (status f) \<and>
      (\<forall>u \<in> ran (record_of s'). norm_opt (t_parent_flow u) = Some fid \<longrightarrow> \<not> active_task (t_status u))
    then \<exists>f'. map_of (flows (flow_reg s')) = (map_of (flows (flow_reg s)))(fid \<mapsto> f') \<and> status f' = FCancelled \<and>
      ended_at f' = Some (opt_else (t_ended t') (opt_else (t_last_event t') now)) \<and>
      blocked_task_id f' = None \<and> blocked_summary f' = None
    else flow_reg s' = flow_reg s"
proof -
  have ix: "tasks_indexed s" using tasks_reachable_ok [OF assms(1)] assms(2) by (simp add: tasks_ok_def)
  have t': "t' = revise now patch t" using update_record_result [OF assms(3), of e now patch] by (simp add: assms(9))
  show ?thesis
    using update_managed [where now = now and e = e and s' = s' and patch = patch, OF ix assms(3,4)
        assms(5) [folded flow_key_def] assms(6-8)]
    unfolding flow_key_def awaits_cancel_def cancel_time_def by (simp add: assms(8,9) t')
qed

text \<open>The flow of the running task is asked to cancel; then the task succeeds.\<close>

definition cancelling :: tasks_state where
  "cancelling = running\<lparr>flow_reg := snd (update_expected null_io 15 ''f1'' 0 (empty_patch\<lparr>p_cancel := Put 15\<rparr>) (flow_reg running))\<rparr>"

definition succeed :: "task_record \<Rightarrow> task_record" where
  "succeed t = t\<lparr>t_status := TSucceeded, t_ended := Some 20, t_last_event := Some 20\<rparr>"

lemma ran_records: "list_all P (map snd (records s)) \<Longrightarrow> \<forall>u \<in> ran (record_of s). P u"
  by (fastforce simp: record_of_def ran_def list_all_iff dest: map_of_SomeD)

lemma cancellation_completes_with_last_task_witness:
  "\<exists>f'. map_of (flows (flow_reg (snd (update_record plain_env 20 ''t1'' succeed cancelling)))) ''f1'' = Some f' \<and>
    status f' = FCancelled"
proof -
  let ?t = "the (record_of cancelling ''t1'')" and ?f = "the (map_of (flows (flow_reg cancelling)) ''f1'')"
  let ?u = "update_record plain_env 20 ''t1'' succeed cancelling"
  have io: "jio plain_env = null_io" by (simp add: plain_env_def)
  have "task_op plain_env running cancelling"
    unfolding cancelling_def by (rule task_op.flows) (simp add: io flow_step.update)
  then have reach: "tasks_reachable plain_env idle_tasks cancelling"
    by (intro tasks_reachable.step [OF demo_reachable(1)] task_step.op) simp
  have reg: "registry_ok (jio plain_env) (flow_reg cancelling)"
    using registry_stays_consistent [of null_io "flow_reg running" "empty_patch\<lparr>p_cancel := Put 15\<rparr>" 15 "''f1''" 0]
      demo_flows by (simp add: cancelling_def io empty_patch_def)
  have h: "record_of cancelling ''t1'' = Some ?t" "norm_opt (t_parent_flow (succeed ?t)) = Some ''f1''"
    "map_of (flows (flow_reg cancelling)) ''f1'' = Some ?f" "mode ?f = Managed"
    "cancel_requested_at ?f \<noteq> None \<and> \<not> flow_closed (status ?f)" by code_simp+
  have "task_change ?t (succeed ?t)" by (simp add: task_change_def succeed_def flow_key_def terminal_task_def)
  note c = cancellation_completes_with_last_task [where patch = succeed and now = 20, OF reach _ h(1) this h(2) reg h(3,4)]
  have u: "?u = (Some (the (fst ?u)), snd ?u)" by (rule updated_result) code_simp
  have idle: "\<forall>v \<in> ran (record_of (snd ?u)). norm_opt (t_parent_flow v) = Some ''f1'' \<longrightarrow> \<not> active_task (t_status v)"
    by (rule ran_records) code_simp
  have "restored cancelling" by (simp add: cancelling_def)
  from c [OF this u, unfolded if_P [OF conjI [OF conjunct1 [OF h(5)] conjI [OF conjunct2 [OF h(5)] idle]]]]
  show ?thesis by auto
qed

lemma count_fields:
  "total_count (count_task t m) = total_count m + 1"
  "active_count (count_task t m) = active_count m + (if active_task (t_status t) then 1 else 0)"
  "terminal_count (count_task t m) = terminal_count m + (if active_task (t_status t) then 0 else 1)"
  "failure_count (count_task t m) = failure_count m +
     (if t_status t = TFailed \<or> t_status t = TTimedOut \<or> t_status t = TLost then 1 else 0)"
  "status_count (count_task t m) st = status_count m st + (if t_status t = st then 1 else 0)"
  "runtime_count (count_task t m) rt = runtime_count m rt + (if t_runtime t = rt then 1 else 0)"
  by (auto simp: count_task_def Let_def active_task_def)

lemma failure_not_active: "t_status t = TFailed \<or> t_status t = TTimedOut \<or> t_status t = TLost \<Longrightarrow> \<not> active_task (t_status t)"
  by (auto simp: active_task_def)

text \<open>The summary of the tasks adds up: it counts every task once, as active or as ended and under its
  status and its runtime, and failures are among the ended.\<close>

lemma task_summary_adds_up:
  "total_count (summarize_tasks ts) = length ts \<and>
   active_count (summarize_tasks ts) + terminal_count (summarize_tasks ts) = length ts \<and>
   active_count (summarize_tasks ts) = length (filter (\<lambda>t. active_task (t_status t)) ts) \<and>
   failure_count (summarize_tasks ts) \<le> terminal_count (summarize_tasks ts) \<and>
   status_count (summarize_tasks ts) st = length (filter (\<lambda>t. t_status t = st) ts) \<and>
   runtime_count (summarize_tasks ts) rt = length (filter (\<lambda>t. t_runtime t = rt) ts)"
proof -
  have 1: "total_count (fold count_task ts m) = total_count m + length ts"
    "active_count (fold count_task ts m) = active_count m + length (filter (\<lambda>t. active_task (t_status t)) ts)"
    "terminal_count (fold count_task ts m) = terminal_count m + length (filter (\<lambda>t. \<not> active_task (t_status t)) ts)"
    "status_count (fold count_task ts m) st = status_count m st + length (filter (\<lambda>t. t_status t = st) ts)"
    "runtime_count (fold count_task ts m) rt = runtime_count m rt + length (filter (\<lambda>t. t_runtime t = rt) ts)" for m
    by (induction ts arbitrary: m) (simp_all add: count_fields)
  have 2: "failure_count (fold count_task ts m) \<le> terminal_count (fold count_task ts m)"
    if "failure_count m \<le> terminal_count m" for m
    using that
  proof (induction ts arbitrary: m)
    case (Cons t ts)
    have "failure_count (count_task t m) \<le> terminal_count (count_task t m)"
      using Cons.prems failure_not_active [of t] by (simp add: count_fields)
    then show ?case using Cons.IH by simp
  qed simp
  show ?thesis
    using 1 [of empty_summary] 2 [of empty_summary] sum_length_filter_compl [of "\<lambda>t. active_task (t_status t)" ts]
    by (simp add: summarize_tasks_def empty_summary_def)
qed

end
