(* ===== verification/Owner_Access.thy ===== *)
theory Owner_Access
  imports Registry_Properties
begin

text \<open>
  What an owner sees of the registries and may change in them, \<^verbatim>\<open>src/tasks/task-owner-access.ts\<close> and
  \<^verbatim>\<open>task-flow-owner-access.ts\<close>, and the status snapshot of a list of tasks, \<^verbatim>\<open>task-status.ts\<close>
  (\<^verbatim>\<open>buildTaskStatusSnapshot\<close>).  As in \<open>Task_Lifecycle\<close>, a lookup runs in a restored registry.
\<close>

section \<open>Tasks of an owner\<close>

definition can_access :: "task_record \<Rightarrow> string \<Rightarrow> bool" where
  "can_access t caller \<longleftrightarrow> t_scope t = SSession \<and> norm_opt (Some (t_owner t)) = norm_opt (Some caller)"

definition only_for :: "string \<Rightarrow> task_record option \<Rightarrow> task_record option" where
  "only_for caller v = (case v of None \<Rightarrow> None | Some t \<Rightarrow> if can_access t caller then Some t else None)"

definition get_task_for_owner :: "tasks_state \<Rightarrow> string \<Rightarrow> string \<Rightarrow> task_record option" where
  "get_task_for_owner s i caller = only_for caller (get_task_record s i)"

definition find_run_for_owner :: "tasks_state \<Rightarrow> string \<Rightarrow> string \<Rightarrow> task_record option" where
  "find_run_for_owner s run caller = only_for caller (find_task_by_run s run)"

definition set_policy_for_owner ::
  "task_env \<Rightarrow> int \<Rightarrow> string \<Rightarrow> string \<Rightarrow> notify_policy \<Rightarrow> tasks_state \<Rightarrow> task_record option \<times> tasks_state" where
  "set_policy_for_owner e now i caller np s0 = (let s = restore_tasks e s0 in
     case get_task_for_owner s i caller of None \<Rightarrow> (None, s)
     | Some t \<Rightarrow> set_notify_policy e now (t_id t) np s)"

definition cancel_for_owner ::
  "task_env \<Rightarrow> int \<Rightarrow> string \<Rightarrow> string \<Rightarrow> int \<Rightarrow> string field \<Rightarrow> tasks_state \<Rightarrow> task_record option \<times> tasks_state" where
  "cancel_for_owner e now i caller ended summary s0 = (let s = restore_tasks e s0 in
     case get_task_for_owner s i caller of None \<Rightarrow> (None, s)
     | Some t \<Rightarrow> mark_terminal e now (t_id t) TCancelled ended None None summary Keep s)"

definition related_for_owner :: "tasks_state \<Rightarrow> string \<Rightarrow> string \<Rightarrow> task_record list" where
  "related_for_owner s session caller = filter (\<lambda>t. can_access t caller) (tasks_of_session s session)"

definition latest_related_for_owner :: "tasks_state \<Rightarrow> string \<Rightarrow> string \<Rightarrow> task_record option" where
  "latest_related_for_owner s session caller = first_of (related_for_owner s session caller)"

definition resolve_task_for_owner :: "tasks_state \<Rightarrow> string \<Rightarrow> string \<Rightarrow> task_record option" where
  "resolve_task_for_owner s token caller = (case get_task_for_owner s token caller of Some t \<Rightarrow> Some t
     | None \<Rightarrow> (case find_run_for_owner s token caller of Some t \<Rightarrow> Some t
       | None \<Rightarrow> (case latest_related_for_owner s token caller of Some t \<Rightarrow> Some t
         | None \<Rightarrow> only_for caller (resolve_task_token s token))))"

section \<open>Flows of an owner\<close>

definition get_flow_for_owner :: "json_io \<Rightarrow> string \<Rightarrow> string \<Rightarrow> registry \<Rightarrow> flow option \<times> registry" where
  "get_flow_for_owner io i caller r = (case get_flow io i r of
     (None, r1) \<Rightarrow> (None, r1)
   | (Some f, r1) \<Rightarrow> (if norm_opt (Some (owner_key f)) = norm_opt (Some caller) then Some f else None, r1))"

definition list_flows_of_caller :: "json_io \<Rightarrow> string \<Rightarrow> registry \<Rightarrow> flow list \<times> registry" where
  "list_flows_of_caller io caller r = (case norm_opt (Some caller) of None \<Rightarrow> ([], r)
     | Some k \<Rightarrow> list_flows_for_owner io k r)"

definition latest_flow_of_caller :: "json_io \<Rightarrow> string \<Rightarrow> registry \<Rightarrow> flow option \<times> registry" where
  "latest_flow_of_caller io caller r = (case norm_opt (Some caller) of None \<Rightarrow> (None, r)
     | Some k \<Rightarrow> find_latest_for_owner io k r)"

definition resolve_flow_for_owner :: "json_io \<Rightarrow> string \<Rightarrow> string \<Rightarrow> registry \<Rightarrow> flow option \<times> registry" where
  "resolve_flow_for_owner io token caller r = (case get_flow_for_owner io token caller r of
     (Some f, r1) \<Rightarrow> (Some f, r1)
   | (None, r1) \<Rightarrow> (case norm_opt (Some token) of None \<Rightarrow> (None, r1)
       | Some k \<Rightarrow> if Some k \<noteq> norm_opt (Some caller) then (None, r1) else latest_flow_of_caller io k r1))"

section \<open>Status snapshots\<close>

definition recent_window :: int where
  "recent_window = 5 * 60000"

definition failure_task :: "task_record \<Rightarrow> bool" where
  "failure_task t \<longleftrightarrow> t_status t = TFailed \<or> t_status t = TTimedOut \<or> t_status t = TLost"

definition status_reference :: "task_record \<Rightarrow> int" where
  "status_reference t =
     (let seen = opt_else (t_last_event t) (opt_else (t_started t) (t_created t)) in
      if active_task (t_status t) then seen else opt_else (t_ended t) seen)"

definition expired_task :: "int \<Rightarrow> task_record \<Rightarrow> bool" where
  "expired_task now t = (case t_cleanup t of None \<Rightarrow> False | Some c \<Rightarrow> c \<le> now)"

definition recent_terminal :: "int \<Rightarrow> task_record \<Rightarrow> bool" where
  "recent_terminal now t = (if active_task (t_status t) then False else now - status_reference t \<le> recent_window)"

record task_snapshot =
  sn_latest :: "task_record option"
  sn_focus :: "task_record option"
  sn_visible :: "task_record list"
  sn_active :: "task_record list"
  sn_recent :: "task_record list"
  sn_active_count :: nat
  sn_total :: nat
  sn_failures :: nat

definition status_snapshot :: "int \<Rightarrow> task_record list \<Rightarrow> task_snapshot" where
  "status_snapshot now ts =
     (let candidates = filter (\<lambda>t. \<not> expired_task now t) ts;
          active = filter (\<lambda>t. active_task (t_status t)) candidates;
          recent = filter (recent_terminal now) candidates;
          visible = (if active \<noteq> [] then active @ recent else recent) in
      \<lparr>sn_latest = (case first_of active of Some t \<Rightarrow> Some t | None \<Rightarrow> first_of recent),
       sn_focus = (case first_of active of Some t \<Rightarrow> Some t
         | None \<Rightarrow> (case find failure_task recent of Some t \<Rightarrow> Some t | None \<Rightarrow> first_of recent)),
       sn_visible = visible, sn_active = active, sn_recent = recent, sn_active_count = length active,
       sn_total = length visible, sn_failures = length (filter failure_task recent)\<rparr>)"

definition snapshot_for_owner :: "tasks_state \<Rightarrow> int \<Rightarrow> string \<Rightarrow> string \<Rightarrow> task_snapshot" where
  "snapshot_for_owner s now session caller = status_snapshot now (related_for_owner s session caller)"

section \<open>Confinement\<close>

lemma only_for_Some [simp]: "only_for caller v = Some t \<longleftrightarrow> v = Some t \<and> can_access t caller"
  by (auto simp: only_for_def split: option.split)

lemma only_for_None: "only_for caller v = None \<longleftrightarrow> (\<forall>t. v = Some t \<longrightarrow> \<not> can_access t caller)"
  by (auto simp: only_for_def split: option.split)

lemma records_at_ran: "set (records_at s us) \<subseteq> ran (record_of s)"
  by (auto simp: records_at_def List.map_filter_def ran_def)

lemma first_of_mem: "first_of ts = Some t \<Longrightarrow> t \<in> set ts"
  by (cases ts) (simp_all add: first_of_def)

lemma pick_mem: "pick_preferred ts = Some t \<Longrightarrow> t \<in> set ts"
proof -
  assume "pick_preferred ts = Some t"
  then have "t \<in> set (sort_key lookup_priority (sort_key t_created ts))"
    by (cases "sort_key lookup_priority (sort_key t_created ts)") (simp_all add: pick_preferred_def)
  then show "t \<in> set ts" by simp
qed

lemma lookups_ran:
  "get_task_record s i = Some t \<Longrightarrow> t \<in> ran (record_of s)"
  "find_task_by_run s run = Some t \<Longrightarrow> t \<in> ran (record_of s)"
  "t \<in> set (tasks_of_session s k) \<Longrightarrow> t \<in> ran (record_of s)"
  using records_at_ran
  by (auto simp: get_task_record_def find_task_by_run_def tasks_by_run_def tasks_of_session_def list_from_index_def
      newest_first_def ranI dest!: pick_mem split: option.splits)

lemma find_mem: "find P xs = Some t \<Longrightarrow> t \<in> set xs \<and> P t"
  by (metis find_Some_iff nth_mem)

lemma snapshot_mem:
  assumes "t \<in> set (sn_visible (status_snapshot now ts)) \<or> sn_focus (status_snapshot now ts) = Some t"
  shows "t \<in> set ts"
  using assms by (auto simp: status_snapshot_def Let_def dest!: first_of_mem find_mem split: if_splits option.splits)

lemma resolve_ran: "resolve_task_token s token = Some t \<Longrightarrow> t \<in> ran (record_of s)"
  by (auto simp: resolve_task_token_def Let_def split: if_splits option.splits dest: lookups_ran first_of_mem)

lemma latest_for_owner: "find_latest_for_owner io k r = (Some f, r') \<Longrightarrow> f \<in> set (fst (list_flows_for_owner io k r))"
  by (auto simp: find_latest_for_owner_def split: prod.splits list.splits)

lemma owner_flows: "set (fst (list_flows_for_owner io k r)) =
    {f \<in> set (map snd (flows (ensure_ready io r))). trim k \<noteq> [] \<and> trim (owner_key f) = trim k}"
  by (auto simp: list_flows_for_owner_def Let_def flows_newest_first_def)

lemma norm_trim: "norm_opt (Some k) = Some x \<longleftrightarrow> trim k = x \<and> x \<noteq> []"
  by (auto simp: norm_opt_def Let_def)

text \<open>C35: a caller is shown by id exactly the recorded session tasks with its owner key, and by session exactly
  those of them the session owns or runs in; a lookup by run or token, the latest task and a status snapshot
  show it nothing else, and the id of its own task, given as a token, finds that task.\<close>

theorem owner_sees_only_own:
  assumes "tasks_reachable e s0 s" and "restored s"
  shows "(get_task_for_owner s i caller = Some t \<longleftrightarrow> record_of s (trim i) = Some t \<and>
      t_scope t = SSession \<and> norm_opt (Some (t_owner t)) = norm_opt (Some caller)) \<and>
    (t \<in> set (related_for_owner s k caller) \<longleftrightarrow> t \<in> ran (record_of s) \<and>
      t_scope t = SSession \<and> norm_opt (Some (t_owner t)) = norm_opt (Some caller) \<and> norm_opt (Some k) \<noteq> None \<and>
      (norm_opt (Some (t_owner t)) = norm_opt (Some k) \<or> norm_opt (t_child t) = norm_opt (Some k))) \<and>
    (find_run_for_owner s run caller = Some t \<or> latest_related_for_owner s k caller = Some t \<or>
       resolve_task_for_owner s token caller = Some t \<or> t \<in> set (sn_visible (snapshot_for_owner s now k caller)) \<or>
       sn_focus (snapshot_for_owner s now k caller) = Some t \<longrightarrow>
      t \<in> ran (record_of s) \<and> t_scope t = SSession \<and> norm_opt (Some (t_owner t)) = norm_opt (Some caller)) \<and>
    (record_of s (trim i) = Some t \<and> t_scope t = SSession \<and> norm_opt (Some (t_owner t)) = norm_opt (Some caller) \<longrightarrow>
      resolve_task_for_owner s i caller = Some t)"
proof -
  have direct: "get_task_for_owner s j caller = Some v \<longleftrightarrow> record_of s (trim j) = Some v \<and> can_access v caller" for j v
    by (simp add: get_task_for_owner_def get_task_record_def)
  have ix: "tasks_indexed s" using tasks_reachable_ok [OF assms(1)] assms(2) by (simp add: tasks_ok_def)
  then have "index_exact session_keys (by_session s) (record_of s)" by (simp add: tasks_indexed_def)
  note at = records_at_set [OF ix this]
  have keys: "x \<in> set (session_keys v) \<longleftrightarrow> owner_of v = Some x \<or> norm_opt (t_child v) = Some x" for x v
    by (auto simp: session_keys_def map_filter_simps Let_def split: option.split)
  have related: "v \<in> set (related_for_owner s j caller) \<longleftrightarrow> v \<in> ran (record_of s) \<and> can_access v caller \<and>
      norm_opt (Some j) \<noteq> None \<and> (norm_opt (Some (t_owner v)) = norm_opt (Some j) \<or> norm_opt (t_child v) = norm_opt (Some j))" for j v
    by (cases "norm_opt (Some j)") (auto simp: related_for_owner_def tasks_of_session_def list_from_index_def
        newest_first_def at keys owner_of_def)
  have run: "v \<in> ran (record_of s) \<and> can_access v caller" if "find_run_for_owner s j caller = Some v" for j v
    using that lookups_ran(2) by (auto simp: find_run_for_owner_def)
  have focus: "v \<in> set (related_for_owner s k caller)"
    if "v \<in> set (sn_visible (snapshot_for_owner s now k caller)) \<or> sn_focus (snapshot_for_owner s now k caller) = Some v" for v
    using that by (simp add: snapshot_for_owner_def snapshot_mem)
  have latest: "v \<in> ran (record_of s) \<and> can_access v caller" if "latest_related_for_owner s j caller = Some v" for j v
    using related first_of_mem [OF that [unfolded latest_related_for_owner_def]] by blast
  have "t \<in> ran (record_of s) \<and> can_access t caller" if "resolve_task_for_owner s token caller = Some t"
    using that latest run direct resolve_ran by (auto simp: resolve_task_for_owner_def ranI split: option.splits)
  moreover have "resolve_task_for_owner s i caller = Some t" if "get_task_for_owner s i caller = Some t"
    using that by (simp add: resolve_task_for_owner_def)
  ultimately show ?thesis
    using direct [of i t] related [of t k] run latest focus [of t] by (auto simp: can_access_def)
qed

text \<open>An owner changes only its own tasks: setting the policy of a task or cancelling it leaves the
  registry as it is and gives nothing back when the task belongs to someone else, and otherwise rewrites
  that one record, still with its owner.\<close>

lemma owner_changes_only_own:
  assumes "tasks_reachable e s0 s" and "restored s"
    and "w = set_policy_for_owner e now i caller np s \<or> w = cancel_for_owner e now i caller ended summary s"
  shows "case record_of s (trim i) of
      None \<Rightarrow> w = (None, s)
    | Some t \<Rightarrow> if t_scope t = SSession \<and> norm_opt (Some (t_owner t)) = norm_opt (Some caller)
        then \<exists>t'. fst w = Some t' \<and> record_of (snd w) = (record_of s)(trim i \<mapsto> t') \<and>
          t_id t' = trim i \<and> t_owner t' = t_owner t \<and> t_scope t' = t_scope t
        else w = (None, s)"
proof (cases "record_of s (trim i)")
  case None
  then show ?thesis
    using assms(2,3) by (auto simp: set_policy_for_owner_def cancel_for_owner_def get_task_for_owner_def
        get_task_record_def only_for_def)
next
  case (Some t)
  have "tasks_indexed s" using tasks_reachable_ok [OF assms(1)] assms(2) by (simp add: tasks_ok_def)
  then have id: "t_id t = trim i" using Some by (simp add: tasks_indexed_def)
  show ?thesis
  proof (cases "can_access t caller")
    case True
    then have "get_task_for_owner s i caller = Some t" by (simp add: get_task_for_owner_def get_task_record_def Some)
    then obtain patch where w: "w = update_record e now (trim i) patch s" and
      patch: "t_id (patch t) = t_id t" "t_owner (patch t) = t_owner t" "t_scope (patch t) = t_scope t"
      using assms(2,3) id
      by (auto simp: set_policy_for_owner_def cancel_for_owner_def set_notify_policy_def mark_terminal_def)
    have "t_id (revise now patch t) = t_id t" "t_owner (revise now patch t) = t_owner t" "t_scope (revise now patch t) = t_scope t"
      using patch by simp_all
    then show ?thesis
      using True Some update_record_result [OF Some, of e now patch] update_record_at [OF Some, of e now patch]
      by (simp add: w id can_access_def)
  next
    case False
    then have "w = (None, s)"
      using assms(2,3) Some by (auto simp: set_policy_for_owner_def cancel_for_owner_def get_task_for_owner_def
          get_task_record_def only_for_def)
    with False Some show ?thesis by (auto simp: can_access_def)
  qed
qed


text \<open>A snapshot lists the active tasks and then those that ended in the last five minutes, leaves out
  what is due for cleanup, counts exactly what it lists, and focuses on its first active task, or else on a
  failure if one is recent.\<close>

lemma status_snapshot_exact:
  assumes "n = status_snapshot now ts"
  shows "sn_visible n = sn_active n @ sn_recent n \<and>
    set (sn_active n) = {t \<in> set ts. \<not> expired_task now t \<and> active_task (t_status t)} \<and>
    set (sn_recent n) = {t \<in> set ts. \<not> expired_task now t \<and> \<not> active_task (t_status t) \<and> now - status_reference t \<le> 300000} \<and>
    sn_total n = sn_active_count n + length (sn_recent n) \<and> sn_active_count n = length (sn_active n) \<and>
    sn_failures n \<le> length (sn_recent n) \<and> sn_latest n = first_of (sn_visible n) \<and>
    (sn_focus n = None \<longleftrightarrow> sn_visible n = []) \<and>
    (\<forall>t. sn_focus n = Some t \<longrightarrow> t \<in> set (sn_visible n) \<and>
      (if sn_active n \<noteq> [] then t = hd (sn_active n) else failure_task t \<longleftrightarrow> 0 < sn_failures n))"
proof -
  let ?c = "filter (\<lambda>t. \<not> expired_task now t) ts"
  define active where "active = filter (\<lambda>t. active_task (t_status t)) ?c"
  define recent where "recent = filter (recent_terminal now) ?c"
  have n: "n = \<lparr>sn_latest = (case first_of active of Some t \<Rightarrow> Some t | None \<Rightarrow> first_of recent),
      sn_focus = (case first_of active of Some t \<Rightarrow> Some t
         | None \<Rightarrow> (case find failure_task recent of Some t \<Rightarrow> Some t | None \<Rightarrow> first_of recent)),
      sn_visible = active @ recent, sn_active = active, sn_recent = recent, sn_active_count = length active,
      sn_total = length (active @ recent), sn_failures = length (filter failure_task recent)\<rparr>"
    unfolding assms status_snapshot_def Let_def active_def [symmetric] recent_def [symmetric]
    by (cases "active = []") simp_all
  have none: "find failure_task recent = None \<longleftrightarrow> (\<forall>t \<in> set recent. \<not> failure_task t)" by (auto simp: find_None_iff)
  have "set active = {t \<in> set ts. \<not> expired_task now t \<and> active_task (t_status t)}"
    "set recent = {t \<in> set ts. \<not> expired_task now t \<and> \<not> active_task (t_status t) \<and> now - status_reference t \<le> 300000}"
    by (auto simp: active_def recent_def recent_terminal_def recent_window_def)
  moreover have "(case first_of active of Some t \<Rightarrow> Some t | None \<Rightarrow> first_of recent) = first_of (active @ recent)"
    by (cases active) (simp_all add: first_of_def)
  moreover have "sn_focus n = None \<longleftrightarrow> active @ recent = []"
    using none by (cases active; cases recent) (auto simp: n first_of_def split: option.splits)
  moreover have "t \<in> set (active @ recent) \<and>
      (if active \<noteq> [] then t = hd active else failure_task t \<longleftrightarrow> 0 < length (filter failure_task recent))"
    if f: "sn_focus n = Some t" for t
  proof (cases active)
    case (Cons a as)
    then show ?thesis using f by (simp add: n first_of_def)
  next
    case Nil
    then have f': "(case find failure_task recent of Some t \<Rightarrow> Some t | None \<Rightarrow> first_of recent) = Some t"
      using f by (simp add: n first_of_def)
    have "0 < length (filter failure_task recent) \<longleftrightarrow> (\<exists>u \<in> set recent. failure_task u)" by (auto simp: filter_empty_conv)
    moreover have "t \<in> set recent \<and> (failure_task t \<longleftrightarrow> (\<exists>u \<in> set recent. failure_task u))"
    proof (cases "find failure_task recent")
      case None
      then show ?thesis using f' first_of_mem [of recent t] none by auto
    next
      case (Some u)
      then show ?thesis using f' find_mem [OF Some] by auto
    qed
    ultimately show ?thesis using Nil by simp
  qed
  moreover have "sn_visible n = active @ recent" "sn_active n = active" "sn_recent n = recent"
    "sn_total n = length (active @ recent)" "sn_active_count n = length active"
    "sn_failures n = length (filter failure_task recent)"
    "sn_latest n = (case first_of active of Some t \<Rightarrow> Some t | None \<Rightarrow> first_of recent)" by (simp_all add: n)
  ultimately show ?thesis by (simp only: length_append length_filter_le simp_thms if_True) blast
qed

text \<open>A flow looked up by its id or by a token, or listed, for an owner belongs to that owner.\<close>

lemma owner_sees_own_flows:
  assumes "registry_ok io r" and "distinct (map fst (flows r))"
    and "fst (get_flow_for_owner io i caller r) = Some f \<or> fst (resolve_flow_for_owner io token caller r) = Some f \<or>
      f \<in> set (fst (list_flows_of_caller io caller r))"
  shows "norm_opt (Some (owner_key f)) = norm_opt (Some caller) \<and> map_of (flows r) (flow_id f) = Some f"
proof -
  have at: "norm_opt (Some (owner_key f)) = norm_opt (Some c) \<and> map_of (flows r) (flow_id f) = Some f"
    if "fst (get_flow_for_owner io j c r) = Some f" for j c
    using that assms(1) by (auto simp: get_flow_for_owner_def get_flow_def Let_def registry_ok_def split: option.splits if_splits)
  have listed: "norm_opt (Some (owner_key f)) = Some k \<and> map_of (flows r) (flow_id f) = Some f"
    if f: "f \<in> set (fst (list_flows_for_owner io k r))" and k: "norm_opt (Some c) = Some k" for k c
  proof -
    obtain j where "(j, f) \<in> set (flows r)" and f': "trim k \<noteq> []" "trim (owner_key f) = trim k"
      using f assms(1) by (auto simp: owner_flows)
    then have j: "map_of (flows r) j = Some f" using assms(2) by simp
    then have "flow_id f = j" using assms(1) by (simp add: registry_ok_def)
    moreover have "trim k = k" using k by (auto simp: norm_trim)
    ultimately show ?thesis using f' j by (simp add: norm_trim)
  qed
  have latest: "norm_opt (Some (owner_key f)) = norm_opt (Some c) \<and> map_of (flows r) (flow_id f) = Some f"
    if l: "fst (latest_flow_of_caller io c r) = Some f" for c
  proof -
    obtain k where k: "norm_opt (Some c) = Some k" and "fst (find_latest_for_owner io k r) = Some f"
      using l by (cases "norm_opt (Some c)") (auto simp: latest_flow_of_caller_def)
    then have "f \<in> set (fst (list_flows_for_owner io k r))" by (metis latest_for_owner prod.collapse)
    from listed [OF this k] k show ?thesis by simp
  qed
  have "snd (get_flow_for_owner io token caller r) = r"
    using assms(1) by (auto simp: get_flow_for_owner_def get_flow_def Let_def split: option.splits)
  then have "fst (get_flow_for_owner io token caller r) = Some f \<or>
      (\<exists>k. norm_opt (Some caller) = Some k \<and> norm_opt (Some token) = Some k \<and> fst (latest_flow_of_caller io k r) = Some f)"
    if "fst (resolve_flow_for_owner io token caller r) = Some f"
    using that by (cases "get_flow_for_owner io token caller r")
      (auto simp: resolve_flow_for_owner_def split: option.splits if_splits)
  moreover have "norm_opt (Some k) = Some k" if "norm_opt (Some caller) = Some k" for k
    using that by (auto simp: norm_trim)
  moreover have "norm_opt (Some (owner_key f)) = norm_opt (Some caller) \<and> map_of (flows r) (flow_id f) = Some f"
    if "f \<in> set (fst (list_flows_of_caller io caller r))"
    using that listed by (auto simp: list_flows_of_caller_def split: option.splits)
  ultimately show ?thesis using assms(3) at latest by metis
qed

section \<open>Witnesses\<close>

lemma owner_sees_only_own_witness:
  "\<exists>t. get_task_for_owner running '' t1 '' ''agent:main '' = Some t \<and> resolve_task_for_owner running '' t1 '' ''agent:main '' = Some t \<and>
     get_task_for_owner running ''t1'' ''agent:other'' \<noteq> Some t"
proof -
  let ?t = "the (record_of running ''t1'')"
  have t: "record_of running (trim '' t1 '') = Some ?t" "record_of running (trim ''t1'') = Some ?t" "t_scope ?t = SSession"
    "norm_opt (Some (t_owner ?t)) = norm_opt (Some ''agent:main '')"
    "norm_opt (Some (t_owner ?t)) \<noteq> norm_opt (Some ''agent:other'')" by code_simp+
  note shown = owner_sees_only_own [OF demo_reachable(1) demo_ok(2)]
  show ?thesis using shown [of "'' t1 ''" "''agent:main ''" ?t] shown [of "''t1''" "''agent:other''" ?t] t by blast
qed

end
