(* ===== verification/Flow_Upkeep.thy ===== *)
theory Flow_Upkeep
  imports Registry_Flows
begin

text \<open>
  The maintenance of the task-flow registry, \<^verbatim>\<open>src/tasks/task-flow-registry.maintenance.ts\<close>: repairing
  the update time of a mirrored flow, cancelling a managed flow whose tasks have ended, and removing
  flows a week after their end.  The flows are listed once and read again before each is touched.  An
  exception of an update is \<open>Inl\<close> and ends the run.  The clock is read once.
\<close>

section \<open>Which flows need upkeep\<close>

definition flow_retention :: int where
  "flow_retention = 7 * 24 * 60 * 60000"

definition linked_active :: "task_env \<Rightarrow> string \<Rightarrow> tasks_state \<Rightarrow> bool \<times> tasks_state" where
  "linked_active e fid s = (let s1 = restore_tasks e s in (has_active_tasks s1 fid, s1))"

definition terminal_at :: "flow \<Rightarrow> int" where
  "terminal_at f = opt_else (ended_at f) (updated_at f)"

definition should_prune :: "task_env \<Rightarrow> int \<Rightarrow> flow \<Rightarrow> tasks_state \<Rightarrow> bool \<times> tasks_state" where
  "should_prune e now f s = (if \<not> is_terminal (status f) then (False, s)
     else case linked_active e (flow_id f) s of (active, s1) \<Rightarrow>
       (\<not> active \<and> flow_retention \<le> now - terminal_at f, s1))"

definition should_finalize :: "task_env \<Rightarrow> flow \<Rightarrow> tasks_state \<Rightarrow> bool \<times> tasks_state" where
  "should_finalize e f s = (if mode f \<noteq> Managed then (False, s)
     else if cancel_requested_at f = None \<or> is_terminal (status f) then (False, s)
     else case linked_active e (flow_id f) s of (active, s1) \<Rightarrow> (\<not> active, s1))"

definition should_repair :: "flow \<Rightarrow> bool" where
  "should_repair f \<longleftrightarrow> (if mode f \<noteq> TaskMirrored \<or> \<not> is_terminal (status f) then False
     else case ended_at f of None \<Rightarrow> False
       | Some x \<Rightarrow> if x < created_at f then False else x < updated_at f)"

section \<open>Upkeep of one flow\<close>

definition final_time :: "int \<Rightarrow> flow \<Rightarrow> int" where
  "final_time now f = max now (max (updated_at f) (opt_else (cancel_requested_at f) now))"

fun finalize_cancelled ::
  "nat \<Rightarrow> task_env \<Rightarrow> int \<Rightarrow> flow \<Rightarrow> tasks_state \<Rightarrow> (string + bool) \<times> tasks_state" where
  "finalize_cancelled 0 e now f s = (Inr False, s)"
| "finalize_cancelled (Suc n) e now f s =
     (case update_expected (jio e) now (flow_id f) (revision f) (cancel_flow_patch (final_time now f)) (flow_reg s) of
        (Inl msg, r) \<Rightarrow> (Inl msg, s\<lparr>flow_reg := r\<rparr>)
      | (Inr (Applied g), r) \<Rightarrow> (Inr True, s\<lparr>flow_reg := r\<rparr>)
      | (Inr NotFound, r) \<Rightarrow> (Inr False, s\<lparr>flow_reg := r\<rparr>)
      | (Inr (RevisionConflict cur), r) \<Rightarrow>
          (case should_finalize e cur (s\<lparr>flow_reg := r\<rparr>) of
             (False, s1) \<Rightarrow> (Inr False, s1)
           | (True, s1) \<Rightarrow> finalize_cancelled n e now cur s1))"

fun repair_timestamp ::
  "nat \<Rightarrow> task_env \<Rightarrow> int \<Rightarrow> flow \<Rightarrow> tasks_state \<Rightarrow> (string + bool) \<times> tasks_state" where
  "repair_timestamp 0 e now f s = (Inr False, s)"
| "repair_timestamp (Suc n) e now f s = (if \<not> should_repair f then (Inr False, s)
     else case update_expected (jio e) now (flow_id f) (revision f) (empty_patch\<lparr>p_updated := ended_at f\<rparr>) (flow_reg s) of
        (Inl msg, r) \<Rightarrow> (Inl msg, s\<lparr>flow_reg := r\<rparr>)
      | (Inr (Applied g), r) \<Rightarrow> (Inr True, s\<lparr>flow_reg := r\<rparr>)
      | (Inr NotFound, r) \<Rightarrow> (Inr False, s\<lparr>flow_reg := r\<rparr>)
      | (Inr (RevisionConflict cur), r) \<Rightarrow> repair_timestamp n e now cur (s\<lparr>flow_reg := r\<rparr>))"

definition delete_flow_at :: "task_env \<Rightarrow> string \<Rightarrow> tasks_state \<Rightarrow> bool \<times> tasks_state" where
  "delete_flow_at e i s = (case delete_flow (jio e) i (flow_reg s) of (b, r) \<Rightarrow> (b, s\<lparr>flow_reg := r\<rparr>))"

section \<open>A run and its preview\<close>

record upkeep_summary =
  reconciled :: nat
  pruned :: nat

definition no_upkeep :: upkeep_summary where
  "no_upkeep = \<lparr>reconciled = 0, pruned = 0\<rparr>"

definition count_reconciled :: "bool \<Rightarrow> upkeep_summary \<Rightarrow> upkeep_summary" where
  "count_reconciled b u = (if b then u\<lparr>reconciled := reconciled u + 1\<rparr> else u)"

definition count_pruned :: "bool \<Rightarrow> upkeep_summary \<Rightarrow> upkeep_summary" where
  "count_pruned b u = (if b then u\<lparr>pruned := pruned u + 1\<rparr> else u)"

definition maintain_flow ::
  "task_env \<Rightarrow> int \<Rightarrow> flow \<Rightarrow> upkeep_summary \<Rightarrow> tasks_state \<Rightarrow> (string + upkeep_summary) \<times> tasks_state" where
  "maintain_flow e now listed u s = (case flow_at e (flow_id listed) s of
       (None, s1) \<Rightarrow> (Inr u, s1)
     | (Some f, s1) \<Rightarrow>
         if should_repair f then (case repair_timestamp 2 e now f s1 of
             (Inl msg, s2) \<Rightarrow> (Inl msg, s2) | (Inr b, s2) \<Rightarrow> (Inr (count_reconciled b u), s2))
         else case should_finalize e f s1 of
           (True, s2) \<Rightarrow> (case finalize_cancelled 2 e now f s2 of
               (Inl msg, s3) \<Rightarrow> (Inl msg, s3) | (Inr b, s3) \<Rightarrow> (Inr (count_reconciled b u), s3))
         | (False, s2) \<Rightarrow> (case should_prune e now f s2 of
               (False, s3) \<Rightarrow> (Inr u, s3)
             | (True, s3) \<Rightarrow> (case delete_flow_at e (flow_id f) s3 of (b, s4) \<Rightarrow> (Inr (count_pruned b u), s4))))"

fun maintain_flows ::
  "task_env \<Rightarrow> int \<Rightarrow> flow list \<Rightarrow> upkeep_summary \<Rightarrow> tasks_state \<Rightarrow> (string + upkeep_summary) \<times> tasks_state" where
  "maintain_flows e now [] u s = (Inr u, s)"
| "maintain_flows e now (f # fs) u s = (case maintain_flow e now f u s of
       (Inl msg, s1) \<Rightarrow> (Inl msg, s1)
     | (Inr u1, s1) \<Rightarrow> maintain_flows e now fs u1 s1)"

definition listed_flows :: "task_env \<Rightarrow> tasks_state \<Rightarrow> flow list \<times> tasks_state" where
  "listed_flows e s = (case list_flows (jio e) (flow_reg s) of (fs, r) \<Rightarrow> (fs, s\<lparr>flow_reg := r\<rparr>))"

definition run_flow_maintenance :: "task_env \<Rightarrow> int \<Rightarrow> tasks_state \<Rightarrow> (string + upkeep_summary) \<times> tasks_state" where
  "run_flow_maintenance e now s = (case listed_flows e s of (fs, s1) \<Rightarrow> maintain_flows e now fs no_upkeep s1)"

fun preview_flows :: "task_env \<Rightarrow> int \<Rightarrow> flow list \<Rightarrow> upkeep_summary \<Rightarrow> tasks_state \<Rightarrow> upkeep_summary \<times> tasks_state" where
  "preview_flows e now [] u s = (u, s)"
| "preview_flows e now (f # fs) u s =
     (if should_repair f then preview_flows e now fs (count_reconciled True u) s
      else case should_finalize e f s of
        (True, s1) \<Rightarrow> preview_flows e now fs (count_reconciled True u) s1
      | (False, s1) \<Rightarrow> (case should_prune e now f s1 of (b, s2) \<Rightarrow>
          preview_flows e now fs (count_pruned b u) s2))"

definition preview_flow_maintenance :: "task_env \<Rightarrow> int \<Rightarrow> tasks_state \<Rightarrow> upkeep_summary \<times> tasks_state" where
  "preview_flow_maintenance e now s = (case listed_flows e s of (fs, s1) \<Rightarrow> preview_flows e now fs no_upkeep s1)"

section \<open>What upkeep does to a flow\<close>

lemma linked_active_restored: "restored s \<Longrightarrow> linked_active e fid s = (has_active_tasks s fid, s)"
  by (simp add: linked_active_def restore_tasks_def)

text \<open>The result for one flow, given whether one of its tasks is active: another record, or none.\<close>

definition cancel_due :: "bool \<Rightarrow> flow \<Rightarrow> bool" where
  "cancel_due active f \<longleftrightarrow> mode f = Managed \<and> cancel_requested_at f \<noteq> None \<and> \<not> is_terminal (status f) \<and> \<not> active"

definition prune_due :: "int \<Rightarrow> bool \<Rightarrow> flow \<Rightarrow> bool" where
  "prune_due now active f \<longleftrightarrow> is_terminal (status f) \<and> \<not> active \<and> flow_retention \<le> now - terminal_at f"

definition upkept :: "int \<Rightarrow> bool \<Rightarrow> flow \<Rightarrow> flow option" where
  "upkept now active f =
     (if should_repair f then Some (f\<lparr>updated_at := the (ended_at f), revision := revision f + 1\<rparr>)
      else if cancel_due active f then Some (f\<lparr>status := FCancelled, blocked_task_id := None, blocked_summary := None,
        wait_json := Some JNull, ended_at := Some (final_time now f), updated_at := final_time now f,
        revision := revision f + 1\<rparr>)
      else if prune_due now active f then None else Some f)"

lemma should_finalize_restored:
  "restored s \<Longrightarrow> should_finalize e f s = (cancel_due (has_active_tasks s (flow_id f)) f, s)"
  by (auto simp: should_finalize_def linked_active_restored cancel_due_def)

lemma should_prune_restored:
  "restored s \<Longrightarrow> should_prune e now f s = (prune_due now (has_active_tasks s (flow_id f)) f, s)"
  by (auto simp: should_prune_def linked_active_restored prune_due_def)

lemma should_repair_iff: "should_repair f \<longleftrightarrow> mode f = TaskMirrored \<and> is_terminal (status f) \<and>
    (\<exists>x. ended_at f = Some x \<and> created_at f \<le> x \<and> x < updated_at f)"
  by (auto simp: should_repair_def split: option.split)

lemma repaired: "should_repair f \<Longrightarrow> apply_flow_patch clock f (empty_patch\<lparr>p_updated := ended_at f\<rparr>) =
    Inr (f\<lparr>updated_at := the (ended_at f), revision := revision f + 1\<rparr>)"
  by (auto simp: should_repair_iff apply_flow_patch_def empty_patch_def opt_else_def patch_string_def patch_json_def
      patch_number_def)

lemma finalized:
  assumes "flow_ok f"
  shows "apply_flow_patch clock f (cancel_flow_patch x) = Inr (f\<lparr>status := FCancelled, blocked_task_id := None,
    blocked_summary := None, wait_json := Some JNull, ended_at := Some x, updated_at := x, revision := revision f + 1\<rparr>)"
proof -
  have "p_controller (cancel_flow_patch x) = Keep" by (simp add: cancel_flow_patch_def empty_patch_def)
  then obtain g where "apply_flow_patch clock f (cancel_flow_patch x) = Inr g" using apply_patch_total [OF assms] by blast
  then show ?thesis
    by (cases "mode f = Managed"; cases "assert_controller_id (controller_id f)")
      (auto simp: apply_flow_patch_def cancel_flow_patch_def empty_patch_def opt_else_def patch_string_def patch_json_def
        patch_number_def)
qed


section \<open>The effect of a run\<close>

text \<open>The task registry is restored and both registries are well formed.\<close>

definition upkeep_ready :: "task_env \<Rightarrow> tasks_state \<Rightarrow> bool" where
  "upkeep_ready e s \<longleftrightarrow> restored s \<and> registry_ok (jio e) (flow_reg s) \<and> null_fits (jio e)"

definition counted :: "int \<Rightarrow> bool \<Rightarrow> flow \<Rightarrow> upkeep_summary \<Rightarrow> upkeep_summary" where
  "counted now active f u = (if should_repair f \<or> cancel_due active f then count_reconciled True u
     else count_pruned (prune_due now active f) u)"

lemma active_with_flows [simp]: "has_active_tasks (s\<lparr>flow_reg := r\<rparr>) fid = has_active_tasks s fid"
  by (rule has_active_frame) simp_all

lemma rewrite_flow_ok:
  assumes "registry_ok io r" and "map_of (flows r) i = Some f" and "flow_ok g" and "flow_id g = i"
    and "state_json g = state_json f" and "requester_origin g = requester_origin f"
    and "wait_json g = wait_json f \<or> wait_json g = Some JNull" and "null_fits io"
  shows "registry_ok io (write_flow io g prev r)"
proof (rule write_flow_ok [OF assms(1)])
  have "row_ok io f" using assms(1,2) by (simp add: registry_ok_def)
  then show "row_ok io g" using assms(3-8) by (auto simp: row_ok_def null_fits_def)
qed

lemma repair_effect:
  assumes "upkeep_ready e s" and f: "map_of (flows (flow_reg s)) i = Some f" and due: "should_repair f"
  shows "\<exists>r. repair_timestamp 2 e now f s = (Inr True, s\<lparr>flow_reg := r\<rparr>) \<and> registry_ok (jio e) r \<and>
    map_of (flows r) = (map_of (flows (flow_reg s)))(i \<mapsto> f\<lparr>updated_at := the (ended_at f), revision := revision f + 1\<rparr>)"
proof -
  let ?g = "f\<lparr>updated_at := the (ended_at f), revision := revision f + 1\<rparr>"
  have ok: "registry_ok (jio e) (flow_reg s)" "null_fits (jio e)" using assms(1) by (simp_all add: upkeep_ready_def)
  then have id: "flow_id f = i" and "flow_ok f" using f by (simp_all add: registry_ok_def row_ok_def)
  then have "flow_ok ?g" by (simp add: flow_ok_def)
  then have "registry_ok (jio e) (write_flow (jio e) ?g (Some f) (flow_reg s))"
    using id by (intro rewrite_flow_ok [OF ok(1) f _ _ _ _ _ ok(2)]) simp_all
  moreover have "repair_timestamp 2 e now f s = (Inr True, s\<lparr>flow_reg := write_flow (jio e) ?g (Some f) (flow_reg s)\<rparr>)"
    using ok f id due by (simp add: numeral_2_eq_2 update_expected_def repaired)
  ultimately show ?thesis
    using id by (intro exI [of _ "write_flow (jio e) ?g (Some f) (flow_reg s)"]) (simp add: write_flow_map)
qed

lemma finalize_effect:
  assumes "upkeep_ready e s" and f: "map_of (flows (flow_reg s)) i = Some f"
  shows "\<exists>r. finalize_cancelled 2 e now f s = (Inr True, s\<lparr>flow_reg := r\<rparr>) \<and> registry_ok (jio e) r \<and>
    map_of (flows r) = (map_of (flows (flow_reg s)))(i \<mapsto> f\<lparr>status := FCancelled, blocked_task_id := None,
      blocked_summary := None, wait_json := Some JNull, ended_at := Some (final_time now f), updated_at := final_time now f,
      revision := revision f + 1\<rparr>)"
proof -
  let ?g = "f\<lparr>status := FCancelled, blocked_task_id := None, blocked_summary := None, wait_json := Some JNull,
    ended_at := Some (final_time now f), updated_at := final_time now f, revision := revision f + 1\<rparr>"
  have ok: "registry_ok (jio e) (flow_reg s)" "null_fits (jio e)" using assms(1) by (simp_all add: upkeep_ready_def)
  then have id: "flow_id f = i" and fok: "flow_ok f" using f by (simp_all add: registry_ok_def row_ok_def)
  then have "flow_ok ?g" by (simp add: flow_ok_def)
  then have "registry_ok (jio e) (write_flow (jio e) ?g (Some f) (flow_reg s))"
    using id by (intro rewrite_flow_ok [OF ok(1) f _ _ _ _ _ ok(2)]) simp_all
  moreover have "finalize_cancelled 2 e now f s = (Inr True, s\<lparr>flow_reg := write_flow (jio e) ?g (Some f) (flow_reg s)\<rparr>)"
    using ok f id by (simp add: numeral_2_eq_2 update_expected_def finalized [OF fok])
  ultimately show ?thesis
    using id by (intro exI [of _ "write_flow (jio e) ?g (Some f) (flow_reg s)"]) (simp add: write_flow_map)
qed

lemma delete_effect:
  assumes "registry_ok (jio e) (flow_reg s)" and "map_of (flows (flow_reg s)) i = Some f"
  shows "\<exists>r. delete_flow_at e i s = (True, s\<lparr>flow_reg := r\<rparr>) \<and> registry_ok (jio e) r \<and>
    map_of (flows r) = (map_of (flows (flow_reg s)))(i := None)"
  using delete_flow_ok [OF assms(1), of i] assms
  by (intro exI [of _ "snd (delete_flow (jio e) i (flow_reg s))"])
    (simp add: delete_flow_at_def delete_flow_def Let_def AList.delete_conv')

lemma maintain_flow_effect:
  assumes ready: "upkeep_ready e s" and i: "flow_id listed = i"
  shows "\<exists>r. maintain_flow e now listed u s =
      (Inr (case map_of (flows (flow_reg s)) i of None \<Rightarrow> u | Some f \<Rightarrow> counted now (has_active_tasks s i) f u), s\<lparr>flow_reg := r\<rparr>) \<and>
    registry_ok (jio e) r \<and> map_of (flows r) = (map_of (flows (flow_reg s)))
      (i := Option.bind (map_of (flows (flow_reg s)) i) (upkept now (has_active_tasks s i)))"
proof -
  have ok: "registry_ok (jio e) (flow_reg s)" and res: "restored s" using ready by (simp_all add: upkeep_ready_def)
  show ?thesis
  proof (cases "map_of (flows (flow_reg s)) i")
    case None
    then show ?thesis
      by (intro exI [of _ "flow_reg s"]) (simp add: maintain_flow_def i flow_at_ok [OF ok] ok fun_upd_idem)
  next
    case (Some f)
    have id: "flow_id f = i" using ok Some by (simp add: registry_ok_def)
    note step = maintain_flow_def i flow_at_ok [OF ok] Some id should_finalize_restored [OF res] should_prune_restored [OF res]
    consider "should_repair f" | "\<not> should_repair f" "cancel_due (has_active_tasks s i) f"
      | "\<not> should_repair f" "\<not> cancel_due (has_active_tasks s i) f" "prune_due now (has_active_tasks s i) f"
      | "\<not> should_repair f" "\<not> cancel_due (has_active_tasks s i) f" "\<not> prune_due now (has_active_tasks s i) f" by blast
    then show ?thesis
    proof cases
      case 1
      with repair_effect [OF ready Some 1, of now] show ?thesis by (auto simp: step counted_def upkept_def)
    next
      case 2
      with finalize_effect [OF ready Some, of now] show ?thesis by (auto simp: step counted_def upkept_def)
    next
      case 3
      with delete_effect [OF ok Some] show ?thesis by (auto simp: step counted_def upkept_def)
    next
      case 4
      then show ?thesis using Some
        by (intro exI [of _ "flow_reg s"]) (simp add: step counted_def upkept_def count_pruned_def ok fun_upd_idem)
    qed
  qed
qed

lemma maintain_flows_effect:
  assumes "upkeep_ready e s" and "distinct (map flow_id fs)"
    and "\<forall>f \<in> set fs. map_of (flows (flow_reg s)) (flow_id f) = Some f"
  shows "\<exists>r. maintain_flows e now fs u s =
      (Inr (fold (\<lambda>f. counted now (has_active_tasks s (flow_id f)) f) fs u), s\<lparr>flow_reg := r\<rparr>) \<and>
    registry_ok (jio e) r \<and> (\<forall>i. map_of (flows r) i = (if i \<in> flow_id ` set fs
      then Option.bind (map_of (flows (flow_reg s)) i) (upkept now (has_active_tasks s i)) else map_of (flows (flow_reg s)) i))"
  using assms
proof (induction fs arbitrary: s u)
  case Nil
  then show ?case by (intro exI [of _ "flow_reg s"]) (simp add: upkeep_ready_def)
next
  case (Cons f fs)
  let ?i = "flow_id f"
  have f: "map_of (flows (flow_reg s)) ?i = Some f" using Cons.prems by simp
  obtain r where r: "maintain_flow e now f u s = (Inr (counted now (has_active_tasks s ?i) f u), s\<lparr>flow_reg := r\<rparr>)"
    "registry_ok (jio e) r" "map_of (flows r) = (map_of (flows (flow_reg s)))
      (?i := Option.bind (map_of (flows (flow_reg s)) ?i) (upkept now (has_active_tasks s ?i)))"
    using maintain_flow_effect [OF Cons.prems(1), of f ?i now u] f by auto
  have "upkeep_ready e (s\<lparr>flow_reg := r\<rparr>)" using Cons.prems(1) r(2) by (simp add: upkeep_ready_def)
  moreover have "\<forall>g \<in> set fs. map_of (flows (flow_reg (s\<lparr>flow_reg := r\<rparr>))) (flow_id g) = Some g"
  proof
    fix g assume g: "g \<in> set fs"
    have "flow_id g \<in> flow_id ` set fs" using g by (rule imageI)
    then have "flow_id g \<noteq> ?i" using Cons.prems(2) by auto
    moreover have "map_of (flows (flow_reg s)) (flow_id g) = Some g" using Cons.prems(3) g by simp
    ultimately show "map_of (flows (flow_reg (s\<lparr>flow_reg := r\<rparr>))) (flow_id g) = Some g" by (simp add: r(3))
  qed
  ultimately obtain q where q: "maintain_flows e now fs (counted now (has_active_tasks s ?i) f u) (s\<lparr>flow_reg := r\<rparr>) =
      (Inr (fold (\<lambda>f. counted now (has_active_tasks s (flow_id f)) f) fs (counted now (has_active_tasks s ?i) f u)),
        s\<lparr>flow_reg := q\<rparr>)" "registry_ok (jio e) q"
    "\<forall>i. map_of (flows q) i = (if i \<in> flow_id ` set fs
      then Option.bind (map_of (flows r) i) (upkept now (has_active_tasks s i)) else map_of (flows r) i)"
    using Cons.IH [of "s\<lparr>flow_reg := r\<rparr>" "counted now (has_active_tasks s ?i) f u"] Cons.prems(2) by auto
  moreover have "?i \<notin> flow_id ` set fs" using Cons.prems(2) by simp
  ultimately show ?case by (intro exI [of _ q]) (auto simp: r(1,3))
qed

lemma preview_flows_restored:
  "restored s \<Longrightarrow> preview_flows e now fs u s = (fold (\<lambda>f. counted now (has_active_tasks s (flow_id f)) f) fs u, s)"
  by (induction fs arbitrary: u)
    (auto simp: should_finalize_restored should_prune_restored counted_def split: bool.split)

text \<open>The listing holds every flow once.\<close>

lemma listed_flows_ok:
  assumes "registry_ok (jio e) (flow_reg s)" and "distinct (map fst (flows (flow_reg s)))"
  shows "\<exists>fs. listed_flows e s = (fs, s) \<and> distinct (map flow_id fs) \<and>
    set fs = ran (map_of (flows (flow_reg s))) \<and> (\<forall>f \<in> set fs. map_of (flows (flow_reg s)) (flow_id f) = Some f) \<and>
    sorted (map (\<lambda>f. - created_at f) fs)"
proof -
  let ?xs = "flows (flow_reg s)"
  have id: "flow_id f = i" if "(i, f) \<in> set ?xs" for i f
  proof -
    have "map_of ?xs i = Some f" using assms(2) that by simp
    then show ?thesis using assms(1) by (simp add: registry_ok_def)
  qed
  then have ids: "map flow_id (map snd ?xs) = map fst ?xs" by auto
  have set: "snd ` set ?xs = ran (map_of ?xs)" using assms(2) by (simp add: ran_distinct)
  have at: "\<forall>f \<in> set (map snd ?xs). map_of ?xs (flow_id f) = Some f" using assms(2) id by auto
  have "mset (map flow_id (flows_newest_first (map snd ?xs))) = mset (map flow_id (map snd ?xs))"
    by (simp only: mset_map flows_newest_first_def mset_sort)
  then have "distinct (map flow_id (flows_newest_first (map snd ?xs)))"
    using assms(2) ids by (metis mset_eq_imp_distinct_iff)
  moreover have "listed_flows e s = (flows_newest_first (map snd ?xs), s)"
    using assms(1) by (simp add: listed_flows_def list_flows_def Let_def)
  ultimately show ?thesis
    using at set by (intro exI [of _ "flows_newest_first (map snd ?xs)"]) (simp add: flows_newest_first_def)
qed

lemma run_effect:
  assumes "upkeep_ready e s" and "distinct (map fst (flows (flow_reg s)))"
  shows "\<exists>u r. run_flow_maintenance e now s = (Inr u, s\<lparr>flow_reg := r\<rparr>) \<and> preview_flow_maintenance e now s = (u, s) \<and>
    registry_ok (jio e) r \<and>
    (\<forall>i. map_of (flows r) i = Option.bind (map_of (flows (flow_reg s)) i) (upkept now (has_active_tasks s i)))"
proof -
  have ok: "registry_ok (jio e) (flow_reg s)" "restored s" using assms(1) by (simp_all add: upkeep_ready_def)
  obtain fs where fs: "listed_flows e s = (fs, s)" "distinct (map flow_id fs)" "set fs = ran (map_of (flows (flow_reg s)))"
    "\<forall>f \<in> set fs. map_of (flows (flow_reg s)) (flow_id f) = Some f"
    using listed_flows_ok [OF ok(1) assms(2)] by blast
  have gone: "map_of (flows (flow_reg s)) i = None" if "i \<notin> flow_id ` set fs" for i
  proof (cases "map_of (flows (flow_reg s)) i")
    case (Some f)
    then have "f \<in> set fs" "flow_id f = i" using fs(3) ok(1) by (auto simp: ran_def registry_ok_def)
    then show ?thesis using that by auto
  qed simp
  have none: "i \<notin> flow_id ` set fs \<Longrightarrow> Option.bind (map_of (flows (flow_reg s)) i) g = None" for i and g :: "flow \<Rightarrow> flow option"
    by (simp add: gone)
  obtain r u where r: "maintain_flows e now fs no_upkeep s = (Inr u, s\<lparr>flow_reg := r\<rparr>)" "registry_ok (jio e) r"
    "\<forall>i. map_of (flows r) i = (if i \<in> flow_id ` set fs
      then Option.bind (map_of (flows (flow_reg s)) i) (upkept now (has_active_tasks s i)) else map_of (flows (flow_reg s)) i)"
    "preview_flows e now fs no_upkeep s = (u, s)"
    using maintain_flows_effect [OF assms(1) fs(2,4), of now no_upkeep] preview_flows_restored [OF ok(2), of e now fs] by blast
  have "map_of (flows r) i = Option.bind (map_of (flows (flow_reg s)) i) (upkept now (has_active_tasks s i))" for i
    using r(3) none [of i] gone [of i] by (cases "i \<in> flow_id ` set fs") simp_all
  then show ?thesis
    by (intro exI [of _ u] exI [of _ r])
      (simp add: run_flow_maintenance_def preview_flow_maintenance_def fs(1) r(1,2,4))
qed

end
