(* ===== verification/Task_Ends.thy ===== *)
theory Task_Ends
  imports Registry_Properties
begin

text \<open>
  What an update that ends a task, and the announcement of the end, leave of its record: shared by the
  maintenance of tasks and the task executor.
\<close>

text \<open>What the announcement of an end keeps of a record.\<close>

definition links :: "task_record \<Rightarrow> string option \<times> string option" where
  "links t = (t_child t, t_parent_flow t)"

definition core :: "task_record \<Rightarrow> string \<times> task_status \<times> string option \<times> string option" where
  "core t = (t_id t, t_status t, links t)"

definition cores :: "tasks_state \<Rightarrow> string \<Rightarrow> (string \<times> task_status \<times> string option \<times> string option) option" where
  "cores s i = map_option core (record_of s i)"

lemma core_revise: "core (revise now patch t) = core (patch t)"
  by (simp add: core_def links_def)

lemma cores_update:
  assumes "\<And>t. record_of s i = Some t \<Longrightarrow> core (patch t) = core t"
  shows "cores (snd (update_record e now i patch s)) = cores s"
proof (cases "record_of s i")
  case (Some t)
  then show ?thesis using assms by (auto simp: cores_def fun_eq_iff update_record_at core_revise)
qed (simp add: update_record_None)

lemma cores_frame:
  "records s' = records s \<Longrightarrow> cores s' = cores s"
  by (simp add: cores_def fun_eq_iff record_of_def)

lemma queue_records: "records (queue_terminal e t msg s) = records s"
  by (auto simp: queue_terminal_def queue_event_def queue_followup_def Let_def owner_frame split: prod.splits option.splits)

lemma deliver_cores:
  assumes "restored s"
  shows "cores (deliver_terminal e now i s) = cores s"
proof (cases "record_of s i")
  case (Some t)
  obtain w s1 where w: "delivery_owner_of e t s = (w, s1)" by (cases "delivery_owner_of e t s")
  have s1: "records s1 = records s" using owner_frame [OF w] by simp
  have set: "cores (snd (update_record e now i (set_delivery d now) s2)) = cores s2" for d s2
    by (rule cores_update) (simp add: core_def links_def set_delivery_def)
  have "cores s1 = cores s" "cores (queue_terminal e t msg s1) = cores s"
    "cores (s1\<lparr>delivering := ds, sends := ms\<rparr>) = cores s" for msg ds ms
    by (rule cores_frame, simp add: s1 queue_records)+
  then show ?thesis
    using assms unfolding deliver_terminal_def Let_def restore_idle [OF assms] Some option.case w prod.case
    by (auto simp: set split: option.split)
qed (simp add: deliver_terminal_def assms)

lemma deliver_restored: "restored s \<Longrightarrow> restored (deliver_terminal e now i s)"
  using others.deliver_terminal [of i i s e now] by blast

text \<open>An update that ends a task, and its announcement.\<close>

lemma end_effect:
  assumes ok: "tasks_ok e s" "restored s" and t: "record_of s i = Some t" and core: "core (patch t) = (i, st, links t)"
    and op: "task_op e s (snd (update_record e now i patch s))"
  shows "fst (update_record e now i patch s) = Some (revise now patch t)"
    and "core (revise now patch t) = (i, st, links t)"
    and "let s' = deliver_terminal e now i (snd (update_record e now i patch s)) in tasks_ok e s' \<and> restored s' \<and>
      cores s' = (cores s)(i \<mapsto> (i, st, links t)) \<and> (\<forall>j. j \<noteq> i \<longrightarrow> record_of s' j = record_of s j)"
proof -
  let ?s1 = "snd (update_record e now i patch s)"
  show "fst (update_record e now i patch s) = Some (revise now patch t)" using t by (rule update_record_result)
  show c: "core (revise now patch t) = (i, st, links t)" using core by (simp add: core_revise)
  have s1: "tasks_ok e ?s1" "restored ?s1" using op_ok [OF op ok(2,1)] by simp_all
  have "tasks_ok e (deliver_terminal e now i ?s1)" "restored (deliver_terminal e now i ?s1)"
    using op_ok [OF task_op.deliver s1(2,1)] by simp_all
  moreover have "cores ?s1 = (cores s)(i \<mapsto> (i, st, links t))"
    by (auto simp: cores_def update_record_at [OF t] c)
  then have "cores (deliver_terminal e now i ?s1) = (cores s)(i \<mapsto> (i, st, links t))"
    by (simp add: deliver_cores [OF s1(2)])
  moreover have "record_of (deliver_terminal e now i ?s1) j = record_of s j" if "j \<noteq> i" for j
    using others.deliver_terminal [of i i ?s1 e now] s1(2) that by (simp add: update_record_at [OF t])
  ultimately show "let s' = deliver_terminal e now i ?s1 in tasks_ok e s' \<and> restored s' \<and>
      cores s' = (cores s)(i \<mapsto> (i, st, links t)) \<and> (\<forall>j. j \<noteq> i \<longrightarrow> record_of s' j = record_of s j)"
    by (simp add: Let_def)
qed

definition ends_as :: "task_env \<Rightarrow> string \<Rightarrow> task_status \<Rightarrow> string option \<times> string option \<Rightarrow> tasks_state \<Rightarrow> tasks_state \<Rightarrow> bool" where
  "ends_as e i st ch s s' \<longleftrightarrow> tasks_ok e s' \<and> restored s' \<and> cores s' = (cores s)(i \<mapsto> (i, st, ch)) \<and>
     (\<forall>j. j \<noteq> i \<longrightarrow> record_of s' j = record_of s j)"

end
