(* ===== verification/Task_Executor.thy ===== *)
theory Task_Executor
  imports Owner_Access Flow_Upkeep Task_Ends
begin

text \<open>
  The task executor, \<^verbatim>\<open>src/tasks/task-executor.ts\<close>: detached runs and the one-task flows made for them,
  tasks run in a managed flow, retries of a blocked flow, and the cancellation of a flow with all its tasks.

  What a cancellation awaits is a parameter, \<open>control\<close>: the runtime a plugin may have registered
  (\<^verbatim>\<open>getRegisteredDetachedTaskLifecycleRuntime\<close>), \<^verbatim>\<open>cancelSession\<close> of the ACP manager and
  \<^verbatim>\<open>killSubagentRunAdmin\<close>.  Each is given the registry as the call begins and returns it as the call
  resumes, so that whatever else runs meanwhile is part of it.
\<close>

section \<open>One-task flows\<close>

definition one_task_flow_eligible :: "task_record \<Rightarrow> bool" where
  "one_task_flow_eligible t = (if norm_opt (t_parent_flow t) \<noteq> None \<or> t_scope t \<noteq> SSession then False
     else if t_delivery t = DNotApplicable then False
     else t_runtime t = RAcp \<or> t_runtime t = RSubagent)"

definition create_task_flow :: "task_env \<Rightarrow> string \<Rightarrow> int \<Rightarrow> js option \<Rightarrow> task_record \<Rightarrow> tasks_state \<Rightarrow> (string + flow) \<times> tasks_state" where
  "create_task_flow e fuid now origin t s =
     (case create_flow_for_task (jio e) fuid now origin t (flow_reg s) of (v, r) \<Rightarrow> (v, s\<lparr>flow_reg := r\<rparr>))"

text \<open>An exception of either call is caught and the task returned as it was.\<close>

definition ensure_single_task_flow ::
  "task_env \<Rightarrow> string \<Rightarrow> int \<Rightarrow> js option \<Rightarrow> task_record \<Rightarrow> tasks_state \<Rightarrow> task_record \<times> tasks_state" where
  "ensure_single_task_flow e fuid now origin t s =
     (if \<not> one_task_flow_eligible t then (t, s)
      else case create_task_flow e fuid now origin t s of
        (Inl msg, s1) \<Rightarrow> (t, s1)
      | (Inr f, s1) \<Rightarrow> (case link_task_to_flow e now (t_id t) (flow_id f) s1 of
          (Inl err, s2) \<Rightarrow> (t, s2)
        | (Inr None, s2) \<Rightarrow> (t, snd (delete_flow_at e (flow_id f) s2))
        | (Inr (Some l), s2) \<Rightarrow>
            if t_parent_flow l \<noteq> Some (flow_id f) then (l, snd (delete_flow_at e (flow_id f) s2)) else (l, s2)))"

definition create_run ::
  "task_status \<Rightarrow> task_env \<Rightarrow> string \<Rightarrow> string \<Rightarrow> int \<Rightarrow> task_params \<Rightarrow> tasks_state \<Rightarrow> (task_error + task_record) \<times> tasks_state" where
  "create_run st e uuid fuid now p s = (case create_task_record e uuid now (p\<lparr>n_status := Some st\<rparr>) s of
       (Inl err, s1) \<Rightarrow> (Inl err, s1)
     | (Inr t, s1) \<Rightarrow> (case ensure_single_task_flow e fuid now (n_origin p) t s1 of (l, s2) \<Rightarrow> (Inr l, s2)))"

definition create_queued_run where "create_queued_run = create_run TQueued"

definition create_running_run where "create_running_run = create_run TRunning"

definition flow_task_summary :: "task_env \<Rightarrow> string \<Rightarrow> tasks_state \<Rightarrow> task_summary \<times> tasks_state" where
  "flow_task_summary e fid s0 = (let s = restore_tasks e s0 in (summarize_tasks (tasks_of_flow s fid), s))"

section \<open>Runs by identifier\<close>

definition complete_run where
  "complete_run e now run rt session ended seen progress summary outcome s =
     finalize_by_run e now run rt session TSucceeded None ended seen None progress summary outcome s"

definition fail_run where
  "fail_run e now run rt session st ended seen err progress summary s =
     finalize_by_run e now run rt session (opt_else st TFailed) None ended seen err progress summary Keep s"

section \<open>Tasks in a managed flow\<close>

definition flow_status_text :: "flow_status \<Rightarrow> string" where
  "flow_status_text st = (case st of FQueued \<Rightarrow> ''queued'' | FRunning \<Rightarrow> ''running'' | FWaiting \<Rightarrow> ''waiting''
     | FBlocked \<Rightarrow> ''blocked'' | FSucceeded \<Rightarrow> ''succeeded'' | FFailed \<Rightarrow> ''failed'' | FCancelled \<Rightarrow> ''cancelled''
     | FLost \<Rightarrow> ''lost'')"

record run_reply =
  rr_found :: bool
  rr_created :: bool
  rr_reason :: "string option"
  rr_flow :: "flow option"
  rr_task :: "task_record option"

definition flow_missing :: run_reply where
  "flow_missing = \<lparr>rr_found = False, rr_created = False, rr_reason = Some ''Flow not found.'', rr_flow = None, rr_task = None\<rparr>"

definition run_refused :: "string \<Rightarrow> flow option \<Rightarrow> run_reply" where
  "run_refused reason f = \<lparr>rr_found = True, rr_created = False, rr_reason = Some reason, rr_flow = f, rr_task = None\<rparr>"

definition map_create_error ::
  "task_env \<Rightarrow> task_error \<Rightarrow> string \<Rightarrow> tasks_state \<Rightarrow> (task_error + run_reply) \<times> tasks_state" where
  "map_create_error e err fid s0 = (case flow_at e fid s0 of (f, s) \<Rightarrow>
     (case err of
       CancelRequested \<Rightarrow> (Inr (run_refused ''Flow cancellation has already been requested.'' f), s)
     | FlowTerminal st \<Rightarrow> (Inr (run_refused
         (''Flow is already '' @ flow_status_text (case f of Some g \<Rightarrow> status g | None \<Rightarrow> st) @ ''.'') f), s)
     | ParentFlowNotFound \<Rightarrow> (Inr flow_missing, s)
     | _ \<Rightarrow> (Inl err, s)))"

record run_params =
  q_runtime :: task_runtime
  q_source :: "string option"
  q_child :: "string option"
  q_parent_task :: "string option"
  q_agent :: "string option"
  q_run :: "string option"
  q_label :: "string option"
  q_task :: string
  q_notify :: "notify_policy option"
  q_delivery :: "delivery_status option"
  q_prefer :: bool
  q_status :: "task_status option"
  q_started :: "int option"
  q_last :: "int option"
  q_progress :: "string option"

definition flow_task_params :: "flow \<Rightarrow> run_params \<Rightarrow> task_params" where
  "flow_task_params f q = (let running = q_status q = Some TRunning in
     \<lparr>n_runtime = q_runtime q, n_kind = None, n_source = q_source q, n_requester = None, n_owner = Some (owner_key f),
      n_scope = Some SSession, n_origin = requester_origin f, n_child = q_child q, n_parent_flow = Some (flow_id f),
      n_parent_task = q_parent_task q, n_agent = q_agent q, n_run = q_run q, n_label = q_label q, n_task = q_task q,
      n_prefer = q_prefer q, n_status = None, n_delivery = Some (opt_else (q_delivery q) DPending),
      n_notify = q_notify q, n_started = (if running then q_started q else None),
      n_last = (if running then q_last q else None), n_cleanup = None,
      n_progress = (if running then q_progress q else None), n_terminal = None, n_outcome = None\<rparr>)"

definition run_task_in_flow ::
  "task_env \<Rightarrow> string \<Rightarrow> string \<Rightarrow> int \<Rightarrow> string \<Rightarrow> run_params \<Rightarrow> tasks_state \<Rightarrow> (task_error + run_reply) \<times> tasks_state" where
  "run_task_in_flow e uuid fuid now fid q s0 = (case flow_at e fid s0 of
       (None, s) \<Rightarrow> (Inr flow_missing, s)
     | (Some f, s) \<Rightarrow>
         if mode f \<noteq> Managed then (Inr (run_refused ''Flow does not accept managed child tasks.'' (Some f)), s)
         else if cancel_requested_at f \<noteq> None
         then (Inr (run_refused ''Flow cancellation has already been requested.'' (Some f)), s)
         else if flow_closed (status f)
         then (Inr (run_refused (''Flow is already '' @ flow_status_text (status f) @ ''.'') (Some f)), s)
         else (case (if q_status q = Some TRunning then create_running_run e uuid fuid now (flow_task_params f q) s
                else create_queued_run e uuid fuid now (flow_task_params f q) s) of
             (Inl err, s1) \<Rightarrow> map_create_error e err (flow_id f) s1
           | (Inr t, s1) \<Rightarrow> (case flow_at e (flow_id f) s1 of (g, s2) \<Rightarrow>
               (Inr \<lparr>rr_found = True, rr_created = True, rr_reason = None,
                 rr_flow = Some (case g of Some x \<Rightarrow> x | None \<Rightarrow> f), rr_task = Some t\<rparr>, s2))))"

definition flow_at_for_owner :: "task_env \<Rightarrow> string \<Rightarrow> string \<Rightarrow> tasks_state \<Rightarrow> flow option \<times> tasks_state" where
  "flow_at_for_owner e fid caller s =
     (case get_flow_for_owner (jio e) fid caller (flow_reg s) of (f, r) \<Rightarrow> (f, s\<lparr>flow_reg := r\<rparr>))"

definition run_task_in_flow_for_owner ::
  "task_env \<Rightarrow> string \<Rightarrow> string \<Rightarrow> int \<Rightarrow> string \<Rightarrow> string \<Rightarrow> run_params \<Rightarrow> tasks_state \<Rightarrow> (task_error + run_reply) \<times> tasks_state" where
  "run_task_in_flow_for_owner e uuid fuid now fid caller q s0 = (case flow_at_for_owner e fid caller s0 of
       (None, s) \<Rightarrow> (Inr flow_missing, s)
     | (Some f, s) \<Rightarrow> run_task_in_flow e uuid fuid now (flow_id f) q s)"

section \<open>Retrying a blocked flow\<close>

record retry_reply =
  ry_found :: bool
  ry_retried :: bool
  ry_reason :: "string option"
  ry_previous :: "task_record option"
  ry_task :: "task_record option"

definition not_retried :: "bool \<Rightarrow> string \<Rightarrow> task_record option \<Rightarrow> retry_reply" where
  "not_retried found reason t = \<lparr>ry_found = found, ry_retried = False, ry_reason = Some reason, ry_previous = t, ry_task = None\<rparr>"

text \<open>Either the reason why the flow cannot be retried, with whether it was found, or its latest task.\<close>

definition resolve_retryable ::
  "task_env \<Rightarrow> string \<Rightarrow> tasks_state \<Rightarrow> ((bool \<times> string) + task_record) \<times> tasks_state" where
  "resolve_retryable e fid s0 = (case flow_at e fid s0 of
       (None, s) \<Rightarrow> (Inl (False, ''Flow not found.''), s)
     | (Some f, s) \<Rightarrow> (let s1 = restore_tasks e s in
         case first_of (tasks_of_flow s1 fid) of
           None \<Rightarrow> (Inl (True, ''Flow has no retryable task.''), s1)
         | Some t \<Rightarrow>
             if status f \<noteq> FBlocked then (Inl (True, ''Flow is not blocked.''), s1)
             else if t_status t \<noteq> TSucceeded \<or> t_outcome t \<noteq> Some OBlocked
             then (Inl (True, ''Latest TaskFlow task is not blocked.''), s1)
             else (Inr t, s1)))"

definition retry_params :: "task_status \<Rightarrow> flow \<Rightarrow> task_record \<Rightarrow> js option \<Rightarrow> string option \<Rightarrow> run_params \<Rightarrow> task_params" where
  "retry_params st f t origin text q =
     \<lparr>n_runtime = t_runtime t, n_kind = None, n_source = (if q_source q = None then t_source t else q_source q),
      n_requester = None, n_owner = Some (owner_key f), n_scope = Some SSession,
      n_origin = (if origin = None then requester_origin f else origin), n_child = q_child q,
      n_parent_flow = Some (flow_id f), n_parent_task = Some (t_id t),
      n_agent = (if q_agent q = None then t_agent t else q_agent q), n_run = q_run q,
      n_label = (if q_label q = None then t_label t else q_label q), n_task = opt_else text (t_task t),
      n_prefer = q_prefer q, n_status = Some st, n_delivery = Some (opt_else (q_delivery q) DPending),
      n_notify = Some (opt_else (q_notify q) (t_notify t)), n_started = q_started q, n_last = q_last q,
      n_cleanup = None, n_progress = q_progress q, n_terminal = None, n_outcome = None\<rparr>"

definition retry_blocked_flow ::
  "task_status \<Rightarrow> task_env \<Rightarrow> string \<Rightarrow> int \<Rightarrow> string \<Rightarrow> js option \<Rightarrow> string option \<Rightarrow> run_params \<Rightarrow> tasks_state \<Rightarrow>
    (task_error + retry_reply) \<times> tasks_state" where
  "retry_blocked_flow st e uuid now fid origin text q s0 = (case resolve_retryable e fid s0 of
       (Inl (found, reason), s) \<Rightarrow> (Inr (not_retried found reason None), s)
     | (Inr t, s) \<Rightarrow> (case flow_at e fid s of
         (None, s1) \<Rightarrow> (Inr (not_retried False ''Flow not found.'' (Some t)), s1)
       | (Some f, s1) \<Rightarrow> (case create_task_record e uuid now (retry_params st f t origin text q) s1 of
           (Inl err, s2) \<Rightarrow> (Inl err, s2)
         | (Inr u, s2) \<Rightarrow> (Inr \<lparr>ry_found = True, ry_retried = True, ry_reason = None, ry_previous = Some t,
             ry_task = Some u\<rparr>, s2))))"

text \<open>A queued retry has no start, no last event and no progress.\<close>

definition retry_as_queued where
  "retry_as_queued e uuid now fid origin text q =
     retry_blocked_flow TQueued e uuid now fid origin text (q\<lparr>q_started := None, q_last := None, q_progress := None\<rparr>)"

definition retry_as_running where "retry_as_running = retry_blocked_flow TRunning"

section \<open>Cancelling a task\<close>

record cancel_reply =
  cr_found :: bool
  cr_cancelled :: bool
  cr_reason :: "string option"
  cr_task :: "task_record option"

record control =
  own_cancel :: "(string \<Rightarrow> tasks_state \<Rightarrow> (string + cancel_reply) \<times> tasks_state) option"
  acp_cancel :: "string \<Rightarrow> tasks_state \<Rightarrow> string option \<times> tasks_state"
  kill_run :: "string \<Rightarrow> tasks_state \<Rightarrow> (string + bool \<times> bool) \<times> tasks_state"
  clock_at :: "string \<Rightarrow> int"

definition not_cancelled :: "string \<Rightarrow> task_record \<Rightarrow> cancel_reply" where
  "not_cancelled reason t = \<lparr>cr_found = True, cr_cancelled = False, cr_reason = Some reason, cr_task = Some t\<rparr>"

definition commit_reply :: "task_record \<Rightarrow> cancel_result \<times> tasks_state \<Rightarrow> cancel_reply \<times> tasks_state" where
  "commit_reply t w = (\<lparr>cr_found = True, cr_cancelled = True, cr_reason = None,
     cr_task = Some (case fst w of Cancelled (Some u) \<Rightarrow> u | _ \<Rightarrow> t)\<rparr>, snd w)"

text \<open>\<^verbatim>\<open>cancelTaskById\<close> with its awaits: an ACP session or a subagent is stopped first.\<close>

definition cancel_task_by_id ::
  "task_env \<Rightarrow> control \<Rightarrow> string \<Rightarrow> string option \<Rightarrow> tasks_state \<Rightarrow> cancel_reply \<times> tasks_state" where
  "cancel_task_by_id e c i reason s0 = (let now = clock_at c i in
     case cancel_task e now i reason s0 of
       (CancelNotFound, s) \<Rightarrow> (\<lparr>cr_found = False, cr_cancelled = False, cr_reason = Some ''Task not found.'', cr_task = None\<rparr>, s)
     | (CancelAlreadyTerminal t, s) \<Rightarrow> (not_cancelled ''Task is already terminal.'' t, s)
     | (CancelNoChild t, s) \<Rightarrow> (not_cancelled ''Task has no cancellable child session.'' t, s)
     | (CancelUnsupported t, s) \<Rightarrow> (not_cancelled ''Task runtime does not support cancellation yet.'' t, s)
     | (CancelAwaits t, s) \<Rightarrow> (let key = opt_else (norm_opt (t_child t)) [] in
         if t_runtime t = RAcp
         then (case acp_cancel c key s of
             (Some msg, s1) \<Rightarrow> (not_cancelled msg t, s1)
           | (None, s1) \<Rightarrow> commit_reply t (cancel_commit e now (t_id t) reason s1))
         else (case kill_run c key s of
             (Inl msg, s1) \<Rightarrow> (not_cancelled msg t, s1)
           | (Inr (found, killed), s1) \<Rightarrow>
               if \<not> found \<or> \<not> killed
               then (not_cancelled (if found then ''Subagent was not running.'' else ''Subagent task not found.'') t, s1)
               else commit_reply t (cancel_commit e now (t_id t) reason s1)))
     | (Cancelled u, s) \<Rightarrow> (\<lparr>cr_found = True, cr_cancelled = True, cr_reason = None,
         cr_task = (case u of Some t \<Rightarrow> Some t | None \<Rightarrow> record_of (restore_tasks e s0) (trim i))\<rparr>, s))"

text \<open>A rejection of the registered runtime is not caught (\<open>Inl\<close>).\<close>

definition cancel_detached ::
  "task_env \<Rightarrow> control \<Rightarrow> string \<Rightarrow> tasks_state \<Rightarrow> (string + cancel_reply) \<times> tasks_state" where
  "cancel_detached e c i s0 = (let s = restore_tasks e s0; core = (\<lambda>s. map_prod Inr id (cancel_task_by_id e c i None s)) in
     case get_task_record s i of None \<Rightarrow> core s
     | Some t \<Rightarrow> (case own_cancel c of None \<Rightarrow> core s
       | Some own \<Rightarrow> (case own i s of
           (Inl msg, s1) \<Rightarrow> (Inl msg, s1)
         | (Inr r, s1) \<Rightarrow> if cr_found r then (Inr r, s1) else core s1)))"

section \<open>Cancelling a flow\<close>

text \<open>A step on the flow registry inside the whole state, with the failure the caller reports.\<close>

definition flow_update_failure :: "task_env \<Rightarrow> string \<Rightarrow> update_result \<Rightarrow> tasks_state \<Rightarrow> (string \<times> flow option) \<times> tasks_state" where
  "flow_update_failure e fid v s = (case v of
       RevisionConflict cur \<Rightarrow> ((''Flow changed while cancellation was in progress.'', Some cur), s)
     | _ \<Rightarrow> (case flow_at e fid s of (f, s1) \<Rightarrow> ((''Flow not found.'', f), s1)))"

definition settle_update ::
  "task_env \<Rightarrow> string \<Rightarrow> (string + update_result) \<times> registry \<Rightarrow> tasks_state \<Rightarrow>
    (string + (string \<times> flow option) + flow) \<times> tasks_state" where
  "settle_update e fid w s = (let s1 = s\<lparr>flow_reg := snd w\<rparr> in
     case fst w of Inl msg \<Rightarrow> (Inl msg, s1)
     | Inr (Applied f) \<Rightarrow> (Inr (Inr f), s1)
     | Inr v \<Rightarrow> map_prod (Inr \<circ> Inl) id (flow_update_failure e fid v s1))"

definition mark_flow_cancel_requested ::
  "task_env \<Rightarrow> int \<Rightarrow> flow \<Rightarrow> tasks_state \<Rightarrow> (string + (string \<times> flow option) + flow) \<times> tasks_state" where
  "mark_flow_cancel_requested e now f s = (if cancel_requested_at f \<noteq> None then (Inr (Inr f), s)
     else settle_update e (flow_id f) (request_cancel (jio e) now (flow_id f) (revision f) None None (flow_reg s)) s)"

definition cancel_settled_flow ::
  "task_env \<Rightarrow> int \<Rightarrow> flow \<Rightarrow> tasks_state \<Rightarrow> (string + (string \<times> flow option) + flow) \<times> tasks_state" where
  "cancel_settled_flow e now f s =
     settle_update e (flow_id f) (update_expected (jio e) now (flow_id f) (revision f) (cancel_flow_patch now) (flow_reg s)) s"

fun cancel_children :: "task_env \<Rightarrow> control \<Rightarrow> task_record list \<Rightarrow> tasks_state \<Rightarrow> string option \<times> tasks_state" where
  "cancel_children e c [] s = (None, s)"
| "cancel_children e c (t # ts) s = (case cancel_detached e c (t_id t) s of
     (Inl msg, s1) \<Rightarrow> (Some msg, s1) | (Inr _, s1) \<Rightarrow> cancel_children e c ts s1)"

record cancel_flow_reply =
  cf_found :: bool
  cf_cancelled :: bool
  cf_reason :: "string option"
  cf_flow :: "flow option"
  cf_tasks :: "task_record list option"

definition flow_reply :: "bool \<Rightarrow> string option \<Rightarrow> flow option \<Rightarrow> task_record list \<Rightarrow> cancel_flow_reply" where
  "flow_reply done' reason f ts = \<lparr>cf_found = True, cf_cancelled = done', cf_reason = reason, cf_flow = f, cf_tasks = Some ts\<rparr>"

definition no_flow_reply :: cancel_flow_reply where
  "no_flow_reply = \<lparr>cf_found = False, cf_cancelled = False, cf_reason = Some ''Flow not found.'', cf_flow = None, cf_tasks = None\<rparr>"

text \<open>What follows the cancellations of the tasks: \<open>f\<close> is the flow with its cancellation requested.\<close>

definition finish_cancel ::
  "task_env \<Rightarrow> int \<Rightarrow> string \<Rightarrow> flow \<Rightarrow> tasks_state \<Rightarrow> (string + cancel_flow_reply) \<times> tasks_state" where
  "finish_cancel e later fid f s0 =
     (let s = restore_tasks e s0; ts = tasks_of_flow s fid in
      case flow_at e fid s of (g, s1) \<Rightarrow> (let f1 = (case g of Some x \<Rightarrow> x | None \<Rightarrow> f) in
        if list_ex (\<lambda>t. active_task (t_status t)) ts
        then (Inr (flow_reply False (Some ''One or more child tasks are still active.'') (Some f1) ts), s1)
        else if flow_closed (status f1)
        then (Inr (flow_reply (status f1 = FCancelled)
               (if status f1 = FCancelled then None else Some (''Flow is already '' @ flow_status_text (status f1) @ ''.''))
               (Some f1) ts), s1)
        else (case cancel_settled_flow e later f1 s1 of
            (Inl msg, s2) \<Rightarrow> (Inl msg, s2)
          | (Inr (Inl (reason, cur)), s2) \<Rightarrow> (Inr (flow_reply False (Some reason) cur ts), s2)
          | (Inr (Inr f2), s2) \<Rightarrow> (Inr (flow_reply True None (Some f2) ts), s2))))"

definition cancel_flow ::
  "task_env \<Rightarrow> control \<Rightarrow> int \<Rightarrow> int \<Rightarrow> string \<Rightarrow> tasks_state \<Rightarrow> (string + cancel_flow_reply) \<times> tasks_state" where
  "cancel_flow e c now later fid0 s0 = (case flow_at e fid0 s0 of
       (None, s) \<Rightarrow> (Inr no_flow_reply, s)
     | (Some f, s) \<Rightarrow> (let fid = flow_id f in
         if flow_closed (status f)
         then (let s1 = restore_tasks e s in
           (Inr (flow_reply False (Some (''Flow is already '' @ flow_status_text (status f) @ ''.'')) (Some f)
             (tasks_of_flow s1 fid)), s1))
         else (case mark_flow_cancel_requested e now f s of
             (Inl msg, s1) \<Rightarrow> (Inl msg, s1)
           | (Inr (Inl (reason, cur)), s1) \<Rightarrow> (let s2 = restore_tasks e s1 in
               (Inr (flow_reply False (Some reason) cur (tasks_of_flow s2 fid)), s2))
           | (Inr (Inr f1), s1) \<Rightarrow> (let s2 = restore_tasks e s1 in
               case cancel_children e c (filter (\<lambda>t. active_task (t_status t)) (tasks_of_flow s2 fid)) s2 of
                 (Some msg, s3) \<Rightarrow> (Inl msg, s3)
               | (None, s3) \<Rightarrow> finish_cancel e later fid f1 s3))))"

definition cancel_flow_for_owner ::
  "task_env \<Rightarrow> control \<Rightarrow> int \<Rightarrow> int \<Rightarrow> string \<Rightarrow> string \<Rightarrow> tasks_state \<Rightarrow> (string + cancel_flow_reply) \<times> tasks_state" where
  "cancel_flow_for_owner e c now later fid caller s0 = (case flow_at_for_owner e fid caller s0 of
       (None, s) \<Rightarrow> (Inr no_flow_reply, s)
     | (Some f, s) \<Rightarrow> cancel_flow e c now later (flow_id f) s)"

end
