(* ===== verification/Task_Upkeep.thy ===== *)
theory Task_Upkeep
  imports Task_Ends
begin

text \<open>
  The maintenance of the task registry, \<^verbatim>\<open>src/tasks/task-registry.maintenance.ts\<close>: recovering the result
  of a cron run from its log, marking a task lost whose backing session is gone, stamping cleanup times and
  removing ended tasks.  \<open>upkeep_runtime\<close> is the interface \<^verbatim>\<open>TaskRegistryMaintenanceRuntime\<close> the
  module is given: session stores, cron log and store, ACP sessions and their bindings.  What it reads of
  ACP sessions may depend on the sessions the run has closed so far; the rest does not change during a run,
  so that the caches of a run are invisible.
\<close>

section \<open>The runtime\<close>

record session_entry =
  se_wedged_at :: "int option"
  se_wedged_reason :: "string option"

datatype chat_type = ChatDirect | ChatGroup | ChatChannel | ChatUnknown

record acp_lookup =
  al_failed :: bool
  al_entry :: "(string option \<times> string option) option"
  al_oneshot :: "bool option"

datatype session_effect = CloseSession string string | UnbindSession string string

record cron_log =
  cl_job :: string
  cl_action :: string
  cl_run_at :: "int option"
  cl_status :: "string option"
  cl_duration :: "int option"
  cl_ts :: int
  cl_error :: "string option"
  cl_summary :: "string option"

record cron_job =
  cj_id :: string
  cj_last_run :: "int option"
  cj_last_run_status :: "string option"
  cj_last_status :: "string option"
  cj_duration :: "int option"
  cj_last_error :: "string option"

text \<open>
  A failure to read a log or a store is the empty log or \<open>None\<close>, a failure to list bindings \<open>None\<close>, and a
  failure to list ACP sessions the empty list.
\<close>

record upkeep_runtime =
  cron_authoritative :: bool
  cron_job_active :: "string \<Rightarrow> bool"
  agent_running :: "string \<Rightarrow> bool"
  session_entries :: "string option \<Rightarrow> (string \<times> session_entry) list"
  chat_type_of :: "string \<Rightarrow> chat_type"
  acp_entry :: "session_effect list \<Rightarrow> string \<Rightarrow> acp_lookup option"
  binding_statuses :: "session_effect list \<Rightarrow> string \<Rightarrow> string list option"
  acp_sessions :: "session_effect list \<Rightarrow> (string \<times> acp_lookup) list"
  close_works :: "session_effect list \<Rightarrow> string \<Rightarrow> bool"
  run_log :: "string \<Rightarrow> cron_log list"
  cron_jobs :: "cron_job list option"

section \<open>Numerals\<close>

text \<open>\<^verbatim>\<open>Number(s)\<close>; \<open>None\<close> is NaN or an infinity.\<close>

definition digits_only :: "string \<Rightarrow> bool" where
  "digits_only s \<longleftrightarrow> s \<noteq> [] \<and> list_all is_digit s"

definition split_sign :: "string \<Rightarrow> bool \<times> string" where
  "split_sign s = (case s of [] \<Rightarrow> (False, [])
     | c # t \<Rightarrow> if c = CHR ''-'' then (True, t) else if c = CHR ''+'' then (False, t) else (False, s))"

definition js_decimal :: "string \<Rightarrow> rat option" where
  "js_decimal s =
     (let i = takeWhile is_digit s; r = dropWhile is_digit s;
          (f, r2) = (case r of [] \<Rightarrow> ([], [])
            | c # t \<Rightarrow> if c = CHR ''.'' then (takeWhile is_digit t, dropWhile is_digit t) else ([], r));
          m = of_nat (digits_nat (i @ f)) / 10 ^ length f in
      if i = [] \<and> f = [] then None
      else case r2 of [] \<Rightarrow> Some m
        | c # t \<Rightarrow> if c \<noteq> CHR ''e'' \<and> c \<noteq> CHR ''E'' then None
            else (case split_sign t of (neg, ds) \<Rightarrow>
              if \<not> digits_only ds then None
              else Some (if neg then m / 10 ^ digits_nat ds else m * 10 ^ digits_nat ds)))"

definition radix_digit :: "char \<Rightarrow> nat" where
  "radix_digit c = (let n = of_char c :: nat in
     if 48 \<le> n \<and> n \<le> 57 then n - 48 else if 97 \<le> n \<and> n \<le> 102 then n - 87
     else if 65 \<le> n \<and> n \<le> 70 then n - 55 else 99)"

definition js_radix :: "nat \<Rightarrow> string \<Rightarrow> rat option" where
  "js_radix b s = (if s = [] \<or> \<not> list_all (\<lambda>c. radix_digit c < b) s then None
     else Some (of_nat (foldl (\<lambda>n c. b * n + radix_digit c) 0 s)))"

definition js_number :: "string \<Rightarrow> rat option" where
  "js_number s0 = (let s = trim s0; p = to_lower (take 2 s) in
     if s = [] then Some 0
     else if p = ''0x'' then js_radix 16 (drop 2 s)
     else if p = ''0o'' then js_radix 8 (drop 2 s)
     else if p = ''0b'' then js_radix 2 (drop 2 s)
     else case split_sign s of (neg, t) \<Rightarrow> map_option (\<lambda>m. if neg then - m else m) (js_decimal t))"

section \<open>Recovering a cron run\<close>

record cron_recovery =
  rc_status :: task_status
  rc_ended :: int
  rc_error :: "string option"
  rc_summary :: "string option"

definition cron_prefix :: string where
  "cron_prefix = ''cron:''"

text \<open>The index of the last colon.\<close>

definition last_colon :: "string \<Rightarrow> nat option" where
  "last_colon s = (let tail = takeWhile (\<lambda>c. c \<noteq> CHR '':'') (rev s) in
     if length tail = length s then None else Some (length s - length tail - 1))"

definition parse_cron_execution :: "task_record \<Rightarrow> (string \<times> rat) option" where
  "parse_cron_execution t = (case map_option trim (t_run t) of None \<Rightarrow> None
     | Some run \<Rightarrow>
         if take (length cron_prefix) run \<noteq> cron_prefix then None
         else (case last_colon run of None \<Rightarrow> None
         | Some sep \<Rightarrow>
             if sep \<le> length cron_prefix then None
             else (case js_number (drop (sep + 1) run) of None \<Rightarrow> None
             | Some started \<Rightarrow>
                 let job = trim (drop (length cron_prefix) (take sep run)) in
                 if job = [] \<or> (norm_opt (t_source t) \<noteq> None \<and> norm_opt (t_source t) \<noteq> Some job) then None
                 else Some (job, started))))"

definition cron_status :: "string option \<Rightarrow> string option \<Rightarrow> task_status" where
  "cron_status st err = (if st = Some ''ok'' \<or> st = Some ''skipped'' then TSucceeded
     else if err = Some ''cron: job execution timed out'' then TTimedOut else TFailed)"

definition final_cron_status :: "string option \<Rightarrow> bool" where
  "final_cron_status st \<longleftrightarrow> st = Some ''ok'' \<or> st = Some ''skipped'' \<or> st = Some ''error''"

definition log_recovery :: "upkeep_runtime \<Rightarrow> string \<times> rat \<Rightarrow> cron_recovery option" where
  "log_recovery rt x = (case x of (job, started) \<Rightarrow>
     (case find (\<lambda>c. cl_job c = job \<and> cl_action c = ''finished'' \<and>
          map_option of_int (cl_run_at c) = Some started \<and> final_cron_status (cl_status c)) (rev (run_log rt job)) of
        None \<Rightarrow> None
      | Some c \<Rightarrow> Some \<lparr>rc_status = cron_status (cl_status c) (cl_error c),
          rc_ended = (case cl_duration c of None \<Rightarrow> cl_ts c | Some d \<Rightarrow> \<lfloor>started\<rfloor> + max 0 d),
          rc_error = cl_error c, rc_summary = cl_summary c\<rparr>))"

definition job_recovery :: "upkeep_runtime \<Rightarrow> string \<times> rat \<Rightarrow> cron_recovery option" where
  "job_recovery rt x = (case x of (job, started) \<Rightarrow>
     (case Option.bind (cron_jobs rt) (find (\<lambda>c. cj_id c = job)) of None \<Rightarrow> None
      | Some c \<Rightarrow>
          let st = (case cj_last_run_status c of Some v \<Rightarrow> Some v | None \<Rightarrow> cj_last_status c) in
          if map_option of_int (cj_last_run c) \<noteq> Some started then None
          else if \<not> final_cron_status st then None
          else Some \<lparr>rc_status = cron_status st (cj_last_error c),
            rc_ended = \<lfloor>started\<rfloor> + max 0 (opt_else (cj_duration c) 0),
            rc_error = cj_last_error c, rc_summary = None\<rparr>))"

definition task_recovery :: "upkeep_runtime \<Rightarrow> task_record \<Rightarrow> cron_recovery option" where
  "task_recovery rt t = (if t_runtime t \<noteq> RCron \<or> \<not> active_task (t_status t) then None
     else case parse_cron_execution t of None \<Rightarrow> None
     | Some x \<Rightarrow> (case log_recovery rt x of Some r \<Rightarrow> Some r | None \<Rightarrow> job_recovery rt x))"

section \<open>Lost tasks\<close>

definition reconcile_grace :: int where
  "reconcile_grace = 5 * 60000"

definition grace_expired :: "task_record \<Rightarrow> int \<Rightarrow> bool" where
  "grace_expired t now \<longleftrightarrow>
     reconcile_grace \<le> now - opt_else (t_last_event t) (opt_else (t_started t) (t_created t))"

text \<open>The store of a session's agent, by key or else by the last key that differs in case only.\<close>

definition entry_by_key :: "(string \<times> session_entry) list \<Rightarrow> string \<Rightarrow> session_entry option" where
  "entry_by_key es k = (case map_of es k of Some v \<Rightarrow> Some v
     | None \<Rightarrow> let n = to_lower (trim k) in
         if n = [] then None else map_of (rev (map (\<lambda>(j, v). (to_lower (trim j), v)) es)) n)"

definition task_session_entry :: "upkeep_runtime \<Rightarrow> task_record \<Rightarrow> session_entry option" where
  "task_session_entry rt t = (case norm_opt (t_child t) of None \<Rightarrow> None
     | Some k \<Rightarrow> entry_by_key (session_entries rt (map_option fst (parse_agent_key (Some k)))) k)"

definition wedged :: "session_entry option \<Rightarrow> bool" where
  "wedged v = (case Option.bind v se_wedged_at of None \<Rightarrow> False | Some at_ms \<Rightarrow> 0 < at_ms)"

definition wedged_reason :: "session_entry \<Rightarrow> string" where
  "wedged_reason v = opt_else (norm_opt (se_wedged_reason v)) ''subagent orphan recovery is tombstoned for this session''"

definition active_cli_run :: "upkeep_runtime \<Rightarrow> task_record \<Rightarrow> bool" where
  "active_cli_run rt t = list_ex (\<lambda>v. case norm_opt v of None \<Rightarrow> False | Some run \<Rightarrow> agent_running rt run) [t_source t, t_run t]"

definition cli_run_identity :: "task_record \<Rightarrow> bool" where
  "cli_run_identity t = list_ex (\<lambda>v. norm_opt v \<noteq> None) [t_source t, t_run t]"

definition has_backing :: "upkeep_runtime \<Rightarrow> session_effect list \<Rightarrow> task_record \<Rightarrow> bool" where
  "has_backing rt fx t =
     (if t_runtime t = RCron
      then if \<not> cron_authoritative rt then True
        else (case norm_opt (t_source t) of None \<Rightarrow> False | Some job \<Rightarrow> cron_job_active rt job)
      else if t_runtime t = RCli \<and> active_cli_run rt t then True
      else if t_runtime t = RCli \<and> cli_run_identity t then False
      else case norm_opt (t_child t) of None \<Rightarrow> True
        | Some k \<Rightarrow>
            if t_runtime t = RAcp
            then (case acp_entry rt fx k of None \<Rightarrow> True | Some a \<Rightarrow> al_failed a \<or> al_entry a \<noteq> None)
            else if t_runtime t = RCli \<and> chat_type_of rt k \<noteq> ChatUnknown then False
            else if t_runtime t = RSubagent \<and> wedged (task_session_entry rt t) then False
            else task_session_entry rt t \<noteq> None)"

definition lost_error :: "upkeep_runtime \<Rightarrow> task_record \<Rightarrow> string" where
  "lost_error rt t = (case (if t_runtime t = RSubagent then task_session_entry rt t else None) of
       Some v \<Rightarrow> if wedged (Some v) then wedged_reason v else ''backing session missing''
     | None \<Rightarrow> ''backing session missing'')"

definition should_mark_lost :: "upkeep_runtime \<Rightarrow> session_effect list \<Rightarrow> task_record \<Rightarrow> int \<Rightarrow> bool" where
  "should_mark_lost rt fx t now = (if \<not> active_task (t_status t) then False
     else if \<not> grace_expired t now then False else \<not> has_backing rt fx t)"

definition lost_input_changed :: "task_record \<Rightarrow> task_record \<Rightarrow> bool" where
  "lost_input_changed t u \<longleftrightarrow> t_status t \<noteq> t_status u \<or> t_runtime t \<noteq> t_runtime u \<or> t_child t \<noteq> t_child u \<or>
     t_source t \<noteq> t_source u \<or> t_run t \<noteq> t_run u \<or> t_created t \<noteq> t_created u \<or> t_started t \<noteq> t_started u \<or>
     t_last_event t \<noteq> t_last_event u"

section \<open>Retention\<close>

definition ended_time :: "task_record \<Rightarrow> int" where
  "ended_time t = opt_else (t_ended t) (opt_else (t_last_event t) (t_created t))"

definition should_prune_task :: "task_record \<Rightarrow> int \<Rightarrow> bool" where
  "should_prune_task t now = (if active_task (t_status t) then False
     else case t_cleanup t of Some c \<Rightarrow> c \<le> now | None \<Rightarrow> task_retention \<le> now - ended_time t)"

definition should_stamp :: "task_record \<Rightarrow> bool" where
  "should_stamp t \<longleftrightarrow> \<not> active_task (t_status t) \<and> t_cleanup t = None"

definition cleanup_time :: "task_record \<Rightarrow> int" where
  "cleanup_time t = ended_time t + task_retention"

section \<open>Reconciled views\<close>

definition stamped :: "task_record \<Rightarrow> task_record" where
  "stamped t = (if t_cleanup t = None then t\<lparr>t_cleanup := Some (cleanup_time t)\<rparr> else t)"

definition project_recovered :: "task_record \<Rightarrow> cron_recovery \<Rightarrow> task_record" where
  "project_recovered t r = stamped (t\<lparr>t_status := rc_status r, t_ended := Some (rc_ended r),
     t_last_event := Some (rc_ended r), t_error := patch_some (rc_error r) (t_error t),
     t_terminal_summary := patch_some (rc_summary r) (t_terminal_summary t)\<rparr>)"

definition project_lost :: "upkeep_runtime \<Rightarrow> task_record \<Rightarrow> int \<Rightarrow> task_record" where
  "project_lost rt t now = stamped (t\<lparr>t_status := TLost, t_ended := Some (opt_else (t_ended t) now),
     t_last_event := Some now, t_error := Some (opt_else (t_error t) (lost_error rt t))\<rparr>)"

definition reconciled_view :: "upkeep_runtime \<Rightarrow> int \<Rightarrow> task_record \<Rightarrow> task_record" where
  "reconciled_view rt now t = (case task_recovery rt t of Some r \<Rightarrow> project_recovered t r
     | None \<Rightarrow> if \<not> should_mark_lost rt [] t now then t else project_lost rt t now)"

definition inspectable_tasks :: "task_env \<Rightarrow> upkeep_runtime \<Rightarrow> int \<Rightarrow> tasks_state \<Rightarrow> task_record list \<times> tasks_state" where
  "inspectable_tasks e rt now s0 = (let s = restore_tasks e s0 in
     (map (reconciled_view rt now) (list_task_records s), s))"

record restart_blocker =
  rb_task :: string
  rb_runtime :: task_runtime
  rb_run :: "string option"
  rb_label :: "string option"
  rb_title :: "string option"

definition blocks_restart :: "task_record \<Rightarrow> bool" where
  "blocks_restart t \<longleftrightarrow> t_status t = TRunning \<and> (t_ended t = None \<or> t_ended t = Some 0)"

definition restart_blockers :: "task_record list \<Rightarrow> restart_blocker list" where
  "restart_blockers ts = map (\<lambda>t. \<lparr>rb_task = t_id t, rb_runtime = t_runtime t, rb_run = non_empty (t_run t),
     rb_label = non_empty (t_label t), rb_title = non_empty (Some (t_task t))\<rparr>) (filter blocks_restart ts)"

definition reconcile_token :: "task_env \<Rightarrow> upkeep_runtime \<Rightarrow> int \<Rightarrow> string \<Rightarrow> tasks_state \<Rightarrow> task_record option \<times> tasks_state" where
  "reconcile_token e rt now token s0 = (let s = restore_tasks e s0 in
     (map_option (reconciled_view rt now) (resolve_task_token s token), s))"

section \<open>Sessions of ended tasks\<close>

definition parent_keys :: "string option \<times> string option \<Rightarrow> string list" where
  "parent_keys x = List.map_filter norm_opt [fst x, snd x]"

definition parent_owned :: "task_record \<Rightarrow> acp_lookup \<Rightarrow> bool" where
  "parent_owned t a = (case al_entry a of None \<Rightarrow> False
     | Some x \<Rightarrow> list_ex (\<lambda>k. Some k = owner_of t \<or> Some k = norm_opt (Some (t_requester t))) (parent_keys x))"

definition binding_active :: "upkeep_runtime \<Rightarrow> session_effect list \<Rightarrow> string \<Rightarrow> bool" where
  "binding_active rt fx k = (case binding_statuses rt fx k of None \<Rightarrow> True
     | Some bs \<Rightarrow> list_ex (\<lambda>b. b \<noteq> ''ended'') bs)"

definition should_close_session :: "upkeep_runtime \<Rightarrow> session_effect list \<Rightarrow> tasks_state \<Rightarrow> task_record \<Rightarrow> bool" where
  "should_close_session rt fx s t =
     (if t_runtime t \<noteq> RAcp \<or> active_task (t_status t) then False
      else case norm_opt (t_child t) of None \<Rightarrow> False
      | Some k \<Rightarrow> if has_active_child s k (Some (t_id t)) then False
          else (case acp_entry rt fx k of None \<Rightarrow> False
          | Some a \<Rightarrow> if al_failed a \<or> al_oneshot a = None then False
              else if \<not> parent_owned t a then False
              else if al_oneshot a = Some True then True
              else \<not> binding_active rt fx k))"

definition close_session :: "upkeep_runtime \<Rightarrow> string \<Rightarrow> string \<Rightarrow> session_effect list \<Rightarrow> session_effect list" where
  "close_session rt reason k fx = (if close_works rt fx k then fx @ [CloseSession k reason, UnbindSession k reason]
     else fx @ [CloseSession k reason])"

definition cleanup_session :: "upkeep_runtime \<Rightarrow> tasks_state \<Rightarrow> task_record \<Rightarrow> session_effect list \<Rightarrow> session_effect list" where
  "cleanup_session rt s t fx = (if \<not> should_close_session rt fx s t then fx
     else case norm_opt (t_child t) of None \<Rightarrow> fx | Some k \<Rightarrow> close_session rt ''terminal-task-cleanup'' k fx)"

definition should_close_orphan :: "upkeep_runtime \<Rightarrow> session_effect list \<Rightarrow> tasks_state \<Rightarrow> string \<Rightarrow> acp_lookup \<Rightarrow> bool" where
  "should_close_orphan rt fx s key a = (case (al_entry a, al_oneshot a, norm_opt (Some key)) of
       (Some x, Some oneshot, Some k) \<Rightarrow>
         if parent_keys x = [] then False
         else if has_active_child s k None then False
         else if oneshot then True else \<not> binding_active rt fx k
     | _ \<Rightarrow> False)"

fun close_orphans ::
  "upkeep_runtime \<Rightarrow> tasks_state \<Rightarrow> (string \<times> acp_lookup) list \<Rightarrow> string list \<Rightarrow> session_effect list \<Rightarrow> session_effect list" where
  "close_orphans rt s [] seen fx = fx"
| "close_orphans rt s ((key, a) # xs) seen fx = (case norm_opt (Some key) of None \<Rightarrow> close_orphans rt s xs seen fx
     | Some k \<Rightarrow> if k \<in> set seen then close_orphans rt s xs seen fx
         else close_orphans rt s xs (k # seen)
           (if should_close_orphan rt fx s key a then close_session rt ''orphaned-parent-task-cleanup'' k fx else fx))"

section \<open>A run and its preview\<close>

record task_upkeep =
  tu_reconciled :: nat
  tu_recovered :: nat
  tu_stamped :: nat
  tu_pruned :: nat

definition no_task_upkeep :: task_upkeep where
  "no_task_upkeep = \<lparr>tu_reconciled = 0, tu_recovered = 0, tu_stamped = 0, tu_pruned = 0\<rparr>"

definition preview_task :: "upkeep_runtime \<Rightarrow> int \<Rightarrow> task_record \<Rightarrow> task_upkeep \<Rightarrow> task_upkeep" where
  "preview_task rt now t u =
     (if task_recovery rt t \<noteq> None then u\<lparr>tu_recovered := tu_recovered u + 1\<rparr>
      else if should_mark_lost rt [] t now then u\<lparr>tu_reconciled := tu_reconciled u + 1\<rparr>
      else if should_prune_task t now then u\<lparr>tu_pruned := tu_pruned u + 1\<rparr>
      else if should_stamp t then u\<lparr>tu_stamped := tu_stamped u + 1\<rparr> else u)"

definition preview_task_maintenance :: "task_env \<Rightarrow> upkeep_runtime \<Rightarrow> int \<Rightarrow> tasks_state \<Rightarrow> task_upkeep \<times> tasks_state" where
  "preview_task_maintenance e rt now s0 = (let s = restore_tasks e s0 in
     (fold (preview_task rt now) (list_task_records s) no_task_upkeep, s))"

definition mark_task_lost ::
  "task_env \<Rightarrow> upkeep_runtime \<Rightarrow> int \<Rightarrow> task_record \<Rightarrow> tasks_state \<Rightarrow> task_record \<times> tasks_state" where
  "mark_task_lost e rt now t s =
     (let ended = opt_else (t_ended t) now;
          cleanup = opt_else (t_cleanup t) (cleanup_time (t\<lparr>t_ended := Some ended\<rparr>)) in
      case mark_lost e now (t_id t) ended (Some now) (Some (opt_else (t_error t) (lost_error rt t))) (Some cleanup) s of
        (updated, s1) \<Rightarrow> (opt_else updated t, deliver_terminal e now (t_id (opt_else updated t)) s1))"

definition mark_recovered ::
  "task_env \<Rightarrow> int \<Rightarrow> task_record \<Rightarrow> cron_recovery \<Rightarrow> tasks_state \<Rightarrow> task_record \<times> tasks_state" where
  "mark_recovered e now t r s =
     (case mark_terminal e now (t_id t) (rc_status r) (rc_ended r) (Some (rc_ended r)) (rc_error r)
         (case rc_summary r of None \<Rightarrow> Keep | Some x \<Rightarrow> Put x) Keep s of
        (updated, s1) \<Rightarrow> (let n = opt_else updated (project_recovered t r) in (n, deliver_terminal e now (t_id n) s1)))"

text \<open>
  \<open>await\<close> says whether the hook, if one is registered, recovered the task, and what happened to the
  runtime (its sessions and logs) and to the registry while it was awaited; the recheck reads both anew.
\<close>

definition maintain_task ::
  "task_env \<Rightarrow> upkeep_runtime \<Rightarrow> bool \<Rightarrow> (task_record \<Rightarrow> tasks_state \<Rightarrow> bool \<times> upkeep_runtime \<times> tasks_state) \<Rightarrow> int \<Rightarrow> task_record \<Rightarrow>
   task_upkeep \<times> session_effect list \<times> tasks_state \<Rightarrow> task_upkeep \<times> session_effect list \<times> tasks_state" where
  "maintain_task e rt hooked await now listed c = (case c of (u, fx, s) \<Rightarrow>
     (case get_task_record s (t_id listed) of None \<Rightarrow> (u, fx, s)
      | Some cur \<Rightarrow> (case task_recovery rt cur of
          Some r \<Rightarrow> (case mark_recovered e now cur r s of (n, s1) \<Rightarrow>
            (if t_status n \<noteq> t_status cur then u\<lparr>tu_recovered := tu_recovered u + 1\<rparr> else u, fx, s1))
        | None \<Rightarrow>
          if should_mark_lost rt fx cur now
          then (case await cur s of (recovered, rt_after, s1) \<Rightarrow>
            (case get_task_record s1 (t_id cur) of None \<Rightarrow> (u, fx, s1)
             | Some fresh \<Rightarrow>
                 let recheck = (hooked \<or> lost_input_changed cur fresh); rt1 = (if recheck then rt_after else rt) in
                 if recheck \<and> \<not> should_mark_lost rt1 fx fresh now then (u, fx, s1)
                 else if recovered then (u\<lparr>tu_recovered := tu_recovered u + 1\<rparr>, fx, s1)
                 else (case mark_task_lost e rt1 now fresh s1 of (n, s2) \<Rightarrow>
                   (if t_status n = TLost then u\<lparr>tu_reconciled := tu_reconciled u + 1\<rparr> else u, fx, s2))))
          else let fx1 = cleanup_session rt s cur fx;
                   (gone, s1) = (if should_prune_task cur now then delete_task_record e (t_id cur) s else (False, s)) in
            if gone then (u\<lparr>tu_pruned := tu_pruned u + 1\<rparr>, fx1, s1)
            else if should_stamp cur
            then (case set_cleanup_after e now (t_id cur) (cleanup_time cur) s1 of (n, s2) \<Rightarrow>
              (if n \<noteq> None then u\<lparr>tu_stamped := tu_stamped u + 1\<rparr> else u, fx1, s2))
            else (u, fx1, s1))))"

definition run_task_maintenance ::
  "task_env \<Rightarrow> upkeep_runtime \<Rightarrow> bool \<Rightarrow> (task_record \<Rightarrow> tasks_state \<Rightarrow> bool \<times> upkeep_runtime \<times> tasks_state) \<Rightarrow> int \<Rightarrow> tasks_state \<Rightarrow>
   task_upkeep \<times> session_effect list \<times> tasks_state" where
  "run_task_maintenance e rt hooked await now s0 = (let s = restore_tasks e s0 in
     case fold (maintain_task e rt hooked await now) (list_task_records s) (no_task_upkeep, [], s) of
       (u, fx, s1) \<Rightarrow> (u, close_orphans rt s1 (acp_sessions rt fx) [] fx, s1))"

section \<open>The step of one task\<close>

lemma mark_lost_effect:
  assumes ok: "tasks_ok e s" "restored s" and t: "record_of s i = Some t" and i: "t_id t = i"
  shows "\<exists>n s'. mark_task_lost e rt now t s = (n, s') \<and> t_status n = TLost \<and> ends_as e i TLost (links t) s s'"
proof -
  define ended where "ended = opt_else (t_ended t) now"
  define patch where "patch = (\<lambda>t' :: task_record. t'\<lparr>t_status := TLost, t_ended := Some ended, t_last_event := Some now,
     t_error := Some (opt_else (t_error t) (lost_error rt t)),
     t_cleanup := Some (opt_else (t_cleanup t) (cleanup_time (t\<lparr>t_ended := Some ended\<rparr>)))\<rparr>)"
  have form: "mark_lost e now i ended (Some now) (Some (opt_else (t_error t) (lost_error rt t)))
      (Some (opt_else (t_cleanup t) (cleanup_time (t\<lparr>t_ended := Some ended\<rparr>)))) s = update_record e now i patch s"
    by (simp add: mark_lost_def ok(2) patch_def patch_some_def opt_else_def)
  have op: "task_op e s (snd (update_record e now i patch s))" unfolding form [symmetric] by (rule task_op.lost)
  have core: "core (patch t) = (i, TLost, links t)" by (simp add: core_def links_def patch_def i)
  note e = end_effect [where patch = patch, OF ok t core op]
  have "t_id (revise now patch t) = i" "t_status (revise now patch t) = TLost" using e(2) by (simp_all add: core_def)
  moreover have "mark_task_lost e rt now t s =
      (opt_else (fst (update_record e now i patch s)) t,
       deliver_terminal e now (t_id (opt_else (fst (update_record e now i patch s)) t)) (snd (update_record e now i patch s)))"
    by (simp add: mark_task_lost_def Let_def i form flip: ended_def split: prod.split)
  ultimately show ?thesis using e(1,3) by (simp add: ends_as_def Let_def opt_else_def)
qed

lemma recovered_effect:
  assumes ok: "tasks_ok e s" "restored s" and t: "record_of s i = Some t" and i: "t_id t = i" and st: "end_status (rc_status r)"
  shows "\<exists>n s'. mark_recovered e now t r s = (n, s') \<and> t_status n = rc_status r \<and> ends_as e i (rc_status r) (links t) s s'"
proof -
  let ?sum = "case rc_summary r of None \<Rightarrow> Keep | Some x \<Rightarrow> Put x"
  define patch where "patch = (\<lambda>t' :: task_record. t'\<lparr>t_status := rc_status r, t_ended := Some (rc_ended r),
     t_last_event := Some (opt_else (Some (rc_ended r)) (rc_ended r)), t_error := patch_some (rc_error r) (t_error t'),
     t_terminal_summary := patch_summary ?sum (t_terminal_summary t'),
     t_outcome := patch_outcome (rc_status r) Keep (t_outcome t')\<rparr>)"
  have form: "mark_terminal e now i (rc_status r) (rc_ended r) (Some (rc_ended r)) (rc_error r) ?sum Keep s = update_record e now i patch s"
    by (simp add: mark_terminal_def ok(2) patch_def)
  have op: "task_op e s (snd (update_record e now i patch s))" unfolding form [symmetric] by (rule task_op.ends [OF st])
  have core: "core (patch t) = (i, rc_status r, links t)" by (simp add: core_def links_def patch_def i)
  note e = end_effect [where patch = patch, OF ok t core op]
  have "t_id (revise now patch t) = i" "t_status (revise now patch t) = rc_status r" using e(2) by (simp_all add: core_def)
  moreover have "mark_recovered e now t r s =
      (opt_else (fst (update_record e now i patch s)) (project_recovered t r),
       deliver_terminal e now (t_id (opt_else (fst (update_record e now i patch s)) (project_recovered t r)))
         (snd (update_record e now i patch s)))"
    by (simp add: mark_recovered_def Let_def i form split: prod.split)
  ultimately show ?thesis using e(1,3) by (simp add: ends_as_def Let_def opt_else_def)
qed

lemma recovery_status: "task_recovery rt t = Some r \<Longrightarrow> active_task (t_status t) \<and> end_status (rc_status r)"
  by (auto simp: task_recovery_def log_recovery_def job_recovery_def cron_status_def end_status_def Let_def
      split: if_splits option.splits prod.splits)

section \<open>Closed sessions\<close>

lemma has_active_child_iff:
  assumes "tasks_indexed s" and k: "norm_opt (Some session) = Some k"
  shows "has_active_child s session skip \<longleftrightarrow>
    (\<exists>j t. record_of s j = Some t \<and> Some j \<noteq> skip \<and> active_task (t_status t) \<and> norm_opt (t_child t) = Some k)"
proof -
  have "index_exact session_keys (by_session s) (record_of s)" using assms(1) by (simp add: tasks_indexed_def)
  then have "set (ids_at (by_session s) k) = {i. \<exists>t. record_of s i = Some t \<and> k \<in> set (session_keys t)}"
    by (simp add: index_exact_def)
  then have "(\<exists>i \<in> set (ids_at (by_session s) k). P i) \<longleftrightarrow> (\<exists>i t. record_of s i = Some t \<and> k \<in> set (session_keys t) \<and> P i)"
    for P by auto
  note set = this
  have child: "norm_opt (t_child t) = Some k \<Longrightarrow> k \<in> set (session_keys t)" for t
    by (auto simp: session_keys_def map_filter_simps Let_def split: option.split)
  show ?thesis unfolding has_active_child_def k option.case list_ex_iff set
  proof
    assume "\<exists>j t. record_of s j = Some t \<and> Some j \<noteq> skip \<and> active_task (t_status t) \<and> norm_opt (t_child t) = Some k"
    then obtain j t where "record_of s j = Some t" "Some j \<noteq> skip" "active_task (t_status t)" "norm_opt (t_child t) = Some k"
      by blast
    then show "\<exists>i t. record_of s i = Some t \<and> k \<in> set (session_keys t) \<and> Some i \<noteq> skip \<and>
        (case record_of s i of None \<Rightarrow> False | Some t \<Rightarrow> active_task (t_status t) \<and> norm_opt (t_child t) = Some k)"
      by (intro exI [of _ j] exI [of _ t]) (simp add: child)
  qed (clarsimp split: option.splits, blast)
qed

definition active_child :: "tasks_state \<Rightarrow> string \<Rightarrow> bool" where
  "active_child s k \<longleftrightarrow> (\<exists>j t. record_of s j = Some t \<and> active_task (t_status t) \<and> norm_opt (t_child t) = Some k)"

definition closed_idle :: "session_effect list \<Rightarrow> tasks_state \<Rightarrow> bool" where
  "closed_idle fx s \<longleftrightarrow> (\<forall>k why. CloseSession k why \<in> set fx \<longrightarrow> \<not> active_child s k)"

lemma ends_idle:
  assumes s': "ends_as e i st ch s s'" and idle: "closed_idle fx s" and st: "\<not> active_task st"
  shows "closed_idle fx s'"
proof -
  have "record_of s j = Some t" if "record_of s' j = Some t" "active_task (t_status t)" for j t
  proof (cases "j = i")
    case True
    have "cores s' i = Some (i, st, ch)" using s' by (simp add: ends_as_def)
    then show ?thesis using that True st by (simp add: cores_def core_def)
  qed (use s' that in \<open>simp add: ends_as_def\<close>)
  then show ?thesis using idle unfolding closed_idle_def active_child_def by blast
qed

lemma fewer_idle:
  assumes "\<And>j t. record_of s' j = Some t \<Longrightarrow> active_task (t_status t) \<Longrightarrow> record_of s j = Some t" and "closed_idle fx s"
  shows "closed_idle fx s'"
  using assms unfolding closed_idle_def active_child_def by blast

lemma closing_idle: "closed_idle fx s \<Longrightarrow> \<not> active_child s k \<Longrightarrow> closed_idle (close_session rt why k fx) s"
  by (auto simp: closed_idle_def close_session_def split: if_splits)

lemma tidy_norm: "norm_opt v = Some k \<Longrightarrow> norm_opt (Some k) = Some k"
  using norm_opt_tidy [of v] by (simp add: tidy_def)

lemma cleanup_idle:
  assumes "closed_idle fx s" and "tasks_indexed s" and t: "record_of s (t_id t) = Some t"
  shows "closed_idle (cleanup_session rt s t fx) s"
proof (cases "should_close_session rt fx s t")
  case True
  then obtain k where k: "norm_opt (t_child t) = Some k" and ended: "\<not> active_task (t_status t)"
    and "\<not> has_active_child s k (Some (t_id t))"
    by (auto simp: should_close_session_def split: if_splits option.splits)
  then have "\<not> active_child s k"
    using has_active_child_iff [OF assms(2) tidy_norm [OF k]] t unfolding active_child_def by (metis option.inject)
  then show ?thesis using closing_idle [OF assms(1)] by (simp add: cleanup_session_def True k)
qed (simp add: cleanup_session_def assms(1))

lemma orphans_idle:
  "tasks_indexed s \<Longrightarrow> closed_idle fx s \<Longrightarrow> closed_idle (close_orphans rt s xs seen fx) s"
proof (induction rt s xs seen fx rule: close_orphans.induct)
  case (2 rt s key a xs seen fx)
  have "closed_idle (close_session rt why k fx) s" if k: "norm_opt (Some key) = Some k" and
    "should_close_orphan rt fx s key a" for k why
  proof -
    have "\<not> has_active_child s k None" using that by (auto simp: should_close_orphan_def split: option.splits if_splits)
    then have "\<not> active_child s k"
      using has_active_child_iff [OF 2(4) tidy_norm [OF k]] unfolding active_child_def by blast
    then show ?thesis using closing_idle [OF 2(5)] by blast
  qed
  with 2 show ?case by (auto split: option.split)
qed simp


section \<open>The effect of a run\<close>

text \<open>What is read of an ACP session changes only when that session is closed.\<close>

definition acp_stable :: "upkeep_runtime \<Rightarrow> bool" where
  "acp_stable rt \<longleftrightarrow> (\<forall>fx k. (\<forall>why. CloseSession k why \<notin> set fx) \<longrightarrow> acp_entry rt fx k = acp_entry rt [] k)"

lemma backing_stable:
  assumes "acp_stable rt" and "closed_idle fx s" and "record_of s i = Some t"
  shows "should_mark_lost rt fx t now = should_mark_lost rt [] t now"
proof (cases "active_task (t_status t)")
  case True
  have "acp_entry rt fx k = acp_entry rt [] k" if "norm_opt (t_child t) = Some k" for k
  proof -
    have "active_child s k" using assms(3) True that unfolding active_child_def by blast
    then show ?thesis using assms(1,2) unfolding acp_stable_def closed_idle_def by blast
  qed
  then have "has_backing rt fx t = has_backing rt [] t" by (auto simp: has_backing_def split: option.split)
  then show ?thesis by (simp add: should_mark_lost_def)
qed (simp add: should_mark_lost_def)

lemma prune_ended: "should_prune_task t now \<Longrightarrow> task_recovery rt t = None \<and> \<not> should_mark_lost rt fx t now"
  by (auto simp: should_prune_task_def task_recovery_def should_mark_lost_def split: if_splits)

definition quiet :: "upkeep_runtime \<Rightarrow> task_record \<Rightarrow> tasks_state \<Rightarrow> bool \<times> upkeep_runtime \<times> tasks_state" where
  "quiet rt t s = (False, rt, s)"

definition settled_as :: "task_env \<Rightarrow> upkeep_runtime \<Rightarrow> int \<Rightarrow> task_record \<Rightarrow> tasks_state \<Rightarrow> tasks_state \<Rightarrow> bool" where
  "settled_as e rt now t s s' \<longleftrightarrow> tasks_ok e s' \<and> restored s' \<and> (\<forall>j. j \<noteq> t_id t \<longrightarrow> record_of s' j = record_of s j) \<and>
     map_option t_status (record_of s' (t_id t)) =
       (if should_prune_task t now then None else Some (t_status (reconciled_view rt now t)))"

lemma ends_settled:
  assumes "ends_as e (t_id t) st ch s s'" and "t_status (reconciled_view rt now t) = st" and "\<not> should_prune_task t now"
  shows "settled_as e rt now t s s'"
proof -
  have "cores s' (t_id t) = Some (t_id t, st, ch)" using assms(1) by (simp add: ends_as_def)
  then have "map_option t_status (record_of s' (t_id t)) = Some st" by (auto simp: cores_def core_def)
  then show ?thesis using assms by (simp add: settled_as_def ends_as_def)
qed

lemma stamped_status [simp]: "t_status (stamped t) = t_status t"
  by (simp add: stamped_def)

lemma stamp_effect:
  assumes "tasks_ok e s" "restored s" and t: "record_of s i = Some t"
  shows "\<exists>n s'. set_cleanup_after e now i c s = (Some n, s') \<and> tasks_ok e s' \<and> restored s' \<and>
    record_of s' = (record_of s)(i \<mapsto> n) \<and> core n = core t"
proof -
  let ?p = "\<lambda>t :: task_record. t\<lparr>t_cleanup := Some c\<rparr>"
  have form: "set_cleanup_after e now i c s = update_record e now i ?p s" by (simp add: set_cleanup_after_def assms(2))
  have "task_op e s (snd (update_record e now i ?p s))" unfolding form [symmetric] by (rule task_op.cleanup)
  from op_ok [OF this assms(2,1)] show ?thesis
    unfolding form using update_record_result [OF t, of e now ?p] update_record_at [OF t, of e now ?p]
    by (cases "update_record e now i ?p s") (auto simp: core_revise core_def links_def)
qed

lemma delete_record_effect:
  assumes "tasks_ok e s" "restored s" and t: "record_of s i = Some t"
  shows "\<exists>s'. delete_task_record e i s = (True, s') \<and> tasks_ok e s' \<and> restored s' \<and> record_of s' = (record_of s)(i := None)"
proof -
  have "record_of (remove_record i t s) = (record_of s)(i := None)"
    by (simp add: remove_record_def Let_def rebuild_runs_def record_of_def fun_eq_iff AList.delete_conv')
  moreover have "restored (remove_record i t s)" using assms(2) by (simp add: remove_record_def Let_def rebuild_runs_def)
  moreover have "delete_task_record e i s = (True, remove_record i t s)" using assms(2) t by (simp add: delete_task_record_def)
  ultimately show ?thesis using remove_ok [OF assms] by blast
qed

lemma maintain_task_effect:
  assumes ok: "tasks_ok e s" "restored s" and got: "get_task_record s (t_id t) = Some t" and idle: "closed_idle fx s"
    and stable: "acp_stable rt"
  shows "\<exists>fx' s'. maintain_task e rt False (quiet rt) now t (u, fx, s) = (preview_task rt now t u, fx', s') \<and>
    settled_as e rt now t s s' \<and> closed_idle fx' s'"
proof -
  have ix: "tasks_indexed s" using ok by (simp add: tasks_ok_def)
  have t: "record_of s (t_id t) = Some t" using got ix unfolding get_task_record_def tasks_indexed_def by metis
  note lost = backing_stable [OF stable idle t, of now]
  consider (recovered) r where "task_recovery rt t = Some r"
    | (lost) "task_recovery rt t = None" "should_mark_lost rt [] t now"
    | (pruned) "task_recovery rt t = None" "\<not> should_mark_lost rt [] t now" "should_prune_task t now"
    | (stamp) "task_recovery rt t = None" "\<not> should_mark_lost rt [] t now" "\<not> should_prune_task t now" "should_stamp t"
    | (kept) "task_recovery rt t = None" "\<not> should_mark_lost rt [] t now" "\<not> should_prune_task t now" "\<not> should_stamp t"
    by fastforce
  then show ?thesis
  proof cases
    case recovered
    note r = recovery_status [OF recovered]
    then have ended: "\<not> active_task (rc_status r)" "rc_status r \<noteq> t_status t"
      by (auto simp: end_status_def active_task_def)
    obtain n s' where n: "mark_recovered e now t r s = (n, s')" "t_status n = rc_status r"
      "ends_as e (t_id t) (rc_status r) (links t) s s'"
      using recovered_effect [OF ok t refl, of r now] r by blast
    have "maintain_task e rt False (quiet rt) now t (u, fx, s) = (preview_task rt now t u, fx, s')"
      using ended by (simp add: maintain_task_def got recovered n(1,2) preview_task_def)
    moreover have "settled_as e rt now t s s'"
    proof (rule ends_settled [OF n(3)])
      show "\<not> should_prune_task t now" using prune_ended [of t now rt] recovered by auto
    qed (simp add: reconciled_view_def project_recovered_def recovered)
    ultimately show ?thesis using ends_idle [OF n(3) idle ended(1)] by blast
  next
    case lost': lost
    obtain n s' where n: "mark_task_lost e rt now t s = (n, s')" "t_status n = TLost" "ends_as e (t_id t) TLost (links t) s s'"
      using mark_lost_effect [OF ok t refl, of rt now] by blast
    have "maintain_task e rt False (quiet rt) now t (u, fx, s) = (preview_task rt now t u, fx, s')"
      using lost' by (simp add: maintain_task_def got lost n(1,2) preview_task_def quiet_def lost_input_changed_def Let_def)
    moreover have "settled_as e rt now t s s'"
    proof (rule ends_settled [OF n(3)])
      show "\<not> should_prune_task t now" using prune_ended [of t now rt "[]"] lost' by auto
    qed (simp add: reconciled_view_def project_lost_def lost')
    ultimately show ?thesis using ends_idle [OF n(3) idle] by (auto simp: active_task_def)
  next
    case pruned
    obtain s' where s': "delete_task_record e (t_id t) s = (True, s')" "tasks_ok e s'" "restored s'"
      "record_of s' = (record_of s)(t_id t := None)" using delete_record_effect [OF ok t] by blast
    have "maintain_task e rt False (quiet rt) now t (u, fx, s) = (preview_task rt now t u, cleanup_session rt s t fx, s')"
      using pruned by (simp add: maintain_task_def got lost s'(1) preview_task_def Let_def)
    moreover have "settled_as e rt now t s s'" using s' pruned by (simp add: settled_as_def)
    moreover have "closed_idle (cleanup_session rt s t fx) s'"
      by (rule fewer_idle [OF _ cleanup_idle [OF idle ix t]]) (simp add: s'(4) split: if_splits)
    ultimately show ?thesis by blast
  next
    case stamp
    obtain n s' where s': "set_cleanup_after e now (t_id t) (cleanup_time t) s = (Some n, s')" "tasks_ok e s'" "restored s'"
      "record_of s' = (record_of s)(t_id t \<mapsto> n)" "core n = core t" using stamp_effect [OF ok t] by blast
    have st: "t_status n = t_status t" "\<not> active_task (t_status t)" using s'(5) stamp(4) by (simp_all add: core_def should_stamp_def)
    have "maintain_task e rt False (quiet rt) now t (u, fx, s) = (preview_task rt now t u, cleanup_session rt s t fx, s')"
      using stamp by (simp add: maintain_task_def got lost s'(1) preview_task_def Let_def)
    moreover have "settled_as e rt now t s s'" using s' stamp st by (simp add: settled_as_def reconciled_view_def)
    moreover have "closed_idle (cleanup_session rt s t fx) s'"
      by (rule fewer_idle [OF _ cleanup_idle [OF idle ix t]]) (use st in \<open>auto simp: s'(4) split: if_splits\<close>)
    ultimately show ?thesis by blast
  next
    case kept
    have "maintain_task e rt False (quiet rt) now t (u, fx, s) = (preview_task rt now t u, cleanup_session rt s t fx, s)"
      using kept by (simp add: maintain_task_def got lost preview_task_def Let_def)
    moreover have "settled_as e rt now t s s" using ok t kept by (simp add: settled_as_def reconciled_view_def)
    ultimately show ?thesis using cleanup_idle [OF idle ix t] by blast
  qed
qed


lemma maintain_all_effect:
  assumes "tasks_ok e s" "restored s" "closed_idle fx s" and stable: "acp_stable rt"
    and "distinct (map t_id ts)" and "\<forall>t \<in> set ts. get_task_record s (t_id t) = Some t"
  shows "\<exists>fx' s'. fold (maintain_task e rt False (quiet rt) now) ts (u, fx, s) = (fold (preview_task rt now) ts u, fx', s') \<and>
    tasks_ok e s' \<and> restored s' \<and> closed_idle fx' s' \<and> (\<forall>j. j \<notin> t_id ` set ts \<longrightarrow> record_of s' j = record_of s j) \<and>
    (\<forall>t \<in> set ts. map_option t_status (record_of s' (t_id t)) =
      (if should_prune_task t now then None else Some (t_status (reconciled_view rt now t))))"
  using assms(1-3,5,6)
proof (induction ts arbitrary: u fx s)
  case Nil
  then show ?case by simp
next
  case (Cons t ts)
  have got: "get_task_record s (t_id t) = Some t" using Cons.prems(5) by simp
  obtain fx1 s1 where s1: "maintain_task e rt False (quiet rt) now t (u, fx, s) = (preview_task rt now t u, fx1, s1)"
    "settled_as e rt now t s s1" "closed_idle fx1 s1"
    using maintain_task_effect [OF Cons.prems(1,2) got Cons.prems(3) stable, of now u] by blast
  have ok1: "tasks_ok e s1" "restored s1" and same: "\<And>j. j \<noteq> t_id t \<Longrightarrow> record_of s1 j = record_of s j"
    and st: "map_option t_status (record_of s1 (t_id t)) =
      (if should_prune_task t now then None else Some (t_status (reconciled_view rt now t)))"
    using s1(2) by (simp_all add: settled_as_def)
  have new: "t_id v \<noteq> t_id t" if "v \<in> set ts" for v using Cons.prems(4) that by (metis distinct.simps(2) image_eqI list.set_map list.simps(9))
  have ids: "trim (t_id v) = t_id v" if "v \<in> set (t # ts)" for v
  proof -
    have "record_of s (trim (t_id v)) = Some v" using Cons.prems(5) that unfolding get_task_record_def by blast
    moreover have "tasks_indexed s" using Cons.prems(1,2) by (simp add: tasks_ok_def)
    ultimately show ?thesis unfolding tasks_indexed_def by metis
  qed
  have rec: "record_of s (t_id v) = Some v" if "v \<in> set ts" for v
    using Cons.prems(5) that ids [of v] unfolding get_task_record_def by (metis list.set_intros(2))
  have "get_task_record s1 (t_id v) = Some v" if "v \<in> set ts" for v
    using rec [OF that] same [OF new [OF that]] ids [of v] that by (simp add: get_task_record_def)
  then obtain fx' s' where s': "fold (maintain_task e rt False (quiet rt) now) ts (preview_task rt now t u, fx1, s1) =
      (fold (preview_task rt now) ts (preview_task rt now t u), fx', s')" "tasks_ok e s'" "restored s'" "closed_idle fx' s'"
    "\<forall>j. j \<notin> t_id ` set ts \<longrightarrow> record_of s' j = record_of s1 j"
    "\<forall>t \<in> set ts. map_option t_status (record_of s' (t_id t)) =
      (if should_prune_task t now then None else Some (t_status (reconciled_view rt now t)))"
    using Cons.IH [OF ok1 s1(3), of "preview_task rt now t u"] Cons.prems(4) by auto
  have "record_of s' (t_id t) = record_of s1 (t_id t)" using s'(5) new by (metis imageE)
  then show ?case using s' s1(1) same st by (intro exI [of _ fx'] exI [of _ s']) simp
qed

lemma list_task_records_ok:
  assumes "tasks_indexed s"
  shows "set (list_task_records s) = ran (record_of s)" and "distinct (map t_id (list_task_records s))"
proof -
  have keys: "distinct (map fst (records s))" and id: "\<And>i t. record_of s i = Some t \<Longrightarrow> t_id t = i"
    using assms by (simp_all add: tasks_indexed_def)
  have "record_of s = map_of (records s)" by (simp add: fun_eq_iff record_of_def)
  then show "set (list_task_records s) = ran (record_of s)"
    using keys by (simp add: list_task_records_def newest_first_def ran_distinct)
  have "t_id t = i" if "(i, t) \<in> set (records s)" for i t
    using id [of i t] keys that by (simp add: record_of_def)
  then have "map t_id (map snd (records s)) = map fst (records s)" by auto
  moreover have "mset (map t_id (list_task_records s)) = mset (map t_id (map snd (records s)))"
    by (simp only: mset_map list_task_records_def newest_first_def mset_sort mset_rev)
  ultimately show "distinct (map t_id (list_task_records s))" using keys by (metis mset_eq_imp_distinct_iff)
qed

lemma run_maintenance_effect:
  assumes "tasks_ok e s" "restored s" and stable: "acp_stable rt" and ids: "\<forall>t \<in> ran (record_of s). trim (t_id t) = t_id t"
  shows "\<exists>u fx s'. run_task_maintenance e rt False (quiet rt) now s = (u, fx, s') \<and> preview_task_maintenance e rt now s = (u, s) \<and>
    tasks_ok e s' \<and> restored s' \<and> closed_idle fx s' \<and> (\<forall>i. map_option t_status (record_of s' i) =
      (case record_of s i of None \<Rightarrow> None | Some t \<Rightarrow>
        if should_prune_task t now then None else Some (t_status (reconciled_view rt now t))))"
proof -
  have ix: "tasks_indexed s" using assms(1,2) by (simp add: tasks_ok_def)
  note ls = list_task_records_ok [OF ix]
  have id: "\<And>i t. record_of s i = Some t \<Longrightarrow> t_id t = i" using ix by (simp add: tasks_indexed_def)
  have "\<forall>t \<in> set (list_task_records s). get_task_record s (t_id t) = Some t"
    using ids id by (auto simp: ls(1) get_task_record_def ran_def)
  then obtain fx s' where s': "fold (maintain_task e rt False (quiet rt) now) (list_task_records s) (no_task_upkeep, [], s) =
      (fold (preview_task rt now) (list_task_records s) no_task_upkeep, fx, s')" "tasks_ok e s'" "restored s'" "closed_idle fx s'"
    "\<forall>j. j \<notin> t_id ` set (list_task_records s) \<longrightarrow> record_of s' j = record_of s j"
    "\<forall>t \<in> set (list_task_records s). map_option t_status (record_of s' (t_id t)) =
      (if should_prune_task t now then None else Some (t_status (reconciled_view rt now t)))"
    using maintain_all_effect [OF assms(1,2) _ stable ls(2), of "[]" now no_task_upkeep] by (auto simp: closed_idle_def)
  have "tasks_indexed s'" using s'(2,3) by (simp add: tasks_ok_def)
  note idle = orphans_idle [OF this s'(4), of rt "acp_sessions rt fx" "[]"]
  have "map_option t_status (record_of s' i) = (case record_of s i of None \<Rightarrow> None | Some t \<Rightarrow>
      if should_prune_task t now then None else Some (t_status (reconciled_view rt now t)))" for i
  proof (cases "record_of s i")
    case None
    then have "i \<notin> t_id ` set (list_task_records s)" using id by (auto simp: ls(1) ran_def)
    then show ?thesis using None s'(5) by simp
  next
    case (Some t)
    then have "t \<in> set (list_task_records s)" "t_id t = i" using id by (auto simp: ls(1) ran_def)
    then show ?thesis using Some s'(6) by auto
  qed
  then show ?thesis
    using s' idle by (simp add: run_task_maintenance_def preview_task_maintenance_def Let_def assms(2))
qed


section \<open>Any hook\<close>

lemma step_op: "tasks_reachable e s0 s \<Longrightarrow> task_op e (restore_tasks e s) s' \<Longrightarrow> tasks_reachable e s0 s'"
  by (erule tasks_reachable.step) (rule task_step.op)

lemma deliver_reachable: "tasks_reachable e s0 s \<Longrightarrow> tasks_reachable e s0 (deliver_terminal e now i s)"
  by (rule step_op, assumption) (use task_op.deliver [of e "restore_tasks e s" now i] in \<open>simp add: deliver_terminal_def Let_def\<close>)

lemma marked_reachable:
  assumes "tasks_reachable e s0 s"
  shows "tasks_reachable e s0 (snd (mark_task_lost e rt now t s))"
    and "end_status (rc_status r) \<Longrightarrow> tasks_reachable e s0 (snd (mark_recovered e now t r s))"
    and "tasks_reachable e s0 (snd (set_cleanup_after e now i c s))"
    and "tasks_reachable e s0 (snd (delete_task_record e i s))"
proof -
  have "tasks_reachable e s0 (snd (mark_lost e now i ended seen err cl s))" for ended seen err cl i
    by (rule step_op [OF assms])
      (use task_op.lost [of e "restore_tasks e s" now i ended seen err cl] in \<open>simp add: mark_lost_def\<close>)
  then show "tasks_reachable e s0 (snd (mark_task_lost e rt now t s))"
    by (auto simp: mark_task_lost_def Let_def deliver_reachable split: prod.split) (metis snd_conv deliver_reachable)
  have "tasks_reachable e s0 (snd (mark_terminal e now i st ended seen err summary outcome s))" if "end_status st"
    for st ended seen err summary outcome i
    by (rule step_op [OF assms])
      (use task_op.ends [OF that, of e "restore_tasks e s" now i ended seen err summary outcome] in \<open>simp add: mark_terminal_def\<close>)
  then show "tasks_reachable e s0 (snd (mark_recovered e now t r s))" if "end_status (rc_status r)"
    using that by (auto simp: mark_recovered_def Let_def split: prod.split) (metis snd_conv deliver_reachable)
  show "tasks_reachable e s0 (snd (set_cleanup_after e now i c s))"
    by (rule step_op [OF assms]) (use task_op.cleanup [of e "restore_tasks e s" now i c] in \<open>simp add: set_cleanup_after_def\<close>)
  show "tasks_reachable e s0 (snd (delete_task_record e i s))"
    by (rule tasks_reachable.step [OF assms task_step.remove])
qed

lemma maintain_task_reachable:
  assumes s: "tasks_reachable e s0 s"
    and hook: "\<And>t s. tasks_reachable e s0 s \<Longrightarrow> tasks_reachable e s0 (snd (snd (await t s)))"
  shows "tasks_reachable e s0 (snd (snd (maintain_task e rt hooked await now t (u, fx, s))))"
proof (cases "get_task_record s (t_id t)")
  case (Some cur)
  obtain rec rt1 s1 where aw: "await cur s = (rec, rt1, s1)" by (cases "await cur s")
  have s1: "tasks_reachable e s0 s1" using hook [OF s, of cur] by (simp add: aw)
  have r: "end_status (rc_status r)" if "task_recovery rt cur = Some r" for r using recovery_status [OF that] by simp
  note marked = marked_reachable [OF s] marked_reachable [OF s1]
  note del = marked(4)
  have stamp: "tasks_reachable e s0 (snd (set_cleanup_after e now i c s))"
    "tasks_reachable e s0 (snd (set_cleanup_after e now i c (snd (delete_task_record e j s))))" for i c j
    by (rule marked_reachable(3) [OF s], rule marked_reachable(3) [OF del])
  show ?thesis
  proof (cases "task_recovery rt cur")
    case r: (Some r)
    then show ?thesis using marked(2) [OF recovery_status [OF r, THEN conjunct2]]
      by (simp add: maintain_task_def Some r case_prod_beta)
  next
    case none: None
    show ?thesis
    proof (cases "should_mark_lost rt fx cur now")
      case True
      then show ?thesis using s1 marked(5)
        by (simp add: maintain_task_def Some none aw case_prod_beta Let_def split: option.split)
    next
      case False
      then show ?thesis using s del stamp
        by (simp add: maintain_task_def Some none Let_def case_prod_beta)
    qed
  qed
qed (simp add: maintain_task_def s)


section \<open>Properties\<close>

text \<open>C32: when no recovery hook is registered, nothing else changes the registry or the runtime meanwhile,
  closing one ACP session leaves the others as they are and task ids have no surrounding space, a run of the
  maintenance from any reachable state does exactly what its preview counts, and gives every task
  the status an operator is shown for it beforehand; only ended tasks are removed, those whose cleanup time
  has come.\<close>

theorem task_maintenance_as_inspected:
  assumes "tasks_reachable e s0 s" and "restored s" and "acp_stable rt"
    and "\<forall>t \<in> ran (record_of s). trim (t_id t) = t_id t"
    and "run_task_maintenance e rt False (quiet rt) now s = (u, fx, s')"
  shows "preview_task_maintenance e rt now s = (u, s) \<and> (\<forall>i. map_option t_status (record_of s' i) =
    (case record_of s i of None \<Rightarrow> None | Some t \<Rightarrow>
      if \<not> active_task (t_status t) \<and> (case t_cleanup t of Some c \<Rightarrow> c \<le> now
          | None \<Rightarrow> 604800000 \<le> now - opt_else (t_ended t) (opt_else (t_last_event t) (t_created t)))
      then None else Some (t_status (reconciled_view rt now t))))"
proof -
  have due: "should_prune_task t now \<longleftrightarrow> \<not> active_task (t_status t) \<and> (case t_cleanup t of Some c \<Rightarrow> c \<le> now
      | None \<Rightarrow> 604800000 \<le> now - opt_else (t_ended t) (opt_else (t_last_event t) (t_created t)))" for t
    by (simp add: should_prune_task_def ended_time_def task_retention_def split: option.split)
  have "tasks_ok e s" using tasks_reachable_ok [OF assms(1)] .
  from run_maintenance_effect [OF this assms(2-4), of now] show ?thesis unfolding assms(5) due [symmetric] by simp
qed

text \<open>
  The state in which a step of the maintenance decides about its task: the one it finds, or the one the
  recovery hook leaves when it is awaited.
\<close>

definition judged_in ::
  "upkeep_runtime \<Rightarrow> (task_record \<Rightarrow> tasks_state \<Rightarrow> bool \<times> upkeep_runtime \<times> tasks_state) \<Rightarrow> int \<Rightarrow>
   session_effect list \<Rightarrow> task_record \<Rightarrow> tasks_state \<Rightarrow> upkeep_runtime \<times> tasks_state" where
  "judged_in rt await now fx listed s = (case get_task_record s (t_id listed) of None \<Rightarrow> (rt, s)
     | Some cur \<Rightarrow> if task_recovery rt cur = None \<and> should_mark_lost rt fx cur now then snd (await cur s) else (rt, s))"

lemma lost_inputs:
  assumes "\<not> lost_input_changed t v"
  shows "should_mark_lost rt fx v now = should_mark_lost rt fx t now"
proof -
  have eqs: "t_status v = t_status t" "t_runtime v = t_runtime t" "t_child v = t_child t" "t_source v = t_source t"
    "t_run v = t_run t" "t_created v = t_created t" "t_started v = t_started t" "t_last_event v = t_last_event t"
    using assms by (simp_all add: lost_input_changed_def)
  show ?thesis unfolding should_mark_lost_def grace_expired_def has_backing_def active_cli_run_def
      cli_run_identity_def task_session_entry_def eqs by (rule refl)
qed

lemma lost_step:
  assumes "tasks_ok e s" "restored s" and "record_of s i = Some t" and v: "get_task_record s j = Some v"
    and n: "mark_task_lost e rt now v s = (n, s')"
  shows "\<exists>t'. record_of s' i = Some t' \<and> (t_status t' = t_status t \<or> t_status t' = TLost \<and> v = t)"
proof (cases "i = t_id v")
  case True
  then have v: "record_of s i = Some v" using v assms(1,2)
    unfolding get_task_record_def tasks_ok_def tasks_indexed_def by metis
  then have "ends_as e i TLost (links v) s s'" using mark_lost_effect [OF assms(1,2) v, of rt now] n True by auto
  then have "cores s' i = Some (i, TLost, links v)" by (simp add: ends_as_def)
  then show ?thesis using v assms(3) by (auto simp: cores_def core_def)
next
  case False
  have "record_of s (t_id v) = Some v" using v assms(1,2)
    unfolding get_task_record_def tasks_ok_def tasks_indexed_def by metis
  then show ?thesis using mark_lost_effect [OF assms(1,2) _ refl, of v rt now] n False assms(3)
    by (auto simp: ends_as_def)
qed

text \<open>C33: whatever operations run on the registry between the steps of the maintenance, and whatever they and the
  runtime do while a step awaits the recovery hook, the step leaves alone every active task that was by then
  heard of in the last five minutes or still has its backing session, unless the log or the store of its
  cron job has its result, and it never removes an active task.\<close>

theorem maintenance_spares_live_tasks:
  assumes "tasks_reachable e s0 s" and "restored s"
    and "\<And>t. tasks_reachable e s0 (snd (snd (await t s))) \<and> restored (snd (snd (await t s)))"
    and "maintain_task e rt hooked await now listed (u, fx, s) = (u', fx', s')"
    and "judged_in rt await now fx listed s = (rt1, s1)" and "record_of s1 i = Some t" and "active_task (t_status t)"
  shows "\<exists>t'. record_of s' i = Some t' \<and> (t_status t' = t_status t \<or>
    (\<exists>r. t_runtime t = RCron \<and> task_recovery rt t = Some r \<and> t_status t' = rc_status r) \<or>
    (t_status t' = TLost \<and> 300000 \<le> now - opt_else (t_last_event t) (opt_else (t_started t) (t_created t)) \<and>
      (if hooked then \<not> has_backing rt1 fx t else \<not> has_backing rt1 fx t \<or> \<not> has_backing rt fx t)))"
  (is "?spared s'")
proof -
  have ok: "tasks_ok e s" using tasks_reachable_ok [OF assms(1)] .
  have lost: "should_mark_lost rt' fx v now \<Longrightarrow> 300000 \<le> now - opt_else (t_last_event v) (opt_else (t_started v) (t_created v)) \<and>
      \<not> has_backing rt' fx v" for rt' v
    by (simp add: should_mark_lost_def grace_expired_def reconcile_grace_def split: if_splits)
  show ?thesis
  proof (cases "get_task_record s (t_id listed)")
    case None
    then show ?thesis using assms(4-7) by (auto simp: maintain_task_def judged_in_def)
  next
    case (Some cur)
    then have cur: "record_of s (t_id cur) = Some cur" using ok assms(2)
      unfolding get_task_record_def tasks_ok_def tasks_indexed_def by metis
    consider (recovered) r where "task_recovery rt cur = Some r"
      | (lost) "task_recovery rt cur = None" "should_mark_lost rt fx cur now"
      | (other) "task_recovery rt cur = None" "\<not> should_mark_lost rt fx cur now" by fastforce
    then show ?thesis
    proof cases
      case recovered
      then have s1: "record_of s i = Some t" using assms(5,6) by (simp add: judged_in_def Some)
      note r = recovery_status [OF recovered]
      obtain n where n: "ends_as e (t_id cur) (rc_status r) (links cur) s s'"
        using recovered_effect [OF ok assms(2) cur refl, of r now] r assms(4)
        by (auto simp: maintain_task_def Some recovered)
      have cron: "t_runtime cur = RCron" using recovered by (auto simp: task_recovery_def split: if_splits)
      show ?thesis
      proof (cases "i = t_id cur")
        case True
        have "cores s' i = Some (i, rc_status r, links cur)" using n True by (simp add: ends_as_def)
        then show ?thesis using True s1 cur cron recovered by (auto simp: cores_def core_def)
      qed (use n s1 in \<open>simp add: ends_as_def\<close>)
    next
      case lost': lost
      obtain rec rt2 s2 where aw: "await cur s = (rec, rt2, s2)" by (cases "await cur s")
      have j: "rt1 = rt2" "s1 = s2" using assms(5) lost' by (simp_all add: judged_in_def Some aw)
      have ok2: "tasks_ok e s2" "restored s2" using assms(3) [of cur] tasks_reachable_ok [of e s0 s2] by (simp_all add: aw)
      show ?thesis
      proof (cases "get_task_record s2 (t_id cur)")
        case None
        then show ?thesis using assms(4,6) lost' by (auto simp: maintain_task_def Some aw j)
      next
        case fresh: (Some v)
        let ?re = "hooked \<or> lost_input_changed cur v"
        let ?rt = "if ?re then rt2 else rt"
        show ?thesis
        proof (cases "s' = s2")
          case True
          then show ?thesis using assms(6) j by auto
        next
          case False
          have v: "should_mark_lost ?rt fx v now"
            using assms(4) False lost' lost_inputs [of cur v rt fx now]
            by (auto simp: maintain_task_def Some aw fresh Let_def split: if_splits)
          have "\<exists>n. mark_task_lost e ?rt now v s2 = (n, s')"
            using assms(4) False lost' by (auto simp: maintain_task_def Some aw fresh Let_def split: if_splits prod.splits)
          then obtain t' where "record_of s' i = Some t'" "t_status t' = t_status t \<or> t_status t' = TLost \<and> v = t"
            using lost_step [OF ok2 _ fresh] assms(6) j by blast
          then show ?thesis using lost [OF v] j by (auto split: if_splits)
        qed
      qed
    next
      case other
      then have s1: "record_of s i = Some t" using assms(5,6) by (simp add: judged_in_def Some)
      show ?thesis
      proof (cases "should_prune_task cur now \<or> should_stamp cur")
        case True
        then have "\<not> active_task (t_status cur)" by (auto simp: should_prune_task_def should_stamp_def split: if_splits)
        then have i: "i \<noteq> t_id cur" using cur s1 assms(7) by auto
        show ?thesis
        proof (cases "should_prune_task cur now")
          case True
          then show ?thesis using delete_record_effect [OF ok assms(2) cur] assms(4) other i s1
            by (auto simp: maintain_task_def Some Let_def)
        next
          case False
          then show ?thesis using stamp_effect [OF ok assms(2) cur, of now "cleanup_time cur"] assms(4) other True i s1
            by (auto simp: maintain_task_def Some Let_def)
        qed
      next
        case False
        then show ?thesis using assms(4) other s1 by (simp add: maintain_task_def Some Let_def)
      qed
    qed
  qed
qed

text \<open>The maintenance closes no session in which a task is still active.\<close>

lemma closed_sessions_are_idle:
  assumes "tasks_reachable e s0 s" and "restored s" and "acp_stable rt"
    and "\<forall>t \<in> ran (record_of s). trim (t_id t) = t_id t"
    and "run_task_maintenance e rt False (quiet rt) now s = (u, fx, s')"
    and "CloseSession k why \<in> set fx" and "t \<in> ran (record_of s')" and "norm_opt (t_child t) = Some k"
  shows "\<not> active_task (t_status t)"
proof -
  have ok: "tasks_ok e s" using tasks_reachable_ok [OF assms(1)] .
  have "closed_idle fx s'" using run_maintenance_effect [OF ok assms(2-4), of now] by (auto simp: assms(5))
  then show ?thesis using assms(6-8) by (auto simp: closed_idle_def active_child_def ran_def)
qed

text \<open>Whatever the recovery hook and other operations do to the registry while it is awaited, a run of the
  maintenance leads from a reachable state to a reachable one.\<close>

lemma maintenance_keeps_registry:
  assumes "tasks_reachable e s0 s"
    and "\<And>t s. tasks_reachable e s0 s \<Longrightarrow> tasks_reachable e s0 (snd (snd (await t s)))"
  shows "tasks_reachable e s0 (snd (snd (run_task_maintenance e rt hooked await now s)))"
proof -
  have "tasks_reachable e s0 (restore_tasks e s)"
    using step_op [OF assms(1), of "restore_tasks e s"] task_op.link [of e "restore_tasks e s" now "[]" "[]"]
    by (simp add: link_task_to_flow_def trim_def)
  moreover have "tasks_reachable e s0 (snd (snd (fold (maintain_task e rt hooked await now) ts c)))"
    if "tasks_reachable e s0 (snd (snd c))" for ts c
    using that
  proof (induction ts arbitrary: c)
    case (Cons t ts)
    obtain u fx s where c: "c = (u, fx, s)" by (cases c)
    show ?case using Cons.IH maintain_task_reachable [OF _ assms(2)] Cons.prems by (simp add: c)
  qed simp
  ultimately show ?thesis by (simp add: run_task_maintenance_def Let_def case_prod_beta)
qed


section \<open>Witnesses\<close>

definition plain_runtime :: upkeep_runtime where
  "plain_runtime = \<lparr>cron_authoritative = True, cron_job_active = (\<lambda>_. False), agent_running = (\<lambda>_. False),
     session_entries = (\<lambda>_. []), chat_type_of = (\<lambda>_. ChatUnknown),
     acp_entry = (\<lambda>fx k. Some \<lparr>al_failed = False, al_entry = Some (Some ''agent:main'', None),
       al_oneshot = (if list_ex (\<lambda>x. case x of CloseSession j why \<Rightarrow> j = k | _ \<Rightarrow> False) fx then None else Some True)\<rparr>),
     binding_statuses = (\<lambda>_ _. None), acp_sessions = (\<lambda>_. []), close_works = (\<lambda>_ _. True), run_log = (\<lambda>_. []),
     cron_jobs = None\<rparr>"

lemma plain_stable [simp]: "acp_stable plain_runtime"
  by (auto simp: acp_stable_def plain_runtime_def list_ex_iff split: session_effect.splits)

lemma running_ids: "\<forall>t \<in> ran (record_of running). trim (t_id t) = t_id t"
  by (rule ran_records) code_simp

lemma task_maintenance_as_inspected_witness:
  "map_option t_status (record_of (snd (snd (run_task_maintenance plain_env plain_runtime False (quiet plain_runtime) 400000 running))) ''t1'')
    = Some TLost"
proof -
  let ?r = "run_task_maintenance plain_env plain_runtime False (quiet plain_runtime) 400000 running" and ?t = "the (record_of running ''t1'')"
  have t: "record_of running ''t1'' = Some ?t" "active_task (t_status ?t)"
    "t_status (reconciled_view plain_runtime 400000 ?t) = TLost" by code_simp+
  define v where "v = ?t"
  have v: "record_of running ''t1'' = Some v" "active_task (t_status v)"
    "t_status (reconciled_view plain_runtime 400000 v) = TLost" using t by (simp_all only: v_def)
  have "?r = (fst ?r, fst (snd ?r), snd (snd ?r))" by simp
  from task_maintenance_as_inspected [OF demo_reachable(1) demo_ok(2) plain_stable running_ids this, THEN conjunct2, rule_format, of "''t1''"]
  show ?thesis unfolding v(1) option.case using v(2,3) by simp
qed

text \<open>While the hook is awaited the task reports progress.\<close>

definition heard_of :: tasks_state where
  "heard_of = snd (set_progress plain_env 399999 ''t1'' Keep (Some 399999) running)"

lemma heard_of_reachable: "tasks_reachable plain_env idle_tasks heard_of" "restored heard_of"
proof -
  have op: "task_op plain_env running heard_of" unfolding heard_of_def by (rule task_op.progress)
  show "restored heard_of" using op_ok [OF op demo_ok(2,6)] by simp
  show "tasks_reachable plain_env idle_tasks heard_of" by (rule step_op [OF demo_reachable(1)]) (simp add: op)
qed

lemma maintenance_spares_live_tasks_witness:
  "should_mark_lost plain_runtime [] (the (record_of running ''t1'')) 400000 \<and>
   (\<exists>t'. record_of (snd (snd (maintain_task plain_env plain_runtime True (\<lambda>t s. (False, plain_runtime, heard_of)) 400000
      (the (record_of running ''t1'')) (no_task_upkeep, [], running)))) ''t1'' = Some t' \<and> t_status t' = TRunning)"
proof -
  let ?l = "the (record_of running ''t1'')" and ?a = "\<lambda>(t :: task_record) (s :: tasks_state). (False, plain_runtime, heard_of)"
  let ?r = "maintain_task plain_env plain_runtime True ?a 400000 ?l (no_task_upkeep, [], running)"
  have lost: "should_mark_lost plain_runtime [] ?l 400000" "task_recovery plain_runtime ?l = None"
    "get_task_record running (t_id ?l) = Some ?l" by code_simp+
  have j: "judged_in plain_runtime ?a 400000 [] ?l running = (plain_runtime, heard_of)"
    unfolding judged_in_def lost(3) option.case using lost(1,2) by simp
  let ?t = "the (record_of heard_of ''t1'')"
  have t: "record_of heard_of ''t1'' = Some ?t" "active_task (t_status ?t)" by code_simp+
  have facts: "t_status ?t = TRunning" "t_runtime ?t \<noteq> RCron"
    "\<not> 300000 \<le> 400000 - opt_else (t_last_event ?t) (opt_else (t_started ?t) (t_created ?t))" by code_simp+
  have hook: "tasks_reachable plain_env idle_tasks (snd (snd (?a v running))) \<and> restored (snd (snd (?a v running)))" for v
    using heard_of_reachable by simp
  have "?r = (fst ?r, fst (snd ?r), snd (snd ?r))" by simp
  from maintenance_spares_live_tasks [OF demo_reachable(1) demo_ok(2) hook this j t] lost(1)
  show ?thesis using facts by auto
qed

definition acp_job :: task_params where
  "acp_job = copy_job\<lparr>n_runtime := RAcp, n_child := Some ''agent:main:acp:9'', n_run := Some ''r2'', n_parent_flow := None\<rparr>"

definition acp_running :: tasks_state where
  "acp_running = snd (create_task_record plain_env ''t2'' 30 acp_job running)"

definition acp_stopped :: tasks_state where
  "acp_stopped = snd (mark_terminal plain_env 40 ''t2'' TSucceeded 40 None None Keep Keep acp_running)"

lemma acp_demo: "tasks_reachable plain_env idle_tasks acp_stopped" "restored acp_stopped"
proof -
  have "record_of running ''t2'' = None" by code_simp
  then have op: "task_op plain_env running acp_running" unfolding acp_running_def by (rule task_op.create)
  then have r: "restored acp_running" "tasks_ok plain_env acp_running" using op_ok [OF op demo_ok(2,6)] by simp_all
  have op2: "task_op plain_env acp_running acp_stopped" unfolding acp_stopped_def by (rule task_op.ends) (simp add: end_status_def)
  show "restored acp_stopped" using op_ok [OF op2 r] by simp
  have "tasks_reachable plain_env idle_tasks acp_running" by (rule step_op [OF demo_reachable(1)]) (simp add: op)
  then show "tasks_reachable plain_env idle_tasks acp_stopped" by (rule step_op) (simp add: op2 r)
qed

end
