(* ===== verification/Executor_Properties.thy ===== *)
theory Executor_Properties
  imports Task_Executor Task_Upkeep
begin

text \<open>
  The properties of the task executor: what a cancelled flow is, that a cancellation succeeds when its
  runtimes do, who may start and cancel what, and what a task run in a flow belongs to.
\<close>

section \<open>Operations on tasks keep the flow registry consistent\<close>

text \<open>A patch that leaves the JSON columns alone or sets the wait column to \<^verbatim>\<open>null\<close>.\<close>

lemma plain_update_ok:
  assumes ok: "registry_ok io r" and "null_fits io" and p: "p_state p = None" "p_wait p = None \<or> p_wait p = Some JNull"
  shows "registry_ok io (snd (update_expected io clock i v p r))"
proof (rule update_expected_ok [OF ok])
  fix cur g
  assume "map_of (flows r) i = Some cur" and g: "apply_flow_patch clock cur p = Inr g"
  then have "row_ok io cur" using ok by (simp add: registry_ok_def)
  moreover have "state_json g = state_json cur" "wait_json g \<in> {wait_json cur, Some JNull}"
    using apply_patch_facts(12,13) [OF g] p by (auto simp: patch_json_def)
  ultimately show "json_fits (ser io) (par io) (state_json g) \<and> json_fits (ser io) (par io) (wait_json g)"
    using assms(2) by (auto simp: row_ok_def null_fits_def)
qed

lemma cancel_patch_ok:
  "registry_ok io r \<Longrightarrow> null_fits io \<Longrightarrow> registry_ok io (snd (update_expected io clock i v (cancel_flow_patch c) r))"
  by (rule plain_update_ok) (simp_all add: cancel_flow_patch_def empty_patch_def)

lemma request_cancel_ok:
  "registry_ok io r \<Longrightarrow> null_fits io \<Longrightarrow> registry_ok io (snd (request_cancel io clock i v c u r))"
  unfolding request_cancel_def by (rule plain_update_ok) (simp_all add: empty_patch_def)

lemma cancel_attempts_ok:
  "null_fits (jio e) \<Longrightarrow> registry_ok (jio e) (flow_reg s) \<Longrightarrow> registry_ok (jio e) (flow_reg (cancel_attempts n e now fid c f s))"
proof (induction n arbitrary: f s)
  case (Suc n)
  obtain res r where w: "update_expected (jio e) now fid (revision f) (cancel_flow_patch c) (flow_reg s) = (res, r)" by fastforce
  then have "registry_ok (jio e) r" using cancel_patch_ok [OF Suc.prems(2,1), of now fid "revision f" c] by simp
  then have "registry_ok (jio e) (flow_reg (cancel_attempts n e now fid c cur (s\<lparr>flow_reg := r\<rparr>)))"
    "registry_ok (jio e) (flow_reg (s\<lparr>flow_reg := r\<rparr>))" for cur using Suc.IH Suc.prems(1) by simp_all
  then show ?case by (simp add: w Let_def split: sum.split update_result.split)
qed simp

lemma sync_cancellation_ok:
  "null_fits (jio e) \<Longrightarrow> registry_ok (jio e) (flow_reg s) \<Longrightarrow> registry_ok (jio e) (flow_reg (sync_cancellation e now t s))"
  by (auto simp: sync_cancellation_def flow_at_ok cancel_attempts_ok split: option.split)

lemma restore_flow_reg: "flow_reg (restore_tasks e s) = flow_reg s"
  by (simp add: restore_tasks_def rebuild_all_def rebuild_runs_def Let_def)

interpretation flow_keeping: task_relation
  "\<lambda>s s'. null_fits (jio e) \<and> registry_ok (jio e) (flow_reg s) \<longrightarrow> registry_ok (jio e) (flow_reg s')" e for e
proof unfold_locales
  fix s :: tasks_state and i t patch now
  assume t: "record_of s i = Some t"
  obtain s1 where s1: "flow_reg s1 = snd (sync_flow_from_task (jio e) now (revise now patch t) (flow_reg s))"
    "flow_reg (snd (update_record e now i patch s)) = flow_reg (sync_cancellation e now (revise now patch t) s1)"
    using update_record_flows [OF t, of now patch e] by (auto simp: Let_def)
  then show "null_fits (jio e) \<and> registry_ok (jio e) (flow_reg s) \<longrightarrow>
      registry_ok (jio e) (flow_reg (snd (update_record e now i patch s)))"
    using sync_flow_ok [of "jio e" "flow_reg s" now "revise now patch t"] sync_cancellation_ok [of e s1] by simp
next
  fix s :: tasks_state and t :: task_record and now origin
  show "null_fits (jio e) \<and> registry_ok (jio e) (flow_reg s) \<longrightarrow>
      registry_ok (jio e) (flow_reg (insert_record e now origin t s))"
    using sync_flow_ok [of "jio e" "flow_reg s" now t] by (simp add: insert_record_def Let_def sync_flow_def index_task_def)
qed (auto simp: flow_at_ok restore_flow_reg)

section \<open>Sound states\<close>

definition sound :: "task_env \<Rightarrow> tasks_state \<Rightarrow> tasks_state \<Rightarrow> bool" where
  "sound e s0 s \<longleftrightarrow> tasks_reachable e s0 s \<and> restored s \<and> registry_ok (jio e) (flow_reg s) \<and> null_fits (jio e)"

lemma sound_facts:
  assumes "sound e s0 s"
  shows "restored s" "registry_ok (jio e) (flow_reg s)" "null_fits (jio e)" "tasks_ok e s" "tasks_indexed s"
    "tasks_reachable e s0 s"
  using assms tasks_reachable_ok [of e s0 s] by (auto simp: sound_def tasks_ok_def)

lemma sound_op:
  assumes "sound e s0 s" and op: "task_op e s s'" and "registry_ok (jio e) (flow_reg s')"
  shows "sound e s0 s'"
proof -
  note s = sound_facts [OF assms(1)]
  have "restored s'" using op_ok [OF op s(1,4)] by simp
  moreover have "tasks_reachable e s0 s'"
    by (rule tasks_reachable.step [OF s(6)], rule task_step.op) (use op s(1) in simp)
  ultimately show ?thesis using assms(3) s(3) by (simp add: sound_def)
qed


text \<open>What runs while a cancellation is awaited are operations of the registry.\<close>

definition control_sound :: "task_env \<Rightarrow> tasks_state \<Rightarrow> control \<Rightarrow> bool" where
  "control_sound e s0 c \<longleftrightarrow>
     (\<forall>own i s. own_cancel c = Some own \<longrightarrow> sound e s0 s \<longrightarrow> sound e s0 (snd (own i s))) \<and>
     (\<forall>k s. sound e s0 s \<longrightarrow> sound e s0 (snd (acp_cancel c k s))) \<and>
     (\<forall>k s. sound e s0 s \<longrightarrow> sound e s0 (snd (kill_run c k s)))"

lemma cancel_task_sound: "sound e s0 s \<Longrightarrow> sound e s0 (snd (cancel_task e now i reason s))"
  using flow_keeping.cancel_task [of e s now i reason] sound_facts [of e s0 s]
  by (intro sound_op [OF _ task_op.cancel]) auto

lemma commit_sound: "sound e s0 s \<Longrightarrow> sound e s0 (snd (cancel_commit e now i reason s))"
  using flow_keeping.cancel_commit [of e s now i reason] sound_facts [of e s0 s]
  by (intro sound_op [OF _ task_op.commit]) auto

lemma cancel_by_id_sound:
  assumes c: "control_sound e s0 c" and s: "sound e s0 s"
  shows "sound e s0 (snd (cancel_task_by_id e c i reason s))"
proof -
  let ?now = "clock_at c i"
  obtain res s1 where w: "cancel_task e ?now i reason s = (res, s1)" by fastforce
  have s1: "sound e s0 s1" using cancel_task_sound [OF s, of ?now i reason] by (simp add: w)
  show ?thesis
  proof (cases res)
    case (CancelAwaits t)
    let ?k = "opt_else (norm_opt (t_child t)) []"
    obtain a s2 where a: "acp_cancel c ?k s1 = (a, s2)" by fastforce
    obtain b s3 where b: "kill_run c ?k s1 = (b, s3)" by fastforce
    have "sound e s0 s2" "sound e s0 s3"
      using c s1 a b unfolding control_sound_def by (metis snd_conv)+
    then show ?thesis
      by (auto simp: cancel_task_by_id_def Let_def w CancelAwaits a b commit_reply_def intro: commit_sound
          split: option.split sum.split)
  qed (use s1 in \<open>auto simp: cancel_task_by_id_def Let_def w\<close>)
qed

lemma cancel_detached_sound:
  assumes c: "control_sound e s0 c" and s: "sound e s0 s"
  shows "sound e s0 (snd (cancel_detached e c i s))"
proof -
  note core = cancel_by_id_sound [OF c]
  have own: "sound e s0 s1" if "own_cancel c = Some own" "own i s = (r, s1)" for own r s1
    using c s that unfolding control_sound_def by (metis snd_conv)
  show ?thesis
    using core [OF s] own core
    by (auto simp: cancel_detached_def Let_def sound_facts [OF s] split: option.split prod.split sum.split)
qed

lemma cancel_children_sound:
  "control_sound e s0 c \<Longrightarrow> sound e s0 s \<Longrightarrow> sound e s0 (snd (cancel_children e c ts s))"
proof (induction ts arbitrary: s)
  case (Cons t ts)
  obtain r s1 where w: "cancel_detached e c (t_id t) s = (r, s1)" by fastforce
  then have "sound e s0 s1" using cancel_detached_sound [OF Cons.prems, of "t_id t"] by simp
  then show ?case using Cons.IH Cons.prems(1) by (simp add: w split: sum.split)
qed simp

section \<open>What a cancelled flow is\<close>

lemma settle_update_Applied:
  assumes "settle_update e fid w s = (Inr (Inr f), s')"
  shows "fst w = Inr (Applied f)" and "s' = s\<lparr>flow_reg := snd w\<rparr>"
  using assms by (auto simp: settle_update_def Let_def flow_update_failure_def split: sum.splits update_result.splits prod.splits)

lemma mark_sound:
  assumes s: "sound e s0 s"
  shows "sound e s0 (snd (mark_flow_cancel_requested e now f s))"
proof -
  let ?w = "request_cancel (jio e) now (flow_id f) (revision f) None None (flow_reg s)"
  note ok = sound_facts [OF s]
  have reg: "registry_ok (jio e) (snd ?w)" by (rule request_cancel_ok [OF ok(2,3)])
  have "sound e s0 (s\<lparr>flow_reg := snd ?w\<rparr>)"
    by (rule sound_op [OF s]) (use reg in \<open>auto simp: request_cancel_def intro!: task_op.flows flow_step.update\<close>)
  then show ?thesis
    using s reg by (auto simp: mark_flow_cancel_requested_def settle_update_def Let_def flow_update_failure_def flow_at_ok
        split: sum.split update_result.split)
qed

lemma settled_sound:
  assumes s: "sound e s0 s"
  shows "sound e s0 (snd (cancel_settled_flow e now f s))"
proof -
  let ?w = "update_expected (jio e) now (flow_id f) (revision f) (cancel_flow_patch now) (flow_reg s)"
  note ok = sound_facts [OF s]
  have reg: "registry_ok (jio e) (snd ?w)" by (rule cancel_patch_ok [OF ok(2,3)])
  have "sound e s0 (s\<lparr>flow_reg := snd ?w\<rparr>)"
    by (rule sound_op [OF s]) (use reg in \<open>auto intro!: task_op.flows flow_step.update\<close>)
  then show ?thesis
    using reg by (auto simp: cancel_settled_flow_def settle_update_def Let_def flow_update_failure_def flow_at_ok
        split: sum.split update_result.split)
qed


lemma applied_facts:
  assumes "registry_ok io r" and u: "update_expected io clock i v p r = (Inr (Applied f), r')"
  shows "flow_id f = i" and "status f = opt_else (p_status p) (status (the (map_of (flows r) i)))"
    and "mode f = mode (the (map_of (flows r) i))"
    and "cancel_requested_at f = patch_number (p_cancel p) (cancel_requested_at (the (map_of (flows r) i)))"
proof -
  obtain cur where cur: "map_of (flows r) i = Some cur" "apply_flow_patch clock cur p = Inr f"
    using assms by (cases rule: update_expected_cases) auto
  then show "flow_id f = i" "status f = opt_else (p_status p) (status (the (map_of (flows r) i)))"
    "mode f = mode (the (map_of (flows r) i))"
    "cancel_requested_at f = patch_number (p_cancel p) (cancel_requested_at (the (map_of (flows r) i)))"
    using assms(1) apply_patch_facts [OF cur(2)] by (auto simp: registry_ok_def)
qed

lemma active_of_flow:
  assumes "tasks_indexed s" and "\<not> list_ex (\<lambda>t. active_task (t_status t)) (tasks_of_flow s fid)"
    and "t \<in> ran (record_of s)" and "norm_opt (t_parent_flow t) = Some (trim fid)"
  shows "\<not> active_task (t_status t)"
proof -
  have "norm_opt (Some fid) = Some (trim fid)"
    using norm_opt_trim [OF assms(4)] by (simp add: norm_opt_def Let_def)
  then have "\<not> has_active_tasks s fid \<longrightarrow> \<not> active_task (t_status t)"
    using assms(3,4) by (simp add: has_active_iff [OF assms(1)] flow_key_def)
  then show ?thesis using assms(2) by (simp add: has_active_tasks_def)
qed

lemma finish_cancel_truth:
  assumes s: "sound e s0 s" and id: "flow_id f = fid" and f: "\<not> flow_closed (status f)"
    and run: "finish_cancel e later fid f s = (Inr r, s')" and yes: "cf_cancelled r"
  shows "\<exists>g. cf_flow r = Some g \<and> flow_id g = fid \<and> map_of (flows (flow_reg s')) fid = Some g \<and> status g = FCancelled \<and>
    record_of s' = record_of s \<and> tasks_indexed s' \<and> \<not> list_ex (\<lambda>t. active_task (t_status t)) (tasks_of_flow s fid)"
proof -
  note ok = sound_facts [OF s]
  let ?g = "map_of (flows (flow_reg s)) fid" and ?ts = "tasks_of_flow s fid"
  define f1 where "f1 = (case ?g of Some x \<Rightarrow> x | None \<Rightarrow> f)"
  have f1: "flow_id f1 = fid" using ok(2) id by (auto simp: f1_def registry_ok_def split: option.split)
  let ?w = "update_expected (jio e) later fid (revision f1) (cancel_flow_patch later) (flow_reg s)"
  have run: "(if list_ex (\<lambda>t. active_task (t_status t)) ?ts
      then (Inr (flow_reply False (Some ''One or more child tasks are still active.'') (Some f1) ?ts), s)
      else if flow_closed (status f1)
      then (Inr (flow_reply (status f1 = FCancelled)
        (if status f1 = FCancelled then None else Some (''Flow is already '' @ flow_status_text (status f1) @ ''.'')) (Some f1) ?ts), s)
      else (case cancel_settled_flow e later f1 s of
          (Inl msg, s2) \<Rightarrow> (Inl msg, s2)
        | (Inr (Inl (reason, cur)), s2) \<Rightarrow> (Inr (flow_reply False (Some reason) cur ?ts), s2)
        | (Inr (Inr f2), s2) \<Rightarrow> (Inr (flow_reply True None (Some f2) ?ts), s2))) = (Inr r, s')"
    using run unfolding finish_cancel_def Let_def restore_idle [OF ok(1)] flow_at_ok [OF ok(2)] prod.case f1_def [symmetric] .
  show ?thesis
  proof (cases "list_ex (\<lambda>t. active_task (t_status t)) ?ts")
    case True
    then show ?thesis using run yes by (auto simp: flow_reply_def)
  next
    case idle: False
    show ?thesis
    proof (cases "flow_closed (status f1)")
      case True
      then have e: "flow_reply (status f1 = FCancelled) (if status f1 = FCancelled then None
          else Some (''Flow is already '' @ flow_status_text (status f1) @ ''.'')) (Some f1) ?ts = r" "s = s'"
        using run unfolding if_not_P [OF idle] if_P [OF True] prod.inject sum.inject by blast+
      note r = e(1) [symmetric] and s' = e(2) [symmetric]
      have "status f1 = FCancelled" using yes by (simp add: r flow_reply_def)
      moreover have "?g = Some f1" using True f by (cases ?g) (auto simp: f1_def)
      ultimately show ?thesis using f1 idle ok(5) by (simp add: r s' flow_reply_def)
    next
      case open_flow: False
      then obtain f2 where w: "cancel_settled_flow e later f1 s = (Inr (Inr f2), s')" and r: "r = flow_reply True None (Some f2) ?ts"
        using run idle yes by (auto simp: flow_reply_def split: prod.splits sum.splits)
      have w': "settle_update e fid ?w s = (Inr (Inr f2), s')" using w by (simp add: cancel_settled_flow_def f1)
      note a = settle_update_Applied [OF w']
      obtain r' where u: "?w = (Inr (Applied f2), r')" using a(1) by (cases ?w) simp
      note m = update_expected_applied [OF ok(2) u]
      have p: "flow_id f2 = fid" "status f2 = FCancelled"
        using applied_facts [OF ok(2) u] by (simp_all add: cancel_flow_patch_def opt_else_def)
      have "record_of s' = record_of s" "tasks_indexed s'"
        using ok(5) by (auto simp: a(2) record_of_def indexed_same [OF same_flows])
      then show ?thesis using m p idle by (auto simp: r flow_reply_def a(2) u)
    qed
  qed
qed

lemma mark_facts:
  assumes s: "sound e s0 s" and f: "map_of (flows (flow_reg s)) fid = Some f"
    and m: "mark_flow_cancel_requested e now f s = (Inr (Inr f1), s1)"
  shows "flow_id f1 = fid" and "status f1 = status f" and "mode f1 = mode f" and "cancel_requested_at f1 \<noteq> None"
    and "map_of (flows (flow_reg s1)) = (map_of (flows (flow_reg s)))(fid \<mapsto> f1)" and "s1 = s\<lparr>flow_reg := flow_reg s1\<rparr>"
proof -
  note ok = sound_facts [OF s]
  have id: "flow_id f = fid" using ok(2) f by (simp add: registry_ok_def)
  let ?w = "request_cancel (jio e) now fid (revision f) None None (flow_reg s)"
  have "flow_id f1 = fid \<and> status f1 = status f \<and> mode f1 = mode f \<and> cancel_requested_at f1 \<noteq> None \<and>
    map_of (flows (flow_reg s1)) = (map_of (flows (flow_reg s)))(fid \<mapsto> f1) \<and> s1 = s\<lparr>flow_reg := flow_reg s1\<rparr>"
  proof (cases "cancel_requested_at f")
    case None
    then have w: "settle_update e fid ?w s = (Inr (Inr f1), s1)" using m by (simp add: mark_flow_cancel_requested_def id)
    note a = settle_update_Applied [OF w]
    obtain r' where "?w = (Inr (Applied f1), r')" using a(1) by (cases ?w) simp
    then have u: "update_expected (jio e) now fid (revision f)
        (empty_patch\<lparr>p_cancel := Put now, p_updated := None\<rparr>) (flow_reg s) = (Inr (Applied f1), r')"
      by (simp add: request_cancel_def opt_else_def)
    have s1: "s1 = s\<lparr>flow_reg := r'\<rparr>" using a(2) u by (simp add: request_cancel_def opt_else_def)
    show ?thesis
      using update_expected_applied [OF ok(2) u] applied_facts [OF ok(2) u]
      by (simp add: s1 f empty_patch_def opt_else_def patch_number_def)
  next
    case (Some x)
    then show ?thesis using m f id by (auto simp: mark_flow_cancel_requested_def)
  qed
  then show "flow_id f1 = fid" "status f1 = status f" "mode f1 = mode f" "cancel_requested_at f1 \<noteq> None"
    "map_of (flows (flow_reg s1)) = (map_of (flows (flow_reg s)))(fid \<mapsto> f1)" "s1 = s\<lparr>flow_reg := flow_reg s1\<rparr>" by blast+
qed

text \<open>C29: when \<^verbatim>\<open>cancelFlowById\<close> answers that a flow was cancelled, it is so: whatever the runtimes of its
  tasks did meanwhile, the flow is stored with the status cancelled and none of its tasks is active.\<close>

theorem cancelled_flow_is_idle:
  assumes "sound e s0 s" and "control_sound e s0 c"
    and "cancel_flow e c now later fid s = (Inr r, s')" and "cf_cancelled r"
  shows "\<exists>f. cf_flow r = Some f \<and> flow_id f = fid \<and> map_of (flows (flow_reg s')) fid = Some f \<and> status f = FCancelled \<and>
    (\<forall>t \<in> ran (record_of s'). norm_opt (t_parent_flow t) = Some (trim fid) \<longrightarrow> \<not> active_task (t_status t))"
proof -
  note ok = sound_facts [OF assms(1)]
  obtain f where f: "map_of (flows (flow_reg s)) fid = Some f" "\<not> flow_closed (status f)"
    using assms(3,4)
    by (auto simp: cancel_flow_def flow_at_ok [OF ok(2)] no_flow_reply_def flow_reply_def Let_def split: option.splits if_splits)
  have id: "flow_id f = fid" using ok(2) f by (simp add: registry_ok_def)
  obtain f1 s1 where m: "mark_flow_cancel_requested e now f s = (Inr (Inr f1), s1)"
    using assms(3,4) f
    by (auto simp: cancel_flow_def flow_at_ok [OF ok(2)] flow_reply_def Let_def id split: prod.splits sum.splits)
  note mf = mark_facts [OF assms(1) f(1) m]
  have s1: "sound e s0 s1" using mark_sound [OF assms(1), of now f] by (simp add: m)
  let ?ts = "filter (\<lambda>t. active_task (t_status t)) (tasks_of_flow s1 fid)"
  obtain s2 where ch: "cancel_children e c ?ts s1 = (None, s2)" and fin: "finish_cancel e later fid f1 s2 = (Inr r, s')"
    using assms(3) f by (auto simp: cancel_flow_def flow_at_ok [OF ok(2)] Let_def id m sound_facts [OF s1] split: prod.splits option.splits)
  have s2: "sound e s0 s2" using cancel_children_sound [OF assms(2) s1, of ?ts] by (simp add: ch)
  obtain g where g: "cf_flow r = Some g" "flow_id g = fid" "map_of (flows (flow_reg s')) fid = Some g" "status g = FCancelled"
    "record_of s' = record_of s2" "\<not> list_ex (\<lambda>t. active_task (t_status t)) (tasks_of_flow s2 fid)"
    using finish_cancel_truth [OF s2 mf(1) _ fin assms(4)] f(2) mf(2) by auto
  then show ?thesis using active_of_flow [OF sound_facts(5) [OF s2] g(6)] by auto
qed

section \<open>A cancellation succeeds\<close>

definition prompt_control :: "control \<Rightarrow> bool" where
  "prompt_control c \<longleftrightarrow> own_cancel c = None \<and> (\<forall>k s. acp_cancel c k s = (None, s)) \<and>
     (\<forall>k s. kill_run c k s = (Inr (True, True), s))"

definition cancellable :: "task_record \<Rightarrow> bool" where
  "cancellable t \<longleftrightarrow> t_runtime t = RCli \<or> (t_runtime t = RAcp \<or> t_runtime t = RSubagent) \<and> norm_opt (t_child t) \<noteq> None"

lemma prompt_sound: "prompt_control c \<Longrightarrow> control_sound e s0 c"
  by (simp add: prompt_control_def control_sound_def)

text \<open>The flow of a task: the updates that cancel the task leave its status or make it cancelled.\<close>

definition flow_heads :: "string \<Rightarrow> flow_status \<Rightarrow> tasks_state \<Rightarrow> bool" where
  "flow_heads fid st s \<longleftrightarrow> (\<exists>f. map_of (flows (flow_reg s)) fid = Some f \<and> (status f = st \<or> status f = FCancelled))"

lemma update_heads:
  assumes ix: "tasks_indexed s" and ok: "registry_ok (jio e) (flow_reg s)" "null_fits (jio e)"
    and t: "record_of s i = Some t" and ch: "task_change t (patch t)" "flow_key (patch t) = Some fid" "t_status (patch t) = TCancelled"
    and h: "flow_heads fid st s"
  shows "flow_heads fid st (snd (update_record e now i patch s))"
proof -
  obtain f where f: "map_of (flows (flow_reg s)) fid = Some f" "status f = st \<or> status f = FCancelled"
    using h by (auto simp: flow_heads_def)
  show ?thesis
  proof (cases "mode f")
    case TaskMirrored
    have "derive_status (revise now patch t) = FCancelled" using ch(3) by (simp add: derive_status_def)
    then show ?thesis using update_mirrored [where patch = patch and now = now, OF t ch(2) ok f(1) TaskMirrored] by (auto simp: flow_heads_def)
  next
    case Managed
    show ?thesis
      using update_managed [where now = now and e = e and patch = patch, OF ix t ch(1,2) ok(1) f(1) Managed refl] f
      by (auto simp: flow_heads_def split: if_splits)
  qed
qed

lemma owner_idle: "registry_ok (jio e) (flow_reg s) \<Longrightarrow> delivery_owner_of e t s = (w, s1) \<Longrightarrow> s1 = s"
  by (auto simp: delivery_owner_of_def linked_flow_def flow_at_ok split: option.splits prod.splits if_splits)

lemma emit_none: "emit [] s = s" and emit_twice: "emit ys (emit xs s) = emit (xs @ ys) s"
  by (simp_all add: emit_def)

lemma queue_terminal_emits:
  assumes ok: "registry_ok (jio e) (flow_reg s)"
  shows "\<exists>es. queue_terminal e t msg s = emit es s"
proof -
  obtain w s1 where w: "delivery_owner_of e t s = (w, s1)" by (cases "delivery_owner_of e t s")
  have "s1 = s" by (rule owner_idle [OF ok w])
  then obtain es where es: "queue_event e t msg s = emit es s"
    using w emit_none [of s, symmetric] by (cases "owner_session w") (auto simp: queue_event_def)
  obtain v s2 where v: "delivery_owner_of e t (emit es s) = (v, s2)" by (cases "delivery_owner_of e t (emit es s)")
  have "s2 = emit es s" using owner_idle [OF _ v] ok by simp
  then have "\<exists>ds. queue_followup e t (emit es s) = emit ds (emit es s)"
    using v emit_none [of "emit es s", symmetric] by (cases "owner_session v") (auto simp: queue_followup_def)
  then show ?thesis by (auto simp: queue_terminal_def Let_def es emit_twice)
qed

lemma deliver_heads:
  assumes ix: "tasks_indexed s" "restored s" and ok: "registry_ok (jio e) (flow_reg s)" "null_fits (jio e)"
    and t: "record_of s i = Some t" and st: "flow_key t = Some fid" "t_status t = TCancelled" and h: "flow_heads fid st s"
  shows "flow_heads fid st (deliver_terminal e now i s)"
proof -
  obtain w s1 where w: "delivery_owner_of e t s = (w, s1)" by (cases "delivery_owner_of e t s")
  have s1: "s1 = s" by (rule owner_idle [OF ok(1) w])
  have upd: "flow_heads fid st (snd (update_record e now i (set_delivery d now) s2))"
    if "flow_reg s2 = flow_reg s" "tasks_indexed s2" "records s2 = records s" for d s2
  proof (rule update_heads)
    show "record_of s2 i = Some t" using t that(3) by (simp add: record_of_def)
    show "task_change t (set_delivery d now t)" "flow_key (set_delivery d now t) = Some fid" "t_status (set_delivery d now t) = TCancelled"
      using st by (simp_all add: task_change_def set_delivery_def flow_key_def)
  qed (use that ok h in \<open>simp_all add: flow_heads_def\<close>)
  obtain es where es: "queue_terminal e t (terminal_text e t) s = emit es s" using queue_terminal_emits [OF ok(1)] by blast
  have "flow_heads fid st (snd (update_record e now i (set_delivery d now) s))"
    "flow_heads fid st (snd (update_record e now i (set_delivery d now) (emit es s)))" for d
    by (rule upd; simp add: ix)+
  moreover have "flow_heads fid st (s\<lparr>delivering := ds, sends := ms\<rparr>)" for ds ms using h by (simp add: flow_heads_def)
  ultimately show ?thesis
    using h unfolding deliver_terminal_def Let_def restore_idle [OF ix(2)] t option.case w prod.case s1 es
    by (auto split: option.split)
qed

lemma commit_cancels:
  assumes s: "sound e s0 s" and t: "record_of s i = Some t" and key: "flow_key t = Some fid" and h: "flow_heads fid st s"
  shows "\<exists>n s'. cancel_commit e now i reason s = (Cancelled (Some n), s') \<and> flow_heads fid st s' \<and>
    ends_as e i TCancelled (links t) s s'"
proof -
  define patch where "patch = (\<lambda>t :: task_record. t\<lparr>t_status := TCancelled, t_ended := Some now, t_last_event := Some now,
     t_error := Some (opt_else (norm_opt reason) ''Cancelled by operator.'')\<rparr>)"
  let ?s1 = "snd (update_record e now i patch s)"
  note ok = sound_facts [OF s]
  have id: "t_id t = i" using ok(5) t by (simp add: tasks_indexed_def)
  have core: "core (patch t) = (i, TCancelled, links t)" by (simp add: core_def links_def patch_def id)
  have ch: "task_change t (patch t)" "flow_key (patch t) = Some fid" "t_status (patch t) = TCancelled"
    using key by (simp_all add: task_change_def patch_def flow_key_def terminal_task_def)
  have form: "cancel_commit e now i reason s = (case update_record e now i patch s of
      (None, s1) \<Rightarrow> (Cancelled None, s1) | (Some t, s1) \<Rightarrow> (Cancelled (Some t), deliver_terminal e now (t_id t) s1))"
    by (simp only: cancel_commit_def patch_def)
  have op: "task_op e s ?s1"
  proof -
    have "snd (mark_terminal e now i TCancelled now (Some now) (Some (opt_else (norm_opt reason) ''Cancelled by operator.'')) Keep Keep s) = ?s1"
      unfolding mark_terminal_def restore_idle [OF ok(1)]
      by (rule arg_cong [where f = "\<lambda>p. snd (update_record e now i p s)"], rule ext, rule task_record.equality)
        (simp_all add: patch_def patch_summary_def patch_outcome_def patch_some_def opt_else_def)
    then show ?thesis by (metis task_op.ends end_status_def)
  qed
  note fin = end_effect [where patch = patch, OF ok(4,1) t core op]
  have "sound e s0 ?s1"
    using flow_keeping.update_any [of s i patch e now] t ch(1) ok(2,3) by (intro sound_op [OF s op]) auto
  note ok1 = sound_facts [OF this]
  have r1: "record_of ?s1 i = Some (revise now patch t)" by (simp add: update_record_at [OF t])
  have "flow_heads fid st ?s1" by (rule update_heads [where patch = patch, OF ok(5,2,3) t ch h])
  then have "flow_heads fid st (deliver_terminal e now i ?s1)"
    using ch by (intro deliver_heads [OF ok1(5,1,2,3) r1]) simp_all
  moreover have "cancel_commit e now i reason s = (Cancelled (Some (revise now patch t)), deliver_terminal e now i ?s1)"
    using fin(1,2) by (cases "update_record e now i patch s") (simp add: form core_def)
  ultimately show ?thesis using fin(3) by (auto simp: ends_as_def Let_def)
qed

lemma child_cancels:
  assumes s: "sound e s0 s" and c: "prompt_control c" and i: "trim i = i" and t: "record_of s i = Some t"
    and run: "active_task (t_status t)" "cancellable t" and key: "flow_key t = Some fid" and h: "flow_heads fid st s"
  shows "\<exists>r s'. cancel_detached e c i s = (Inr r, s') \<and> sound e s0 s' \<and> flow_heads fid st s' \<and>
    ends_as e i TCancelled (links t) s s'"
proof -
  note ok = sound_facts [OF s]
  have id: "t_id t = i" using ok(5) t by (simp add: tasks_indexed_def)
  have live: "\<not> terminal_task (t_status t)" using run(1) by (auto simp: active_task_def terminal_task_def)
  obtain n s' where w: "cancel_commit e (clock_at c i) i None s = (Cancelled (Some n), s')" "flow_heads fid st s'"
    "ends_as e i TCancelled (links t) s s'"
    using commit_cancels [OF s t key h] by blast
  have task: "cancel_task e (clock_at c i) i None s =
      (if t_runtime t = RCli then (Cancelled (Some n), s') else (CancelAwaits t, s))"
    using run(2) live by (auto simp: cancel_task_def Let_def ok(1) i t id w(1) cancellable_def)
  have "\<exists>r. cancel_task_by_id e c i None s = (r, s')"
    using c run(2) unfolding cancel_task_by_id_def Let_def task
    by (auto simp: prompt_control_def cancellable_def id w(1) commit_reply_def)
  then obtain r where "cancel_task_by_id e c i None s = (r, s')" by blast
  then have r: "cancel_detached e c i s = (Inr r, s')"
    using c by (simp add: cancel_detached_def Let_def ok(1) prompt_control_def split: option.split)
  moreover have "sound e s0 s'" using cancel_detached_sound [OF prompt_sound [OF c] s, of i] by (simp add: r)
  ultimately show ?thesis using w(2,3) by blast
qed

lemma ends_record: "ends_as e i TCancelled (links t) s s' \<Longrightarrow>
  \<exists>u. record_of s' i = Some u \<and> t_status u = TCancelled \<and> flow_key u = flow_key t"
  by (auto simp: ends_as_def cores_def core_def links_def flow_key_def dest!: fun_cong [of _ _ i])

lemma children_cancel:
  assumes "sound e s0 s" and c: "prompt_control c" and "distinct (map t_id ts)" and "flow_heads fid st s"
    and "\<forall>t \<in> set ts. record_of s (t_id t) = Some t \<and> trim (t_id t) = t_id t \<and> active_task (t_status t) \<and> cancellable t \<and>
      flow_key t = Some fid"
  shows "\<exists>s'. cancel_children e c ts s = (None, s') \<and> sound e s0 s' \<and> flow_heads fid st s' \<and>
    (\<forall>t \<in> set ts. \<exists>u. record_of s' (t_id t) = Some u \<and> t_status u = TCancelled \<and> flow_key u = Some fid) \<and>
    (\<forall>i. i \<notin> t_id ` set ts \<longrightarrow> record_of s' i = record_of s i)"
  using assms(1,3-)
proof (induction ts arbitrary: s)
  case (Cons t ts)
  then have t: "record_of s (t_id t) = Some t" "trim (t_id t) = t_id t" "active_task (t_status t)" "cancellable t"
    "flow_key t = Some fid" by simp_all
  obtain r s1 where s1: "cancel_detached e c (t_id t) s = (Inr r, s1)" "sound e s0 s1" "flow_heads fid st s1"
    "ends_as e (t_id t) TCancelled (links t) s s1"
    using child_cancels [OF Cons.prems(1) c t(2,1,3,4,5) Cons.prems(3)] by blast
  have others: "record_of s1 j = record_of s j" if "j \<noteq> t_id t" for j using s1(4) that by (simp add: ends_as_def)
  have new: "t_id t \<notin> t_id ` set ts" using Cons.prems(2) by simp
  then have fresh: "t_id u \<noteq> t_id t" if "u \<in> set ts" for u using that by (metis imageI)
  obtain s' where s': "cancel_children e c ts s1 = (None, s')" "sound e s0 s'" "flow_heads fid st s'"
    "\<forall>t \<in> set ts. \<exists>u. record_of s' (t_id t) = Some u \<and> t_status u = TCancelled \<and> flow_key u = Some fid"
    "\<forall>i. i \<notin> t_id ` set ts \<longrightarrow> record_of s' i = record_of s1 i"
    using Cons.IH [OF s1(2) _ s1(3)] Cons.prems(2,4) others [OF fresh] by auto
  have "\<exists>u. record_of s' (t_id t) = Some u \<and> t_status u = TCancelled \<and> flow_key u = Some fid"
    using ends_record [OF s1(4)] s'(5) t(5) new by auto
  then show ?case using s1(1) s' others by auto
qed simp

lemma tasks_of_flow_set:
  assumes "tasks_indexed s" and "norm_opt (Some fid) = Some fid"
  shows "set (tasks_of_flow s fid) = {t \<in> ran (record_of s). flow_key t = Some fid}"
proof -
  have "index_exact (\<lambda>t. opt_list (flow_key t)) (by_flow s) (record_of s)" using assms(1) by (simp add: tasks_indexed_def)
  from records_at_set [OF assms(1) this, of fid] show ?thesis
    by (auto simp: tasks_of_flow_def list_from_index_def newest_first_def assms(2) opt_list_member)
qed

lemma tasks_of_flow_distinct:
  assumes "tasks_indexed s"
  shows "distinct (map t_id (tasks_of_flow s fid))" and "\<forall>t \<in> set (tasks_of_flow s fid). record_of s (t_id t) = Some t"
proof -
  have ids: "distinct (ids_at (by_flow s) k)" "set (ids_at (by_flow s) k) \<subseteq> dom (record_of s)" for k
    using assms by (auto simp: tasks_indexed_def index_exact_def)
  have at: "t_id t = i" if "record_of s i = Some t" for i t using assms that by (simp add: tasks_indexed_def)
  have "map t_id (records_at s us) = us" if "set us \<subseteq> dom (record_of s)" for us
    using that by (induction us) (auto simp: records_at_def map_filter_simps at split: option.split)
  then have "distinct (map t_id (records_at s (ids_at (by_flow s) k)))" for k using ids by simp
  moreover have "mset (map t_id (newest_first ts)) = mset (map t_id ts)" for ts by (simp add: newest_first_def)
  ultimately have "distinct (map t_id (newest_first (records_at s (ids_at (by_flow s) k))))" for k
    using mset_eq_imp_distinct_iff by blast
  then show "distinct (map t_id (tasks_of_flow s fid))"
    by (simp add: tasks_of_flow_def list_from_index_def split: option.split)
  show "\<forall>t \<in> set (tasks_of_flow s fid). record_of s (t_id t) = Some t"
    by (auto simp: tasks_of_flow_def list_from_index_def newest_first_def records_at_def List.map_filter_def at split: option.splits)
qed

text \<open>An update of a stored flow that expects its revision is applied.\<close>

lemma update_applies:
  assumes ok: "registry_ok io r" and f: "map_of (flows r) i = Some f" and p: "p_controller p = Keep"
  shows "\<exists>g r'. update_expected io clock i (revision f) p r = (Inr (Applied g), r')"
proof -
  have "flow_ok f" using ok f by (simp add: registry_ok_def row_ok_def)
  then obtain g where "apply_flow_patch clock f p = Inr g" using apply_patch_total p by blast
  then show ?thesis by (simp add: update_expected_def Let_def ensure_ready_idle [OF ok] f)
qed

lemma settle_applied: "fst w = Inr (Applied g) \<Longrightarrow> settle_update e fid w s = (Inr (Inr g), s\<lparr>flow_reg := snd w\<rparr>)"
  by (simp add: settle_update_def Let_def)

lemma mark_succeeds:
  assumes s: "sound e s0 s" and f: "map_of (flows (flow_reg s)) fid = Some f"
  shows "\<exists>f1 s1. mark_flow_cancel_requested e now f s = (Inr (Inr f1), s1)"
proof -
  note ok = sound_facts [OF s]
  have id: "flow_id f = fid" using ok(2) f by (simp add: registry_ok_def)
  obtain g r where "request_cancel (jio e) now fid (revision f) None None (flow_reg s) = (Inr (Applied g), r)"
    using update_applies [OF ok(2) f, of "empty_patch\<lparr>p_cancel := Put now, p_updated := None\<rparr>" now]
    by (auto simp: request_cancel_def opt_else_def empty_patch_def)
  then show ?thesis by (simp add: mark_flow_cancel_requested_def id settle_applied)
qed

lemma finish_succeeds:
  assumes s: "sound e s0 s" and h: "flow_heads fid st s" and st: "\<not> flow_closed st"
    and idle: "\<not> list_ex (\<lambda>t. active_task (t_status t)) (tasks_of_flow s fid)"
  shows "\<exists>r s'. finish_cancel e later fid f s = (Inr r, s') \<and> cf_cancelled r \<and> record_of s' = record_of s \<and>
    map_option status (map_of (flows (flow_reg s')) fid) = Some FCancelled"
proof -
  note ok = sound_facts [OF s]
  obtain g where g: "map_of (flows (flow_reg s)) fid = Some g" "status g = st \<or> status g = FCancelled"
    using h by (auto simp: flow_heads_def)
  have id: "flow_id g = fid" using ok(2) g(1) by (simp add: registry_ok_def)
  show ?thesis
  proof (cases "flow_closed (status g)")
    case True
    then have "status g = FCancelled" using g(2) st by auto
    then show ?thesis using True g(1) idle
      by (simp add: finish_cancel_def Let_def ok(1) flow_at_ok [OF ok(2)] flow_reply_def)
  next
    case False
    obtain f2 r where u: "update_expected (jio e) later fid (revision g) (cancel_flow_patch later) (flow_reg s) = (Inr (Applied f2), r)"
      using update_applies [OF ok(2) g(1), of "cancel_flow_patch later" later] by (auto simp: cancel_flow_patch_def empty_patch_def)
    then have w: "cancel_settled_flow e later g s = (Inr (Inr f2), s\<lparr>flow_reg := r\<rparr>)"
      by (simp add: cancel_settled_flow_def id settle_applied)
    have "status f2 = FCancelled" using applied_facts(2) [OF ok(2) u] by (simp add: cancel_flow_patch_def opt_else_def)
    moreover have "map_of (flows r) = (map_of (flows (flow_reg s)))(fid \<mapsto> f2)" using update_expected_applied [OF ok(2) u] by simp
    ultimately show ?thesis using False g(1) idle w
      by (auto simp: finish_cancel_def Let_def ok(1) flow_at_ok [OF ok(2)] flow_reply_def record_of_def fun_eq_iff)
  qed
qed

text \<open>C28: a cancellation succeeds when its runtimes do: if every active task of an open flow is one that can
  be cancelled and the runtimes stop it at once, \<^verbatim>\<open>cancelFlowById\<close> answers that the flow is cancelled, the
  flow and exactly its active tasks are, and every other task is as it was.\<close>

theorem prompt_cancellation_succeeds:
  assumes "sound e s0 s" and "prompt_control c" and "map_of (flows (flow_reg s)) fid = Some f"
    and "\<not> flow_closed (status f)" and "norm_opt (Some fid) = Some fid"
    and "\<forall>t \<in> ran (record_of s). trim (t_id t) = t_id t \<and>
      (norm_opt (t_parent_flow t) = Some fid \<and> active_task (t_status t) \<longrightarrow> cancellable t)"
  shows "\<exists>r s'. cancel_flow e c now later fid s = (Inr r, s') \<and> cf_cancelled r \<and>
    map_option status (map_of (flows (flow_reg s')) fid) = Some FCancelled \<and>
    (\<forall>i t. record_of s i = Some t \<longrightarrow>
      (if norm_opt (t_parent_flow t) = Some fid \<and> active_task (t_status t)
       then map_option t_status (record_of s' i) = Some TCancelled else record_of s' i = Some t))"
proof -
  note ok = sound_facts [OF assms(1)]
  have id: "flow_id f = fid" using ok(2) assms(3) by (simp add: registry_ok_def)
  obtain f1 s1 where m: "mark_flow_cancel_requested e now f s = (Inr (Inr f1), s1)"
    using mark_succeeds [OF assms(1,3)] by blast
  note mf = mark_facts [OF assms(1,3) m]
  have s1: "sound e s0 s1" using mark_sound [OF assms(1), of now f] by (simp add: m)
  note ok1 = sound_facts [OF s1]
  have rec: "record_of s1 = record_of s" by (subst mf(6)) (simp add: record_of_def fun_eq_iff)
  define ts where "ts = filter (\<lambda>t. active_task (t_status t)) (tasks_of_flow s1 fid)"
  have ts: "set ts = {t \<in> ran (record_of s). flow_key t = Some fid \<and> active_task (t_status t)}"
    by (auto simp: ts_def tasks_of_flow_set [OF ok1(5) assms(5)] rec)
  have each: "\<forall>t \<in> set ts. record_of s1 (t_id t) = Some t \<and> trim (t_id t) = t_id t \<and> active_task (t_status t) \<and> cancellable t \<and>
      flow_key t = Some fid"
    using tasks_of_flow_distinct(2) [OF ok1(5), of fid] assms(6) ts by (auto simp: ts_def flow_key_def)
  have "distinct (map t_id ts)" using tasks_of_flow_distinct(1) [OF ok1(5), of fid] by (simp add: ts_def distinct_map_filter)
  moreover have "flow_heads fid (status f) s1" using mf(2,5) by (simp add: flow_heads_def)
  ultimately obtain s2 where s2: "cancel_children e c ts s1 = (None, s2)" "sound e s0 s2" "flow_heads fid (status f) s2"
    "\<forall>t \<in> set ts. \<exists>u. record_of s2 (t_id t) = Some u \<and> t_status u = TCancelled \<and> flow_key u = Some fid"
    "\<forall>i. i \<notin> t_id ` set ts \<longrightarrow> record_of s2 i = record_of s1 i"
    using children_cancel [OF s1 assms(2) _ _ each] by blast
  have member: "i \<in> t_id ` set ts \<longleftrightarrow> flow_key t = Some fid \<and> active_task (t_status t)" if t: "record_of s i = Some t" for i t
  proof -
    have i: "t_id t = i" using ok(5) t by (simp add: tasks_indexed_def)
    have "t_id u = i \<longleftrightarrow> u = t" if "u \<in> set ts" for u
      using bspec [OF each that] t i unfolding rec by (metis option.inject)
    then have "i \<in> t_id ` set ts \<longleftrightarrow> t \<in> set ts" using i by (metis imageE imageI)
    moreover have "t \<in> ran (record_of s)" using t by (auto simp: ran_def)
    ultimately show ?thesis by (simp add: ts)
  qed
  have "\<not> active_task (t_status u)" if u: "u \<in> set (tasks_of_flow s2 fid)" for u
  proof -
    have u2: "record_of s2 (t_id u) = Some u" using tasks_of_flow_distinct(2) [OF sound_facts(5) [OF s2(2)]] u by (rule bspec)
    show ?thesis
    proof (cases "t_id u \<in> t_id ` set ts")
      case True
      then show ?thesis using s2(4) u2 by (force simp: active_task_def)
    next
      case False
      then have "record_of s (t_id u) = Some u" using s2(5) u2 rec by simp
      moreover have "flow_key u = Some fid" using u tasks_of_flow_set [OF sound_facts(5) [OF s2(2)] assms(5)] by simp
      ultimately show ?thesis using member False by blast
    qed
  qed
  then have idle: "\<not> list_ex (\<lambda>t. active_task (t_status t)) (tasks_of_flow s2 fid)" by (simp add: list_ex_iff)
  obtain r s' where r: "finish_cancel e later fid f1 s2 = (Inr r, s')" "cf_cancelled r" "record_of s' = record_of s2"
    "map_option status (map_of (flows (flow_reg s')) fid) = Some FCancelled"
    using finish_succeeds [OF s2(2,3) assms(4) idle] by blast
  have "cancel_flow e c now later fid s = (Inr r, s')"
    using assms(3,4) m s2(1) r(1) by (simp add: cancel_flow_def flow_at_ok [OF ok(2)] Let_def id ok1(1) flip: ts_def)
  moreover have "if flow_key t = Some fid \<and> active_task (t_status t)
      then map_option t_status (record_of s' i) = Some TCancelled else record_of s' i = Some t" if t: "record_of s i = Some t" for i t
    using member [OF t] s2(4,5) t r(3) rec by auto
  ultimately show ?thesis using r(2,4) unfolding flow_key_def by blast
qed

section \<open>Who may act on a flow\<close>

text \<open>C30: only the owner of a flow acts on it.  For any other caller \<^verbatim>\<open>cancelFlowByIdForOwner\<close> and
  \<^verbatim>\<open>runTaskInFlowForOwner\<close> answer as if the flow did not exist and change nothing; for the owner they are the
  unchecked operations.\<close>

theorem only_owners_act_on_flows:
  assumes "registry_ok (jio e) (flow_reg s)"
  shows "if \<exists>f. map_of (flows (flow_reg s)) fid = Some f \<and> norm_opt (Some (owner_key f)) = norm_opt (Some caller)
    then cancel_flow_for_owner e c now later fid caller s = cancel_flow e c now later fid s \<and>
      run_task_in_flow_for_owner e uuid fuid now fid caller q s = run_task_in_flow e uuid fuid now fid q s
    else cancel_flow_for_owner e c now later fid caller s = (Inr no_flow_reply, s) \<and>
      run_task_in_flow_for_owner e uuid fuid now fid caller q s = (Inr flow_missing, s)"
proof -
  have get: "flow_at_for_owner e fid caller s = (case map_of (flows (flow_reg s)) fid of None \<Rightarrow> (None, s)
      | Some f \<Rightarrow> (if norm_opt (Some (owner_key f)) = norm_opt (Some caller) then Some f else None, s))"
    by (simp add: flow_at_for_owner_def get_flow_for_owner_def get_flow_def Let_def ensure_ready_idle [OF assms] split: option.split)
  have id: "flow_id f = fid" if "map_of (flows (flow_reg s)) fid = Some f" for f
    using assms that by (simp add: registry_ok_def)
  show ?thesis
    by (cases "map_of (flows (flow_reg s)) fid")
      (simp_all add: cancel_flow_for_owner_def run_task_in_flow_for_owner_def get id)
qed

section \<open>Tasks in a flow\<close>

lemma merged_record:
  assumes t: "record_of s (t_id t) = Some t" and run: "same_run p owner scope t" and key: "norm_opt (n_parent_flow p) = Some k"
    and m: "merge_existing e now p agent t s = (Inr u, s')"
  shows "record_of s' (t_id u) = Some u \<and> flow_key u = Some k \<and> t_owner u = t_owner t \<and> t_scope u = t_scope t"
proof -
  have "flow_key t = Some k"
    using run key norm_opt_trim [OF key] norm_opt_trim [of "t_parent_flow t"]
    by (auto simp: same_run_def same_text_def opt_else_def flow_key_def split: option.splits)
  then have no: "\<not> (norm_opt (n_parent_flow p) \<noteq> None \<and> norm_opt (t_parent_flow t) = None)"
    and keep: "flow_key (merge_patch p agent t) = Some k"
    by (simp_all add: flow_key_def merge_patch_def fill_def)
  define s1 where "s1 = (if Option.bind (n_origin p) (norm_origin e) \<noteq> None \<and> delivery_origin s (t_id t) = None
    then upsert_delivery e (t_id t) (Option.bind (n_origin p) (norm_origin e))
      (Option.bind (map_of (delivery s) (t_id t)) d_notified) s else s)"
  have "merge_existing e now p agent t s = (if \<not> merge_writes p agent t then (Inr t, s1)
      else (case update_record e now (t_id t) (merge_patch p agent) s1 of
          (None, s3) \<Rightarrow> (Inr t, s3) | (Some n, s3) \<Rightarrow> (Inr n, s3)))"
    using no by (simp only: merge_existing_def Let_def if_False prod.case sum.case s1_def)
  note form = this [unfolded m]
  have t1: "record_of s1 (t_id t) = Some t" using t by (simp add: s1_def)
  show ?thesis
  proof (cases "merge_writes p agent t")
    case True
    obtain s3 where s3: "update_record e now (t_id t) (merge_patch p agent) s1 = (Some (revise now (merge_patch p agent) t), s3)"
      using update_record_result [OF t1, of e now "merge_patch p agent"]
      by (cases "update_record e now (t_id t) (merge_patch p agent) s1") auto
    have "record_of s3 = (record_of s1)(t_id t \<mapsto> revise now (merge_patch p agent) t)"
      using update_record_at [OF t1, of e now "merge_patch p agent"] by (simp add: s3)
    then show ?thesis using form True s3 keep by (auto simp: merge_patch_def)
  next
    case False
    then show ?thesis using form t1 \<open>flow_key t = Some k\<close> by auto
  qed
qed

lemma created_in_flow:
  assumes s: "sound e s0 s" and new: "record_of s uuid = None" and fid: "norm_opt (Some fid) = Some fid"
    and f: "map_of (flows (flow_reg s)) fid = Some f" "cancel_requested_at f = None" "\<not> flow_closed (status f)"
    and p: "n_owner p = Some (owner_key f)" "n_scope p = Some SSession" "n_requester p = None" "n_parent_flow p = Some fid"
    and st: "\<not> terminal_task (opt_else (n_status p) TQueued)"
  shows "\<exists>t s'. create_task_record e uuid now p s = (Inr t, s') \<and> record_of s' (t_id t) = Some t \<and> flow_key t = Some fid \<and>
    norm_opt (Some (t_owner t)) = norm_opt (Some (owner_key f)) \<and> t_scope t = SSession"
proof -
  note ok = sound_facts [OF s]
  have "flow_ok f" using ok(2) f(1) by (simp add: registry_ok_def row_ok_def)
  then have o: "norm_opt (Some (owner_key f)) = Some (owner_key f)" by (simp add: flow_ok_def tidy_def)
  then have trim: "trim (owner_key f) = owner_key f" "owner_key f \<noteq> []" by (auto simp: norm_opt_def Let_def split: if_splits)
  have rq: "requester_session_key p = owner_key f" "scope_kind p (owner_key f) = SSession" "task_owner_key p (owner_key f) = owner_key f"
    using p o trim by (simp_all add: requester_session_key_def scope_kind_def task_owner_key_def norm_opt_def)
  have "linkable (flow_reg s) (owner_key f) SSession fid" using f by (auto simp: linkable_def)
  then have link: "assert_link_allowed e (owner_key f) SSession (n_parent_flow p) s = (Inr (), s)"
    using link_allowed_iff [OF ok(2), of "owner_key f" SSession "n_parent_flow p"] p(4) fid by (auto simp: prod_eq_iff)
  have owner: "assert_task_owner (owner_key f) SSession = Inr ()" using trim by (simp add: assert_task_owner_def)
  let ?agent = "task_agent (n_agent p) (owner_key f) (owner_key f)"
  note form = create_task_record_def [of e uuid now p s, unfolded Let_def restore_idle [OF ok(1)] rq owner link sum.case prod.case]
  show ?thesis
  proof (cases "find_existing s p (owner_key f) SSession")
    case None
    let ?t = "new_task uuid now p (owner_key f) (owner_key f) SSession ?agent"
    have t: "t_id ?t = uuid" "t_owner ?t = owner_key f" "t_scope ?t = SSession" "t_status ?t = opt_else (n_status p) TQueued"
      "flow_key ?t = Some fid"
      using p(4) fid by (simp_all add: new_task_def Let_def with_cleanup_def normalize_timestamps_def flow_key_def)
    have "insert_task e now (n_origin p) ?t s = insert_record e now (n_origin p) ?t s" using st t(4) by (simp add: insert_task_def)
    then have "create_task_record e uuid now p s = (Inr ?t, insert_record e now (n_origin p) ?t s)" by (simp add: form None)
    then show ?thesis using t by auto
  next
    case (Some t)
    obtain r where r: "norm_opt (n_run p) = Some r" using Some by (cases "norm_opt (n_run p)") (auto simp: find_existing_def)
    note m = find_existing_Some [OF ok(5) r Some]
    then obtain i where "record_of s i = Some t" by (auto simp: ran_def)
    moreover then have "t_id t = i" using ok(5) by (simp add: tasks_indexed_def)
    ultimately have rec: "record_of s (t_id t) = Some t" by simp
    have run: "same_run p (owner_key f) SSession t" using m by simp
    obtain u s' where u: "merge_existing e now p ?agent t s = (Inr u, s')"
      using merge_total [OF run, of e now ?agent s] by (cases "merge_existing e now p ?agent t s") auto
    have key: "norm_opt (n_parent_flow p) = Some fid" using p(4) fid by simp
    have same: "norm_opt (Some (t_owner t)) = norm_opt (Some (owner_key f))" "t_scope t = SSession"
      using run o trim norm_opt_trim [of "Some (t_owner t)"]
      by (auto simp: same_run_def same_text_def opt_else_def split: option.splits)
    have "create_task_record e uuid now p s = (Inr u, s')" by (simp add: form Some u)
    then show ?thesis using merged_record [OF rec run key u] same by auto
  qed
qed

lemma created_run:
  assumes "create_task_record e uuid now (p\<lparr>n_status := Some st\<rparr>) s = (Inr t, s')" and "flow_key t \<noteq> None"
  shows "create_run st e uuid fuid now p s = (Inr t, s')"
  using assms by (simp add: create_run_def ensure_single_task_flow_def one_task_flow_eligible_def flow_key_def)

text \<open>\<^verbatim>\<open>runTaskInFlow\<close> starts a task exactly in an open flow: when the flow exists, is managed, has no
  cancellation request and has not ended, it answers with a task of the flow's owner that is stored and linked
  to the flow; otherwise it refuses and nothing changes.  It never throws.\<close>

lemma task_runs_in_open_flow:
  assumes "sound e s0 s" and "record_of s uuid = None" and "norm_opt (Some fid) = Some fid"
  shows "\<exists>r s'. run_task_in_flow e uuid fuid now fid q s = (Inr r, s') \<and>
    (if \<exists>f. map_of (flows (flow_reg s)) fid = Some f \<and> mode f = Managed \<and> cancel_requested_at f = None \<and> \<not> flow_closed (status f)
     then rr_created r \<and> (\<exists>t f. rr_task r = Some t \<and> record_of s' (t_id t) = Some t \<and> norm_opt (t_parent_flow t) = Some fid \<and>
       map_of (flows (flow_reg s)) fid = Some f \<and> norm_opt (Some (t_owner t)) = norm_opt (Some (owner_key f)) \<and> t_scope t = SSession)
     else \<not> rr_created r \<and> s' = s)"
proof -
  note ok = sound_facts [OF assms(1)]
  show ?thesis
  proof (cases "\<exists>f. map_of (flows (flow_reg s)) fid = Some f \<and> mode f = Managed \<and> cancel_requested_at f = None \<and> \<not> flow_closed (status f)")
    case True
    then obtain f where f: "map_of (flows (flow_reg s)) fid = Some f" "mode f = Managed" "cancel_requested_at f = None" "\<not> flow_closed (status f)"
      by blast
    have id: "flow_id f = fid" using ok(2) f(1) by (simp add: registry_ok_def)
    define st where "st = (if q_status q = Some TRunning then TRunning else TQueued)"
    let ?p = "(flow_task_params f q)\<lparr>n_status := Some st\<rparr>"
    have "n_owner ?p = Some (owner_key f)" "n_scope ?p = Some SSession" "n_requester ?p = None" "n_parent_flow ?p = Some fid"
      "\<not> terminal_task (opt_else (n_status ?p) TQueued)"
      by (simp_all add: flow_task_params_def Let_def id st_def terminal_task_def opt_else_def)
    from created_in_flow [OF assms f(1,3,4) this, of now]
    obtain t s1 where t: "create_task_record e uuid now ?p s = (Inr t, s1)" "record_of s1 (t_id t) = Some t" "flow_key t = Some fid"
      "norm_opt (Some (t_owner t)) = norm_opt (Some (owner_key f))" "t_scope t = SSession" by blast
    have run: "(if q_status q = Some TRunning then create_running_run e uuid fuid now (flow_task_params f q) s
        else create_queued_run e uuid fuid now (flow_task_params f q) s) = (Inr t, s1)"
      using created_run [OF t(1), of fuid] t(3) by (auto simp: st_def create_running_run_def create_queued_run_def split: if_splits)
    obtain g s2 where g: "flow_at e fid s1 = (g, s2)" by fastforce
    have "record_of s2 = record_of s1" using g by (auto simp: flow_at_def record_of_def fun_eq_iff split: prod.splits)
    moreover have "run_task_in_flow e uuid fuid now fid q s = (Inr \<lparr>rr_found = True, rr_created = True, rr_reason = None,
        rr_flow = Some (case g of Some x \<Rightarrow> x | None \<Rightarrow> f), rr_task = Some t\<rparr>, s2)"
      unfolding run_task_in_flow_def flow_at_ok [OF ok(2)] f(1) id by (simp add: f run g id)
    ultimately show ?thesis using True t f(1) by (simp add: flow_key_def)
  next
    case False
    then show ?thesis
      by (auto simp: run_task_in_flow_def flow_at_ok [OF ok(2)] flow_missing_def run_refused_def split: option.split)
  qed
qed

section \<open>One-task flows\<close>

lemma mirror_built:
  assumes "c_mode p = Some TaskMirrored" and "norm_opt (Some (c_owner p)) = Some (c_owner p)"
  shows "\<exists>f. build_flow uuid clock p = Inr f \<and> flow_id f = uuid \<and> mode f = TaskMirrored \<and> owner_key f = c_owner p \<and>
    cancel_requested_at f = c_cancel p \<and> status f = opt_else (c_status p) FQueued"
  using assms by (simp add: build_flow_def Let_def assert_owner_key_def opt_else_def)

lemma created_mirror:
  assumes ok: "registry_ok (jio e) (flow_reg s)" and fits: "json_fits (ser (jio e)) (par_origin (jio e)) origin"
    and owner: "norm_opt (Some (t_owner t)) = Some (t_owner t)"
  shows "\<exists>f r. create_task_flow e fuid now origin t s = (Inr f, s\<lparr>flow_reg := r\<rparr>) \<and> registry_ok (jio e) r \<and>
    map_of (flows r) = (map_of (flows (flow_reg s)))(fuid \<mapsto> f) \<and> flow_id f = fuid \<and> mode f = TaskMirrored \<and>
    owner_key f = t_owner t \<and> cancel_requested_at f = None \<and> status f = derive_status t"
proof -
  define p where "p = (let st = derive_status t; timing = mirrored_timing (t_created t) (t_last_event t) (t_ended t) (is_terminal st)
    in \<lparr>c_mode = Some TaskMirrored, c_owner = t_owner t, c_origin = origin, c_controller = None,
         c_revision = None, c_status = Some st, c_notify = Some (t_notify t), c_goal = task_goal t,
         c_step = None, c_blocked_task = (if st = FBlocked then norm_opt (Some (t_id t)) else None),
         c_blocked_summary = blocked_summary_of t, c_state = None, c_wait = None, c_cancel = None,
         c_created = Some (t_created t), c_updated = Some (fst timing), c_ended = snd timing\<rparr>)"
  have p: "c_mode p = Some TaskMirrored" "c_owner p = t_owner t" "c_origin p = origin" "c_state p = None" "c_wait p = None"
    "c_cancel p = None" "c_status p = Some (derive_status t)"
    by (simp_all add: p_def Let_def)
  have form: "create_flow_for_task (jio e) fuid now origin t (flow_reg s) = create_flow (jio e) fuid now p (flow_reg s)"
    by (simp add: create_flow_for_task_def p_def Let_def)
  obtain f where f: "build_flow fuid now p = Inr f" "flow_id f = fuid" "mode f = TaskMirrored" "owner_key f = t_owner t"
    "cancel_requested_at f = None" "status f = derive_status t"
    using mirror_built [OF p(1), of fuid now] owner p by (auto simp: opt_else_def)
  have "registry_ok (jio e) (snd (create_flow (jio e) fuid now p (flow_reg s)))"
    by (rule create_flow_ok [OF ok]) (use p fits in \<open>simp_all add: json_fits_def\<close>)
  moreover have "create_flow (jio e) fuid now p (flow_reg s) = (Inr f, write_flow (jio e) f None (flow_reg s))"
    by (simp add: create_flow_def Let_def ensure_ready_idle [OF ok] f(1))
  ultimately show ?thesis
    using f by (intro exI [of _ f] exI [of _ "write_flow (jio e) f None (flow_reg s)"]) (simp add: create_task_flow_def form write_flow_map)
qed

text \<open>A detached run gets a flow of its own: for a stored ACP or subagent task of a session that has no
  flow and has not ended, \<^verbatim>\<open>ensureSingleTaskFlow\<close> leaves it linked to a new mirrored flow of the same owner,
  whose status is the one derived from the task.\<close>

lemma detached_run_gets_own_flow:
  assumes "sound e s0 s" and "record_of s i = Some t" and "one_task_flow_eligible t" and "norm_opt (Some fuid) = Some fuid"
    and "norm_opt (Some (t_owner t)) = Some (t_owner t)" and "json_fits (ser (jio e)) (par_origin (jio e)) origin"
    and "\<not> flow_closed (derive_status t)"
  shows "\<exists>l s' f. ensure_single_task_flow e fuid now origin t s = (l, s') \<and> record_of s' i = Some l \<and>
    t_parent_flow l = Some fuid \<and> map_of (flows (flow_reg s')) fuid = Some f \<and> mode f = TaskMirrored \<and>
    norm_opt (Some (t_owner l)) = norm_opt (Some (t_owner t)) \<and> status f = derive_status l"
proof -
  note ok = sound_facts [OF assms(1)]
  have id: "t_id t = i" using ok(5) assms(2) by (simp add: tasks_indexed_def)
  have t: "flow_key t = None" "t_scope t = SSession" using assms(3) by (auto simp: one_task_flow_eligible_def flow_key_def split: if_splits)
  have trim: "trim fuid = fuid" "fuid \<noteq> []" using assms(4) by (auto simp: norm_opt_def Let_def split: if_splits)
  obtain f r where f: "create_task_flow e fuid now origin t s = (Inr f, s\<lparr>flow_reg := r\<rparr>)" "registry_ok (jio e) r"
    "map_of (flows r) = (map_of (flows (flow_reg s)))(fuid \<mapsto> f)" "flow_id f = fuid" "mode f = TaskMirrored"
    "owner_key f = t_owner t" "cancel_requested_at f = None" "status f = derive_status t"
    using created_mirror [OF ok(2) assms(6,5), of fuid now] by blast
  let ?s1 = "s\<lparr>flow_reg := r\<rparr>" and ?p = "\<lambda>t. t\<lparr>t_parent_flow := Some fuid\<rparr>"
  have s1: "restored ?s1" "record_of ?s1 i = Some t" "registry_ok (jio e) (flow_reg ?s1)"
    using ok(1) assms(2) f(2) by (simp_all add: record_of_def)
  have "linkable (flow_reg ?s1) (t_owner t) (t_scope t) fuid"
    using f t(2) assms(7) by (simp add: linkable_def)
  then have "assert_link_allowed e (t_owner t) (t_scope t) (Some fuid) ?s1 = (Inr (), ?s1)"
    using link_allowed_iff [OF s1(3), of "t_owner t" "t_scope t" "Some fuid"] assms(4) by (simp add: prod_eq_iff)
  then have link: "link_task_to_flow e now i fuid ?s1 = map_prod Inr id (update_record e now i ?p ?s1)"
    using s1(1,2) t(1) trim by (simp add: link_task_to_flow_def Let_def)
  define l s' where "l = revise now ?p t" and "s' = snd (update_record e now i ?p ?s1)"
  have upd: "update_record e now i ?p ?s1 = (Some l, s')"
    using update_record_result [OF s1(2), of e now ?p] by (simp add: l_def s'_def prod_eq_iff)
  have l: "t_parent_flow l = Some fuid" "t_owner l = t_owner t" by (simp_all add: l_def)
  have "ensure_single_task_flow e fuid now origin t s = (l, s')"
    using assms(3) f(1,4) link upd l(1) by (simp add: ensure_single_task_flow_def id)
  moreover have "record_of s' i = Some l"
    using update_record_at [OF s1(2), of e now ?p] by (simp add: s'_def l_def)
  moreover have "\<exists>g. map_of (flows (flow_reg s')) fuid = Some g \<and> mode g = TaskMirrored \<and> status g = derive_status l"
    using update_mirrored [where patch = ?p and now = now, OF s1(2) _ s1(3) ok(3), of fuid f] f(3,5) assms(4)
    by (auto simp: s'_def l_def flow_key_def)
  ultimately show ?thesis using l by metis
qed

section \<open>What goes wrong\<close>

text \<open>
  \<^verbatim>\<open>cancelTaskById\<close> looks at the task before it awaits the runtime and not again: a task that has
  succeeded meanwhile is overwritten as cancelled.  And when the link of a new one-task flow is refused by an
  exception, the flow stays: here the run of an ended task is asked for again.
\<close>

lemma cancel_overwrites_success:
  "t_status (the (record_of stopped ''t1'')) = TSucceeded \<and>
   t_status (the (record_of (snd (cancel_commit plain_env 30 ''t1'' None stopped)) ''t1'')) = TCancelled"
  by code_simp

lemma refused_link_leaves_flow:
  "(\<lambda>(l, s). t_parent_flow l = None \<and> map_option status (map_of (flows (flow_reg s)) ''f9'') = Some FSucceeded)
     (ensure_single_task_flow plain_env ''f9'' 50 None (the (record_of acp_stopped ''t2'')) acp_stopped)"
  by code_simp

section \<open>Instances\<close>

definition quick_control :: control where
  "quick_control = \<lparr>own_cancel = None, acp_cancel = (\<lambda>_ s. (None, s)), kill_run = (\<lambda>_ s. (Inr (True, True), s)),
     clock_at = (\<lambda>_. 20)\<rparr>"

lemma quick_prompt [simp]: "prompt_control quick_control"
  by (simp add: prompt_control_def quick_control_def)

lemma running_sound [simp]: "sound plain_env idle_tasks running"
  using demo_reachable(1) demo_flows by (simp add: sound_def)

lemma acp_sound: "sound plain_env idle_tasks acp_running"
proof (rule sound_op [OF running_sound])
  show "task_op plain_env running acp_running" unfolding acp_running_def by (rule task_op.create) simp
  show "registry_ok (jio plain_env) (flow_reg acp_running)"
    using flow_keeping.create_task [of running "''t2''" plain_env 30 acp_job] demo_flows by (simp add: acp_running_def)
qed

lemma cancelled_flow_is_idle_witness:
  "\<exists>r s'. cancel_flow plain_env quick_control 15 25 ''f1'' running = (Inr r, s') \<and>
     map_option status (map_of (flows (flow_reg s')) ''f1'') = Some FCancelled"
proof -
  let ?w = "cancel_flow plain_env quick_control 15 25 ''f1'' running"
  have "case fst ?w of Inr r \<Rightarrow> cf_cancelled r | Inl _ \<Rightarrow> False" by code_simp
  then obtain r where "?w = (Inr r, snd ?w)" "cf_cancelled r" by (cases ?w) (auto split: sum.splits)
  from cancelled_flow_is_idle [OF running_sound prompt_sound [OF quick_prompt] this] this(1) show ?thesis by auto
qed

lemma prompt_cancellation_succeeds_witness:
  "\<exists>r s'. cancel_flow plain_env quick_control 15 25 ''f1'' running = (Inr r, s') \<and> cf_cancelled r \<and>
     map_option t_status (record_of s' ''t1'') = Some TCancelled"
proof -
  have f: "map_of (flows (flow_reg running)) ''f1'' = Some nightly_flow" "\<not> flow_closed (status nightly_flow)"
    "norm_opt (Some ''f1'') = Some ''f1''" by code_simp+
  have t: "norm_opt (t_parent_flow copy_task) = Some ''f1''" "active_task (t_status copy_task)" by code_simp+
  have "\<forall>t \<in> ran (record_of running). trim (t_id t) = t_id t \<and> cancellable t" by (rule ran_records) code_simp
  then have "\<forall>t \<in> ran (record_of running). trim (t_id t) = t_id t \<and>
      (norm_opt (t_parent_flow t) = Some ''f1'' \<and> active_task (t_status t) \<longrightarrow> cancellable t)" by blast
  from prompt_cancellation_succeeds [OF running_sound quick_prompt f this, of 15 25]
  obtain r s' where r: "cancel_flow plain_env quick_control 15 25 ''f1'' running = (Inr r, s')" "cf_cancelled r"
    "\<forall>i t. record_of running i = Some t \<longrightarrow>
      (if norm_opt (t_parent_flow t) = Some ''f1'' \<and> active_task (t_status t)
       then map_option t_status (record_of s' i) = Some TCancelled else record_of s' i = Some t)" by blast
  from r(3) [rule_format, OF demo_records(1)] t show ?thesis using r(1,2) by auto
qed

lemma only_owners_act_on_flows_witness:
  "cancel_flow_for_owner plain_env quick_control 15 25 ''f1'' ''agent:other'' running = (Inr no_flow_reply, running)"
proof -
  have f: "map_of (flows (flow_reg running)) ''f1'' = Some nightly_flow"
    "norm_opt (Some (owner_key nightly_flow)) \<noteq> norm_opt (Some ''agent:other'')" by code_simp+
  from only_owners_act_on_flows [OF demo_flows(1), of "''f1''" "''agent:other''"] f show ?thesis by auto
qed

definition build_job :: run_params where
  "build_job = \<lparr>q_runtime = RSubagent, q_source = None, q_child = Some ''agent:main:sub:1'', q_parent_task = None, q_agent = None,
     q_run = Some ''r7'', q_label = None, q_task = ''build'', q_notify = None, q_delivery = None, q_prefer = False,
     q_status = Some TRunning, q_started = Some 30, q_last = None, q_progress = None\<rparr>"

end
