(* ===== verification/Flow_Audit.thy ===== *)
theory Flow_Audit
  imports Flow_Upkeep "HOL-Library.Product_Lexorder"
begin

text \<open>
  The audit of the task-flow registry, \<^verbatim>\<open>src/tasks/task-flow-registry.audit.ts\<close>: findings about flows
  that have not advanced, whose tasks are gone or whose times contradict each other, the order they
  are reported in, and their summary.
\<close>

section \<open>Findings\<close>

datatype audit_severity = AuditWarn | AuditError

datatype audit_code = RestoreFailed | StaleRunning | StaleWaiting | StaleBlocked | CancelStuck
  | MissingLinkedTasks | BlockedTaskMissing | InconsistentTimestamps

record audit_finding =
  fi_severity :: audit_severity
  fi_code :: audit_code
  fi_detail :: string
  fi_age :: "int option"
  fi_flow :: "flow option"

record audit_summary =
  au_total :: nat
  au_warnings :: nat
  au_errors :: nat
  au_by_code :: "audit_code \<Rightarrow> nat"

record audit_options =
  op_now :: "int option"
  op_flows :: "flow list option"
  op_stale_running :: "int option"
  op_stale_waiting :: "int option"
  op_stale_blocked :: "int option"
  op_cancel_stuck :: "int option"

definition default_stale_ms :: int where
  "default_stale_ms = 30 * 60000"

definition default_cancel_stuck_ms :: int where
  "default_cancel_stuck_ms = 5 * 60000"

definition severity_rank :: "audit_severity \<Rightarrow> int" where
  "severity_rank v = (if v = AuditError then 0 else 1)"

definition compare_findings :: "audit_finding \<Rightarrow> audit_finding \<Rightarrow> int" where
  "compare_findings a b =
     (let severity_diff = severity_rank (fi_severity a) - severity_rank (fi_severity b) in
      if severity_diff \<noteq> 0 then severity_diff
      else let left_age = opt_else (fi_age a) (-1); right_age = opt_else (fi_age b) (-1) in
        if left_age \<noteq> right_age then right_age - left_age
        else opt_else (map_option created_at (fi_flow a)) 0 - opt_else (map_option created_at (fi_flow b)) 0)"

text \<open>The stable sort by \<open>compare_findings\<close>, written with the key it compares.\<close>

definition finding_key :: "audit_finding \<Rightarrow> int \<times> int \<times> int" where
  "finding_key a = (severity_rank (fi_severity a), - opt_else (fi_age a) (-1),
     opt_else (map_option created_at (fi_flow a)) 0)"

definition sort_findings :: "audit_finding list \<Rightarrow> audit_finding list" where
  "sort_findings fs = sort_key finding_key fs"

section \<open>The findings of one flow\<close>

definition blocking_metadata :: "flow \<Rightarrow> bool" where
  "blocking_metadata f \<longleftrightarrow> norm_opt (blocked_task_id f) \<noteq> None \<or> norm_opt (blocked_summary f) \<noteq> None \<or>
     (wait_json f \<noteq> None \<and> wait_json f \<noteq> Some JNull)"

definition timestamp_finding :: "flow \<Rightarrow> audit_finding list" where
  "timestamp_finding f =
     (let warn = (\<lambda>d. [\<lparr>fi_severity = AuditWarn, fi_code = InconsistentTimestamps, fi_detail = d,
            fi_age = None, fi_flow = Some f\<rparr>]);
          ended_before = (\<lambda>t. case ended_at f of None \<Rightarrow> False | Some x \<Rightarrow> x \<noteq> 0 \<and> x < t) in
      if updated_at f < created_at f then warn ''updatedAt is earlier than createdAt''
      else if ended_before (created_at f) then warn ''endedAt is earlier than createdAt''
      else if ended_before (updated_at f) then warn ''endedAt is earlier than updatedAt''
      else [])"

definition flow_age :: "int \<Rightarrow> flow \<Rightarrow> int" where
  "flow_age now f = max 0 (now - updated_at f)"

definition stale_limit :: "audit_options \<Rightarrow> flow_status \<Rightarrow> int" where
  "stale_limit opts st = opt_else
     (if st = FRunning then op_stale_running opts else if st = FWaiting then op_stale_waiting opts
      else op_stale_blocked opts) default_stale_ms"

definition stale_finding :: "audit_options \<Rightarrow> int \<Rightarrow> flow \<Rightarrow> audit_finding list" where
  "stale_finding opts age f =
     (let stale = (\<lambda>st. status f = st \<and> stale_limit opts st \<le> age);
          found = (\<lambda>sev code d. [\<lparr>fi_severity = sev, fi_code = code, fi_detail = d, fi_age = Some age, fi_flow = Some f\<rparr>]) in
      (if stale FRunning then found AuditError StaleRunning ''running TaskFlow has not advanced recently'' else []) @
      (if stale FWaiting then found AuditWarn StaleWaiting ''waiting TaskFlow has not advanced recently'' else []) @
      (if stale FBlocked then found AuditWarn StaleBlocked ''blocked TaskFlow has not advanced recently'' else []))"

definition cancel_finding :: "audit_options \<Rightarrow> int \<Rightarrow> task_record list \<Rightarrow> flow \<Rightarrow> audit_finding list" where
  "cancel_finding opts now tasks f = (case cancel_requested_at f of None \<Rightarrow> []
     | Some at_ms \<Rightarrow>
         if status f \<noteq> FCancelled \<and> status f \<noteq> FFailed \<and> status f \<noteq> FSucceeded \<and> status f \<noteq> FLost \<and>
           filter (\<lambda>t. active_task (t_status t)) tasks = [] \<and>
           opt_else (op_cancel_stuck opts) default_cancel_stuck_ms \<le> now - at_ms
         then [\<lparr>fi_severity = AuditWarn, fi_code = CancelStuck,
           fi_detail = ''cancel-requested TaskFlow has no active child tasks but is still nonterminal'',
           fi_age = Some (max 0 (now - at_ms)), fi_flow = Some f\<rparr>]
         else [])"

definition missing_tasks_finding :: "audit_options \<Rightarrow> int \<Rightarrow> task_record list \<Rightarrow> flow \<Rightarrow> audit_finding list" where
  "missing_tasks_finding opts age tasks f =
     (if mode f = Managed \<and> (status f = FRunning \<or> status f = FWaiting \<or> status f = FBlocked) \<and>
        stale_limit opts (status f) \<le> age \<and> tasks = [] \<and> \<not> blocking_metadata f
      then [\<lparr>fi_severity = (if status f = FRunning then AuditError else AuditWarn), fi_code = MissingLinkedTasks,
        fi_detail = ''managed TaskFlow has no linked tasks or wait state'', fi_age = Some age, fi_flow = Some f\<rparr>]
      else [])"

definition blocked_task_finding :: "int \<Rightarrow> task_record list \<Rightarrow> flow \<Rightarrow> audit_finding list" where
  "blocked_task_finding age tasks f = (case norm_opt (blocked_task_id f) of None \<Rightarrow> []
     | Some i \<Rightarrow> if list_ex (\<lambda>t. t_id t = i) tasks then []
         else [\<lparr>fi_severity = AuditWarn, fi_code = BlockedTaskMissing,
           fi_detail = ''blocked TaskFlow points at missing task '' @ i, fi_age = Some age, fi_flow = Some f\<rparr>])"

definition flow_findings :: "audit_options \<Rightarrow> int \<Rightarrow> task_record list \<Rightarrow> flow \<Rightarrow> audit_finding list" where
  "flow_findings opts now tasks f = (let age = flow_age now f in
     stale_finding opts age f @ cancel_finding opts now tasks f @ missing_tasks_finding opts age tasks f @
     blocked_task_finding age tasks f @ timestamp_finding f)"

section \<open>The audit and its summary\<close>

definition linked_tasks :: "task_env \<Rightarrow> string \<Rightarrow> tasks_state \<Rightarrow> task_record list \<times> tasks_state" where
  "linked_tasks e fid s = (let s1 = restore_tasks e s in (tasks_of_flow s1 fid, s1))"

fun audit_flows :: "task_env \<Rightarrow> audit_options \<Rightarrow> int \<Rightarrow> flow list \<Rightarrow> tasks_state \<Rightarrow> audit_finding list \<times> tasks_state" where
  "audit_flows e opts now [] s = ([], s)"
| "audit_flows e opts now (f # fs) s = (case linked_tasks e (flow_id f) s of (tasks, s1) \<Rightarrow>
     (case audit_flows e opts now fs s1 of (rest, s2) \<Rightarrow> (flow_findings opts now tasks f @ rest, s2)))"

definition list_findings :: "task_env \<Rightarrow> int \<Rightarrow> audit_options \<Rightarrow> tasks_state \<Rightarrow> audit_finding list \<times> tasks_state" where
  "list_findings e clock opts s =
     (case (case op_flows opts of Some fs \<Rightarrow> (fs, s) | None \<Rightarrow> listed_flows e s) of (fs, s1) \<Rightarrow>
      let now = opt_else (op_now opts) clock;
          s2 = s1\<lparr>flow_reg := ensure_ready (jio e) (flow_reg s1)\<rparr>;
          failed = (case restore_failure (flow_reg s2) of None \<Rightarrow> []
            | Some msg \<Rightarrow> if msg = [] then []
                else [\<lparr>fi_severity = AuditError, fi_code = RestoreFailed,
                  fi_detail = ''task-flow registry restore failed: '' @ msg, fi_age = None, fi_flow = None\<rparr>]) in
      case audit_flows e opts now fs s2 of (found, s3) \<Rightarrow> (sort_findings (failed @ found), s3))"

definition empty_audit :: audit_summary where
  "empty_audit = \<lparr>au_total = 0, au_warnings = 0, au_errors = 0, au_by_code = (\<lambda>_. 0)\<rparr>"

definition add_finding :: "audit_finding \<Rightarrow> audit_summary \<Rightarrow> audit_summary" where
  "add_finding a u = (let v = u\<lparr>au_total := au_total u + 1,
       au_by_code := (au_by_code u)(fi_code a := au_by_code u (fi_code a) + 1)\<rparr> in
     if fi_severity a = AuditError then v\<lparr>au_errors := au_errors v + 1\<rparr>
     else v\<lparr>au_warnings := au_warnings v + 1\<rparr>)"

definition summarize_findings :: "audit_finding list \<Rightarrow> audit_summary" where
  "summarize_findings fs = fold add_finding fs empty_audit"

definition default_audit :: audit_options where
  "default_audit = \<lparr>op_now = None, op_flows = None, op_stale_running = None, op_stale_waiting = None,
     op_stale_blocked = None, op_cancel_stuck = None\<rparr>"

definition inspectable_audit :: "task_env \<Rightarrow> int \<Rightarrow> tasks_state \<Rightarrow> audit_summary \<times> tasks_state" where
  "inspectable_audit e clock s = (case list_findings e clock default_audit s of (fs, s1) \<Rightarrow> (summarize_findings fs, s1))"

section \<open>Order and counts\<close>

lemma compare_key: "compare_findings a b < 0 \<longleftrightarrow> finding_key a < finding_key b"
  by (auto simp: compare_findings_def finding_key_def Let_def less_prod_def severity_rank_def split: if_splits)

lemma compare_key_le: "compare_findings a b \<le> 0 \<longleftrightarrow> finding_key a \<le> finding_key b"
  by (auto simp: compare_findings_def finding_key_def Let_def less_eq_prod_def severity_rank_def split: if_splits)

lemma findings_sorted: "sorted_wrt (\<lambda>a b. compare_findings a b \<le> 0) (sort_findings fs)"
proof -
  have "sorted (map finding_key (sort_findings fs))" by (simp add: sort_findings_def)
  then show ?thesis by (simp add: sorted_map compare_key_le)
qed

lemma set_sort_findings [simp]: "set (sort_findings fs) = set fs"
  by (simp add: sort_findings_def)

lemma summary_counts:
  "au_total (fold add_finding fs u) = au_total u + length fs"
  "au_errors (fold add_finding fs u) = au_errors u + length (filter (\<lambda>a. fi_severity a = AuditError) fs)"
  "au_warnings (fold add_finding fs u) = au_warnings u + length (filter (\<lambda>a. fi_severity a \<noteq> AuditError) fs)"
  "au_by_code (fold add_finding fs u) c = au_by_code u c + length (filter (\<lambda>a. fi_code a = c) fs)"
  by (induction fs arbitrary: u) (simp_all add: add_finding_def Let_def)

lemma summary_balances:
  "au_total (summarize_findings fs) = au_warnings (summarize_findings fs) + au_errors (summarize_findings fs)"
  unfolding summarize_findings_def summary_counts
  using sum_length_filter_compl [of "\<lambda>a. fi_severity a = AuditError" fs] by (simp add: empty_audit_def)

section \<open>What is found\<close>

lemma audit_flows_restored:
  "restored s \<Longrightarrow> audit_flows e opts now fs s = (concat (map (\<lambda>f. flow_findings opts now (tasks_of_flow s (flow_id f)) f) fs), s)"
  by (induction fs) (simp_all add: linked_tasks_def restore_tasks_def)

lemma list_findings_ready:
  assumes "upkeep_ready e s" and "distinct (map fst (flows (flow_reg s)))"
  shows "snd (list_findings e clock opts s) = s" (is ?same)
    and "op_flows opts = None \<Longrightarrow> set (fst (list_findings e clock opts s)) =
      {a. \<exists>msg. restore_failure (flow_reg s) = Some msg \<and> msg \<noteq> [] \<and>
        a = \<lparr>fi_severity = AuditError, fi_code = RestoreFailed,
          fi_detail = ''task-flow registry restore failed: '' @ msg, fi_age = None, fi_flow = None\<rparr>} \<union>
      (\<Union>f \<in> ran (map_of (flows (flow_reg s))).
        set (flow_findings opts (opt_else (op_now opts) clock) (tasks_of_flow s (flow_id f)) f))"
proof -
  have ok: "registry_ok (jio e) (flow_reg s)" "restored s" using assms(1) by (simp_all add: upkeep_ready_def)
  obtain fs where fs: "listed_flows e s = (fs, s)" "set fs = ran (map_of (flows (flow_reg s)))"
    using listed_flows_ok [OF ok(1) assms(2)] by blast
  show ?same using ok fs(1) by (simp add: list_findings_def audit_flows_restored Let_def split: option.split)
  show "set (fst (list_findings e clock opts s)) =
      {a. \<exists>msg. restore_failure (flow_reg s) = Some msg \<and> msg \<noteq> [] \<and>
        a = \<lparr>fi_severity = AuditError, fi_code = RestoreFailed,
          fi_detail = ''task-flow registry restore failed: '' @ msg, fi_age = None, fi_flow = None\<rparr>} \<union>
      (\<Union>f \<in> ran (map_of (flows (flow_reg s))).
        set (flow_findings opts (opt_else (op_now opts) clock) (tasks_of_flow s (flow_id f)) f))"
    if "op_flows opts = None"
    using ok fs that by (auto simp: list_findings_def audit_flows_restored Let_def split: option.split)
qed

lemma no_active_filter: "filter (\<lambda>t. active_task (t_status t)) (tasks_of_flow s fid) = [] \<longleftrightarrow> \<not> has_active_tasks s fid"
  by (auto simp: has_active_tasks_def list_ex_iff filter_empty_conv)

lemma codes_of_findings:
  "a \<in> set (stale_finding opts age f) \<Longrightarrow> fi_code a \<in> {StaleRunning, StaleWaiting, StaleBlocked} \<and> fi_flow a = Some f"
  "a \<in> set (missing_tasks_finding opts age tasks f) \<Longrightarrow> fi_code a = MissingLinkedTasks \<and> fi_flow a = Some f"
  "a \<in> set (blocked_task_finding age tasks f) \<Longrightarrow> fi_code a = BlockedTaskMissing \<and> fi_flow a = Some f"
  "a \<in> set (timestamp_finding f) \<Longrightarrow> fi_code a = InconsistentTimestamps \<and> fi_flow a = Some f"
  "a \<in> set (cancel_finding opts now tasks f) \<Longrightarrow> fi_code a = CancelStuck \<and> fi_flow a = Some f"
  by (auto simp: stale_finding_def missing_tasks_finding_def blocked_task_finding_def timestamp_finding_def
      cancel_finding_def Let_def split: if_splits option.splits)

lemma error_findings:
  "(\<exists>a \<in> set (flow_findings opts now tasks f). fi_severity a = AuditError) \<longleftrightarrow>
    status f = FRunning \<and> stale_limit opts FRunning \<le> flow_age now f"
proof -
  have "fi_severity a \<noteq> AuditError" if "a \<in> set (cancel_finding opts now tasks f) \<or>
      a \<in> set (blocked_task_finding (flow_age now f) tasks f) \<or> a \<in> set (timestamp_finding f)" for a
    using that by (auto simp: cancel_finding_def blocked_task_finding_def timestamp_finding_def Let_def
        split: if_splits option.splits)
  moreover have "(\<exists>a \<in> set (stale_finding opts (flow_age now f) f). fi_severity a = AuditError) \<longleftrightarrow>
      status f = FRunning \<and> stale_limit opts FRunning \<le> flow_age now f" by (auto simp: stale_finding_def Let_def)
  moreover have "status f = FRunning \<and> stale_limit opts FRunning \<le> flow_age now f"
    if "a \<in> set (missing_tasks_finding opts (flow_age now f) tasks f)" "fi_severity a = AuditError" for a
    using that by (auto simp: missing_tasks_finding_def split: if_splits)
  ultimately show ?thesis unfolding flow_findings_def Let_def set_append by blast
qed

end
