(* ===== verification/Upkeep_Properties.thy ===== *)
theory Upkeep_Properties
  imports Registry_Properties Flow_Audit
begin

text \<open>
  The properties of the maintenance and the audit of the flow registry: what a run does to each flow,
  that its preview counts the same, and what the audit still reports afterwards.
\<close>

section \<open>Active tasks of a flow\<close>

definition flow_is_active :: "tasks_state \<Rightarrow> string \<Rightarrow> bool" where
  "flow_is_active s i \<longleftrightarrow> (\<exists>k. norm_opt (Some i) = Some k \<and>
     (\<exists>t \<in> ran (record_of s). norm_opt (t_parent_flow t) = Some k \<and> active_task (t_status t)))"

lemma flow_is_active_iff: "tasks_indexed s \<Longrightarrow> flow_is_active s i \<longleftrightarrow> has_active_tasks s i"
proof (cases "norm_opt (Some i)")
  case None
  then show ?thesis by (simp add: flow_is_active_def has_active_tasks_def tasks_of_flow_def list_from_index_def)
next
  case (Some k)
  then show "tasks_indexed s \<Longrightarrow> ?thesis" using has_active_iff [of s i k] by (simp add: flow_is_active_def flow_key_def)
qed

section \<open>A run of maintenance\<close>

lemma upkept_iff: "upkept now active f = (if mode f = TaskMirrored \<and> is_terminal (status f) \<and>
      (\<exists>x. ended_at f = Some x \<and> created_at f \<le> x \<and> x < updated_at f)
    then Some (f\<lparr>updated_at := the (ended_at f), revision := revision f + 1\<rparr>)
    else if mode f = Managed \<and> cancel_requested_at f \<noteq> None \<and> \<not> is_terminal (status f) \<and> \<not> active
    then Some (f\<lparr>status := FCancelled, blocked_task_id := None, blocked_summary := None, wait_json := Some JNull,
      ended_at := Some (final_time now f), updated_at := final_time now f, revision := revision f + 1\<rparr>)
    else if is_terminal (status f) \<and> \<not> active \<and> 604800000 \<le> now - opt_else (ended_at f) (updated_at f)
    then None else Some f)"
proof -
  have "flow_retention = 604800000" by (simp add: flow_retention_def)
  then show ?thesis by (simp only: upkept_def should_repair_iff cancel_due_def prune_due_def terminal_at_def)
qed

text \<open>C34: from any reachable state with a consistent flow registry, a run of the flow maintenance always completes, leaves the tasks alone and does to each flow that is
  not blocked with a cancellation requested exactly this: it repairs the update time of a mirrored flow that
  ended before its last update, cancels a managed flow that was asked to cancel and has no active task,
  removes a flow that ended or was blocked, a week ago, and has no active task, and leaves any other flow
  as it is.  It adds no flow.\<close>

theorem flow_maintenance_exact:
  assumes "tasks_reachable e s0 s" and "restored s" and "registry_ok (jio e) (flow_reg s)" and "null_fits (jio e)"
    and "distinct (map fst (flows (flow_reg s)))" and "run_flow_maintenance e now s = (res, s')"
  shows "(\<exists>u. res = Inr u) \<and> s' = s\<lparr>flow_reg := flow_reg s'\<rparr> \<and> registry_ok (jio e) (flow_reg s') \<and>
    (\<forall>i. case map_of (flows (flow_reg s)) i of None \<Rightarrow> map_of (flows (flow_reg s')) i = None | Some f \<Rightarrow>
      \<not> (status f = FBlocked \<and> cancel_requested_at f \<noteq> None) \<longrightarrow> map_of (flows (flow_reg s')) i =
      (if mode f = TaskMirrored \<and> is_terminal (status f) \<and>
          (\<exists>x. ended_at f = Some x \<and> created_at f \<le> x \<and> x < updated_at f)
        then Some (f\<lparr>updated_at := the (ended_at f), revision := revision f + 1\<rparr>)
       else if mode f = Managed \<and> cancel_requested_at f \<noteq> None \<and> \<not> is_terminal (status f) \<and> \<not> flow_is_active s i
        then Some (f\<lparr>status := FCancelled, blocked_task_id := None, blocked_summary := None, wait_json := Some JNull,
          ended_at := Some (final_time now f), updated_at := final_time now f, revision := revision f + 1\<rparr>)
       else if is_terminal (status f) \<and> \<not> flow_is_active s i \<and>
          604800000 \<le> now - opt_else (ended_at f) (updated_at f)
        then None else Some f))"
proof -
  have "tasks_indexed s" using tasks_reachable_ok [OF assms(1)] assms(2) by (simp add: tasks_ok_def)
  note active = flow_is_active_iff [OF this]
  have "upkeep_ready e s" using assms(2-4) by (simp add: upkeep_ready_def)
  from run_effect [OF this assms(5), of now] obtain u r where
    r: "res = Inr u" "s' = s\<lparr>flow_reg := r\<rparr>" "registry_ok (jio e) r"
    "\<forall>i. map_of (flows r) i = Option.bind (map_of (flows (flow_reg s)) i) (upkept now (has_active_tasks s i))"
    by (auto simp: assms(6))
  have "map_of (flows r) i = (case map_of (flows (flow_reg s)) i of None \<Rightarrow> None | Some f \<Rightarrow>
      upkept now (flow_is_active s i) f)" for i
    by (cases "map_of (flows (flow_reg s)) i") (simp_all add: r(4)[rule_format] active)
  note each = this
  have reg: "flow_reg s' = r" by (simp add: r(2))
  show ?thesis
  proof (intro conjI allI)
    fix i
    show "case map_of (flows (flow_reg s)) i of None \<Rightarrow> map_of (flows (flow_reg s')) i = None | Some f \<Rightarrow>
      \<not> (status f = FBlocked \<and> cancel_requested_at f \<noteq> None) \<longrightarrow> map_of (flows (flow_reg s')) i =
      (if mode f = TaskMirrored \<and> is_terminal (status f) \<and>
          (\<exists>x. ended_at f = Some x \<and> created_at f \<le> x \<and> x < updated_at f)
        then Some (f\<lparr>updated_at := the (ended_at f), revision := revision f + 1\<rparr>)
       else if mode f = Managed \<and> cancel_requested_at f \<noteq> None \<and> \<not> is_terminal (status f) \<and> \<not> flow_is_active s i
        then Some (f\<lparr>status := FCancelled, blocked_task_id := None, blocked_summary := None, wait_json := Some JNull,
          ended_at := Some (final_time now f), updated_at := final_time now f, revision := revision f + 1\<rparr>)
       else if is_terminal (status f) \<and> \<not> flow_is_active s i \<and>
          604800000 \<le> now - opt_else (ended_at f) (updated_at f)
        then None else Some f)"
    proof (cases "map_of (flows (flow_reg s)) i")
      case (Some f)
      have "map_of (flows (flow_reg s')) i = upkept now (flow_is_active s i) f" using each [of i] by (simp only: reg Some option.case)
      then show ?thesis unfolding Some option.case upkept_iff by iprover
    qed (use each [of i] in \<open>simp only: reg option.case\<close>)
  qed (simp_all add: r)
qed

definition idle_flows :: tasks_state where
  "idle_flows = finished\<lparr>flow_reg := snd (update_expected null_io 15 ''f1'' 0 (empty_patch\<lparr>p_cancel := Put 15\<rparr>) with_flow)\<rparr>"

lemma idle_flows_ready:
  "tasks_reachable plain_env idle_tasks idle_flows" "restored idle_flows" "registry_ok (jio plain_env) (flow_reg idle_flows)"
  "null_fits (jio plain_env)" "distinct (map fst (flows (flow_reg idle_flows)))"
proof -
  have io: "jio plain_env = null_io" by (simp add: plain_env_def)
  have reg: "flow_reg finished = with_flow" by code_simp
  have "idle_flows = finished\<lparr>flow_reg := snd (update_expected (jio plain_env) 15 ''f1'' 0 (empty_patch\<lparr>p_cancel := Put 15\<rparr>) (flow_reg finished))\<rparr>"
    by (simp add: idle_flows_def io reg)
  moreover have "flow_step (jio plain_env) (flow_reg finished)
      (snd (update_expected (jio plain_env) 15 ''f1'' 0 (empty_patch\<lparr>p_cancel := Put 15\<rparr>) (flow_reg finished)))"
    by (rule flow_step.update)
  ultimately have "task_op plain_env finished idle_flows" using task_op.flows by metis
  then show "tasks_reachable plain_env idle_tasks idle_flows"
    by (intro tasks_reachable.step [OF demo_reachable(3)] task_step.op) simp
  show "restored idle_flows" by (simp add: idle_flows_def)
  show "registry_ok (jio plain_env) (flow_reg idle_flows)"
    using registry_stays_consistent [of null_io with_flow "empty_patch\<lparr>p_cancel := Put 15\<rparr>" 15 "''f1''" 0]
    by (simp add: idle_flows_def io empty_patch_def)
  show "null_fits (jio plain_env)" by (simp add: io)
  show "distinct (map fst (flows (flow_reg idle_flows)))" by code_simp
qed

lemma flow_maintenance_exact_witness:
  "\<exists>f. map_of (flows (flow_reg (snd (run_flow_maintenance plain_env 30 idle_flows)))) ''f1'' = Some f \<and>
    status f = FCancelled \<and> ended_at f = Some 30"
proof -
  let ?f = "the (map_of (flows (flow_reg idle_flows)) ''f1'')" and ?m = "run_flow_maintenance plain_env 30 idle_flows"
  have f: "map_of (flows (flow_reg idle_flows)) ''f1'' = Some ?f" "mode ?f = Managed" "cancel_requested_at ?f \<noteq> None"
    "\<not> is_terminal (status ?f)" "final_time 30 ?f = 30" by code_simp+
  have "\<not> has_active_tasks idle_flows ''f1''" by code_simp
  moreover have "tasks_indexed idle_flows"
    using tasks_reachable_ok [OF idle_flows_ready(1)] idle_flows_ready(2) by (simp add: tasks_ok_def)
  ultimately have idle: "\<not> flow_is_active idle_flows ''f1''" by (simp add: flow_is_active_iff)
  obtain f where m: "map_of (flows (flow_reg idle_flows)) ''f1'' = Some f" using f(1) by blast
  have "mode f = Managed" "cancel_requested_at f \<noteq> None" "\<not> is_terminal (status f)" "final_time 30 f = 30" "status f \<noteq> FBlocked"
    using f(2-5) by (auto simp: m is_terminal_def)
  with flow_maintenance_exact [OF idle_flows_ready, of 30 "fst ?m" "snd ?m"] m idle show ?thesis
    by (auto dest!: conjunct2 spec [of _ "''f1''"])
qed

section \<open>Its preview\<close>

lemma fold_counted:
  "fold (\<lambda>f. counted now (act f) f) fs u = \<lparr>
    reconciled = reconciled u + length (filter (\<lambda>f. should_repair f \<or> cancel_due (act f) f) fs),
    pruned = pruned u + length (filter (\<lambda>f. \<not> (should_repair f \<or> cancel_due (act f) f) \<and> prune_due now (act f) f) fs)\<rparr>"
  by (induction fs arbitrary: u) (auto simp: counted_def count_reconciled_def count_pruned_def)

lemma count_ids:
  assumes "distinct (map flow_id fs)" and "set fs = ran m" and "\<forall>f \<in> set fs. m (flow_id f) = Some f"
    and "\<forall>i f. m i = Some f \<longrightarrow> flow_id f = i"
  shows "length (filter P fs) = card {i. \<exists>f. m i = Some f \<and> P f}"
proof -
  have "inj_on flow_id (set fs)" and "distinct fs" using assms(1) by (simp_all add: distinct_map)
  then have "length (filter P fs) = card (flow_id ` set (filter P fs))"
    using distinct_card [of "filter P fs"] card_image [of flow_id "set (filter P fs)"] by (simp add: inj_on_subset)
  moreover have "flow_id ` set (filter P fs) = {i. \<exists>f. m i = Some f \<and> P f}"
    using assms(2-4) by (force simp: ran_def)
  ultimately show ?thesis by simp
qed

text \<open>The preview of the maintenance changes nothing and counts exactly what a run at that time does:
  the flows it changes and the flows it removes.\<close>

lemma flow_maintenance_previewed:
  assumes "restored s" and "registry_ok (jio e) (flow_reg s)" and "null_fits (jio e)"
    and "distinct (map fst (flows (flow_reg s)))" and "run_flow_maintenance e now s = (res, s')"
  shows "\<exists>u. preview_flow_maintenance e now s = (u, s) \<and> res = Inr u \<and>
    reconciled u = card {i. \<exists>f f'. map_of (flows (flow_reg s)) i = Some f \<and> map_of (flows (flow_reg s')) i = Some f' \<and> f' \<noteq> f} \<and>
    pruned u = card {i. map_of (flows (flow_reg s)) i \<noteq> None \<and> map_of (flows (flow_reg s')) i = None}"
proof -
  let ?m = "map_of (flows (flow_reg s))" and ?act = "\<lambda>f. has_active_tasks s (flow_id f)"
  have ready: "upkeep_ready e s" using assms(1-3) by (simp add: upkeep_ready_def)
  obtain fs where fs: "listed_flows e s = (fs, s)" "distinct (map flow_id fs)" "set fs = ran ?m"
    "\<forall>f \<in> set fs. ?m (flow_id f) = Some f" using listed_flows_ok [OF assms(2,4)] by blast
  have id: "\<forall>i f. ?m i = Some f \<longrightarrow> flow_id f = i" using assms(2) by (simp add: registry_ok_def)
  obtain u r where r: "res = Inr u" "s' = s\<lparr>flow_reg := r\<rparr>" "preview_flow_maintenance e now s = (u, s)"
    "\<forall>i. map_of (flows r) i = Option.bind (?m i) (upkept now (has_active_tasks s i))"
    using run_effect [OF ready assms(4), of now] by (auto simp: assms(5))
  have "u = fold (\<lambda>f. counted now (?act f) f) fs no_upkeep"
    using r(3) assms(1) by (simp add: preview_flow_maintenance_def fs(1) preview_flows_restored)
  then have u: "reconciled u = card {i. \<exists>f. ?m i = Some f \<and> (should_repair f \<or> cancel_due (?act f) f)}"
    "pruned u = card {i. \<exists>f. ?m i = Some f \<and> \<not> (should_repair f \<or> cancel_due (?act f) f) \<and> prune_due now (?act f) f}"
    using count_ids [OF fs(2,3,4) id] by (simp_all add: fold_counted no_upkeep_def)
  have gone: "map_of (flows r) i = None \<longleftrightarrow> \<not> (should_repair f \<or> cancel_due (?act f) f) \<and> prune_due now (?act f) f"
    and changed: "(\<exists>f'. map_of (flows r) i = Some f' \<and> f' \<noteq> f) \<longleftrightarrow> should_repair f \<or> cancel_due (?act f) f"
    if "?m i = Some f" for i f
  proof -
    have i: "flow_id f = i" using id that by blast
    show "map_of (flows r) i = None \<longleftrightarrow> \<not> (should_repair f \<or> cancel_due (?act f) f) \<and> prune_due now (?act f) f"
      by (simp add: r(4) that i upkept_def)
    show "(\<exists>f'. map_of (flows r) i = Some f' \<and> f' \<noteq> f) \<longleftrightarrow> should_repair f \<or> cancel_due (?act f) f"
      by (auto simp: r(4) that i upkept_def dest: arg_cong [where f = revision])
  qed
  have "{i. \<exists>f f'. ?m i = Some f \<and> map_of (flows r) i = Some f' \<and> f' \<noteq> f} =
      {i. \<exists>f. ?m i = Some f \<and> (should_repair f \<or> cancel_due (?act f) f)}" using changed by blast
  moreover have "{i. ?m i \<noteq> None \<and> map_of (flows r) i = None} =
      {i. \<exists>f. ?m i = Some f \<and> \<not> (should_repair f \<or> cancel_due (?act f) f) \<and> prune_due now (?act f) f}" using gone by blast
  ultimately show ?thesis using r(1-3) u by simp
qed

section \<open>The audit\<close>

lemma upkept_settled: "upkept now active h = Some f \<Longrightarrow> \<not> should_repair f \<and> \<not> cancel_due active f"
  by (auto simp: upkept_def should_repair_iff cancel_due_def is_terminal_def split: if_splits)

lemma stuck_finding:
  assumes "a \<in> set (flow_findings opts now (tasks_of_flow s (flow_id f)) f)" and "fi_code a = CancelStuck"
  shows "cancel_requested_at f \<noteq> None \<and> \<not> has_active_tasks s (flow_id f) \<and> (is_terminal (status f) \<longrightarrow> status f = FBlocked)"
proof -
  have "a \<in> set (cancel_finding opts now (tasks_of_flow s (flow_id f)) f)"
    using assms codes_of_findings(1-4) by (fastforce simp: flow_findings_def Let_def)
  then show ?thesis
    by (cases "cancel_requested_at f") (auto simp: cancel_finding_def no_active_filter is_terminal_def split: if_splits)
qed

lemma times_finding:
  assumes "a \<in> set (flow_findings opts now tasks f)" and "fi_code a = InconsistentTimestamps"
  shows "updated_at f < created_at f \<or> (\<exists>x. ended_at f = Some x \<and> (x < created_at f \<or> x < updated_at f))"
proof -
  have "a \<in> set (timestamp_finding f)"
    using assms codes_of_findings(1-3,5) by (fastforce simp: flow_findings_def Let_def)
  then show ?thesis by (auto simp: timestamp_finding_def Let_def split: option.splits if_splits)
qed

text \<open>After a run of the maintenance the audit reports a stuck cancellation only for a blocked or a
  mirrored flow, and contradicting times of an ended mirrored flow only when it was updated or ended before
  it was created.\<close>

lemma maintenance_settles_audit:
  assumes "restored s" and "registry_ok (jio e) (flow_reg s)" and "null_fits (jio e)"
    and "distinct (map fst (flows (flow_reg s)))" and "run_flow_maintenance e now s = (res, s')"
    and "distinct (map fst (flows (flow_reg s')))" and "op_flows opts = None"
    and "a \<in> set (fst (list_findings e clock opts s'))" and "fi_flow a = Some f"
  shows "(fi_code a = CancelStuck \<longrightarrow> mode f = TaskMirrored \<or> status f = FBlocked) \<and>
    (fi_code a = InconsistentTimestamps \<and> mode f = TaskMirrored \<and> is_terminal (status f) \<longrightarrow>
      updated_at f < created_at f \<or> (\<exists>x. ended_at f = Some x \<and> x < created_at f))"
proof -
  let ?m = "map_of (flows (flow_reg s))"
  have ready: "upkeep_ready e s" using assms(1-3) by (simp add: upkeep_ready_def)
  obtain r where r: "s' = s\<lparr>flow_reg := r\<rparr>" "registry_ok (jio e) r"
    "\<forall>i. map_of (flows r) i = Option.bind (?m i) (upkept now (has_active_tasks s i))"
    using run_effect [OF ready assms(4), of now] by (auto simp: assms(5))
  have "upkeep_ready e s'" using ready r(2) by (simp add: r(1) upkeep_ready_def)
  then obtain g where g: "g \<in> ran (map_of (flows r))"
    "a \<in> set (flow_findings opts (opt_else (op_now opts) clock) (tasks_of_flow s' (flow_id g)) g)"
    using list_findings_ready(2) [OF _ assms(6,7), of e clock] assms(8,9) by (auto simp: r(1))
  have "fi_flow a = Some g" using g(2) by (auto simp: flow_findings_def Let_def dest: codes_of_findings)
  then have [simp]: "g = f" using assms(9) by simp
  obtain i h where h: "?m i = Some h" "upkept now (has_active_tasks s i) h = Some f" and "map_of (flows r) i = Some f"
    using g(1) r(3) by (auto simp: ran_def bind_eq_Some_conv)
  then have i: "flow_id f = i" "flow_id h = i" using r(2) assms(2) by (simp_all add: registry_ok_def)
  have settled: "\<not> should_repair f" "\<not> cancel_due (has_active_tasks s i) f" using upkept_settled [OF h(2)] by simp_all
  have "has_active_tasks s' i = has_active_tasks s i" by (simp add: r(1))
  then have idle: "fi_code a = CancelStuck \<Longrightarrow> cancel_requested_at f \<noteq> None \<and> \<not> has_active_tasks s i \<and>
      (is_terminal (status f) \<longrightarrow> status f = FBlocked)"
    using stuck_finding [of a opts "opt_else (op_now opts) clock" s' f] g(2) by (simp add: i)
  have times: "fi_code a = InconsistentTimestamps \<Longrightarrow>
      updated_at f < created_at f \<or> (\<exists>x. ended_at f = Some x \<and> (x < created_at f \<or> x < updated_at f))"
    using times_finding [of a opts "opt_else (op_now opts) clock" "tasks_of_flow s' (flow_id f)" f] g(2) by simp
  show ?thesis
  proof (intro conjI impI)
    assume "fi_code a = CancelStuck"
    then show "mode f = TaskMirrored \<or> status f = FBlocked"
      using idle settled(2) by (cases "mode f") (auto simp: cancel_due_def)
  next
    assume "fi_code a = InconsistentTimestamps \<and> mode f = TaskMirrored \<and> is_terminal (status f)"
    then show "updated_at f < created_at f \<or> (\<exists>x. ended_at f = Some x \<and> x < created_at f)"
      using times settled(1) unfolding should_repair_iff by (meson not_le)
  qed
qed

text \<open>A blocked flow that was asked to cancel: maintenance keeps it and the audit reports it.\<close>

definition blocked_flows :: tasks_state where
  "blocked_flows = finished\<lparr>flow_reg := snd (update_expected null_io 15 ''f1'' 0
     (empty_patch\<lparr>p_status := Some FBlocked, p_cancel := Put 15\<rparr>) with_flow)\<rparr>"

lemma blocked_flows_ready:
  "restored blocked_flows" "registry_ok (jio plain_env) (flow_reg blocked_flows)" "null_fits (jio plain_env)"
proof -
  show "registry_ok (jio plain_env) (flow_reg blocked_flows)"
    using registry_stays_consistent [of null_io with_flow "empty_patch\<lparr>p_status := Some FBlocked, p_cancel := Put 15\<rparr>" 15 "''f1''" 0]
    by (simp add: blocked_flows_def plain_env_def empty_patch_def)
qed (simp_all add: blocked_flows_def plain_env_def)

text \<open>The audit changes nothing, reports errors before warnings and older findings first, its summary adds
  up, and it counts an error exactly when the registry could not be restored or a flow has been running
  without progress for the limit.\<close>

lemma flow_audit_reports:
  assumes "restored s" and "registry_ok (jio e) (flow_reg s)" and "null_fits (jio e)"
    and "distinct (map fst (flows (flow_reg s)))" and "list_findings e now opts s = (fs, s')"
    and "op_flows opts = None" and "op_now opts = None"
  shows "s' = s \<and> sorted_wrt (\<lambda>a b. compare_findings a b \<le> 0) fs \<and>
    au_total (summarize_findings fs) = length fs \<and>
    au_total (summarize_findings fs) = au_warnings (summarize_findings fs) + au_errors (summarize_findings fs) \<and>
    (au_errors (summarize_findings fs) \<noteq> 0 \<longleftrightarrow>
      (\<exists>msg. restore_failure (flow_reg s) = Some msg \<and> msg \<noteq> []) \<or>
      (\<exists>f \<in> ran (map_of (flows (flow_reg s))). status f = FRunning \<and>
        opt_else (op_stale_running opts) 1800000 \<le> max 0 (now - updated_at f)))"
proof -
  have ready: "upkeep_ready e s" using assms(1-3) by (simp add: upkeep_ready_def)
  note found = list_findings_ready [OF ready assms(4), where clock = now and opts = opts]
  have "s' = s" using found(1) assms(5) by simp
  moreover have "sorted_wrt (\<lambda>a b. compare_findings a b \<le> 0) fs"
    using assms(5) findings_sorted by (auto simp: list_findings_def Let_def split: prod.splits option.splits)
  moreover have "au_total (summarize_findings fs) = length fs"
    by (simp add: summarize_findings_def summary_counts empty_audit_def)
  moreover have "au_errors (summarize_findings fs) \<noteq> 0 \<longleftrightarrow> (\<exists>a \<in> set fs. fi_severity a = AuditError)"
    by (auto simp: summarize_findings_def summary_counts empty_audit_def filter_empty_conv)
  moreover have "(\<exists>a \<in> set fs. fi_severity a = AuditError) \<longleftrightarrow>
      (\<exists>msg. restore_failure (flow_reg s) = Some msg \<and> msg \<noteq> []) \<or>
      (\<exists>f \<in> ran (map_of (flows (flow_reg s))). \<exists>a \<in> set (flow_findings opts now (tasks_of_flow s (flow_id f)) f).
        fi_severity a = AuditError)"
    using found(2) [OF assms(6)] assms(5,7) by (auto simp: opt_else_def)
  moreover have "stale_limit opts FRunning = opt_else (op_stale_running opts) 1800000"
    by (simp add: stale_limit_def default_stale_ms_def)
  ultimately show ?thesis using summary_balances [of fs] by (simp add: error_findings flow_age_def)
qed

end
