(* ===== verification/Task_Audit.thy ===== *)
theory Task_Audit
  imports Registry_Properties "HOL-Library.Product_Lexorder"
begin

text \<open>
  The audit of the task registry, \<^verbatim>\<open>src/tasks/task-registry.audit.ts\<close> with
  \<^verbatim>\<open>task-registry.audit.shared.ts\<close>: findings about tasks that do not advance, are lost, were not
  announced, or have times that contradict each other.
\<close>

section \<open>Findings\<close>

datatype task_severity = TaskWarn | TaskError

datatype task_audit_code = TaskStaleQueued | TaskStaleRunning | TaskIsLost | DeliveryFailed | MissingCleanup | TaskTimestamps

record task_finding =
  tf_severity :: task_severity
  tf_code :: task_audit_code
  tf_task :: task_record
  tf_age :: "int option"
  tf_detail :: string

record task_audit_summary =
  ta_total :: nat
  ta_warnings :: nat
  ta_errors :: nat
  ta_by_code :: "task_audit_code \<Rightarrow> nat"

record task_audit_options =
  to_now :: "int option"
  to_tasks :: "task_record list option"
  to_stale_queued :: "int option"
  to_stale_running :: "int option"

definition default_stale_queued :: int where
  "default_stale_queued = 10 * 60000"

definition default_stale_running :: int where
  "default_stale_running = 30 * 60000"

text \<open>\<^verbatim>\<open>compareTaskAuditFindingSortKeys\<close>, on severity, age and creation.\<close>

definition task_severity_rank :: "task_severity \<Rightarrow> int" where
  "task_severity_rank v = (if v = TaskError then 0 else 1)"

definition compare_task_findings :: "task_finding \<Rightarrow> task_finding \<Rightarrow> int" where
  "compare_task_findings a b =
     (let diff = task_severity_rank (tf_severity a) - task_severity_rank (tf_severity b) in
      if diff \<noteq> 0 then diff
      else let left_age = opt_else (tf_age a) (-1); right_age = opt_else (tf_age b) (-1) in
        if left_age \<noteq> right_age then right_age - left_age
        else t_created (tf_task a) - t_created (tf_task b))"

definition task_finding_key :: "task_finding \<Rightarrow> int \<times> int \<times> int" where
  "task_finding_key a = (task_severity_rank (tf_severity a), - opt_else (tf_age a) (-1), t_created (tf_task a))"

section \<open>The findings of one task\<close>

definition truthy_time :: "int option \<Rightarrow> bool" where
  "truthy_time v \<longleftrightarrow> v \<noteq> None \<and> v \<noteq> Some 0"

definition task_times_finding :: "task_record \<Rightarrow> task_finding list" where
  "task_times_finding t =
     (let warn = (\<lambda>d. [\<lparr>tf_severity = TaskWarn, tf_code = TaskTimestamps, tf_task = t, tf_age = None, tf_detail = d\<rparr>]) in
      if truthy_time (t_started t) \<and> the (t_started t) < t_created t then warn ''startedAt is earlier than createdAt''
      else if truthy_time (t_ended t) \<and> truthy_time (t_started t) \<and> the (t_ended t) < the (t_started t)
        then warn ''endedAt is earlier than startedAt''
      else if active_task (t_status t) \<and> truthy_time (t_ended t)
        then warn (status_text (t_status t) @ '' task should not already have endedAt'')
      else [])"

definition task_age :: "int \<Rightarrow> task_record \<Rightarrow> int" where
  "task_age now t = max 0 (now - opt_else (t_last_event t) (opt_else (t_started t) (t_created t)))"

definition lost_finding :: "int \<Rightarrow> task_record \<Rightarrow> task_finding list" where
  "lost_finding now t = (if t_status t \<noteq> TLost then []
     else let kept = (case t_cleanup t of None \<Rightarrow> False | Some c \<Rightarrow> now < c) in
       [\<lparr>tf_severity = (if kept then TaskWarn else TaskError), tf_code = TaskIsLost, tf_task = t,
         tf_age = Some (task_age now t),
         tf_detail = opt_else (norm_opt (t_error t))
           (if kept then ''task lost its backing session and is retained until cleanupAfter''
            else ''task lost its backing session'')\<rparr>])"

definition task_findings :: "task_audit_options \<Rightarrow> int \<Rightarrow> task_record \<Rightarrow> task_finding list" where
  "task_findings opts now t =
     (let age = task_age now t;
          found = (\<lambda>sev code d. [\<lparr>tf_severity = sev, tf_code = code, tf_task = t, tf_age = Some age, tf_detail = d\<rparr>]) in
      (if t_status t = TQueued \<and> opt_else (to_stale_queued opts) default_stale_queued \<le> age
       then found TaskWarn TaskStaleQueued ''queued task has not advanced recently'' else []) @
      (if t_status t = TRunning \<and> opt_else (to_stale_running opts) default_stale_running \<le> age
       then found TaskError TaskStaleRunning ''running task appears stuck'' else []) @
      lost_finding now t @
      (if t_delivery t = DFailed \<and> t_notify t \<noteq> Silent
       then found TaskWarn DeliveryFailed ''terminal update delivery failed'' else []) @
      (if t_status t \<noteq> TLost \<and> t_status t \<noteq> TQueued \<and> t_status t \<noteq> TRunning \<and> t_cleanup t = None
       then found TaskWarn MissingCleanup ''terminal task is missing cleanupAfter'' else []) @
      task_times_finding t)"

section \<open>The audit and its summary\<close>

text \<open>\<open>provided\<close> are the tasks of the configured provider.\<close>

definition list_task_findings :: "task_record list \<Rightarrow> int \<Rightarrow> task_audit_options \<Rightarrow> task_finding list" where
  "list_task_findings provided clock opts =
     sort_key task_finding_key (concat (map (task_findings opts (opt_else (to_now opts) clock)) (opt_else (to_tasks opts) provided)))"

definition empty_task_audit :: task_audit_summary where
  "empty_task_audit = \<lparr>ta_total = 0, ta_warnings = 0, ta_errors = 0, ta_by_code = (\<lambda>_. 0)\<rparr>"

definition add_task_finding :: "task_finding \<Rightarrow> task_audit_summary \<Rightarrow> task_audit_summary" where
  "add_task_finding a u = (let v = u\<lparr>ta_total := ta_total u + 1,
       ta_by_code := (ta_by_code u)(tf_code a := ta_by_code u (tf_code a) + 1)\<rparr> in
     if tf_severity a = TaskError then v\<lparr>ta_errors := ta_errors v + 1\<rparr>
     else v\<lparr>ta_warnings := ta_warnings v + 1\<rparr>)"

definition summarize_task_findings :: "task_finding list \<Rightarrow> task_audit_summary" where
  "summarize_task_findings fs = fold add_task_finding fs empty_task_audit"

section \<open>What is found\<close>

lemma compare_task_key: "compare_task_findings a b \<le> 0 \<longleftrightarrow> task_finding_key a \<le> task_finding_key b"
  by (auto simp: compare_task_findings_def task_finding_key_def Let_def less_eq_prod_def task_severity_rank_def split: if_splits)

lemma task_summary_counts:
  "ta_total (fold add_task_finding fs u) = ta_total u + length fs"
  "ta_errors (fold add_task_finding fs u) = ta_errors u + length (filter (\<lambda>a. tf_severity a = TaskError) fs)"
  "ta_warnings (fold add_task_finding fs u) = ta_warnings u + length (filter (\<lambda>a. tf_severity a \<noteq> TaskError) fs)"
  "ta_by_code (fold add_task_finding fs u) c = ta_by_code u c + length (filter (\<lambda>a. tf_code a = c) fs)"
  by (induction fs arbitrary: u) (simp_all add: add_task_finding_def Let_def)

lemma task_errors:
  "(\<exists>a \<in> set (task_findings opts now t). tf_severity a = TaskError) \<longleftrightarrow>
    (t_status t = TRunning \<and> opt_else (to_stale_running opts) default_stale_running \<le> task_age now t) \<or>
    (t_status t = TLost \<and> \<not> (\<exists>c. t_cleanup t = Some c \<and> now < c))"
proof -
  have "tf_severity a \<noteq> TaskError" if "a \<in> set (task_times_finding t)" for a
    using that by (auto simp: task_times_finding_def Let_def split: if_splits)
  then show ?thesis
    by (auto simp: task_findings_def lost_finding_def Let_def split: option.splits)
qed

lemma times_in_order:
  assumes "in_order t" and a: "a \<in> set (task_times_finding t)"
  shows "tf_code a = TaskTimestamps \<and> active_task (t_status t) \<and> truthy_time (t_ended t) \<and> tf_task a = t"
proof -
  have "\<not> (truthy_time (t_started t) \<and> the (t_started t) < t_created t)"
    using assms(1) by (cases "t_started t") (auto simp: in_order_def truthy_time_def)
  moreover have "\<not> (truthy_time (t_ended t) \<and> truthy_time (t_started t) \<and> the (t_ended t) < the (t_started t))"
    using assms(1) by (cases "t_started t"; cases "t_ended t") (auto simp: in_order_def truthy_time_def)
  ultimately show ?thesis using a by (auto simp: task_times_finding_def Let_def split: if_splits)
qed

lemma audit_in_order:
  assumes "in_order t" and "terminal_task (t_status t) \<longrightarrow> t_cleanup t \<noteq> None" and a: "a \<in> set (task_findings opts now t)"
  shows "tf_code a \<noteq> MissingCleanup \<and>
    (tf_code a = TaskTimestamps \<longrightarrow> active_task (t_status t) \<and> truthy_time (t_ended t)) \<and> tf_task a = t"
proof (cases "a \<in> set (task_times_finding t)")
  case True
  from times_in_order [OF assms(1) this] show ?thesis by simp
next
  case False
  have "t_status t \<noteq> TLost \<Longrightarrow> t_status t \<noteq> TQueued \<Longrightarrow> t_status t \<noteq> TRunning \<Longrightarrow> t_cleanup t \<noteq> None"
    using assms(2) by (cases "t_status t") (auto simp: terminal_task_def)
  with False a have "tf_code a \<in> {TaskStaleQueued, TaskStaleRunning, TaskIsLost, DeliveryFailed} \<and> tf_task a = t"
    by (auto simp: task_findings_def lost_finding_def Let_def split: if_splits)
  then show ?thesis by auto
qed

text \<open>Of a reachable registry the audit reports no task without a cleanup time and no times out of order, only
  active tasks that already have an end time; it reports errors first, and it counts an error exactly when a
  task has been running without an event for the limit or is lost and due for cleanup.\<close>

lemma task_audit_of_reachable:
  assumes "tasks_reachable e s0 s" and "restored s" and "rows_retained s0"
    and "fs = list_task_findings (list_task_records s) now opts" and "to_tasks opts = None" and "to_now opts = None"
  shows "(\<forall>a \<in> set fs. tf_code a \<noteq> MissingCleanup \<and> tf_task a \<in> ran (record_of s) \<and>
      (tf_code a = TaskTimestamps \<longrightarrow> active_task (t_status (tf_task a)) \<and> t_ended (tf_task a) \<noteq> None)) \<and>
    sorted_wrt (\<lambda>a b. compare_task_findings a b \<le> 0) fs \<and>
    ta_total (summarize_task_findings fs) = ta_warnings (summarize_task_findings fs) + ta_errors (summarize_task_findings fs) \<and>
    (ta_errors (summarize_task_findings fs) \<noteq> 0 \<longleftrightarrow> (\<exists>t \<in> ran (record_of s).
      (t_status t = TRunning \<and> opt_else (to_stale_running opts) 1800000 \<le>
        max 0 (now - opt_else (t_last_event t) (opt_else (t_started t) (t_created t)))) \<or>
      (t_status t = TLost \<and> \<not> (\<exists>c. t_cleanup t = Some c \<and> now < c))))"
proof -
  have ok: "tasks_indexed s" "ordered s" using tasks_reachable_ok [OF assms(1)] assms(2) by (simp_all add: tasks_ok_def)
  have kept: "in_order t" "terminal_task (t_status t) \<longrightarrow> t_cleanup t \<noteq> None" if "t \<in> ran (record_of s)" for t
    using that ok(2) reachable_retains [OF assms(1,3)] assms(2)
    by (auto simp: ordered_def all_records_def retains_def retained_def)
  have "record_of s = map_of (records s)" by (simp add: fun_eq_iff record_of_def)
  then have tasks: "set (list_task_records s) = ran (record_of s)"
    using ok(1) by (simp add: list_task_records_def newest_first_def ran_distinct tasks_indexed_def)
  have fs: "set fs = (\<Union>t \<in> ran (record_of s). set (task_findings opts now t))"
    using assms(5,6) tasks by (simp add: assms(4) list_task_findings_def opt_else_def)
  have "\<forall>a \<in> set fs. tf_code a \<noteq> MissingCleanup \<and> tf_task a \<in> ran (record_of s) \<and>
      (tf_code a = TaskTimestamps \<longrightarrow> active_task (t_status (tf_task a)) \<and> t_ended (tf_task a) \<noteq> None)"
    using audit_in_order [OF kept] unfolding fs truthy_time_def by blast
  moreover have "sorted (map task_finding_key fs)" by (simp add: assms(4) list_task_findings_def)
  then have "sorted_wrt (\<lambda>a b. compare_task_findings a b \<le> 0) fs" by (simp add: sorted_map compare_task_key)
  moreover have "ta_total (summarize_task_findings fs) = ta_warnings (summarize_task_findings fs) + ta_errors (summarize_task_findings fs)"
    unfolding summarize_task_findings_def task_summary_counts
    using sum_length_filter_compl [of "\<lambda>a. tf_severity a = TaskError" fs] by (simp add: empty_task_audit_def)
  moreover have "ta_errors (summarize_task_findings fs) \<noteq> 0 \<longleftrightarrow> (\<exists>a \<in> set fs. tf_severity a = TaskError)"
    by (auto simp: summarize_task_findings_def task_summary_counts empty_task_audit_def filter_empty_conv)
  moreover have "default_stale_running = 1800000" by (simp add: default_stale_running_def)
  ultimately show ?thesis using task_errors [of opts now] unfolding fs task_age_def by simp
qed

end
