(* ===== verification/Sweeper.thy ===== *)
theory Sweeper
  imports Main
begin

text \<open>
  When the task registry is swept, \<^verbatim>\<open>src/tasks/task-registry.maintenance.ts\<close>
  (\<^verbatim>\<open>startTaskRegistryMaintenance\<close>, \<^verbatim>\<open>stopTaskRegistryMaintenance\<close>): a deferred first sweep, an
  interval, and a flag that keeps two scheduled sweeps apart.  Timers are numbered as the event loop hands
  them out; \<open>live\<close> are those that may still fire, \<open>sweeps\<close> counts the sweeps under way.
\<close>

section \<open>State and steps\<close>

record sweeper =
  fresh_timer :: nat
  live :: "nat list"
  deferred :: "nat option"
  interval :: "nat option"
  in_progress :: bool
  sweeps :: nat

definition idle_sweeper :: sweeper where
  "idle_sweeper = \<lparr>fresh_timer = 0, live = [], deferred = None, interval = None, in_progress = False, sweeps = 0\<rparr>"

definition set_timer :: "sweeper \<Rightarrow> nat \<times> sweeper" where
  "set_timer w = (fresh_timer w, w\<lparr>fresh_timer := fresh_timer w + 1, live := live w @ [fresh_timer w]\<rparr>)"

definition clear_timer :: "nat option \<Rightarrow> sweeper \<Rightarrow> sweeper" where
  "clear_timer t w = (case t of None \<Rightarrow> w | Some n \<Rightarrow> w\<lparr>live := filter (\<lambda>m. m \<noteq> n) (live w)\<rparr>)"

definition start_maintenance :: "sweeper \<Rightarrow> sweeper" where
  "start_maintenance w = (case set_timer w of (n, w1) \<Rightarrow>
     let w2 = w1\<lparr>deferred := Some n\<rparr> in
     if interval w2 \<noteq> None then w2
     else (case set_timer w2 of (m, w3) \<Rightarrow> w3\<lparr>interval := Some m\<rparr>))"

definition stop_maintenance :: "sweeper \<Rightarrow> sweeper" where
  "stop_maintenance w = (clear_timer (interval w) (clear_timer (deferred w) w))
     \<lparr>deferred := None, interval := None, in_progress := False\<rparr>"

definition start_sweep :: "sweeper \<Rightarrow> sweeper" where
  "start_sweep w = (if in_progress w then w else w\<lparr>in_progress := True, sweeps := sweeps w + 1\<rparr>)"

definition sweep_ends :: "sweeper \<Rightarrow> sweeper" where
  "sweep_ends w = w\<lparr>in_progress := False, sweeps := sweeps w - 1\<rparr>"

definition deferred_fires :: "nat \<Rightarrow> sweeper \<Rightarrow> sweeper" where
  "deferred_fires n w = start_sweep (w\<lparr>live := filter (\<lambda>m. m \<noteq> n) (live w), deferred := None\<rparr>)"

inductive sweeper_step :: "sweeper \<Rightarrow> sweeper \<Rightarrow> bool" where
  starts: "sweeper_step w (start_maintenance w)"
| deferred: "n \<in> set (live w) \<Longrightarrow> Some n \<noteq> interval w \<Longrightarrow> sweeper_step w (deferred_fires n w)"
| ticks: "interval w = Some n \<Longrightarrow> n \<in> set (live w) \<Longrightarrow> sweeper_step w (start_sweep w)"
| ends: "0 < sweeps w \<Longrightarrow> sweeper_step w (sweep_ends w)"

section \<open>One sweep at a time\<close>

lemma one_sweep_step: "sweeper_step w w' \<Longrightarrow> sweeps w = (if in_progress w then 1 else 0) \<Longrightarrow> sweeps w' = (if in_progress w' then 1 else 0)"
  by (erule sweeper_step.cases)
    (auto simp: start_maintenance_def set_timer_def deferred_fires_def start_sweep_def sweep_ends_def Let_def split: if_splits)

text \<open>Until maintenance is stopped there is never more than one sweep under way.\<close>

lemma one_sweep_at_a_time: "sweeper_step\<^sup>*\<^sup>* idle_sweeper w \<Longrightarrow> sweeps w \<le> 1"
proof -
  assume "sweeper_step\<^sup>*\<^sup>* idle_sweeper w"
  then have "sweeps w = (if in_progress w then 1 else 0)"
    by (induction rule: rtranclp_induct) (simp_all add: idle_sweeper_def one_sweep_step)
  then show ?thesis by simp
qed

text \<open>
  Stopping clears the flag while a sweep is under way, so a start right after it lets a second one begin; and
  a second start forgets the deferred timer of the first, which stopping then leaves live.
\<close>

lemma stop_lets_sweeps_overlap:
  "sweeps (start_sweep (start_maintenance (stop_maintenance (start_sweep (start_maintenance idle_sweeper))))) = 2"
  by code_simp

lemma second_start_leaks_timer: "live (stop_maintenance (start_maintenance (start_maintenance idle_sweeper))) = [0]"
  by code_simp

end
