(* ===== verification/Lane_Queue.thy ===== *)
theory Lane_Queue
  imports JS_Base "HOL-Library.AList"
begin

text \<open>
  The command queue of the gateway, \<^verbatim>\<open>src/process/command-queue.ts\<close>: named lanes that each run at
  most \<open>max_concurrent\<close> commands and queue the rest.  The state is the singleton of
  \<^verbatim>\<open>getQueueState\<close>; \<open>inflight\<close> holds the continuations of started commands, which the event loop
  calls back later (also after a reset of their lane), and \<open>log\<close> records what callers observe:
  starts, wait callbacks and settled promises.  A \<open>ticket\<close> names the promise of one
  \<^verbatim>\<open>enqueueCommandInLane\<close> call.  The user callbacks \<^verbatim>\<open>onWait\<close> and \<^verbatim>\<open>taskTimeoutProgressAtMs\<close> do not
  call back into the queue.  \<^verbatim>\<open>resetCommandQueueStateForTest\<close> is left out.
\<close>

section \<open>State\<close>

datatype failure = TaskFailed string | TimedOut | LaneCleared | GatewayDraining

datatype outcome = Resolved | Rejected failure

record entry =
  ticket :: nat
  enqueued_at :: int
  warn_after :: int
  task_timeout :: "int option"

record lane_state =
  queue :: "entry list"
  active :: "nat list"
  max_concurrent :: nat
  draining :: bool
  generation :: nat

text \<open>A started command: what the closure in \<^verbatim>\<open>pump\<close> has captured.\<close>

record run =
  run_lane :: string
  task_id :: nat
  task_generation :: nat
  run_entry :: entry
  started_at :: int

record waiter =
  waiter_id :: nat
  waits_for :: "nat list"

datatype observed =
    Started string nat
  | WaitWarning nat int nat
  | Settled nat outcome
  | WaiterResolved nat bool

record queue_state =
  gateway_draining :: bool
  lanes :: "(string \<times> lane_state) list"
  waiters :: "waiter list"
  next_task_id :: nat
  inflight :: "run list"
  log :: "observed list"

definition init_queue :: queue_state where
  "init_queue = \<lparr>gateway_draining = False, lanes = [], waiters = [], next_task_id = 1,
     inflight = [], log = []\<rparr>"

definition new_lane :: lane_state where
  "new_lane = \<lparr>queue = [], active = [], max_concurrent = 1, draining = False, generation = 0\<rparr>"

definition normalize_lane :: "string \<Rightarrow> string" where
  "normalize_lane s = (let t = trim s in if t = [] then ''main'' else t)"

definition lane_depth :: "lane_state \<Rightarrow> nat" where
  "lane_depth l = length (queue l) + length (active l)"

definition lane_of :: "queue_state \<Rightarrow> string \<Rightarrow> lane_state option" where
  "lane_of s n = map_of (lanes s) n"

definition put_lane :: "string \<Rightarrow> lane_state \<Rightarrow> queue_state \<Rightarrow> queue_state" where
  "put_lane n l s = s\<lparr>lanes := AList.update n l (lanes s)\<rparr>"

text \<open>\<^verbatim>\<open>getLaneState\<close>: the lane, created on first use.\<close>

definition get_lane_state :: "string \<Rightarrow> queue_state \<Rightarrow> lane_state \<times> queue_state" where
  "get_lane_state n s = (case lane_of s n of
       Some l \<Rightarrow> (l, s)
     | None \<Rightarrow> (new_lane, put_lane n new_lane s))"

definition observe :: "observed list \<Rightarrow> queue_state \<Rightarrow> queue_state" where
  "observe es s = s\<lparr>log := log s @ es\<rparr>"

section \<open>Waiters\<close>

definition active_ids :: "queue_state \<Rightarrow> nat list" where
  "active_ids s = concat (map (\<lambda>(n, l). active l) (lanes s))"

definition has_pending :: "queue_state \<Rightarrow> nat list \<Rightarrow> bool" where
  "has_pending s ts \<longleftrightarrow> list_ex (\<lambda>i. i \<in> set ts) (active_ids s)"

definition resolve_waiter :: "nat \<Rightarrow> bool \<Rightarrow> queue_state \<Rightarrow> queue_state" where
  "resolve_waiter w drained s =
     (if w \<in> set (map waiter_id (waiters s))
      then observe [WaiterResolved w drained]
        (s\<lparr>waiters := filter (\<lambda>x. waiter_id x \<noteq> w) (waiters s)\<rparr>)
      else s)"

definition notify_waiters :: "queue_state \<Rightarrow> queue_state" where
  "notify_waiters s = fold (\<lambda>w s. if waits_for w = [] \<or> \<not> has_pending s (waits_for w)
     then resolve_waiter (waiter_id w) True s else s) (waiters s) s"

section \<open>Draining a lane\<close>

definition normalize_timeout :: "rat option \<Rightarrow> int option" where
  "normalize_timeout v = (case v of None \<Rightarrow> None
     | Some x \<Rightarrow> if x \<le> 0 then None else Some (max 1 \<lfloor>x\<rfloor>))"

text \<open>The start of one queued command inside \<^verbatim>\<open>pump\<close>.\<close>

definition start_next :: "int \<Rightarrow> string \<Rightarrow> lane_state \<Rightarrow> entry \<Rightarrow> entry list \<Rightarrow> queue_state \<Rightarrow> queue_state" where
  "start_next now n l e rest s =
     (let waited = now - enqueued_at e; i = next_task_id s;
          warn = (if waited \<ge> warn_after e then [WaitWarning (ticket e) waited (length rest)] else []) in
      observe (warn @ [Started n (ticket e)])
        (put_lane n (l\<lparr>queue := rest, active := active l @ [i]\<rparr>)
          (s\<lparr>next_task_id := i + 1,
             inflight := inflight s @ [\<lparr>run_lane = n, task_id = i, task_generation = generation l,
               run_entry = e, started_at = now\<rparr>]\<rparr>)))"

definition queue_length :: "string \<Rightarrow> queue_state \<Rightarrow> nat" where
  "queue_length n s = (case lane_of s n of None \<Rightarrow> 0 | Some l \<Rightarrow> length (queue l))"

lemma lane_of_put [simp]: "lane_of (put_lane n l s) m = (if m = n then Some l else lane_of s m)"
  by (simp add: lane_of_def put_lane_def update_conv')

lemma lane_of_observe [simp]: "lane_of (observe es s) m = lane_of s m"
  by (simp add: lane_of_def observe_def)

lemma lane_of_start:
  "lane_of (start_next now n l e q s) m =
     (if m = n then Some (l\<lparr>queue := q, active := active l @ [next_task_id s]\<rparr>) else lane_of s m)"
  by (simp add: start_next_def Let_def) (simp add: lane_of_def)

text \<open>The loop \<^verbatim>\<open>while (state.activeTaskIds.size < state.maxConcurrent && state.queue.length > 0)\<close>.\<close>

function pump_loop :: "int \<Rightarrow> string \<Rightarrow> queue_state \<Rightarrow> queue_state" where
  "pump_loop now n s = (case lane_of s n of
       None \<Rightarrow> s
     | Some l \<Rightarrow> (case queue l of
         [] \<Rightarrow> s
       | e # q \<Rightarrow> if length (active l) < max_concurrent l
           then pump_loop now n (start_next now n l e q s) else s))"
  by pat_completeness auto
termination
  by (relation "measure (\<lambda>(now, n, s). queue_length n s)") (auto simp: queue_length_def lane_of_start)

declare pump_loop.simps [simp del]

definition set_draining :: "bool \<Rightarrow> string \<Rightarrow> queue_state \<Rightarrow> queue_state" where
  "set_draining b n s = (case lane_of s n of None \<Rightarrow> s | Some l \<Rightarrow> put_lane n (l\<lparr>draining := b\<rparr>) s)"

text \<open>\<^verbatim>\<open>pump\<close> with its \<^verbatim>\<open>finally\<close>, and \<^verbatim>\<open>drainLane\<close>.\<close>

definition pump :: "int \<Rightarrow> string \<Rightarrow> queue_state \<Rightarrow> queue_state" where
  "pump now n s = set_draining False n (pump_loop now n s)"

definition drain_lane :: "int \<Rightarrow> string \<Rightarrow> queue_state \<Rightarrow> queue_state" where
  "drain_lane now n s0 = (case get_lane_state n s0 of (l, s) \<Rightarrow>
     if draining l then s else pump now n (set_draining True n s))"

section \<open>Operations\<close>

definition is_probe_lane :: "string \<Rightarrow> bool" where
  "is_probe_lane n \<longleftrightarrow> take 11 n = ''auth-probe:'' \<or> take 14 n = ''session:probe-''"

definition mark_gateway_draining :: "queue_state \<Rightarrow> queue_state" where
  "mark_gateway_draining s = s\<lparr>gateway_draining := True\<rparr>"

definition set_lane_concurrency :: "int \<Rightarrow> string \<Rightarrow> rat \<Rightarrow> queue_state \<Rightarrow> queue_state" where
  "set_lane_concurrency now lane k s0 =
     (let n = normalize_lane lane; mc = nat (max (if is_probe_lane n then 1 else 0) \<lfloor>k\<rfloor>) in
      case get_lane_state n s0 of (l, s) \<Rightarrow>
        let s1 = put_lane n (l\<lparr>max_concurrent := mc\<rparr>) s in
        if mc > 0 then drain_lane now n s1 else s1)"

definition enqueue :: "int \<Rightarrow> string \<Rightarrow> nat \<Rightarrow> int option \<Rightarrow> rat option \<Rightarrow> queue_state \<Rightarrow> queue_state" where
  "enqueue now lane tk warn timeout s0 =
     (if gateway_draining s0 then observe [Settled tk (Rejected GatewayDraining)] s0
      else let n = normalize_lane lane in
        case get_lane_state n s0 of (l, s) \<Rightarrow>
          let e = \<lparr>ticket = tk, enqueued_at = now,
                warn_after = (case warn of None \<Rightarrow> 2000 | Some w \<Rightarrow> w),
                task_timeout = normalize_timeout timeout\<rparr> in
          drain_lane now n (put_lane n (l\<lparr>queue := queue l @ [e]\<rparr>) s))"

definition queue_size :: "string \<Rightarrow> queue_state \<Rightarrow> nat" where
  "queue_size lane s = (case lane_of s (normalize_lane lane) of None \<Rightarrow> 0 | Some l \<Rightarrow> lane_depth l)"

definition total_queue_size :: "queue_state \<Rightarrow> nat" where
  "total_queue_size s = sum_list (map (\<lambda>(n, l). lane_depth l) (lanes s))"

definition active_task_count :: "queue_state \<Rightarrow> nat" where
  "active_task_count s = sum_list (map (\<lambda>(n, l). length (active l)) (lanes s))"

definition clear_lane :: "string \<Rightarrow> queue_state \<Rightarrow> nat \<times> queue_state" where
  "clear_lane lane s = (let n = normalize_lane lane in case lane_of s n of
       None \<Rightarrow> (0, s)
     | Some l \<Rightarrow> (length (queue l),
         observe (map (\<lambda>e. Settled (ticket e) (Rejected LaneCleared)) (queue l))
           (put_lane n (l\<lparr>queue := []\<rparr>) s)))"

definition idle_lane :: "lane_state \<Rightarrow> lane_state" where
  "idle_lane l = l\<lparr>generation := generation l + 1, active := [], draining := False\<rparr>"

definition reset_lane :: "int \<Rightarrow> string \<Rightarrow> queue_state \<Rightarrow> nat \<times> queue_state" where
  "reset_lane now lane s = (let n = normalize_lane lane in case lane_of s n of
       None \<Rightarrow> (0, s)
     | Some l \<Rightarrow>
         let s1 = put_lane n (idle_lane l) s;
             s2 = (if queue l \<noteq> [] then drain_lane now n s1 else s1) in
         (length (active l), notify_waiters s2))"

definition reset_all_lanes :: "int \<Rightarrow> queue_state \<Rightarrow> queue_state" where
  "reset_all_lanes now s =
     (let s1 = s\<lparr>gateway_draining := False, lanes := map (\<lambda>(n, l). (n, idle_lane l)) (lanes s)\<rparr>;
          todo = map fst (filter (\<lambda>(n, l). queue l \<noteq> []) (lanes s)) in
      notify_waiters (fold (drain_lane now) todo s1))"

text \<open>
  The continuation of a started command: \<^verbatim>\<open>completeTask\<close>, and in the current generation the
  notification of waiters and the next \<^verbatim>\<open>pump\<close>; its promise settles last, in every case.
\<close>

definition complete_task :: "run \<Rightarrow> queue_state \<Rightarrow> bool \<times> queue_state" where
  "complete_task r s = (case lane_of s (run_lane r) of
       None \<Rightarrow> (False, s)
     | Some l \<Rightarrow> if task_generation r \<noteq> generation l then (False, s)
         else (True, put_lane (run_lane r) (l\<lparr>active := remove1 (task_id r) (active l)\<rparr>) s))"

definition finish_run :: "int \<Rightarrow> run \<Rightarrow> outcome \<Rightarrow> queue_state \<Rightarrow> queue_state" where
  "finish_run now r out s =
     (case complete_task r (s\<lparr>inflight := remove1 r (inflight s)\<rparr>) of (current, s1) \<Rightarrow>
        observe [Settled (ticket (run_entry r)) out]
          (if current then pump now (run_lane r) (notify_waiters s1) else s1))"

text \<open>\<^verbatim>\<open>armTimeout\<close>: fire (\<open>None\<close>) or look again after the given delay.\<close>

definition last_progress :: "int \<Rightarrow> rat option \<Rightarrow> int" where
  "last_progress started v = (case v of None \<Rightarrow> started
     | Some x \<Rightarrow> if x > 0 then max started \<lfloor>x\<rfloor> else started)"

definition arm_timeout :: "int \<Rightarrow> int \<Rightarrow> rat option \<Rightarrow> int \<Rightarrow> int option" where
  "arm_timeout now started progress timeout =
     (let elapsed = max 0 (now - last_progress started progress); remaining = timeout - elapsed in
      if remaining \<le> 0 then None else Some remaining)"

definition wait_for_active :: "nat \<Rightarrow> int option \<Rightarrow> queue_state \<Rightarrow> queue_state" where
  "wait_for_active w timeout s =
     (let ts = active_ids s in
      if ts = [] then observe [WaiterResolved w True] s
      else if (case timeout of None \<Rightarrow> False | Some ms \<Rightarrow> ms \<le> 0)
      then observe [WaiterResolved w False] s
      else notify_waiters (s\<lparr>waiters := waiters s @ [\<lparr>waiter_id = w, waits_for = ts\<rparr>]\<rparr>))"

section \<open>Steps\<close>

text \<open>
  One turn of the event loop: a call into the module, the completion of a started command, its
  timeout (when \<^verbatim>\<open>armTimeout\<close> fires), or the timeout of a waiter.  Waiters are objects of their
  own, so their names are fresh.
\<close>

inductive queue_step :: "queue_state \<Rightarrow> queue_state \<Rightarrow> bool" where
  enqueue: "queue_step s (enqueue now lane tk warn timeout s)"
| concurrency: "queue_step s (set_lane_concurrency now lane k s)"
| mark: "queue_step s (mark_gateway_draining s)"
| clear: "queue_step s (snd (clear_lane lane s))"
| reset: "queue_step s (snd (reset_lane now lane s))"
| reset_all: "queue_step s (reset_all_lanes now s)"
| finish: "r \<in> set (inflight s) \<Longrightarrow> out = Resolved \<or> out = Rejected (TaskFailed msg) \<Longrightarrow>
    queue_step s (finish_run now r out s)"
| timeout: "r \<in> set (inflight s) \<Longrightarrow> task_timeout (run_entry r) = Some t \<Longrightarrow>
    arm_timeout now (started_at r) progress t = None \<Longrightarrow>
    queue_step s (finish_run now r (Rejected TimedOut) s)"
| wait: "w \<notin> set (map waiter_id (waiters s)) \<Longrightarrow> queue_step s (wait_for_active w tmo s)"
| wait_timeout: "queue_step s (resolve_waiter w False s)"

inductive queue_reachable :: "queue_state \<Rightarrow> bool" where
  init: "queue_reachable init_queue"
| step: "queue_reachable s \<Longrightarrow> queue_step s t \<Longrightarrow> queue_reachable t"

section \<open>What the pump keeps\<close>

text \<open>
  A property that the primitive changes keep (a lane is created, a command starts, the draining
  flag flips, a waiter is resolved) is kept by \<open>pump\<close>, \<open>drain_lane\<close> and \<open>notify_waiters\<close>.
\<close>

locale queue_invariant =
  fixes P :: "queue_state \<Rightarrow> bool"
  assumes create: "P s \<Longrightarrow> lane_of s n = None \<Longrightarrow> P (put_lane n new_lane s)"
    and start: "P s \<Longrightarrow> lane_of s n = Some l \<Longrightarrow> queue l = e # q \<Longrightarrow>
      length (active l) < max_concurrent l \<Longrightarrow> P (start_next now n l e q s)"
    and flag: "P s \<Longrightarrow> lane_of s n = Some l \<Longrightarrow> P (put_lane n (l\<lparr>draining := b\<rparr>) s)"
    and resolve: "P s \<Longrightarrow> P (resolve_waiter w d s)"
begin

lemma pump_loop: "P s \<Longrightarrow> P (pump_loop now n s)"
proof (induction now n s rule: pump_loop.induct)
  case (1 now n s)
  then show ?case
    by (subst pump_loop.simps) (auto intro: start split: option.split list.split)
qed

lemma set_draining: "P s \<Longrightarrow> P (set_draining b n s)"
  by (simp add: set_draining_def flag split: option.split)

lemma pump: "P s \<Longrightarrow> P (pump now n s)"
  by (simp add: pump_def pump_loop set_draining)

lemma get_lane_state: "P s \<Longrightarrow> P (snd (get_lane_state n s))"
  by (simp add: get_lane_state_def create split: option.split)

lemma drain_lane: "P s \<Longrightarrow> P (drain_lane now n s)"
  using get_lane_state [of s n] by (auto simp: drain_lane_def pump set_draining split: prod.split)

lemma notify_waiters: "P s \<Longrightarrow> P (notify_waiters s)"
proof -
  have "P (fold (\<lambda>w s. if waits_for w = [] \<or> \<not> has_pending s (waits_for w)
      then resolve_waiter (waiter_id w) True s else s) ws s)" if "P s" for ws s
    using that by (induction ws arbitrary: s) (auto intro: resolve)
  then show "P s \<Longrightarrow> P (notify_waiters s)" by (simp add: notify_waiters_def)
qed

lemma drain_lanes: "P s \<Longrightarrow> P (fold (drain_lane now) ns s)"
  by (induction ns arbitrary: s) (auto intro: drain_lane)

end

lemma get_lane_state_eq:
  "get_lane_state n s = (l, s') \<Longrightarrow> lane_of s' n = Some l \<and> (lane_of s n = Some l \<and> s' = s \<or>
     lane_of s n = None \<and> l = new_lane \<and> s' = put_lane n new_lane s)"
  by (auto simp: get_lane_state_def split: option.splits)

lemma put_lane_fields [simp]:
  "inflight (put_lane n l s) = inflight s" "next_task_id (put_lane n l s) = next_task_id s"
  "log (put_lane n l s) = log s" "waiters (put_lane n l s) = waiters s"
  "gateway_draining (put_lane n l s) = gateway_draining s"
  by (simp_all add: put_lane_def)

lemma observe_fields [simp]:
  "inflight (observe es s) = inflight s" "next_task_id (observe es s) = next_task_id s"
  "log (observe es s) = log s @ es" "waiters (observe es s) = waiters s"
  "gateway_draining (observe es s) = gateway_draining s" "lanes (observe es s) = lanes s"
  by (simp_all add: observe_def)

lemma start_next_fields [simp]:
  "next_task_id (start_next now n l e q s) = next_task_id s + 1"
  "inflight (start_next now n l e q s) = inflight s @ [\<lparr>run_lane = n, task_id = next_task_id s,
     task_generation = generation l, run_entry = e, started_at = now\<rparr>]"
  "waiters (start_next now n l e q s) = waiters s"
  by (simp_all add: start_next_def Let_def)

lemma resolve_waiter_fields [simp]:
  "lanes (resolve_waiter w d s) = lanes s" "inflight (resolve_waiter w d s) = inflight s"
  "next_task_id (resolve_waiter w d s) = next_task_id s" "lane_of (resolve_waiter w d s) n = lane_of s n"
  by (simp_all add: resolve_waiter_def lane_of_def)

text \<open>The pump stops because the queue is empty or the lane is full.\<close>

lemma pump_loop_full:
  "lane_of (pump_loop now n s) n = Some l \<Longrightarrow> queue l = [] \<or> max_concurrent l \<le> length (active l)"
proof (induction now n s rule: pump_loop.induct)
  case (1 now n s)
  show ?case
  proof (cases "lane_of s n")
    case None
    then show ?thesis using "1.prems" by (simp add: pump_loop.simps [of now n s])
  next
    case (Some l0)
    show ?thesis
    proof (cases "queue l0")
      case Nil
      then show ?thesis using "1.prems" Some by (simp add: pump_loop.simps [of now n s])
    next
      case (Cons e q)
      then show ?thesis
        using "1.prems" "1.IH" [OF Some Cons] Some by (auto simp: pump_loop.simps [of now n s] split: if_splits)
    qed
  qed
qed

section \<open>No command is lost and none settles twice\<close>

definition lanes_distinct :: "queue_state \<Rightarrow> bool" where
  "lanes_distinct s \<longleftrightarrow> distinct (map fst (lanes s))"

definition queued_tickets :: "(string \<times> lane_state) list \<Rightarrow> nat multiset" where
  "queued_tickets ls = mset (concat (map (\<lambda>(n, l). map ticket (queue l)) ls))"

definition settled_tickets :: "observed list \<Rightarrow> nat multiset" where
  "settled_tickets os = mset (List.map_filter (\<lambda>o'. case o' of Settled t out \<Rightarrow> Some t | _ \<Rightarrow> None) os)"

text \<open>Every accepted promise: queued, started, or settled.\<close>

definition account :: "queue_state \<Rightarrow> nat multiset" where
  "account s = queued_tickets (lanes s) + mset (map (\<lambda>r. ticket (run_entry r)) (inflight s)) +
     settled_tickets (log s)"

lemma queued_tickets_update:
  assumes "distinct (map fst ls)"
  shows "queued_tickets (AList.update n l ls) +
      mset (case map_of ls n of None \<Rightarrow> [] | Some l0 \<Rightarrow> map ticket (queue l0)) =
    queued_tickets ls + mset (map ticket (queue l))"
  using assms
proof (induction ls)
  case (Cons kv ls)
  obtain k v where kv: "kv = (k, v)" by (cases kv)
  show ?case
  proof (cases "k = n")
    case True
    then show ?thesis by (simp add: kv queued_tickets_def)
  next
    case False
    then show ?thesis using Cons by (simp add: kv queued_tickets_def)
  qed
qed (simp add: queued_tickets_def)

lemma queued_put_lane:
  assumes "lanes_distinct s"
  shows "queued_tickets (lanes (put_lane n l s)) +
      mset (case lane_of s n of None \<Rightarrow> [] | Some l0 \<Rightarrow> map ticket (queue l0)) =
    queued_tickets (lanes s) + mset (map ticket (queue l))"
  using queued_tickets_update [of "lanes s" n l] assms
  by (simp add: put_lane_def lane_of_def lanes_distinct_def)

lemma lanes_distinct_put [simp]: "lanes_distinct s \<Longrightarrow> lanes_distinct (put_lane n l s)"
  by (simp add: lanes_distinct_def put_lane_def distinct_update)

lemma lanes_distinct_fields [simp]:
  "lanes_distinct (observe es s) = lanes_distinct s"
  "lanes_distinct (resolve_waiter w d s) = lanes_distinct s"
  by (simp_all add: lanes_distinct_def)

lemma settled_append [simp]: "settled_tickets (xs @ ys) = settled_tickets xs + settled_tickets ys"
  by (simp add: settled_tickets_def map_filter_def)

lemma settled_simps [simp]:
  "settled_tickets [] = {#}" "settled_tickets (Settled t out # os) = add_mset t (settled_tickets os)"
  "settled_tickets (Started n t # os) = settled_tickets os"
  "settled_tickets (WaitWarning t k m # os) = settled_tickets os"
  "settled_tickets (WaiterResolved w d # os) = settled_tickets os"
  by (simp_all add: settled_tickets_def map_filter_def)

lemma start_next_account:
  assumes "lanes_distinct s" and "lane_of s n = Some l" and "queue l = e # q"
  shows "lanes_distinct (start_next now n l e q s)" and "account (start_next now n l e q s) = account s"
proof -
  let ?s1 = "s\<lparr>next_task_id := next_task_id s + 1,
     inflight := inflight s @ [\<lparr>run_lane = n, task_id = next_task_id s,
       task_generation = generation l, run_entry = e, started_at = now\<rparr>]\<rparr>"
  let ?l1 = "l\<lparr>queue := q, active := active l @ [next_task_id s]\<rparr>"
  have d: "lanes_distinct ?s1" using assms(1) by (simp add: lanes_distinct_def)
  then show "lanes_distinct (start_next now n l e q s)" by (simp add: start_next_def Let_def)
  have "lane_of ?s1 n = Some l" using assms(2) by (simp add: lane_of_def)
  then have "queued_tickets (lanes (put_lane n ?l1 ?s1)) + {#ticket e#} = queued_tickets (lanes s)"
    using queued_put_lane [OF d, of n ?l1] assms(3) by simp
  then show "account (start_next now n l e q s) = account s"
    by (auto simp: account_def start_next_def Let_def)
qed

lemma put_lane_account:
  assumes "lanes_distinct s" and "lane_of s n = Some l0" and "queue l = queue l0"
  shows "account (put_lane n l s) = account s"
  using queued_put_lane [OF assms(1), of n l] assms(2,3) by (simp add: account_def)

lemma create_account:
  "lanes_distinct s \<Longrightarrow> lane_of s n = None \<Longrightarrow> account (put_lane n new_lane s) = account s"
  using queued_put_lane [of s n new_lane] by (simp add: account_def new_lane_def)

lemma resolve_account [simp]: "account (resolve_waiter w d s) = account s"
  by (simp add: account_def resolve_waiter_def)

interpretation acc: queue_invariant "\<lambda>s. lanes_distinct s \<and> account s = M" for M
  by unfold_locales (auto simp: start_next_account put_lane_account create_account)

lemma get_lane_state_account:
  assumes "lanes_distinct s" and "get_lane_state n s = (l, s')"
  shows "lanes_distinct s'" "account s' = account s" "lane_of s' n = Some l"
  using acc.get_lane_state [of s "account s" n] get_lane_state_eq [OF assms(2)] assms by auto

lemma drain_lane_account:
  "lanes_distinct s \<Longrightarrow> lanes_distinct (drain_lane now n s) \<and> account (drain_lane now n s) = account s"
  by (rule acc.drain_lane) simp

lemma enqueue_account:
  assumes "lanes_distinct s"
  shows "lanes_distinct (enqueue now lane tk warn tmo s) \<and>
    account (enqueue now lane tk warn tmo s) = add_mset tk (account s)"
proof (cases "gateway_draining s")
  case True
  then show ?thesis using assms by (simp add: enqueue_def account_def)
next
  case False
  let ?n = "normalize_lane lane"
  obtain l s' where g: "get_lane_state ?n s = (l, s')" by (cases "get_lane_state ?n s")
  note g' = get_lane_state_account [OF assms g]
  let ?e = "\<lparr>ticket = tk, enqueued_at = now, warn_after = (case warn of None \<Rightarrow> 2000 | Some w \<Rightarrow> w),
     task_timeout = normalize_timeout tmo\<rparr>"
  let ?s2 = "put_lane ?n (l\<lparr>queue := queue l @ [?e]\<rparr>) s'"
  have "queued_tickets (lanes ?s2) = add_mset tk (queued_tickets (lanes s'))"
    using queued_put_lane [OF g'(1), of ?n "l\<lparr>queue := queue l @ [?e]\<rparr>"] g'(3) by simp
  then have "account ?s2 = add_mset tk (account s')" by (simp add: account_def)
  then have "account ?s2 = add_mset tk (account s)" by (simp only: g'(2))
  moreover have "lanes_distinct ?s2" using g'(1) by simp
  moreover have "enqueue now lane tk warn tmo s = drain_lane now ?n ?s2"
    using False g by (simp add: enqueue_def Let_def)
  ultimately show ?thesis using drain_lane_account [of ?s2 now ?n] by simp
qed

lemma set_concurrency_account:
  assumes "lanes_distinct s"
  shows "lanes_distinct (set_lane_concurrency now lane k s) \<and>
    account (set_lane_concurrency now lane k s) = account s"
proof -
  let ?n = "normalize_lane lane"
  obtain l s' where g: "get_lane_state ?n s = (l, s')" by (cases "get_lane_state ?n s")
  note g' = get_lane_state_account [OF assms g]
  have "account (put_lane ?n (l\<lparr>max_concurrent := m\<rparr>) s') = account s" for m
    using put_lane_account [OF g'(1,3), of "l\<lparr>max_concurrent := m\<rparr>"] g'(2) by simp
  then show ?thesis
    using g g'(1) drain_lane_account by (auto simp: set_lane_concurrency_def Let_def)
qed

lemma clear_lane_account:
  assumes "lanes_distinct s"
  shows "lanes_distinct (snd (clear_lane lane s)) \<and> account (snd (clear_lane lane s)) = account s"
proof (cases "lane_of s (normalize_lane lane)")
  case (Some l)
  have "settled_tickets (map (\<lambda>e. Settled (ticket e) (Rejected LaneCleared)) es) = mset (map ticket es)" for es :: "entry list"
    by (induction es) simp_all
  then show ?thesis
    using queued_put_lane [OF assms, of "normalize_lane lane" "l\<lparr>queue := []\<rparr>"] Some assms
    by (simp add: clear_lane_def Let_def account_def)
qed (simp add: clear_lane_def Let_def assms)

lemma reset_lane_account:
  assumes "lanes_distinct s"
  shows "lanes_distinct (snd (reset_lane now lane s)) \<and> account (snd (reset_lane now lane s)) = account s"
proof (cases "lane_of s (normalize_lane lane)")
  case (Some l)
  let ?s1 = "put_lane (normalize_lane lane) (idle_lane l) s"
  have "lanes_distinct ?s1 \<and> account ?s1 = account s"
    using put_lane_account [OF assms Some, of "idle_lane l"] assms by (simp add: idle_lane_def)
  then show ?thesis
    using acc.notify_waiters acc.drain_lane [of ?s1 "account s"]
    by (simp add: reset_lane_def Let_def Some)
qed (simp add: reset_lane_def Let_def assms)

lemma reset_all_account:
  assumes "lanes_distinct s"
  shows "lanes_distinct (reset_all_lanes now s) \<and> account (reset_all_lanes now s) = account s"
proof -
  let ?s1 = "s\<lparr>gateway_draining := False, lanes := map (\<lambda>(n, l). (n, idle_lane l)) (lanes s)\<rparr>"
  have "queued_tickets (map (\<lambda>(n, l). (n, idle_lane l)) ls) = queued_tickets ls" for ls
    by (induction ls) (auto simp: queued_tickets_def idle_lane_def)
  then have "account ?s1 = account s" by (simp add: account_def)
  moreover have "map fst (map (\<lambda>(n, l). (n, idle_lane l)) ls) = map fst ls" for ls :: "(string \<times> lane_state) list"
    by (induction ls) auto
  then have "lanes_distinct ?s1"
    using assms by (simp add: lanes_distinct_def del: map_map)
  ultimately have "lanes_distinct ?s1 \<and> account ?s1 = account s" by simp
  then show ?thesis
    using acc.notify_waiters acc.drain_lanes [of ?s1 "account s"]
    by (simp add: reset_all_lanes_def Let_def)
qed

lemma finish_run_account:
  assumes "lanes_distinct s" and "r \<in> set (inflight s)"
  shows "lanes_distinct (finish_run now r out s) \<and> account (finish_run now r out s) = account s"
proof -
  let ?s0 = "s\<lparr>inflight := remove1 r (inflight s)\<rparr>"
  obtain cur s1 where c: "complete_task r ?s0 = (cur, s1)" by (cases "complete_task r ?s0")
  have d0: "lanes_distinct ?s0" using assms(1) by (simp add: lanes_distinct_def)
  have s1: "lanes_distinct s1 \<and> account s1 = account ?s0"
  proof (cases "lane_of ?s0 (run_lane r)")
    case None
    then show ?thesis using c d0 by (simp add: complete_task_def)
  next
    case (Some l)
    then show ?thesis
      using c d0 put_lane_account [OF d0 Some, of "l\<lparr>active := remove1 (task_id r) (active l)\<rparr>"]
      by (auto simp: complete_task_def split: if_splits)
  qed
  then have "lanes_distinct (if cur then pump now (run_lane r) (notify_waiters s1) else s1) \<and>
      account (if cur then pump now (run_lane r) (notify_waiters s1) else s1) = account ?s0"
    by (simp add: acc.pump acc.notify_waiters)
  moreover have "account s = add_mset (ticket (run_entry r)) (account ?s0)"
  proof -
    have "image_mset f (mset (inflight s)) = add_mset (f r) (image_mset f (mset (inflight s) - {#r#}))"
      for f :: "run \<Rightarrow> nat"
      using assms(2) by (metis image_mset_add_mset insert_DiffM set_mset_mset)
    from this [of "\<lambda>r. ticket (run_entry r)"] show ?thesis by (simp add: account_def)
  qed
  ultimately show ?thesis by (simp add: finish_run_def c account_def)
qed

lemma wait_account:
  assumes "lanes_distinct s"
  shows "lanes_distinct (wait_for_active w tmo s) \<and> account (wait_for_active w tmo s) = account s"
proof -
  have "lanes_distinct (s\<lparr>waiters := ws\<rparr>) \<and> account (s\<lparr>waiters := ws\<rparr>) = account s" for ws
    using assms by (simp add: account_def lanes_distinct_def)
  then have "lanes_distinct (notify_waiters (s\<lparr>waiters := ws\<rparr>)) \<and>
      account (notify_waiters (s\<lparr>waiters := ws\<rparr>)) = account s" for ws
    by (rule acc.notify_waiters)
  moreover have "account (observe [WaiterResolved w d] s) = account s" for d
    by (simp add: account_def)
  ultimately show ?thesis
    using assms by (simp add: wait_for_active_def Let_def del: observe_fields)
qed

text \<open>The account only grows, and only by the ticket of a new command.\<close>

lemma queue_step_account:
  assumes "queue_step s t" and "lanes_distinct s"
  shows "lanes_distinct t \<and> (account t = account s \<or>
    (\<exists>now lane tk warn tmo. t = enqueue now lane tk warn tmo s \<and> account t = add_mset tk (account s)))"
  using assms(1)
proof cases
  case enqueue
  then show ?thesis using enqueue_account [OF assms(2)] by blast
next
  case mark
  then show ?thesis using assms(2) by (simp add: mark_gateway_draining_def account_def lanes_distinct_def)
qed (simp_all add: assms(2) set_concurrency_account clear_lane_account reset_lane_account
    reset_all_account finish_run_account wait_account)

lemma queue_reachable_distinct: "queue_reachable s \<Longrightarrow> lanes_distinct s"
proof (induction rule: queue_reachable.induct)
  case init
  show ?case by (simp add: init_queue_def lanes_distinct_def)
next
  case (step s t)
  then show ?case using queue_step_account by blast
qed

end
