(* ===== verification/Lane_Order.thy ===== *)
theory Lane_Order
  imports Lane_Queue
begin

text \<open>
  What the command queue promises its callers: commands of a lane start in the order they were
  enqueued, a lane never runs more than its limit and never idles while work is queued, completions
  from before a reset change nothing, and a waiter is resolved as soon as its commands are done.
\<close>

section \<open>First in, first out\<close>

definition started_in :: "string \<Rightarrow> observed list \<Rightarrow> nat list" where
  "started_in n os = List.map_filter
     (\<lambda>o'. case o' of Started m t \<Rightarrow> if m = n then Some t else None | _ \<Rightarrow> None) os"

definition queued_in :: "string \<Rightarrow> queue_state \<Rightarrow> nat list" where
  "queued_in n s = (case lane_of s n of None \<Rightarrow> [] | Some l \<Rightarrow> map ticket (queue l))"

text \<open>The commands of a lane in the order they have started or will start.\<close>

definition line :: "string \<Rightarrow> queue_state \<Rightarrow> nat list" where
  "line n s = started_in n (log s) @ queued_in n s"

lemma started_append [simp]: "started_in n (xs @ ys) = started_in n xs @ started_in n ys"
  by (simp add: started_in_def map_filter_def)

lemma started_simps [simp]:
  "started_in n [] = []" "started_in n (Settled t out # os) = started_in n os"
  "started_in n (Started m t # os) = (if m = n then t # started_in n os else started_in n os)"
  "started_in n (WaitWarning t k j # os) = started_in n os"
  "started_in n (WaiterResolved w d # os) = started_in n os"
  by (simp_all add: started_in_def map_filter_def)

lemma queued_put [simp]:
  "queued_in m (put_lane n l s) = (if m = n then map ticket (queue l) else queued_in m s)"
  by (simp add: queued_in_def)

lemma queued_observe [simp]: "queued_in m (observe es s) = queued_in m s"
  by (simp add: queued_in_def)

lemma queued_resolve [simp]: "queued_in m (resolve_waiter w d s) = queued_in m s"
  by (simp add: queued_in_def)

lemma line_start:
  assumes "lane_of s n = Some l" and "queue l = e # q"
  shows "line m (start_next now n l e q s) = line m s"
  using assms by (simp add: line_def queued_in_def lane_of_start) (simp add: start_next_def Let_def)

lemma line_put_lane:
  "line m (put_lane n l s) =
     (if m = n then started_in n (log s) @ map ticket (queue l) else line m s)"
  by (simp add: line_def)

lemma line_put: "lane_of s n = Some l0 \<Longrightarrow> queue l = queue l0 \<Longrightarrow> line m (put_lane n l s) = line m s"
  by (simp add: line_def queued_in_def)

lemma line_create: "lane_of s n = None \<Longrightarrow> line m (put_lane n new_lane s) = line m s"
  by (simp add: line_def queued_in_def new_lane_def)

lemma line_resolve [simp]: "line m (resolve_waiter w d s) = line m s"
  by (simp add: line_def resolve_waiter_def queued_in_def lane_of_def)

interpretation ln: queue_invariant "\<lambda>s. line m s = xs" for m xs
  by unfold_locales (auto simp: line_start line_put line_create)

lemma line_drain [simp]: "line m (drain_lane now n s) = line m s"
  by (rule ln.drain_lane) simp

lemma line_pump [simp]: "line m (pump now n s) = line m s"
  by (rule ln.pump) simp

lemma line_notify [simp]: "line m (notify_waiters s) = line m s"
  by (rule ln.notify_waiters) simp

lemma line_get_lane: "get_lane_state n s = (l, s') \<Longrightarrow> line m s' = line m s"
  using ln.get_lane_state [of m s "line m s" n] by simp

lemma line_enqueue:
  "line m (enqueue now lane tk warn tmo s) =
     (if gateway_draining s \<or> m \<noteq> normalize_lane lane then line m s else line m s @ [tk])"
proof (cases "gateway_draining s")
  case False
  obtain l s' where g: "get_lane_state (normalize_lane lane) s = (l, s')"
    by (cases "get_lane_state (normalize_lane lane) s")
  have "lane_of s' (normalize_lane lane) = Some l"
    using get_lane_state_eq [OF g] by simp
  then have "line (normalize_lane lane) s' = started_in (normalize_lane lane) (log s') @ map ticket (queue l)"
    by (simp add: line_def queued_in_def)
  then show ?thesis
    using False line_get_lane [OF g, of m]
    by (auto simp: enqueue_def Let_def g line_put_lane)
qed (simp add: enqueue_def line_def)

lemma line_concurrency: "line m (set_lane_concurrency now lane k s) = line m s"
proof -
  obtain l s' where g: "get_lane_state (normalize_lane lane) s = (l, s')"
    by (cases "get_lane_state (normalize_lane lane) s")
  have "lane_of s' (normalize_lane lane) = Some l"
    using get_lane_state_eq [OF g] by simp
  then have "line m (put_lane (normalize_lane lane) (l\<lparr>max_concurrent := k'\<rparr>) s') = line m s" for k'
    using line_get_lane [OF g, of m] by (simp add: line_put)
  then show ?thesis by (simp add: set_lane_concurrency_def Let_def g)
qed

lemma line_clear:
  "line m (snd (clear_lane lane s)) =
     (if m = normalize_lane lane then started_in m (log s) else line m s)"
proof (cases "lane_of s (normalize_lane lane)")
  case (Some l)
  have "started_in m (map (\<lambda>e. Settled (ticket e) (Rejected LaneCleared)) es) = []" for es :: "entry list"
    by (induction es) simp_all
  then show ?thesis by (simp add: clear_lane_def Let_def Some line_def)
qed (auto simp: clear_lane_def Let_def line_def queued_in_def)

lemma line_reset: "line m (snd (reset_lane now lane s)) = line m s"
proof (cases "lane_of s (normalize_lane lane)")
  case (Some l)
  then show ?thesis
    by (simp add: reset_lane_def Let_def line_put idle_lane_def)
qed (simp add: reset_lane_def Let_def)

lemma lane_of_map: "lane_of (s\<lparr>gateway_draining := g, lanes := map (\<lambda>(n, l). (n, f l)) (lanes s)\<rparr>) n =
    map_option f (lane_of s n)"
  by (simp add: lane_of_def map_of_map)

lemma line_drains [simp]: "line m (fold (drain_lane now) ns s) = line m s"
  by (rule ln.drain_lanes) simp

lemma line_reset_all: "line m (reset_all_lanes now s) = line m s"
  by (simp add: reset_all_lanes_def Let_def)
    (simp add: line_def queued_in_def lane_of_map idle_lane_def split: option.split)

lemma lane_of_upd [simp]:
  "lane_of (s\<lparr>inflight := rs\<rparr>) n = lane_of s n" "lane_of (s\<lparr>waiters := ws\<rparr>) n = lane_of s n"
  by (simp_all add: lane_of_def)

lemma complete_task_cases:
  assumes "complete_task r s = (cur, s')"
  obtains (stale) "\<not> cur" "s' = s" "\<And>l. lane_of s (run_lane r) = Some l \<Longrightarrow> task_generation r \<noteq> generation l"
  | (current) l where "cur" "lane_of s (run_lane r) = Some l" "task_generation r = generation l"
      "s' = put_lane (run_lane r) (l\<lparr>active := remove1 (task_id r) (active l)\<rparr>) s"
  using assms by (auto simp: complete_task_def split: option.splits if_splits)

lemma line_finish: "line m (finish_run now r out s) = line m s"
proof -
  let ?s0 = "s\<lparr>inflight := remove1 r (inflight s)\<rparr>"
  obtain cur s1 where c: "complete_task r ?s0 = (cur, s1)" by (cases "complete_task r ?s0")
  have "line m s1 = line m ?s0"
    using c by (cases rule: complete_task_cases) (simp_all add: line_put)
  then have "line m s1 = line m s" by (simp add: line_def queued_in_def)
  moreover have "line m (observe [Settled t out] x) = line m x" for x t by (simp add: line_def)
  ultimately show ?thesis by (simp add: finish_run_def c)
qed

lemma line_wait: "line m (wait_for_active w tmo s) = line m s"
  by (simp add: wait_for_active_def Let_def) (simp add: line_def queued_in_def)

section \<open>What draining does to a lane\<close>

lemma pump_loop_other: "m \<noteq> n \<Longrightarrow> lane_of (pump_loop now n s) m = lane_of s m"
proof (induction now n s rule: pump_loop.induct)
  case (1 now n s)
  then show ?case
    by (subst pump_loop.simps) (simp add: lane_of_start split: option.split list.split)
qed

lemma pump_loop_lane:
  "lane_of s n = Some l \<Longrightarrow> \<exists>k ids. length ids = k \<and> k \<le> length (queue l) \<and>
     lane_of (pump_loop now n s) n = Some (l\<lparr>queue := drop k (queue l), active := active l @ ids\<rparr>) \<and>
     (k = 0 \<or> length (active l) + k \<le> max_concurrent l)"
proof (induction now n s arbitrary: l rule: pump_loop.induct)
  case (1 now n s)
  show ?case
  proof (cases "queue l")
    case Nil
    then show ?thesis using "1.prems"
      by (intro exI [of _ 0] exI [of _ "[]"]) (simp add: pump_loop.simps [of now n s])
  next
    case (Cons e q)
    show ?thesis
    proof (cases "length (active l) < max_concurrent l")
      case True
      let ?l = "l\<lparr>queue := q, active := active l @ [next_task_id s]\<rparr>"
      have "lane_of (start_next now n l e q s) n = Some ?l" by (simp add: lane_of_start)
      from "1.IH" [OF "1.prems" Cons True this] obtain k ids where
        k: "length ids = k" "k \<le> length q"
          "lane_of (pump_loop now n (start_next now n l e q s)) n =
            Some (?l\<lparr>queue := drop k q, active := active ?l @ ids\<rparr>)"
          "k = 0 \<or> length (active ?l) + k \<le> max_concurrent ?l" by auto
      have "pump_loop now n s = pump_loop now n (start_next now n l e q s)"
        using "1.prems" Cons True by (simp add: pump_loop.simps [of now n s])
      then show ?thesis
        using k True Cons
        by (intro exI [of _ "Suc k"] exI [of _ "next_task_id s # ids"]) auto
    next
      case False
      then show ?thesis using "1.prems" Cons
        by (intro exI [of _ 0] exI [of _ "[]"]) (simp add: pump_loop.simps [of now n s])
    qed
  qed
qed

text \<open>A lane neither idles with work queued nor is marked as draining between two turns.\<close>

definition busy :: "lane_state \<Rightarrow> bool" where
  "busy l \<longleftrightarrow> \<not> draining l \<and> (queue l = [] \<or> max_concurrent l \<le> length (active l))"

definition all_busy :: "queue_state \<Rightarrow> bool" where
  "all_busy s \<longleftrightarrow> (\<forall>n l. lane_of s n = Some l \<longrightarrow> busy l)"

lemma set_draining_lane:
  "lane_of (set_draining b n s) m =
     (if m = n then map_option (\<lambda>l. l\<lparr>draining := b\<rparr>) (lane_of s n) else lane_of s m)"
  by (simp add: set_draining_def split: option.split)

lemma pump_other: "m \<noteq> n \<Longrightarrow> lane_of (pump now n s) m = lane_of s m"
  by (simp add: pump_def set_draining_lane pump_loop_other)

lemma pump_busy: "lane_of (pump now n s) n = Some l \<Longrightarrow> busy l"
  using pump_loop_full [of now n s] by (auto simp: pump_def set_draining_lane busy_def)

lemma drain_lane_other: "m \<noteq> n \<Longrightarrow> lane_of (drain_lane now n s) m = lane_of s m"
  by (auto simp: drain_lane_def pump_other set_draining_lane get_lane_state_def
      split: prod.split option.splits)

lemma drain_lane_busy:
  assumes "\<And>l0. lane_of s n = Some l0 \<Longrightarrow> \<not> draining l0" and "lane_of (drain_lane now n s) n = Some l"
  shows "busy l"
  using assms pump_busy
  by (auto simp: drain_lane_def get_lane_state_def new_lane_def split: prod.splits option.splits)

section \<open>The concurrency limit\<close>

definition within_limit :: "lane_state \<Rightarrow> bool" where
  "within_limit l \<longleftrightarrow> length (active l) \<le> max_concurrent l"

definition all_within :: "queue_state \<Rightarrow> bool" where
  "all_within s \<longleftrightarrow> (\<forall>n l. lane_of s n = Some l \<longrightarrow> within_limit l)"

lemma all_within_put:
  "all_within s \<Longrightarrow> within_limit l \<Longrightarrow> all_within (put_lane n l s)"
  by (auto simp: all_within_def split: if_splits)

lemma all_within_lane: "all_within s \<Longrightarrow> lane_of s n = Some l \<Longrightarrow> length (active l) \<le> max_concurrent l"
  by (simp add: all_within_def within_limit_def)

interpretation lim: queue_invariant all_within
proof
  fix s n l e q now b w d
  show "all_within s \<Longrightarrow> lane_of s n = None \<Longrightarrow> all_within (put_lane n new_lane s)"
    by (simp add: all_within_put within_limit_def new_lane_def)
  show "all_within s \<Longrightarrow> lane_of s n = Some l \<Longrightarrow> queue l = e # q \<Longrightarrow>
      length (active l) < max_concurrent l \<Longrightarrow> all_within (start_next now n l e q s)"
    unfolding all_within_def by (auto simp: lane_of_start within_limit_def split: if_splits)
  show "all_within s \<Longrightarrow> lane_of s n = Some l \<Longrightarrow> all_within (put_lane n (l\<lparr>draining := b\<rparr>) s)"
    by (simp add: all_within_put within_limit_def all_within_lane)
  show "all_within s \<Longrightarrow> all_within (resolve_waiter w d s)"
    by (simp add: all_within_def)
qed

lemma all_within_fields [simp]:
  "all_within (observe es s) = all_within s" "all_within (s\<lparr>inflight := rs\<rparr>) = all_within s"
  "all_within (s\<lparr>waiters := ws\<rparr>) = all_within s" "all_within (mark_gateway_draining s) = all_within s"
  by (simp_all add: all_within_def mark_gateway_draining_def) (simp add: lane_of_def)

lemma enqueue_within: "all_within s \<Longrightarrow> all_within (enqueue now lane tk warn tmo s)"
proof (cases "gateway_draining s")
  case False
  assume s: "all_within s"
  obtain l s' where g: "get_lane_state (normalize_lane lane) s = (l, s')"
    by (cases "get_lane_state (normalize_lane lane) s")
  have "all_within s'" "lane_of s' (normalize_lane lane) = Some l"
    using lim.get_lane_state [OF s, of "normalize_lane lane"] get_lane_state_eq [OF g] g by simp_all
  then show ?thesis
    using False g
    by (auto simp: enqueue_def Let_def within_limit_def all_within_lane intro!: lim.drain_lane all_within_put)
qed (simp add: enqueue_def)

lemma clear_within: "all_within s \<Longrightarrow> all_within (snd (clear_lane lane s))"
  by (auto simp: clear_lane_def Let_def within_limit_def all_within_lane intro!: all_within_put split: option.split)

lemma reset_within: "all_within s \<Longrightarrow> all_within (snd (reset_lane now lane s))"
  by (auto simp: reset_lane_def Let_def within_limit_def idle_lane_def
      intro!: all_within_put lim.drain_lane lim.notify_waiters split: option.split)

lemma reset_all_within: "all_within s \<Longrightarrow> all_within (reset_all_lanes now s)"
  unfolding reset_all_lanes_def Let_def
  by (intro lim.notify_waiters lim.drain_lanes)
    (auto simp: all_within_def lane_of_map within_limit_def idle_lane_def)

lemma finish_within:
  assumes "all_within s"
  shows "all_within (finish_run now r out s)"
proof -
  let ?s0 = "s\<lparr>inflight := remove1 r (inflight s)\<rparr>"
  obtain cur s1 where c: "complete_task r ?s0 = (cur, s1)" by (cases "complete_task r ?s0")
  have "all_within s1"
    using c
  proof (cases rule: complete_task_cases)
    case (current l)
    have "length (remove1 (task_id r) (active l)) \<le> length (active l)"
      by (simp add: length_remove1)
    then show ?thesis
      using current assms all_within_lane [OF assms, of "run_lane r" l]
      by (auto intro!: all_within_put simp: within_limit_def)
  qed (use assms in simp)
  then show ?thesis
    by (simp add: finish_run_def c lim.pump lim.notify_waiters)
qed

lemma wait_within: "all_within s \<Longrightarrow> all_within (wait_for_active w tmo s)"
  by (simp add: wait_for_active_def Let_def lim.notify_waiters)

lemma queue_step_within:
  assumes "queue_step s t" and "all_within s"
    and "\<And>now lane k. t \<noteq> set_lane_concurrency now lane k s"
  shows "all_within t"
  using assms(1)
  by cases (use assms in \<open>simp_all add: enqueue_within clear_within reset_within reset_all_within
      finish_within wait_within lim.resolve\<close>)

text \<open>Raising the limit, or lowering it to no less than what runs, keeps every lane within it.\<close>

lemma concurrency_within:
  assumes "all_within s" and "\<And>l. lane_of s (normalize_lane lane) = Some l \<Longrightarrow> int (length (active l)) \<le> \<lfloor>k\<rfloor>"
  shows "all_within (set_lane_concurrency now lane k s)"
proof -
  let ?n = "normalize_lane lane"
  obtain l s' where g: "get_lane_state ?n s = (l, s')" by (cases "get_lane_state ?n s")
  have s': "all_within s'" using lim.get_lane_state [OF assms(1), of ?n] g by simp
  have "length (active l) = 0 \<or> int (length (active l)) \<le> \<lfloor>k\<rfloor>"
    using get_lane_state_eq [OF g] assms(2) by (auto simp: new_lane_def)
  then have "length (active l) \<le> nat (max m \<lfloor>k\<rfloor>)" if "0 \<le> m" for m by auto
  then have "within_limit (l\<lparr>max_concurrent := nat (max (if is_probe_lane ?n then 1 else 0) \<lfloor>k\<rfloor>)\<rparr>)"
    by (simp add: within_limit_def)
  with s' show ?thesis
    unfolding set_lane_concurrency_def Let_def g prod.case
    by (auto intro!: lim.drain_lane all_within_put simp del: nat_0_iff)
qed

section \<open>No lane idles\<close>

text \<open>Draining the lane of an otherwise busy state gives a busy state.\<close>

lemma drain_lane_all_busy:
  assumes "\<And>m l. m \<noteq> n \<Longrightarrow> lane_of s m = Some l \<Longrightarrow> busy l"
    and "\<And>l. lane_of s n = Some l \<Longrightarrow> \<not> draining l"
  shows "all_busy (drain_lane now n s)"
  unfolding all_busy_def
proof (intro allI impI)
  fix m l
  assume l: "lane_of (drain_lane now n s) m = Some l"
  show "busy l"
  proof (cases "m = n")
    case True
    with l show ?thesis by (intro drain_lane_busy [OF assms(2)]) simp_all
  next
    case False
    with l show ?thesis by (intro assms(1) [OF False]) (simp add: drain_lane_other)
  qed
qed

definition notify_one :: "waiter \<Rightarrow> queue_state \<Rightarrow> queue_state" where
  "notify_one w s = (if waits_for w = [] \<or> \<not> has_pending s (waits_for w)
     then resolve_waiter (waiter_id w) True s else s)"

lemma notify_waiters_fold: "notify_waiters s = fold notify_one (waiters s) s"
  by (simp add: notify_waiters_def notify_one_def [abs_def])

lemma notify_one_lanes [simp]: "lanes (notify_one w s) = lanes s"
  by (simp add: notify_one_def)

lemma notify_lanes [simp]: "lanes (notify_waiters s) = lanes s" "lane_of (notify_waiters s) m = lane_of s m"
proof -
  have "lanes (fold notify_one ws s) = lanes s" for ws s
    by (induction ws arbitrary: s) simp_all
  then show "lanes (notify_waiters s) = lanes s" by (simp add: notify_waiters_fold)
  then show "lane_of (notify_waiters s) m = lane_of s m" by (simp add: lane_of_def)
qed

lemma all_busy_notify [simp]: "all_busy (notify_waiters s) = all_busy s"
  by (simp add: all_busy_def)

lemma all_busy_fields [simp]:
  "all_busy (observe es s) = all_busy s" "all_busy (resolve_waiter w d s) = all_busy s"
  "all_busy (s\<lparr>inflight := rs\<rparr>) = all_busy s" "all_busy (s\<lparr>waiters := ws\<rparr>) = all_busy s"
  "all_busy (s\<lparr>gateway_draining := b\<rparr>) = all_busy s"
  by (simp_all add: all_busy_def) (simp add: lane_of_def)

lemma get_lane_state_busy:
  assumes "all_busy s" and "get_lane_state n s = (l, s')"
  shows "all_busy s'" "lane_of s' n = Some l" "\<not> draining l"
proof -
  have "busy new_lane" by (simp add: busy_def new_lane_def)
  then show *: "all_busy s'" and l: "lane_of s' n = Some l"
    using get_lane_state_eq [OF assms(2)] assms(1) by (auto simp: all_busy_def split: if_splits)
  from * l show "\<not> draining l" by (simp add: all_busy_def busy_def)
qed

lemma enqueue_busy: "all_busy s \<Longrightarrow> all_busy (enqueue now lane tk warn tmo s)"
proof (cases "gateway_draining s")
  case False
  assume s: "all_busy s"
  obtain l s' where g: "get_lane_state (normalize_lane lane) s = (l, s')"
    by (cases "get_lane_state (normalize_lane lane) s")
  note g' = get_lane_state_busy [OF s g]
  then show ?thesis
    using False g by (auto simp: enqueue_def Let_def all_busy_def [of s'] intro!: drain_lane_all_busy split: if_splits)
qed (simp add: enqueue_def)

lemma concurrency_busy: "all_busy s \<Longrightarrow> all_busy (set_lane_concurrency now lane k s)"
proof -
  assume s: "all_busy s"
  let ?n = "normalize_lane lane"
  obtain l s' where g: "get_lane_state ?n s = (l, s')" by (cases "get_lane_state ?n s")
  note g' = get_lane_state_busy [OF s g]
  obtain mc where eq: "set_lane_concurrency now lane k s =
      (if mc > 0 then drain_lane now ?n (put_lane ?n (l\<lparr>max_concurrent := mc\<rparr>) s')
       else put_lane ?n (l\<lparr>max_concurrent := mc\<rparr>) s')"
    by (simp only: set_lane_concurrency_def Let_def g prod.case)
  show ?thesis
  proof (cases "mc > 0")
    case True
    then show ?thesis
      using g' unfolding eq by (auto simp: all_busy_def [of s'] intro!: drain_lane_all_busy split: if_splits)
  next
    case False
    then have "busy (l\<lparr>max_concurrent := mc\<rparr>)" using g'(3) by (simp add: busy_def)
    with False g'(1) show ?thesis unfolding eq by (auto simp: all_busy_def split: if_splits)
  qed
qed

lemma clear_busy: "all_busy s \<Longrightarrow> all_busy (snd (clear_lane lane s))"
  by (auto simp: clear_lane_def Let_def split: option.split) (auto simp: all_busy_def busy_def)

lemma reset_busy:
  assumes "all_busy s"
  shows "all_busy (snd (reset_lane now lane s))"
proof (cases "lane_of s (normalize_lane lane)")
  case (Some l)
  have "all_busy (drain_lane now (normalize_lane lane) (put_lane (normalize_lane lane) (idle_lane l) s))"
    using assms by (intro drain_lane_all_busy) (auto simp: all_busy_def idle_lane_def split: if_splits)
  moreover have "all_busy (put_lane (normalize_lane lane) (idle_lane l) s)" if "queue l = []"
    using assms that by (auto simp: all_busy_def idle_lane_def busy_def)
  ultimately show ?thesis by (simp add: reset_lane_def Let_def Some)
qed (simp add: reset_lane_def Let_def assms)

text \<open>After the reset pass the lanes that still have work are drained one by one.\<close>

lemma drain_lanes_busy:
  assumes "\<And>m l. lane_of s m = Some l \<Longrightarrow> \<not> draining l \<and> (m \<notin> set ns \<longrightarrow> busy l)"
  shows "all_busy (fold (drain_lane now) ns s)"
  using assms
proof (induction ns arbitrary: s)
  case Nil
  then show ?case by (simp add: all_busy_def)
next
  case (Cons n ns)
  have "\<not> draining l \<and> (m \<notin> set ns \<longrightarrow> busy l)" if l: "lane_of (drain_lane now n s) m = Some l" for m l
  proof (cases "m = n")
    case True
    then have "busy l" using drain_lane_busy [of s n now l] Cons.prems l by blast
    then show ?thesis by (simp add: busy_def)
  next
    case False
    then show ?thesis using Cons.prems [of m l] l by (simp add: drain_lane_other)
  qed
  then show ?case using Cons.IH by simp
qed

lemma reset_all_busy: "lanes_distinct s \<Longrightarrow> all_busy (reset_all_lanes now s)"
proof -
  assume d: "lanes_distinct s"
  let ?s1 = "s\<lparr>gateway_draining := False, lanes := map (\<lambda>(n, l). (n, idle_lane l)) (lanes s)\<rparr>"
  let ?todo = "map fst (filter (\<lambda>(n, l). queue l \<noteq> []) (lanes s))"
  have "\<not> draining l \<and> (m \<notin> set ?todo \<longrightarrow> busy l)" if l: "lane_of ?s1 m = Some l" for m l
  proof -
    obtain l0 where l0: "lane_of s m = Some l0" "l = idle_lane l0"
      using l by (auto simp: lane_of_map)
    then have "(m, l0) \<in> set (lanes s)" by (simp add: lane_of_def map_of_SomeD)
    then have "queue l0 \<noteq> [] \<Longrightarrow> m \<in> set ?todo" by force
    then show ?thesis using l0(2) by (auto simp: idle_lane_def busy_def)
  qed
  then show ?thesis
    by (simp add: reset_all_lanes_def Let_def drain_lanes_busy)
qed

lemma finish_busy:
  assumes "all_busy s"
  shows "all_busy (finish_run now r out s)"
proof -
  let ?s0 = "s\<lparr>inflight := remove1 r (inflight s)\<rparr>"
  obtain cur s1 where c: "complete_task r ?s0 = (cur, s1)" by (cases "complete_task r ?s0")
  have "all_busy (if cur then pump now (run_lane r) (notify_waiters s1) else s1)"
    using c
  proof (cases rule: complete_task_cases)
    case stale
    then show ?thesis using assms by simp
  next
    case (current l)
    have "all_busy (pump now (run_lane r) (notify_waiters s1))"
      unfolding all_busy_def
    proof (intro allI impI)
      fix m l'
      assume l': "lane_of (pump now (run_lane r) (notify_waiters s1)) m = Some l'"
      show "busy l'"
      proof (cases "m = run_lane r")
        case True
        then show ?thesis using l' pump_busy by blast
      next
        case False
        then show ?thesis using l' assms current by (simp add: pump_other all_busy_def)
      qed
    qed
    then show ?thesis using current by simp
  qed
  then show ?thesis by (simp add: finish_run_def c)
qed

lemma queue_step_busy:
  assumes "queue_step s t" and "lanes_distinct s" and "all_busy s"
  shows "all_busy t"
  using assms(1)
proof cases
  case wait
  then show ?thesis using assms(3) by (simp add: wait_for_active_def Let_def)
qed (simp_all add: assms enqueue_busy concurrency_busy mark_gateway_draining_def clear_busy reset_busy
    reset_all_busy finish_busy)

lemma queue_reachable_busy: "queue_reachable s \<Longrightarrow> all_busy s"
proof (induction rule: queue_reachable.induct)
  case init
  show ?case by (simp add: init_queue_def all_busy_def lane_of_def)
next
  case (step s t)
  then show ?case using queue_step_busy queue_reachable_distinct by blast
qed

section \<open>Stale completions\<close>

text \<open>
  The active identifiers of a lane are the started commands of its current generation.
\<close>

definition runs_ok :: "queue_state \<Rightarrow> bool" where
  "runs_ok s \<longleftrightarrow> distinct (map task_id (inflight s)) \<and>
     (\<forall>r \<in> set (inflight s). task_id r < next_task_id s \<and>
        (\<exists>l. lane_of s (run_lane r) = Some l \<and> task_generation r \<le> generation l)) \<and>
     (\<forall>n l. lane_of s n = Some l \<longrightarrow> active l =
        map task_id (filter (\<lambda>r. run_lane r = n \<and> task_generation r = generation l) (inflight s)))"

lemma runs_ok_lane:
  assumes "runs_ok s" and "r \<in> set (inflight s)"
  obtains l where "lane_of s (run_lane r) = Some l" "task_generation r \<le> generation l"
  using assms by (force simp: runs_ok_def)

lemma runs_ok_start:
  assumes ok: "runs_ok s" and l: "lane_of s n = Some l"
  shows "runs_ok (start_next now n l e q s)"
proof -
  have "next_task_id s \<notin> task_id ` set (inflight s)"
    using ok by (fastforce simp: runs_ok_def)
  then show ?thesis
    using ok l by (auto simp: runs_ok_def lane_of_start less_Suc_eq split: if_splits)
qed

lemma runs_ok_put:
  assumes "runs_ok s" and "lane_of s n = Some l0"
    and "generation l = generation l0" and "active l = active l0"
  shows "runs_ok (put_lane n l s)"
  using assms by (auto simp: runs_ok_def)

lemma runs_ok_create:
  assumes ok: "runs_ok s" and n: "lane_of s n = None"
  shows "runs_ok (put_lane n new_lane s)"
proof -
  have "filter (\<lambda>r. run_lane r = n \<and> task_generation r = 0) (inflight s) = []"
    using ok n by (auto simp: runs_ok_def filter_empty_conv)
  then show ?thesis using ok n by (auto simp: runs_ok_def new_lane_def)
qed

interpretation rn: queue_invariant runs_ok
proof
  fix s n l e q now b w d
  show "runs_ok s \<Longrightarrow> lane_of s n = None \<Longrightarrow> runs_ok (put_lane n new_lane s)"
    by (rule runs_ok_create)
  show "runs_ok s \<Longrightarrow> lane_of s n = Some l \<Longrightarrow> queue l = e # q \<Longrightarrow>
      length (active l) < max_concurrent l \<Longrightarrow> runs_ok (start_next now n l e q s)"
    by (rule runs_ok_start)
  show "runs_ok s \<Longrightarrow> lane_of s n = Some l \<Longrightarrow> runs_ok (put_lane n (l\<lparr>draining := b\<rparr>) s)"
    by (rule runs_ok_put) simp_all
  show "runs_ok s \<Longrightarrow> runs_ok (resolve_waiter w d s)"
    by (simp add: runs_ok_def)
qed

lemma runs_ok_fields [simp]:
  "runs_ok (observe es s) = runs_ok s" "runs_ok (s\<lparr>waiters := ws\<rparr>) = runs_ok s"
  "runs_ok (mark_gateway_draining s) = runs_ok s"
  by (simp_all add: runs_ok_def mark_gateway_draining_def) (simp add: lane_of_def)

lemma runs_ok_get:
  assumes "runs_ok s" and "get_lane_state n s = (l, s')"
  shows "runs_ok s'" and "lane_of s' n = Some l"
  using rn.get_lane_state [OF assms(1), of n] get_lane_state_eq [OF assms(2)] assms(2) by simp_all

lemma enqueue_runs: "runs_ok s \<Longrightarrow> runs_ok (enqueue now lane tk warn tmo s)"
proof (cases "gateway_draining s")
  case False
  assume s: "runs_ok s"
  obtain l s' where g: "get_lane_state (normalize_lane lane) s = (l, s')"
    by (cases "get_lane_state (normalize_lane lane) s")
  show ?thesis
    using False g runs_ok_get [OF s g]
    by (auto simp: enqueue_def Let_def intro!: rn.drain_lane intro: runs_ok_put)
qed (simp add: enqueue_def)

lemma concurrency_runs: "runs_ok s \<Longrightarrow> runs_ok (set_lane_concurrency now lane k s)"
proof -
  assume s: "runs_ok s"
  obtain l s' where g: "get_lane_state (normalize_lane lane) s = (l, s')"
    by (cases "get_lane_state (normalize_lane lane) s")
  have "runs_ok (put_lane (normalize_lane lane) (l\<lparr>max_concurrent := m\<rparr>) s')" for m
    using runs_ok_get [OF s g] by (auto intro: runs_ok_put)
  then show ?thesis
    unfolding set_lane_concurrency_def Let_def g prod.case by (auto intro: rn.drain_lane simp del: nat_0_iff)
qed

lemma clear_runs: "runs_ok s \<Longrightarrow> runs_ok (snd (clear_lane lane s))"
  by (auto simp: clear_lane_def Let_def intro: runs_ok_put split: option.split)

text \<open>A reset starts a generation that no started command belongs to.\<close>

lemma idle_lane_runs:
  assumes "runs_ok s" and "lane_of s n = Some l"
  shows "filter (\<lambda>r. run_lane r = n \<and> task_generation r = generation (idle_lane l)) (inflight s) = []"
  using assms by (fastforce simp: runs_ok_def idle_lane_def filter_empty_conv)

lemma reset_runs:
  assumes "runs_ok s"
  shows "runs_ok (snd (reset_lane now lane s))"
proof (cases "lane_of s (normalize_lane lane)")
  case (Some l)
  have "runs_ok (put_lane (normalize_lane lane) (idle_lane l) s)"
    using assms Some idle_lane_runs [OF assms Some] by (fastforce simp: runs_ok_def idle_lane_def)
  then show ?thesis
    by (simp add: reset_lane_def Let_def Some rn.notify_waiters rn.drain_lane)
qed (simp add: reset_lane_def Let_def assms)

lemma reset_all_runs:
  assumes "runs_ok s"
  shows "runs_ok (reset_all_lanes now s)"
proof -
  let ?s1 = "s\<lparr>gateway_draining := False, lanes := map (\<lambda>(n, l). (n, idle_lane l)) (lanes s)\<rparr>"
  have "active (idle_lane l) =
      map task_id (filter (\<lambda>r. run_lane r = n \<and> task_generation r = generation (idle_lane l)) (inflight s))"
    if "lane_of s n = Some l" for n l
    using idle_lane_runs [OF assms that] by (simp add: idle_lane_def)
  moreover have "generation l \<le> generation (idle_lane l)" for l by (simp add: idle_lane_def)
  then have "\<exists>l. lane_of ?s1 (run_lane r) = Some l \<and> task_generation r \<le> generation l"
    if r: "r \<in> set (inflight s)" for r
  proof -
    obtain l where "lane_of s (run_lane r) = Some l" "task_generation r \<le> generation l"
      using assms r by (rule runs_ok_lane)
    then show ?thesis
      using \<open>\<And>l. generation l \<le> generation (idle_lane l)\<close> [of l]
      by (intro exI [of _ "idle_lane l"]) (simp add: lane_of_map)
  qed
  ultimately have "runs_ok ?s1"
    using assms unfolding runs_ok_def by (auto simp: lane_of_map)
  then show ?thesis
    by (simp add: reset_all_lanes_def Let_def rn.notify_waiters rn.drain_lanes)
qed

lemma distinct_remove1_filter:
  assumes "distinct (map f xs)" and "x \<in> set xs"
  shows "map f (filter P (remove1 x xs)) = (if P x then remove1 (f x) (map f (filter P xs)) else map f (filter P xs))"
  using assms
proof (induction xs)
  case (Cons y ys)
  show ?case
  proof (cases "y = x")
    case True
    then show ?thesis by simp
  next
    case False
    then have "f x \<in> f ` set ys" using Cons.prems by simp
    then have "f x \<noteq> f y" using Cons.prems(1) by (metis distinct.simps(2) list.set_map list.simps(9))
    then show ?thesis using Cons False by auto
  qed
qed simp

lemma finish_runs:
  assumes ok: "runs_ok s" and r: "r \<in> set (inflight s)"
  shows "runs_ok (finish_run now r out s)"
proof -
  let ?s0 = "s\<lparr>inflight := remove1 r (inflight s)\<rparr>"
  obtain cur s1 where c: "complete_task r ?s0 = (cur, s1)" by (cases "complete_task r ?s0")
  have d: "distinct (map task_id (inflight s))" using ok by (simp add: runs_ok_def)
  have d': "distinct (map task_id (remove1 r (inflight s)))"
    using d by (simp add: distinct_map inj_on_def)
  have sub: "set (remove1 r (inflight s)) \<subseteq> set (inflight s)" by (rule set_remove1_subset)
  have act: "active l = map task_id (filter (\<lambda>r. run_lane r = n \<and> task_generation r = generation l) (inflight s))"
    if "lane_of s n = Some l" for n l using ok that by (simp add: runs_ok_def)
  note rm = distinct_remove1_filter [OF d r]
  have "runs_ok s1"
    using c
  proof (cases rule: complete_task_cases)
    case stale
    have "active l = map task_id (filter (\<lambda>r. run_lane r = n \<and> task_generation r = generation l)
        (remove1 r (inflight s)))" if "lane_of s n = Some l" for n l
      using act [OF that] stale(3) [of l] that by (auto simp: rm)
    then show ?thesis
      using ok d' sub stale(2) by (auto simp: runs_ok_def)
  next
    case (current l0)
    have "active l = map task_id (filter (\<lambda>r. run_lane r = n \<and> task_generation r = generation l)
        (remove1 r (inflight s)))" if "lane_of s1 n = Some l" for n l
      using current that act by (auto simp: rm split: if_splits)
    moreover have "\<exists>l. lane_of s1 (run_lane x) = Some l \<and> task_generation x \<le> generation l"
      if x: "x \<in> set (remove1 r (inflight s))" for x
    proof -
      obtain l where "lane_of s (run_lane x) = Some l" "task_generation x \<le> generation l"
        using ok subsetD [OF sub x] by (rule runs_ok_lane)
      then show ?thesis using current by (cases "run_lane x = run_lane r") auto
    qed
    moreover have "inflight s1 = remove1 r (inflight s)" "next_task_id s1 = next_task_id s"
      using current(4) by simp_all
    ultimately show ?thesis
      using ok d' sub unfolding runs_ok_def by auto
  qed
  then show ?thesis by (simp add: finish_run_def c rn.pump rn.notify_waiters)
qed

lemma wait_runs: "runs_ok s \<Longrightarrow> runs_ok (wait_for_active w tmo s)"
  by (simp add: wait_for_active_def Let_def rn.notify_waiters)

lemma queue_step_runs: "queue_step s t \<Longrightarrow> runs_ok s \<Longrightarrow> runs_ok t"
  by (erule queue_step.cases)
    (simp_all add: enqueue_runs concurrency_runs clear_runs reset_runs reset_all_runs finish_runs
      wait_runs rn.resolve)

lemma queue_reachable_runs: "queue_reachable s \<Longrightarrow> runs_ok s"
proof (induction rule: queue_reachable.induct)
  case init
  show ?case by (simp add: init_queue_def runs_ok_def lane_of_def)
qed (rule queue_step_runs)

lemma stale_completion:
  assumes "lane_of s (run_lane r) = Some l" and "task_generation r \<noteq> generation l"
  shows "lanes (finish_run now r out s) = lanes s"
    and "log (finish_run now r out s) = log s @ [Settled (ticket (run_entry r)) out]"
  using assms by (simp_all add: finish_run_def complete_task_def)

section \<open>No waiter is forgotten\<close>

text \<open>Every unresolved \<^verbatim>\<open>waitForActiveTasks\<close> still waits for a command that is running.\<close>

definition waiters_ok :: "queue_state \<Rightarrow> bool" where
  "waiters_ok s \<longleftrightarrow> (\<forall>w \<in> set (waiters s). has_pending s (waits_for w))"

lemma has_pending_iff:
  assumes "lanes_distinct s"
  shows "has_pending s ts \<longleftrightarrow> (\<exists>n l i. lane_of s n = Some l \<and> i \<in> set (active l) \<and> i \<in> set ts)"
proof -
  have "(n, l) \<in> set (lanes s) \<longleftrightarrow> lane_of s n = Some l" for n l
    using assms by (simp add: lane_of_def lanes_distinct_def)
  then show ?thesis by (fastforce simp: has_pending_def active_ids_def list_ex_iff)
qed

lemma has_pending_mono:
  assumes "lanes_distinct s" and "lanes_distinct s'" and "has_pending s ts"
    and "\<And>n l. lane_of s n = Some l \<Longrightarrow> \<exists>l'. lane_of s' n = Some l' \<and> set (active l) \<subseteq> set (active l')"
  shows "has_pending s' ts"
  using assms(3,4) unfolding has_pending_iff [OF assms(1)] has_pending_iff [OF assms(2)] by blast

definition waits_fine :: "queue_state \<Rightarrow> bool" where
  "waits_fine s \<longleftrightarrow> lanes_distinct s \<and> waiters_ok s"

lemma waits_fine_grow:
  assumes "waits_fine s" and "lanes_distinct s'" and "waiters s' = waiters s"
    and "\<And>n l. lane_of s n = Some l \<Longrightarrow> \<exists>l'. lane_of s' n = Some l' \<and> set (active l) \<subseteq> set (active l')"
  shows "waits_fine s'"
  using assms has_pending_mono [of s s'] by (simp add: waits_fine_def waiters_ok_def)

lemma waits_fine_put:
  assumes "waits_fine s" and "\<And>l0. lane_of s n = Some l0 \<Longrightarrow> set (active l0) \<subseteq> set (active l)"
  shows "waits_fine (put_lane n l s)"
  using assms(1)
proof (rule waits_fine_grow)
  show "lanes_distinct (put_lane n l s)" using assms(1) by (simp add: waits_fine_def)
qed (use assms(2) in auto)

lemma lane_fields_distinct:
  "lanes_distinct (s\<lparr>inflight := rs\<rparr>) = lanes_distinct s" "lanes_distinct (s\<lparr>waiters := ws\<rparr>) = lanes_distinct s"
  "lanes_distinct (s\<lparr>gateway_draining := b\<rparr>) = lanes_distinct s"
  by (simp_all add: lanes_distinct_def)

lemma has_pending_fields [simp]:
  "has_pending (observe es s) ts = has_pending s ts" "has_pending (resolve_waiter w d s) ts = has_pending s ts"
  "has_pending (s\<lparr>inflight := rs\<rparr>) ts = has_pending s ts"
  "has_pending (s\<lparr>waiters := ws\<rparr>) ts = has_pending s ts" "has_pending (s\<lparr>gateway_draining := b\<rparr>) ts = has_pending s ts"
  by (simp_all add: has_pending_def active_ids_def)

lemma waits_fine_fields [simp]:
  "waits_fine (observe es s) = waits_fine s" "waits_fine (s\<lparr>inflight := rs\<rparr>) = waits_fine s"
  "waits_fine (mark_gateway_draining s) = waits_fine s"
  by (simp_all add: waits_fine_def waiters_ok_def lane_fields_distinct mark_gateway_draining_def)

lemma waits_fine_resolve: "waits_fine s \<Longrightarrow> waits_fine (resolve_waiter w d s)"
  by (auto simp: waits_fine_def waiters_ok_def) (auto simp: resolve_waiter_def split: if_splits)

interpretation wt: queue_invariant waits_fine
proof
  fix s n l e q now b w d
  show "waits_fine s \<Longrightarrow> lane_of s n = None \<Longrightarrow> waits_fine (put_lane n new_lane s)"
    by (rule waits_fine_put) simp_all
  show "waits_fine s \<Longrightarrow> lane_of s n = Some l \<Longrightarrow> queue l = e # q \<Longrightarrow>
      length (active l) < max_concurrent l \<Longrightarrow> waits_fine (start_next now n l e q s)"
    by (rule waits_fine_grow, assumption)
      (auto simp: lane_of_start waits_fine_def start_next_account)
  show "waits_fine s \<Longrightarrow> lane_of s n = Some l \<Longrightarrow> waits_fine (put_lane n (l\<lparr>draining := b\<rparr>) s)"
    by (rule waits_fine_put) simp_all
qed (rule waits_fine_resolve)

text \<open>\<^verbatim>\<open>notifyActiveTaskWaiters\<close> removes exactly the waiters that have nothing left to wait for.\<close>

lemma notify_one_pending [simp]: "has_pending (notify_one w s) ts = has_pending s ts"
  by (simp add: notify_one_def)

lemma notify_fold_waiters:
  assumes "x \<in> set (waiters (fold notify_one ws s))"
  shows "x \<in> set (waiters s) \<and> (x \<in> set ws \<longrightarrow> has_pending s (waits_for x))"
  using assms
proof (induction ws arbitrary: s)
  case (Cons w ws)
  have "x \<in> set (waiters (notify_one w s)) \<and> (x \<in> set ws \<longrightarrow> has_pending (notify_one w s) (waits_for x))"
    using Cons.IH [of "notify_one w s"] Cons.prems by simp
  then show ?case
    by (auto simp: notify_one_def resolve_waiter_def split: if_splits)
qed simp

lemma notify_establishes: "lanes_distinct s \<Longrightarrow> waits_fine (notify_waiters s)"
  using notify_fold_waiters [of _ "waiters s" s]
  by (auto simp: waits_fine_def waiters_ok_def lanes_distinct_def has_pending_def active_ids_def)
    (metis notify_waiters_fold)

lemma get_lane_waits:
  assumes "waits_fine s" and "get_lane_state n s = (l, s')"
  shows "waits_fine s'" and "lane_of s' n = Some l"
  using wt.get_lane_state [OF assms(1), of n] get_lane_state_eq [OF assms(2)] assms(2) by simp_all

lemma enqueue_waits: "waits_fine s \<Longrightarrow> waits_fine (enqueue now lane tk warn tmo s)"
proof (cases "gateway_draining s")
  case False
  assume s: "waits_fine s"
  obtain l s' where g: "get_lane_state (normalize_lane lane) s = (l, s')"
    by (cases "get_lane_state (normalize_lane lane) s")
  show ?thesis
    using False g get_lane_waits [OF s g]
    by (auto simp: enqueue_def Let_def intro!: wt.drain_lane waits_fine_put)
qed (simp add: enqueue_def)

lemma concurrency_waits: "waits_fine s \<Longrightarrow> waits_fine (set_lane_concurrency now lane k s)"
proof -
  assume s: "waits_fine s"
  obtain l s' where g: "get_lane_state (normalize_lane lane) s = (l, s')"
    by (cases "get_lane_state (normalize_lane lane) s")
  have "waits_fine (put_lane (normalize_lane lane) (l\<lparr>max_concurrent := m\<rparr>) s')" for m
    using get_lane_waits [OF s g] by (auto intro!: waits_fine_put)
  then show ?thesis
    unfolding set_lane_concurrency_def Let_def g prod.case by (auto intro: wt.drain_lane simp del: nat_0_iff)
qed

lemma clear_waits: "waits_fine s \<Longrightarrow> waits_fine (snd (clear_lane lane s))"
  by (auto simp: clear_lane_def Let_def intro!: waits_fine_put split: option.split)

lemma reset_waits: "waits_fine s \<Longrightarrow> waits_fine (snd (reset_lane now lane s))"
  using drain_lane_account
  by (auto simp: reset_lane_def Let_def waits_fine_def [of s] intro!: notify_establishes split: option.split)

lemma reset_all_waits: "waits_fine s \<Longrightarrow> waits_fine (reset_all_lanes now s)"
proof -
  assume "waits_fine s"
  then have "distinct (map fst (map (\<lambda>(n, l). (n, idle_lane l)) (lanes s)))"
    by (simp add: waits_fine_def lanes_distinct_def comp_def case_prod_unfold)
  then have "lanes_distinct (s\<lparr>gateway_draining := False, lanes := map (\<lambda>(n, l). (n, idle_lane l)) (lanes s)\<rparr>)"
    by (simp add: lanes_distinct_def)
  then show ?thesis
    using acc.drain_lanes unfolding reset_all_lanes_def Let_def by (intro notify_establishes) blast
qed

lemma finish_waits:
  assumes "waits_fine s"
  shows "waits_fine (finish_run now r out s)"
proof -
  let ?s0 = "s\<lparr>inflight := remove1 r (inflight s)\<rparr>"
  obtain cur s1 where c: "complete_task r ?s0 = (cur, s1)" by (cases "complete_task r ?s0")
  have "waits_fine (if cur then pump now (run_lane r) (notify_waiters s1) else s1)"
    using c
  proof (cases rule: complete_task_cases)
    case stale
    then show ?thesis using assms by simp
  next
    case (current l)
    have "lanes_distinct s1"
      using assms current by (simp add: waits_fine_def lane_fields_distinct)
    then show ?thesis using current by (simp add: wt.pump notify_establishes)
  qed
  then show ?thesis by (simp add: finish_run_def c)
qed

lemma wait_waits: "waits_fine s \<Longrightarrow> waits_fine (wait_for_active w tmo s)"
  by (auto simp: wait_for_active_def Let_def waits_fine_def [of s] lane_fields_distinct
      intro!: notify_establishes)

lemma queue_step_waits: "queue_step s t \<Longrightarrow> waits_fine s \<Longrightarrow> waits_fine t"
  by (erule queue_step.cases)
    (simp_all add: enqueue_waits concurrency_waits clear_waits reset_waits reset_all_waits finish_waits
      wait_waits waits_fine_resolve)

lemma queue_reachable_waits: "queue_reachable s \<Longrightarrow> waits_fine s"
proof (induction rule: queue_reachable.induct)
  case init
  show ?case by (simp add: init_queue_def waits_fine_def waiters_ok_def lanes_distinct_def)
qed (rule queue_step_waits)

end
