(* ===== verification/Lane_Properties.thy ===== *)
theory Lane_Properties
  imports Lane_Order
begin

text \<open>
  The properties of the command queue, over every step of the event loop and every reachable state:
  no command is lost, lanes are first-in first-out, never idle while work waits and never over their
  limit, old generations are ignored and waiters are not forgotten.
\<close>

section \<open>A small run\<close>

definition one_running :: queue_state where
  "one_running = enqueue 0 '' '' 1 None None init_queue"

definition one_waiting :: queue_state where
  "one_waiting = enqueue 5 ''main'' 2 None (Some 100) one_running"

lemma small_run [simp]: "queue_reachable one_running" "queue_reachable one_waiting"
proof -
  show 1: "queue_reachable one_running"
    unfolding one_running_def by (rule queue_reachable.step [OF queue_reachable.init queue_step.enqueue])
  show "queue_reachable one_waiting"
    unfolding one_waiting_def by (rule queue_reachable.step [OF 1 queue_step.enqueue])
qed

section \<open>Properties\<close>

text \<open>C13: no command is lost and none is settled twice: counting the promises that are queued, started or
  settled, every \<^verbatim>\<open>enqueueCommandInLane\<close> adds exactly the promise it creates, refused or not, and every other
  operation, and every command that finishes or times out, keeps the count of every promise.\<close>

theorem no_command_lost:
  assumes "queue_reachable s"
  shows "account (enqueue now lane tk warn tmo s) = add_mset tk (account s) \<and>
    account (set_lane_concurrency now lane k s) = account s \<and> account (mark_gateway_draining s) = account s \<and>
    account (snd (clear_lane lane s)) = account s \<and> account (snd (reset_lane now lane s)) = account s \<and>
    account (reset_all_lanes now s) = account s \<and> account (wait_for_active w wtmo s) = account s \<and>
    account (resolve_waiter w done s) = account s \<and>
    (r \<in> set (inflight s) \<longrightarrow> account (finish_run now r out s) = account s) \<and>
    (queue_step s t \<longrightarrow> account t = account s \<or>
      (\<exists>now lane tk warn tmo. t = enqueue now lane tk warn tmo s \<and> account t = add_mset tk (account s)))"
proof -
  note d = queue_reachable_distinct [OF assms]
  have "account (mark_gateway_draining s) = account s" by (simp add: mark_gateway_draining_def account_def)
  then show ?thesis
    using enqueue_account [OF d] set_concurrency_account [OF d] clear_lane_account [OF d] reset_lane_account [OF d]
      reset_all_account [OF d] wait_account [OF d] finish_run_account [OF d] queue_step_account [OF _ d]
    by (auto simp: resolve_account)
qed

lemma no_command_lost_witness:
  "account (enqueue 5 ''main'' 7 None None one_running) = add_mset 7 (account one_running)"
  using no_command_lost [OF small_run(1)] by blast

text \<open>C14: a lane is first-in first-out: the order in which its commands have started, followed by the
  queue, only changes by a new command at the very end or by \<^verbatim>\<open>clearCommandLane\<close> dropping the
  commands that have not started.\<close>

theorem lane_first_in_first_out:
  assumes "queue_step s t"
  shows "line m t = line m s \<or> (\<exists>tk. line m t = line m s @ [tk]) \<or> line m t = started_in m (log s)"
  using assms
proof cases
  case enqueue
  then show ?thesis by (simp add: line_enqueue)
next
  case mark
  then show ?thesis by (simp add: mark_gateway_draining_def line_def queued_in_def lane_of_def)
next
  case wait_timeout
  then show ?thesis by simp
qed (simp_all add: line_clear line_concurrency line_reset line_reset_all line_finish line_wait)

lemma lane_first_in_first_out_witness:
  "line ''main'' one_waiting = line ''main'' one_running \<or>
   (\<exists>tk. line ''main'' one_waiting = line ''main'' one_running @ [tk]) \<or>
   line ''main'' one_waiting = started_in ''main'' (log one_running)"
  by (rule lane_first_in_first_out) (simp add: one_waiting_def queue_step.enqueue)

text \<open>C15: a lane never idles: in every reachable state a lane with waiting commands runs as many as its
  limit allows, and the draining flag is clear between turns of the event loop.\<close>

theorem lane_never_idles:
  assumes "queue_reachable s" and "lane_of s n = Some l" and "queue l \<noteq> []"
  shows "max_concurrent l \<le> length (active l) \<and> \<not> draining l"
  using queue_reachable_busy [OF assms(1)] assms(2,3) by (auto simp: all_busy_def busy_def)

lemma lane_never_idles_witness:
  "max_concurrent (the (lane_of one_waiting ''main'')) \<le> length (active (the (lane_of one_waiting ''main''))) \<and>
   \<not> draining (the (lane_of one_waiting ''main''))"
  by (rule lane_never_idles [OF small_run(2), of "''main''"]; code_simp)

lemma one_running_limit: "lane_of one_running m = Some k \<Longrightarrow> length (active k) \<le> max_concurrent k"
proof -
  have "all_within one_running"
    unfolding one_running_def by (rule enqueue_within) (simp add: all_within_def init_queue_def lane_of_def)
  then show "lane_of one_running m = Some k \<Longrightarrow> length (active k) \<le> max_concurrent k" by (rule all_within_lane)
qed

text \<open>A step never takes a lane over its \<^verbatim>\<open>maxConcurrent\<close>, except that
  \<^verbatim>\<open>setCommandLaneConcurrency\<close> may set the limit below what is already running.\<close>

lemma lane_within_limit:
  assumes "queue_step s t" and "\<And>m k. lane_of s m = Some k \<Longrightarrow> length (active k) \<le> max_concurrent k"
    and "lane_of t n = Some l"
  shows "length (active l) \<le> max_concurrent l \<or>
    (\<exists>now lane k l'. t = set_lane_concurrency now lane k s \<and> lane_of s (normalize_lane lane) = Some l' \<and>
       \<lfloor>k\<rfloor> < int (length (active l')))"
proof -
  have within: "all_within s" using assms(2) by (simp add: all_within_def within_limit_def)
  consider "all_within t" | now lane k where "t = set_lane_concurrency now lane k s" "\<not> all_within t"
    using queue_step_within [OF assms(1) within] by blast
  then show ?thesis
  proof cases
    case 1
    then show ?thesis using assms(3) by (simp add: all_within_lane)
  next
    case 2
    then have "\<exists>l'. lane_of s (normalize_lane lane) = Some l' \<and> \<not> int (length (active l')) \<le> \<lfloor>k\<rfloor>"
      using concurrency_within [OF within, of lane k now] by blast
    with 2 show ?thesis by (auto simp: not_le)
  qed
qed

text \<open>C16: the active set of a lane is exactly the started commands of its current generation, each task
  identifier is used once, and a command that finishes after its lane was reset changes no lane.\<close>

theorem stale_completions_ignored:
  assumes "queue_reachable s" and "lane_of s (run_lane r) = Some l"
  shows "active l = map task_id (filter (\<lambda>x. run_lane x = run_lane r \<and> task_generation x = generation l) (inflight s)) \<and>
    distinct (map task_id (inflight s)) \<and>
    (task_generation r = generation l \<or> lanes (finish_run now r out s) = lanes s)"
  using queue_reachable_runs [OF assms(1)] assms(2) stale_completion(1) [OF assms(2)]
  by (auto simp: runs_ok_def)

lemma stale_completions_ignored_witness:
  "active (the (lane_of one_waiting ''main'')) = map task_id (filter (\<lambda>x. run_lane x = run_lane (hd (inflight one_waiting)) \<and>
       task_generation x = generation (the (lane_of one_waiting ''main''))) (inflight one_waiting)) \<and>
    distinct (map task_id (inflight one_waiting)) \<and>
    (task_generation (hd (inflight one_waiting)) = generation (the (lane_of one_waiting ''main'')) \<or>
     lanes (finish_run 9 (hd (inflight one_waiting)) Resolved one_waiting) = lanes one_waiting)"
  by (rule stale_completions_ignored [OF small_run(2)]) code_simp

text \<open>No waiter of \<^verbatim>\<open>waitForActiveTasks\<close> is forgotten: in every reachable state a waiter that is still
  registered waits for a command that is still active.\<close>

lemma waiters_wait_for_active:
  assumes "queue_reachable s" and "w \<in> set (waiters s)"
  shows "\<exists>n l i. lane_of s n = Some l \<and> i \<in> set (active l) \<and> i \<in> set (waits_for w)"
proof -
  have "has_pending s (waits_for w)"
    using queue_reachable_waits [OF assms(1)] assms(2) by (simp add: waits_fine_def waiters_ok_def)
  then show ?thesis by (simp add: has_pending_iff queue_reachable_distinct [OF assms(1)])
qed

end
