(* ===== verification/Calendar.thy ===== *)
theory Calendar
  imports JS_Base
begin

text \<open>
  JavaScript dates as the GroundWork code uses them: local calendar dates at midnight.  A date is
  its day number (day 0 is 1970-01-01), an invalid date is \<open>None\<close>; \<open>day_from_year\<close>, \<open>make_day\<close> and
  the accessors are ECMAScript's DayFromYear, MakeDay, YearFromTime, MonthFromTime, DateFromTime
  and WeekDay in the proleptic Gregorian calendar.  The section on round trips shows that a day
  number and its (year, month, date) determine each other.
\<close>

section \<open>Days, months, years\<close>

definition leap :: "int \<Rightarrow> bool" where
  "leap y \<longleftrightarrow> y mod 4 = 0 \<and> (y mod 100 \<noteq> 0 \<or> y mod 400 = 0)"

definition day_from_year :: "int \<Rightarrow> int" where
  "day_from_year y = 365 * (y - 1970) + (y - 1969) div 4 - (y - 1901) div 100 + (y - 1601) div 400"

definition leap_day :: "bool \<Rightarrow> int" where
  "leap_day lp = (if lp then 1 else 0)"

text \<open>The day of the year on which month \<open>m\<close> (0 to 11) starts.\<close>

definition month_start :: "bool \<Rightarrow> int \<Rightarrow> int" where
  "month_start lp m =
     (if m \<le> 0 then 0 else if m = 1 then 31
      else leap_day lp +
        (if m = 2 then 59 else if m = 3 then 90 else if m = 4 then 120 else if m = 5 then 151
         else if m = 6 then 181 else if m = 7 then 212 else if m = 8 then 243 else if m = 9 then 273
         else if m = 10 then 304 else if m = 11 then 334 else 365))"

definition make_day :: "int \<Rightarrow> int \<Rightarrow> int \<Rightarrow> int" where
  "make_day y m d = (let ym = y + m div 12; mn = m mod 12 in
     day_from_year ym + month_start (leap ym) mn + d - 1)"

definition days_in_month :: "int \<Rightarrow> int \<Rightarrow> int" where
  "days_in_month y m = month_start (leap y) (m + 1) - month_start (leap y) m"

definition year_of :: "int \<Rightarrow> int" where
  "year_of n = (let y = 1970 + (400 * n) div 146097 in
     if n < day_from_year y then y - 1 else if n < day_from_year (y + 1) then y else y + 1)"

fun month_scan :: "bool \<Rightarrow> int \<Rightarrow> int list \<Rightarrow> int" where
  "month_scan lp k [] = 11"
| "month_scan lp k (m # ms) = (if k < month_start lp (m + 1) then m else month_scan lp k ms)"

definition month_of :: "int \<Rightarrow> int" where
  "month_of n = (let y = year_of n in
     month_scan (leap y) (n - day_from_year y) [0, 1, 2, 3, 4, 5, 6, 7, 8, 9, 10])"

definition date_of :: "int \<Rightarrow> int" where
  "date_of n = n - day_from_year (year_of n) - month_start (leap (year_of n)) (month_of n) + 1"

definition week_day :: "int \<Rightarrow> int" where
  "week_day n = (n + 4) mod 7"

definition valid_date :: "int \<Rightarrow> int \<Rightarrow> int \<Rightarrow> bool" where
  "valid_date y m d \<longleftrightarrow> 0 \<le> m \<and> m \<le> 11 \<and> 1 \<le> d \<and> d \<le> days_in_month y m"

section \<open>Round trips\<close>

lemma div_Suc_int:
  assumes "0 < (k::int)"
  shows "(a + 1) div k = a div k + (if k dvd a + 1 then 1 else 0)"
proof (cases "k dvd a + 1")
  case True
  then obtain q where q: "a + 1 = k * q" by blast
  then have "a = k * (q - 1) + (k - 1)" by (simp add: algebra_simps)
  then have "a div k = q - 1" using assms by (simp add: div_mult_self4 div_pos_pos_trivial)
  with q True assms show ?thesis by simp
next
  case False
  define q r where "q = a div k" and "r = a mod k"
  have a: "a = k * q + r" and r: "0 \<le> r" "r < k" using assms by (simp_all add: q_def r_def)
  have "r + 1 \<noteq> k" using False a by (auto simp: add.assoc intro: dvd_add)
  with r have "(r + 1) div k = 0" by (simp add: div_pos_pos_trivial)
  moreover have "(a + 1) div k = q + (r + 1) div k"
    unfolding a add.assoc using assms by (simp add: div_mult_self4)
  ultimately show ?thesis using False by (simp add: q_def)
qed

lemma leap_dvd: "leap y \<longleftrightarrow> 4 dvd y \<and> (\<not> 100 dvd y \<or> 400 dvd y)"
  by (simp add: leap_def dvd_eq_mod_eq_0)

lemma dvd_shift:
  assumes "k dvd (c::int)"
  shows "k dvd y - c \<longleftrightarrow> k dvd y"
  using dvd_add_left_iff [of k c "y - c"] assms by simp

lemma div_shift_Suc:
  assumes "0 < (k::int)" and "k dvd c - 1"
  shows "(y + 1 - c) div k = (y - c) div k + (if k dvd y then 1 else 0)"
proof -
  have "y + 1 - c = y - c + 1" and "y - c + 1 = y - (c - 1)" by simp_all
  moreover have "k dvd y - (c - 1) \<longleftrightarrow> k dvd y" using assms(2) by (rule dvd_shift)
  ultimately show ?thesis
    using div_Suc_int [OF assms(1), of "y - c"] by metis
qed

lemma day_from_year_Suc: "day_from_year (y + 1) = day_from_year y + 365 + leap_day (leap y)"
proof -
  have divs: "(y + 1 - 1969) div 4 = (y - 1969) div 4 + (if 4 dvd y then 1 else 0)"
    "(y + 1 - 1901) div 100 = (y - 1901) div 100 + (if 100 dvd y then 1 else 0)"
    "(y + 1 - 1601) div 400 = (y - 1601) div 400 + (if 400 dvd y then 1 else 0)"
    by (rule div_shift_Suc; simp)+
  have mults: "400 dvd y \<Longrightarrow> 100 dvd y" "100 dvd y \<Longrightarrow> 4 dvd y"
    by (auto intro: dvd_trans [where b = "400 :: int"] dvd_trans [where b = "100 :: int"])
  define a b c where "a = (y - 1969) div 4" and "b = (y - 1901) div 100" and "c = (y - 1601) div 400"
  note abc = a_def b_def c_def
  show ?thesis
    unfolding day_from_year_def leap_dvd leap_day_def divs abc [symmetric]
    by (cases "4 dvd y"; cases "100 dvd y"; cases "400 dvd y") (use mults in simp_all)
qed

lemma day_from_year_mono: "y \<le> z \<Longrightarrow> day_from_year y \<le> day_from_year z"
proof (induction "nat (z - y)" arbitrary: z)
  case (Suc k)
  then have "day_from_year y \<le> day_from_year (z - 1)" by simp
  also have "\<dots> \<le> day_from_year z"
    using day_from_year_Suc [of "z - 1"] by (simp add: leap_day_def split: if_splits)
  finally show ?case .
qed simp

lemma div_bounds:
  assumes "0 < (k::int)"
  shows "k * (a div k) \<le> a" and "a < k * (a div k) + k"
proof -
  have "k * (a div k) + a mod k = a" by simp
  with pos_mod_sign [OF assms, of a] pos_mod_bound [OF assms, of a]
  show "k * (a div k) \<le> a" and "a < k * (a div k) + k" by linarith+
qed

lemma day_from_year_estimate:
  "146097 * (y - 1970) - 506 \<le> 400 * day_from_year y"
  "400 * day_from_year y \<le> 146097 * (y - 1970) + 589"
proof -
  have divs: "4 * ((y - 1969) div 4) \<le> y - 1969" "y - 1969 < 4 * ((y - 1969) div 4) + 4"
    "100 * ((y - 1901) div 100) \<le> y - 1901" "y - 1901 < 100 * ((y - 1901) div 100) + 100"
    "400 * ((y - 1601) div 400) \<le> y - 1601" "y - 1601 < 400 * ((y - 1601) div 400) + 400"
    by (rule div_bounds; simp)+
  define a b c where "a = (y - 1969) div 4" and "b = (y - 1901) div 100" and "c = (y - 1601) div 400"
  note abc = a_def b_def c_def
  show "146097 * (y - 1970) - 506 \<le> 400 * day_from_year y"
    using divs unfolding day_from_year_def abc [symmetric] by (simp add: algebra_simps)
  show "400 * day_from_year y \<le> 146097 * (y - 1970) + 589"
    using divs unfolding day_from_year_def abc [symmetric] by (simp add: algebra_simps)
qed

lemma year_of_bounds: "day_from_year (year_of n) \<le> n \<and> n < day_from_year (year_of n + 1)"
proof -
  define q where "q = (400 * n) div 146097"
  define y where "y = 1970 + q"
  have "146097 * q \<le> 400 * n" "400 * n < 146097 * q + 146097"
    unfolding q_def by (rule div_bounds; simp)+
  moreover have "400 * day_from_year (y - 1) \<le> 146097 * (q - 1) + 589"
    using day_from_year_estimate(2) [of "y - 1"] by (simp add: y_def)
  moreover have "146097 * (q + 2) - 506 \<le> 400 * day_from_year (y + 2)"
    using day_from_year_estimate(1) [of "y + 2"] by (simp add: y_def)
  ultimately have "day_from_year (y - 1) \<le> n \<and> n < day_from_year (y + 2)"
    by auto
  then show ?thesis
    unfolding year_of_def q_def [symmetric] y_def [symmetric] by (simp add: Let_def algebra_simps)
qed

lemma year_of_unique: "day_from_year y \<le> n \<Longrightarrow> n < day_from_year (y + 1) \<Longrightarrow> year_of n = y"
  using year_of_bounds [of n] day_from_year_mono [of "y + 1" "year_of n"]
    day_from_year_mono [of "year_of n + 1" y]
  by linarith

lemma month_cases:
  assumes "0 \<le> m" and "m \<le> (11::int)"
  shows "m \<in> {0, 1, 2, 3, 4, 5, 6, 7, 8, 9, 10, 11}"
proof -
  have "m = 0 \<or> m = 1 \<or> m = 2 \<or> m = 3 \<or> m = 4 \<or> m = 5 \<or> m = 6 \<or> m = 7 \<or> m = 8 \<or> m = 9 \<or>
      m = 10 \<or> m = 11" using assms by presburger
  then show ?thesis by blast
qed

lemma month_start_values:
  "month_start lp 0 = 0" "month_start lp 1 = 31" "month_start lp 2 = leap_day lp + 59" "month_start lp 3 = leap_day lp + 90"
  "month_start lp 4 = leap_day lp + 120" "month_start lp 5 = leap_day lp + 151" "month_start lp 6 = leap_day lp + 181"
  "month_start lp 7 = leap_day lp + 212" "month_start lp 8 = leap_day lp + 243" "month_start lp 9 = leap_day lp + 273"
  "month_start lp 10 = leap_day lp + 304" "month_start lp 11 = leap_day lp + 334" "month_start lp 12 = leap_day lp + 365"
  by (simp_all add: month_start_def)

lemma month_scan_bounds:
  assumes "0 \<le> k" and "k < 365 + leap_day lp"
  defines "m \<equiv> month_scan lp k [0, 1, 2, 3, 4, 5, 6, 7, 8, 9, 10]"
  shows "0 \<le> m \<and> m \<le> 11 \<and> month_start lp m \<le> k \<and> k < month_start lp (m + 1)"
  using assms by (simp add: month_start_values)

lemma month_starts_rise: "0 \<le> a \<Longrightarrow> a \<le> b \<Longrightarrow> b \<le> 12 \<Longrightarrow> month_start lp a \<le> month_start lp b"
proof (rotate_tac 1, induction b rule: int_ge_induct)
  case (step b)
  have "month_start lp b \<le> month_start lp (b + 1)"
    using month_cases [of b] step by (auto simp: month_start_values leap_day_def)
  with step show ?case by simp
qed simp

lemma month_scan_start:
  assumes "0 \<le> m" and "m \<le> 11" and "month_start lp m \<le> k" and "k < month_start lp (m + 1)"
  shows "month_scan lp k [0, 1, 2, 3, 4, 5, 6, 7, 8, 9, 10] = m"
proof -
  let ?m = "month_scan lp k [0, 1, 2, 3, 4, 5, 6, 7, 8, 9, 10]"
  have "month_start lp 0 \<le> month_start lp m" "month_start lp (m + 1) \<le> month_start lp 12"
    using assms(1,2) by (simp_all add: month_starts_rise)
  then have "0 \<le> k" "k < 365 + leap_day lp" using assms(3,4) by (simp_all add: month_start_values)
  note b = month_scan_bounds [OF this]
  have "\<not> ?m < m" "\<not> m < ?m"
    using month_starts_rise [of "?m + 1" m lp] month_starts_rise [of "m + 1" ?m lp] assms b by linarith+
  then show ?thesis by simp
qed

lemma month_start_bound:
  "0 \<le> m \<Longrightarrow> m \<le> 11 \<Longrightarrow> 0 \<le> month_start lp m \<and> month_start lp (m + 1) \<le> 365 + leap_day lp"
  by (auto simp: month_start_def leap_day_def)

lemma day_of_date:
  assumes "valid_date y m d"
  defines "n \<equiv> make_day y m d"
  shows "year_of n = y" and "month_of n = m" and "date_of n = d"
proof -
  have m: "0 \<le> m" "m \<le> 11" and d: "1 \<le> d" "d \<le> days_in_month y m"
    using assms by (auto simp: valid_date_def)
  have n: "n = day_from_year y + month_start (leap y) m + d - 1"
    using m by (simp add: n_def make_day_def)
  show y: "year_of n = y"
    by (rule year_of_unique)
      (use n d month_start_bound [OF m, of "leap y"] in
        \<open>auto simp: day_from_year_Suc days_in_month_def\<close>)
  show "month_of n = m"
    unfolding month_of_def y Let_def
    by (rule month_scan_start) (use m n d in \<open>auto simp: days_in_month_def\<close>)
  with y n show "date_of n = d" by (simp add: date_of_def)
qed

lemma date_of_day:
  "make_day (year_of n) (month_of n) (date_of n) = n"
  "valid_date (year_of n) (month_of n) (date_of n)"
proof -
  let ?y = "year_of n" and ?m = "month_of n"
  have "0 \<le> n - day_from_year ?y \<and> n - day_from_year ?y < 365 + leap_day (leap ?y)"
    using year_of_bounds [of n] day_from_year_Suc [of ?y] by linarith
  then have m: "0 \<le> ?m \<and> ?m \<le> 11 \<and> month_start (leap ?y) ?m \<le> n - day_from_year ?y \<and>
      n - day_from_year ?y < month_start (leap ?y) (?m + 1)"
    using month_scan_bounds by (simp add: month_of_def Let_def)
  then show "make_day ?y ?m (date_of n) = n" by (simp add: make_day_def date_of_def)
  show "valid_date ?y ?m (date_of n)"
    using m by (simp add: valid_date_def date_of_def days_in_month_def)
qed

lemma make_day_shift: "make_day y m (d + k) = make_day y m d + k"
  by (simp add: make_day_def Let_def)

lemma make_day_from: "make_day (year_of n) (month_of n) (date_of n + k) = n + k"
  by (simp add: make_day_shift date_of_day)

lemma week_day_bounds: "0 \<le> week_day n" "week_day n \<le> 6"
  by (simp_all add: week_day_def)

section \<open>Date objects\<close>

type_synonym jsdate = "int option"

text \<open>A time value is valid up to 100 million days on either side of 1970-01-01.\<close>

definition time_clip :: "int \<Rightarrow> jsdate" where
  "time_clip n = (if \<bar>n\<bar> \<le> 100000000 then Some n else None)"

definition get_day :: "jsdate \<Rightarrow> int option" where
  "get_day d = map_option week_day d"

definition get_date :: "jsdate \<Rightarrow> int option" where
  "get_date d = map_option date_of d"

definition get_month :: "jsdate \<Rightarrow> int option" where
  "get_month d = map_option month_of d"

definition get_full_year :: "jsdate \<Rightarrow> int option" where
  "get_full_year d = map_option year_of d"

text \<open>Arithmetic with NaN.\<close>

definition lift2 :: "(int \<Rightarrow> int \<Rightarrow> int) \<Rightarrow> int option \<Rightarrow> int option \<Rightarrow> int option" where
  "lift2 f a b = (case a of None \<Rightarrow> None | Some x \<Rightarrow> map_option (f x) b)"

definition set_date :: "jsdate \<Rightarrow> int option \<Rightarrow> jsdate" where
  "set_date d k = (case d of None \<Rightarrow> None
     | Some n \<Rightarrow> (case k of None \<Rightarrow> None
        | Some j \<Rightarrow> time_clip (make_day (year_of n) (month_of n) j)))"

text \<open>\<^verbatim>\<open>new Date(y, m, d)\<close>: the years 0 to 99 stand for 1900 to 1999.\<close>

definition new_date :: "int option \<Rightarrow> int option \<Rightarrow> int option \<Rightarrow> jsdate" where
  "new_date y m d = (case (y, m, d) of
       (Some y, Some m, Some d) \<Rightarrow>
         time_clip (make_day (if 0 \<le> y \<and> y \<le> 99 then 1900 + y else y) m d)
     | _ \<Rightarrow> None)"

lemma lift2_Some [simp]: "lift2 f (Some x) (Some y) = Some (f x y)"
  by (simp add: lift2_def)

lemma lift2_None [simp]: "lift2 f None b = None" "lift2 f a None = None"
  by (simp_all add: lift2_def split: option.splits)

lemma set_date_plus:
  "set_date (Some n) (lift2 (+) (get_date (Some n)) (Some k)) = time_clip (n + k)"
  by (simp add: set_date_def get_date_def make_day_from)

text \<open>\<^verbatim>\<open>String(n)\<close>, and the format \<^verbatim>\<open>YYYY-MM-DD\<close> the code builds from the accessors.\<close>

definition num_text :: "int option \<Rightarrow> string" where
  "num_text n = (case n of None \<Rightarrow> ''NaN'' | Some i \<Rightarrow> int_str i)"

definition format_date_iso :: "jsdate \<Rightarrow> string" where
  "format_date_iso d = num_text (get_full_year d) @ ''-'' @
     pad_start 2 (CHR ''0'') (num_text (lift2 (+) (get_month d) (Some 1))) @ ''-'' @
     pad_start 2 (CHR ''0'') (num_text (get_date d))"

text \<open>An ISO calendar date \<^verbatim>\<open>YYYY-MM-DD\<close>; anything else is \<open>None\<close>.\<close>

definition iso_date :: "string \<Rightarrow> int option" where
  "iso_date s =
     (if length s = 10 \<and> list_all is_digit (take 4 s) \<and> s ! 4 = CHR ''-'' \<and>
         list_all is_digit (take 2 (drop 5 s)) \<and> s ! 7 = CHR ''-'' \<and> list_all is_digit (drop 8 s)
      then let y = int (digits_nat (take 4 s)); m = int (digits_nat (take 2 (drop 5 s))) - 1;
               d = int (digits_nat (drop 8 s))
           in if valid_date y m d then Some (make_day y m d) else None
      else None)"

section \<open>Formatting and reading a date\<close>

lemma length_nat_str:
  "length (nat_str n) = (if n < 10 then 1 else Suc (length (nat_str (n div 10))))"
  by (subst nat_str.simps) simp

lemma length_nat_str_year:
  assumes "1000 \<le> n" and "n \<le> 9999"
  shows "length (nat_str n) = 4"
proof -
  have "10 \<le> n" "10 \<le> n div 10" "10 \<le> n div 10 div 10" "n div 10 div 10 div 10 < 10"
    using assms by (simp_all add: less_eq_div_iff_mult_less_eq div_less_iff_less_mult)
  then show ?thesis
    using length_nat_str [of n] length_nat_str [of "n div 10"]
      length_nat_str [of "n div 10 div 10"] length_nat_str [of "n div 10 div 10 div 10"]
    by simp
qed

lemma pad2:
  assumes "0 \<le> i" and "i \<le> 99"
  shows "length (pad_start 2 (CHR ''0'') (int_str i)) = 2"
    and "list_all is_digit (pad_start 2 (CHR ''0'') (int_str i))"
    and "int (digits_nat (pad_start 2 (CHR ''0'') (int_str i))) = i"
proof -
  have "length (nat_str (nat i)) \<le> 2"
    using assms by (simp add: length_nat_str [of "nat i"] length_nat_str [of "nat i div 10"])
  then show "length (pad_start 2 (CHR ''0'') (int_str i)) = 2"
    using assms by (simp add: pad_start_def int_str_def)
  show "list_all is_digit (pad_start 2 (CHR ''0'') (int_str i))"
  proof -
    have "list_all is_digit (replicate k (CHR ''0''))" for k
      by (induction k) (simp_all add: is_digit_def)
    then show ?thesis using assms nat_str_digits [of "nat i"] by (simp add: pad_start_def int_str_def)
  qed
  show "int (digits_nat (pad_start 2 (CHR ''0'') (int_str i))) = i"
    using assms by (simp add: pad_start_def int_str_def)
qed

lemma days_in_month_bounds:
  "0 \<le> m \<Longrightarrow> m \<le> 11 \<Longrightarrow> 28 \<le> days_in_month y m \<and> days_in_month y m \<le> 31"
  by (drule (1) month_cases) (auto simp: days_in_month_def month_start_def leap_day_def)

lemma iso_date_format:
  assumes "1000 \<le> year_of n" and "year_of n \<le> 9999"
  shows "iso_date (format_date_iso (Some n)) = Some n"
proof -
  let ?y = "year_of n" and ?m = "month_of n" and ?d = "date_of n"
  have v: "valid_date ?y ?m ?d" by (rule date_of_day(2))
  then have md: "0 \<le> ?m" "?m \<le> 11" "1 \<le> ?d" "?d \<le> 31"
    using days_in_month_bounds [of ?m ?y] by (auto simp: valid_date_def)
  define Y where "Y = nat_str (nat ?y)"
  define M where "M = pad_start 2 (CHR ''0'') (int_str (?m + 1))"
  define D where "D = pad_start 2 (CHR ''0'') (int_str ?d)"
  have Y: "length Y = 4" "list_all is_digit Y" "int (digits_nat Y) = ?y"
    using assms length_nat_str_year [of "nat ?y"] nat_str_digits by (auto simp: Y_def)
  have M: "length M = 2" "list_all is_digit M" "int (digits_nat M) = ?m + 1"
    using pad2 [of "?m + 1"] md by (auto simp: M_def)
  have D: "length D = 2" "list_all is_digit D" "int (digits_nat D) = ?d"
    using pad2 [of ?d] md by (auto simp: D_def)
  have s: "format_date_iso (Some n) = Y @ ''-'' @ M @ ''-'' @ D"
    using assms by (simp add: format_date_iso_def get_full_year_def get_month_def get_date_def
        num_text_def Y_def M_def D_def int_str_def)
  show ?thesis
    using v Y M D date_of_day(1) [of n] unfolding s iso_date_def
    by (simp add: nth_append Let_def)
qed

end
