(* ===== verification/Recurrence.thy ===== *)
theory Recurrence
  imports Calendar
begin

text \<open>
  The recurrence rules of \<^verbatim>\<open>routes/tasks.ts\<close>: \<^verbatim>\<open>parseRRule\<close> and \<^verbatim>\<open>calculateNextDueDate\<close>.  An
  interval or month day that does not parse is NaN, the date built from it is invalid, and its
  text is \<^verbatim>\<open>NaN-NaN-NaN\<close>.  Numerals stand below \<open>2 ^ 53\<close>, where doubles are exact integers.
\<close>

section \<open>parseRRule\<close>

type_synonym parts = "string \<Rightarrow> string option"

definition add_segment :: "string \<Rightarrow> parts \<Rightarrow> parts" where
  "add_segment seg p = (case split_on (CHR ''='') seg of
       key # val # rest \<Rightarrow>
         if key \<noteq> [] \<and> val \<noteq> [] then p(to_upper key := Some (to_upper val)) else p
     | _ \<Rightarrow> p)"

definition parse_rrule :: "string \<Rightarrow> parts" where
  "parse_rrule rrule = fold add_segment (split_on (CHR '';'') rrule) (\<lambda>_. None)"

section \<open>calculateNextDueDate\<close>

text \<open>\<^verbatim>\<open>parseInt(parts['INTERVAL'] || '1', 10)\<close>\<close>

definition interval_of :: "parts \<Rightarrow> int option" where
  "interval_of p = parse_int (case p ''INTERVAL'' of None \<Rightarrow> ''1'' | Some s \<Rightarrow> s)"

definition day_map :: "string \<Rightarrow> int option" where
  "day_map = [''SU'' \<mapsto> 0, ''MO'' \<mapsto> 1, ''TU'' \<mapsto> 2, ''WE'' \<mapsto> 3, ''TH'' \<mapsto> 4, ''FR'' \<mapsto> 5, ''SA'' \<mapsto> 6]"

definition target_days :: "string \<Rightarrow> int list" where
  "target_days by_day = sort (List.map_filter (\<lambda>d. day_map (trim d)) (split_on (CHR '','') by_day))"

text \<open>The loop \<^verbatim>\<open>while (newMonth > 11)\<close>.\<close>

function norm_month :: "int \<Rightarrow> int \<Rightarrow> int \<times> int" where
  "norm_month m y = (if m > 11 then norm_month (m - 12) (y + 1) else (m, y))"
  by pat_completeness auto
termination
  by (relation "measure (\<lambda>(m, y). nat m)") auto

declare norm_month.simps [simp del]

text \<open>\<^verbatim>\<open>currentDueDate ? new Date(currentDueDate + 'T00:00:00') : new Date()\<close>, at midnight.\<close>

definition base_date :: "int \<Rightarrow> (string \<Rightarrow> int option) \<Rightarrow> string option \<Rightarrow> jsdate" where
  "base_date now fallback due = (case due of
       None \<Rightarrow> Some now
     | Some s \<Rightarrow> if s = [] then Some now
         else case iso_date s of Some n \<Rightarrow> Some n | None \<Rightarrow> fallback (s @ ''T00:00:00''))"

definition next_daily :: "parts \<Rightarrow> jsdate \<Rightarrow> jsdate" where
  "next_daily p base = set_date base (lift2 (+) (get_date base) (interval_of p))"

definition next_weekly :: "parts \<Rightarrow> jsdate \<Rightarrow> jsdate" where
  "next_weekly p base =
     (let interval = interval_of p;
          plus_weeks = set_date base (lift2 (+) (get_date base) (map_option ((*) 7) interval)) in
      case p ''BYDAY'' of
        None \<Rightarrow> plus_weeks
      | Some by_day \<Rightarrow>
          (let days = target_days by_day in
           if days = [] then plus_weeks
           else case List.find (\<lambda>d. case get_day base of None \<Rightarrow> False | Some c \<Rightarrow> d > c) days of
               Some later \<Rightarrow>
                 set_date base (lift2 (+) (get_date base) (lift2 (-) (Some later) (get_day base)))
             | None \<Rightarrow>
                 set_date base (lift2 (+) (lift2 (+) (get_date base)
                   (lift2 (-) (map_option ((*) 7) interval) (get_day base))) (Some (hd days)))))"

text \<open>The two monthly branches differ in the wanted day only.\<close>

definition next_monthly :: "parts \<Rightarrow> jsdate \<Rightarrow> jsdate" where
  "next_monthly p base =
     (let interval = interval_of p;
          target = (case p ''BYMONTHDAY'' of None \<Rightarrow> get_date base | Some s \<Rightarrow> parse_int s);
          ny = (case (lift2 (+) (get_month base) interval, get_full_year base) of
                  (Some m, Some y) \<Rightarrow> (case norm_month m y of (m', y') \<Rightarrow> (Some m', Some y'))
                | (m, y) \<Rightarrow> (m, y));
          dim = get_date (new_date (snd ny) (lift2 (+) (fst ny) (Some 1)) (Some 0))
      in new_date (snd ny) (fst ny) (lift2 min target dim))"

definition calculate_next_due_date ::
  "int \<Rightarrow> (string \<Rightarrow> int option) \<Rightarrow> string \<Rightarrow> string option \<Rightarrow> string option" where
  "calculate_next_due_date now fallback rrule due =
     (let p = parse_rrule rrule; base = base_date now fallback due in
      case p ''FREQ'' of
        None \<Rightarrow> None
      | Some freq \<Rightarrow>
          if freq = ''DAILY'' then Some (format_date_iso (next_daily p base))
          else if freq = ''WEEKLY'' then Some (format_date_iso (next_weekly p base))
          else if freq = ''MONTHLY'' then Some (format_date_iso (next_monthly p base))
          else None)"

section \<open>The month loop\<close>

lemma norm_month_eq: "0 \<le> m \<Longrightarrow> norm_month m y = (m mod 12, y + m div 12)"
proof (induction m y rule: norm_month.induct)
  case (1 m y)
  show ?case
  proof (cases "m > 11")
    case True
    then have "norm_month m y = ((m - 12) mod 12, y + 1 + (m - 12) div 12)"
      using 1 by (subst norm_month.simps) simp
    moreover have "(m - 12) mod 12 = m mod 12" "(m - 12) div 12 = m div 12 - 1"
      using div_add_self2 [of 12 "m - 12"] by simp_all
    ultimately show ?thesis by simp
  next
    case False
    with 1 show ?thesis by (subst norm_month.simps) simp
  qed
qed

section \<open>Days\<close>

lemma next_daily_date:
  assumes "interval_of p = Some k"
  shows "next_daily p (Some n) = time_clip (n + k)"
  using assms by (simp add: next_daily_def set_date_plus)

section \<open>Weeks\<close>

lemma target_days_sorted: "sorted (target_days s)"
  by (simp add: target_days_def)

lemma day_map_range: "day_map s = Some d \<Longrightarrow> 0 \<le> d \<and> d \<le> 6"
  by (auto simp: day_map_def split: if_splits)

lemma target_days_range: "d \<in> set (target_days s) \<Longrightarrow> 0 \<le> d \<and> d \<le> 6"
  by (auto simp: target_days_def List.map_filter_def dest: day_map_range)

text \<open>The day the BYDAY branch picks, as an offset from the base date.\<close>

definition by_day_offset :: "int \<Rightarrow> int list \<Rightarrow> int \<Rightarrow> int" where
  "by_day_offset k days c = (case List.find (\<lambda>d. d > c) days of
       Some d \<Rightarrow> d - c | None \<Rightarrow> 7 * k - c + hd days)"

lemma next_weekly_by_day:
  assumes "p ''BYDAY'' = Some s" and "target_days s \<noteq> []" and "interval_of p = Some k"
  shows "next_weekly p (Some n) = time_clip (n + by_day_offset k (target_days s) (week_day n))"
proof -
  have 1: "set_date (Some n) (Some x) = time_clip (n + (x - date_of n))" for x
    using make_day_from [of n "x - date_of n"] by (simp add: set_date_def)
  show ?thesis
    using assms 1
    by (auto simp: next_weekly_def by_day_offset_def get_day_def get_date_def Let_def
        algebra_simps split: option.splits)
qed

lemma find_later_sorted:
  assumes "sorted ds" and "List.find (\<lambda>d. d > c) ds = Some d" and "d' \<in> set ds" and "d' > c"
  shows "d \<le> (d' :: int)"
  using assms by (induction ds) (auto split: if_splits)

lemma week_day_shift: "week_day (n + j) = (week_day n + j) mod 7"
  unfolding week_day_def by (simp add: mod_simps) (simp add: algebra_simps)

lemma by_day_offset_first:
  fixes c :: int
  assumes days: "sorted days" "days \<noteq> []" "\<And>d. d \<in> set days \<Longrightarrow> 0 \<le> d \<and> d \<le> 6"
    and c: "0 \<le> c" "c \<le> 6"
  defines "j \<equiv> by_day_offset 1 days c"
  shows "0 < j" and "(c + j) mod 7 \<in> set days"
    and "0 < i \<Longrightarrow> i < j \<Longrightarrow> (c + i) mod 7 \<notin> set days"
proof -
  have hd: "hd days \<in> set days" using days(2) by simp
  have "0 < j \<and> (c + j) mod 7 \<in> set days \<and> (\<forall>i. 0 < i \<and> i < j \<longrightarrow> (c + i) mod 7 \<notin> set days)"
  proof (cases "List.find (\<lambda>d. d > c) days")
    case (Some d)
    then have d: "d \<in> set days" "c < d" by (auto simp: find_Some_iff)
    have j: "j = d - c" by (simp add: j_def by_day_offset_def Some)
    have "(c + i) mod 7 \<notin> set days" if "0 < i" "i < j" for i
    proof
      assume "(c + i) mod 7 \<in> set days"
      moreover have "(c + i) mod 7 = c + i"
        using that c j d days(3) [OF d(1)] by (intro mod_pos_pos_trivial) auto
      ultimately have "d \<le> c + i"
        using find_later_sorted [OF days(1) Some, of "c + i"] that(1) by simp
      with that j show False by simp
    qed
    with d j days(3) [OF d(1)] show ?thesis by simp
  next
    case None
    then have none: "\<not> d > c" if "d \<in> set days" for d using that by (auto simp: find_None_iff)
    have j: "j = 7 - c + hd days" by (simp add: j_def by_day_offset_def None)
    have least: "hd days \<le> d" if "d \<in> set days" for d
      using that days(1) by (cases days) auto
    have "(c + i) mod 7 \<notin> set days" if i: "0 < i" "i < j" for i
    proof (cases "c + i < 7")
      case True
      then have "(c + i) mod 7 = c + i" using c i by (intro mod_pos_pos_trivial) auto
      then show ?thesis using none i by fastforce
    next
      case False
      have "c + i - 7 < 7" using i j days(3) [OF hd] by simp
      then have "(c + i - 7) mod 7 = c + i - 7"
        using False by (intro mod_pos_pos_trivial) auto
      then have "(c + i) mod 7 = c + i - 7" by (simp only: minus_mod_self2)
      then show ?thesis using least [of "c + i - 7"] i j by auto
    qed
    moreover have "(c + j) mod 7 = hd days" using j days(3) [OF hd] by simp
    ultimately show ?thesis using j c days(3) [OF hd] hd by auto
  qed
  then show "0 < j" and "(c + j) mod 7 \<in> set days"
    and "0 < i \<Longrightarrow> i < j \<Longrightarrow> (c + i) mod 7 \<notin> set days" by auto
qed

section \<open>Months\<close>

lemma new_date_valid_year:
  "1900 \<le> y \<Longrightarrow> new_date (Some y) (Some m) (Some d) = time_clip (make_day y m d)"
  by (simp add: new_date_def)

text \<open>Day 0 of the next month is the last day of this one.\<close>

lemma last_day_of_month:
  assumes "0 \<le> m" and "m \<le> 11"
  shows "make_day y (m + 1) 0 = make_day y m (days_in_month y m)"
proof (cases "m = 11")
  case True
  then show ?thesis
    by (simp add: make_day_def days_in_month_def day_from_year_Suc month_start_def leap_day_def)
next
  case False
  with assms show ?thesis by (simp add: make_day_def days_in_month_def Let_def)
qed

lemma days_in_month_last:
  assumes "0 \<le> m" and "m \<le> 11"
  shows "date_of (make_day y (m + 1) 0) = days_in_month y m"
proof -
  have "valid_date y m (days_in_month y m)"
    using assms days_in_month_bounds [OF assms, of y] by (simp add: valid_date_def)
  then show ?thesis using last_day_of_month [OF assms] by (simp add: day_of_date)
qed

lemma make_day_bounds:
  assumes "1900 \<le> y" and "y \<le> 9999" and "0 \<le> m" and "m \<le> 11" and "0 \<le> d" and "d \<le> 31"
  shows "\<bar>make_day y m d\<bar> \<le> 100000000"
proof -
  have "day_from_year 1900 \<le> day_from_year y" "day_from_year y \<le> day_from_year 9999"
    using assms by (simp_all add: day_from_year_mono)
  moreover have "day_from_year 1900 = - 25567" "day_from_year 9999 = 2932532"
    by (simp_all add: day_from_year_def)
  moreover have "0 \<le> month_start (leap y) m \<and> month_start (leap y) m \<le> 366"
    using month_cases [OF assms(3,4)] by (auto simp: month_start_def leap_day_def)
  ultimately show ?thesis
    using assms by (auto simp: make_day_def abs_le_iff)
qed

lemma next_monthly_date:
  assumes k: "interval_of p = Some k" "0 \<le> k"
    and t: "(case p ''BYMONTHDAY'' of None \<Rightarrow> Some (date_of n) | Some s \<Rightarrow> parse_int s) = Some t"
    and y: "y = year_of n + (month_of n + k) div 12" "1900 \<le> y" "y \<le> 9999"
    and m: "m = (month_of n + k) mod 12" and "1 \<le> t"
  defines "d \<equiv> min t (days_in_month y m)"
  shows "next_monthly p (Some n) = Some (make_day y m d) \<and> valid_date y m d"
proof -
  have "0 \<le> month_of n"
    using date_of_day(2) [of n] by (simp add: valid_date_def)
  then have norm: "norm_month (month_of n + k) (year_of n) = (m, y)"
    using k y m by (simp add: norm_month_eq)
  have "m < 12" unfolding m by simp
  then have m_range: "0 \<le> m" "m \<le> 11" by (simp_all add: m)
  have dim: "days_in_month y m \<le> 31" "28 \<le> days_in_month y m"
    using days_in_month_bounds [OF m_range] by auto
  have valid: "valid_date y m d"
    using \<open>1 \<le> t\<close> m_range dim by (simp add: valid_date_def d_def)
  have clip: "time_clip (make_day y m j) = Some (make_day y m j)" if "0 \<le> j" "j \<le> 31" for j
    using make_day_bounds [OF y(2,3) m_range that] by (simp add: time_clip_def)
  have "valid_date y m (days_in_month y m)"
    using m_range dim by (simp add: valid_date_def)
  then have "get_date (new_date (Some y) (Some (m + 1)) (Some 0)) = Some (days_in_month y m)"
    using clip [of "days_in_month y m"] dim
    by (simp add: new_date_valid_year y(2) last_day_of_month [OF m_range] get_date_def day_of_date)
  then have "next_monthly p (Some n) = new_date (Some y) (Some m) (Some d)"
    using k t norm
    by (simp add: next_monthly_def get_month_def get_full_year_def get_date_def d_def Let_def
        split: option.splits)
  with valid clip [of d] dim m_range show ?thesis
    by (simp add: new_date_valid_year y(2) valid_date_def)
qed

end
