(* ===== verification/Shared_Utils.thy ===== *)
theory Shared_Utils
  imports Recurrence
begin

text \<open>
  The utilities of \<^verbatim>\<open>packages/groundwork-shared/src/utils\<close>: ULID time stamps (\<^verbatim>\<open>ulid.ts\<close>),
  fractional sort orders (\<^verbatim>\<open>fractional-index.ts\<close>) and date comparison (\<^verbatim>\<open>dates.ts\<close>).  One lemma
  on positional numerals (\<open>radix_less\<close>) shows both that ULIDs sort by time and that comparing
  ISO dates as strings compares the days.
\<close>

section \<open>Positional numerals and the order of strings\<close>

definition radix :: "nat \<Rightarrow> (char \<Rightarrow> nat) \<Rightarrow> string \<Rightarrow> nat" where
  "radix b ix s = foldl (\<lambda>n c. b * n + ix c) 0 s"

lemma foldl_radix: "foldl (\<lambda>n c. b * n + ix c) k s = k * b ^ length s + radix b ix s"
proof (induction s arbitrary: k)
  case (Cons c s)
  show ?case
    using Cons [of "b * k + ix c"] Cons [of "ix c"]
    by (simp add: radix_def algebra_simps)
qed (simp add: radix_def)

lemma radix_Cons: "radix b ix (c # s) = ix c * b ^ length s + radix b ix s"
  using foldl_radix [of b ix "ix c" s] by (simp add: radix_def)

lemma radix_bound: "\<forall>c \<in> set s. ix c < b \<Longrightarrow> radix b ix s < b ^ length s"
proof (induction s)
  case (Cons c s)
  then have "radix b ix s < b ^ length s" and "ix c + 1 \<le> b" by auto
  then have "radix b ix (c # s) < (ix c + 1) * b ^ length s" by (simp add: radix_Cons)
  also have "\<dots> \<le> b * b ^ length s" using \<open>ix c + 1 \<le> b\<close> by (rule mult_right_mono) simp
  finally show ?case by simp
qed (simp add: radix_def)

lemma radix_less:
  assumes "length s = length t"
    and "\<forall>c \<in> set s \<union> set t. ix c < b"
    and "\<And>c d. c \<in> set s \<Longrightarrow> d \<in> set t \<Longrightarrow> (c < d \<longleftrightarrow> ix c < ix d) \<and> (c = d \<longleftrightarrow> ix c = ix d)"
  shows "s < t \<longleftrightarrow> radix b ix s < radix b ix t"
  using assms
proof (induction s t rule: list_induct2)
  case (Cons c s d t)
  have IH: "s < t \<longleftrightarrow> radix b ix s < radix b ix t" using Cons by simp
  have bounds: "\<forall>c \<in> set s. ix c < b" "\<forall>c \<in> set t. ix c < b" using Cons.prems(1) by auto
  have s: "radix b ix s < b ^ length s" using bounds(1) by (rule radix_bound)
  have t: "radix b ix t < b ^ length s" unfolding Cons.hyps using bounds(2) by (rule radix_bound)
  have cd: "(c < d \<longleftrightarrow> ix c < ix d) \<and> (c = d \<longleftrightarrow> ix c = ix d)" using Cons.prems(2) by simp
  have less: "x * b ^ length s + u < y * b ^ length s + v"
    if "x < y" "u < b ^ length s" for x y u v
  proof -
    have "x * b ^ length s + u < (x + 1) * b ^ length s" using that by simp
    also have "\<dots> \<le> y * b ^ length s" using that by (intro mult_right_mono) auto
    finally show ?thesis by simp
  qed
  show ?case
  proof (cases "ix c" "ix d" rule: linorder_cases)
    case 1: less
    then show ?thesis
      using cd less [OF 1 s, of "radix b ix t"] by (simp add: radix_Cons flip: Cons.hyps)
  next
    case equal
    then show ?thesis using cd IH by (simp add: radix_Cons flip: Cons.hyps)
  next
    case 2: greater
    then have "\<not> c < d" "c \<noteq> d" using cd by auto
    then show ?thesis
      using less [OF 2 t, of "radix b ix s"] by (simp add: radix_Cons flip: Cons.hyps)
  qed
qed (simp add: radix_def)

section \<open>ulid.ts\<close>

definition crockford :: string where
  "crockford = ''0123456789ABCDEFGHJKMNPQRSTVWXYZ''"

fun index_of :: "char \<Rightarrow> string \<Rightarrow> nat option" where
  "index_of c [] = None"
| "index_of c (x # xs) = (if x = c then Some 0 else map_option Suc (index_of c xs))"

text \<open>\<open>Inl c\<close> is the error thrown for the character \<open>c\<close>.\<close>

definition add_digit :: "char \<Rightarrow> nat \<Rightarrow> char + nat" where
  "add_digit c time = (case index_of c crockford of None \<Rightarrow> Inl c | Some i \<Rightarrow> Inr (time * 32 + i))"

definition extract_timestamp :: "string \<Rightarrow> char + nat" where
  "extract_timestamp s = foldE add_digit (to_upper (take 10 s)) 0"

definition ulid_ix :: "char \<Rightarrow> nat" where
  "ulid_ix c = (case index_of c crockford of None \<Rightarrow> 0 | Some i \<Rightarrow> i)"

lemma index_of_nth: "index_of c xs = Some i \<Longrightarrow> i < length xs \<and> xs ! i = c"
  by (induction xs arbitrary: i) (auto split: if_splits)

lemma foldE_add_digit:
  "foldE add_digit s k = Inr n \<longleftrightarrow>
     (\<forall>c \<in> set s. index_of c crockford \<noteq> None) \<and> n = foldl (\<lambda>n c. 32 * n + ulid_ix c) k s"
  by (induction s arbitrary: k) (auto simp: add_digit_def ulid_ix_def algebra_simps split: option.splits)

lemma extract_timestamp_Inr:
  "extract_timestamp s = Inr n \<longleftrightarrow>
     (\<forall>c \<in> set (to_upper (take 10 s)). index_of c crockford \<noteq> None) \<and>
     n = radix 32 ulid_ix (to_upper (take 10 s))"
  by (simp add: extract_timestamp_def foldE_add_digit radix_def)

lemma crockford_sorted: "sorted_wrt (<) crockford"
  by (simp add: crockford_def less_char_def)

lemma index_of_order:
  assumes "sorted_wrt (<) xs" and "index_of c xs = Some i" and "index_of d xs = Some j"
  shows "(c < d \<longleftrightarrow> i < j) \<and> (c = d \<longleftrightarrow> i = j)"
proof -
  have i: "i < length xs" "xs ! i = c" and j: "j < length xs" "xs ! j = d"
    using index_of_nth assms(2,3) by auto
  have "xs ! i < xs ! j" if "i < j" using sorted_wrt_nth_less [OF assms(1) that j(1)] .
  moreover have "xs ! j < xs ! i" if "j < i" using sorted_wrt_nth_less [OF assms(1) that i(1)] .
  ultimately show ?thesis using i j by (metis less_irrefl less_trans nat_neq_iff)
qed

lemma ulid_ix_bound: "ulid_ix c < 32"
  by (auto simp: ulid_ix_def crockford_def dest!: index_of_nth split: option.split)

lemma timestamp_bound: "extract_timestamp s = Inr n \<Longrightarrow> n < 2 ^ 50"
proof -
  assume "extract_timestamp s = Inr n"
  then have "n < 32 ^ length (take 10 s)"
    using radix_bound [of "to_upper (take 10 s)" ulid_ix 32] ulid_ix_bound
    by (simp add: extract_timestamp_Inr to_upper_def)
  also have "\<dots> \<le> 32 ^ 10" by (rule power_increasing) simp_all
  finally show ?thesis by simp
qed

lemma timestamp_order:
  assumes "extract_timestamp s = Inr m" and "extract_timestamp t = Inr n"
    and "10 \<le> length s" and "10 \<le> length t"
  shows "to_upper (take 10 s) < to_upper (take 10 t) \<longleftrightarrow> m < n"
proof -
  have *: "(c < d \<longleftrightarrow> ulid_ix c < ulid_ix d) \<and> (c = d \<longleftrightarrow> ulid_ix c = ulid_ix d)"
    if "c \<in> set (to_upper (take 10 s))" and "d \<in> set (to_upper (take 10 t))" for c d
  proof -
    have "index_of c crockford \<noteq> None" "index_of d crockford \<noteq> None"
      using assms(1,2) that unfolding extract_timestamp_Inr by blast+
    then obtain i j where "index_of c crockford = Some i" "index_of d crockford = Some j"
      by blast
    then show ?thesis using index_of_order [OF crockford_sorted, of c i d j] by (simp add: ulid_ix_def)
  qed
  have "to_upper (take 10 s) < to_upper (take 10 t) \<longleftrightarrow>
      radix 32 ulid_ix (to_upper (take 10 s)) < radix 32 ulid_ix (to_upper (take 10 t))"
    by (rule radix_less) (use assms(3,4) ulid_ix_bound * in \<open>auto simp: to_upper_def\<close>)
  then show ?thesis using assms(1,2) by (simp add: extract_timestamp_Inr)
qed

section \<open>fractional-index.ts\<close>

definition between :: "rat option \<Rightarrow> rat option \<Rightarrow> rat" where
  "between before after =
     (let lo = (case before of None \<Rightarrow> 0 | Some x \<Rightarrow> x);
          hi = (case after of None \<Rightarrow> lo + 1 | Some x \<Rightarrow> x)
      in if lo \<ge> hi then hi + 1 else (lo + hi) / 2)"

definition after_last :: "rat option \<Rightarrow> rat" where
  "after_last m = (case m of None \<Rightarrow> 0 | Some x \<Rightarrow> x) + 1"

definition needs_rebalance :: "(rat \<Rightarrow> string) \<Rightarrow> rat \<Rightarrow> bool" where
  "needs_rebalance dec n = (let s = num_str dec n in
     case index_of (CHR ''.'') s of None \<Rightarrow> False | Some i \<Rightarrow> length s - i - 1 > 10)"

definition rebalance :: "nat \<Rightarrow> rat list" where
  "rebalance n = map (\<lambda>i. of_nat (i + 1)) [0 ..< n]"

lemma between_strict: "lo < hi \<Longrightarrow> lo < between (Some lo) (Some hi) \<and> between (Some lo) (Some hi) < hi"
  by (simp add: between_def Let_def)

lemma index_of_None: "index_of c s = None \<longleftrightarrow> c \<notin> set s"
  by (induction s) auto

lemma int_str_no_dot: "CHR ''.'' \<notin> set (int_str i)"
proof -
  have "CHR ''.'' \<notin> set (nat_str n)" for n
    using nat_str_digits [of n] by (auto simp: list_all_iff is_digit_def)
  then show ?thesis by (simp add: int_str_def)
qed

lemma integers_balanced: "of_int \<lfloor>n\<rfloor> = n \<Longrightarrow> \<not> needs_rebalance dec n"
  by (simp add: needs_rebalance_def num_str_def int_str_no_dot index_of_None [THEN iffD2])

section \<open>dates.ts\<close>

definition is_before :: "string \<Rightarrow> string \<Rightarrow> bool" where
  "is_before a b \<longleftrightarrow> a < b"

definition is_after :: "string \<Rightarrow> string \<Rightarrow> bool" where
  "is_after a b \<longleftrightarrow> a > b"

text \<open>
  \<^verbatim>\<open>new Date(s).getTime()\<close>: an ISO date is midnight UTC, anything else is the engine's reading
  \<open>f\<close>; the result is in milliseconds.
\<close>

definition date_ms :: "(string \<Rightarrow> int option) \<Rightarrow> string \<Rightarrow> int option" where
  "date_ms f s = (case iso_date s of Some n \<Rightarrow> Some (n * (1000 * 60 * 60 * 24)) | None \<Rightarrow> f s)"

definition days_diff :: "(string \<Rightarrow> int option) \<Rightarrow> string \<Rightarrow> string \<Rightarrow> int option" where
  "days_diff f a b = lift2 (\<lambda>x y. \<lfloor>of_int (y - x) / (1000 * 60 * 60 * 24) + (1 / 2 :: rat)\<rfloor>)
     (date_ms f a) (date_ms f b)"

lemma days_diff_iso:
  assumes "iso_date a = Some m" and "iso_date b = Some n"
  shows "days_diff f a b = Some (n - m)"
proof -
  have "of_int (n * (1000 * 60 * 60 * 24) - m * (1000 * 60 * 60 * 24)) / (1000 * 60 * 60 * 24)
      = (of_int (n - m) :: rat)"
    by (simp add: field_simps)
  moreover have "\<lfloor>of_int k + (1 / 2 :: rat)\<rfloor> = k" for k by linarith
  ultimately show ?thesis by (simp only: days_diff_def date_ms_def assms option.case lift2_Some)
qed

lemma append_less:
  "length xs = length ys \<Longrightarrow> xs @ us < ys @ vs \<longleftrightarrow> xs < ys \<or> xs = ys \<and> us < (vs :: string)"
  by (induction xs ys rule: list_induct2) auto

lemma digit_order:
  assumes "is_digit c" and "is_digit d"
  shows "(c < d \<longleftrightarrow> digit_val c < digit_val d) \<and> (c = d \<longleftrightarrow> digit_val c = digit_val d)"
proof -
  have "c = d \<longleftrightarrow> (of_char c :: nat) = of_char d" by simp
  moreover have "48 \<le> (of_char c :: nat)" "48 \<le> (of_char d :: nat)"
    using assms by (simp_all add: is_digit_def)
  ultimately show ?thesis unfolding digit_val_def less_char_def by linarith
qed

lemma digits_less:
  assumes "length s = length t" and "list_all is_digit s" and "list_all is_digit t"
  shows "s < t \<longleftrightarrow> digits_nat s < digits_nat t" and "s = t \<longleftrightarrow> digits_nat s = digits_nat t"
proof -
  have less: "s < t \<longleftrightarrow> digits_nat s < digits_nat t"
    if "length s = length t" "list_all is_digit s" "list_all is_digit t" for s t
  proof -
    have "s < t \<longleftrightarrow> radix 10 digit_val s < radix 10 digit_val t"
      by (rule radix_less)
        (use that digit_order in \<open>auto simp: list_all_iff is_digit_def digit_val_def\<close>)
    then show ?thesis by (simp add: radix_def digits_nat_def)
  qed
  show "s < t \<longleftrightarrow> digits_nat s < digits_nat t" using assms by (rule less)
  show "s = t \<longleftrightarrow> digits_nat s = digits_nat t"
    using less [of s t] less [of t s] assms by (metis linorder_cases less_irrefl)
qed

lemma month_start_mono:
  assumes "a \<le> b"
  shows "0 \<le> a \<Longrightarrow> b \<le> 12 \<Longrightarrow> month_start lp a \<le> month_start lp b"
  using assms
proof (induction b rule: int_ge_induct)
  case (step b)
  have "month_start lp b \<le> month_start lp (b + 1)"
    using step.hyps step.prems by (auto simp: month_start_def leap_day_def)
  then show ?case using step by simp
qed simp

lemma make_day_less:
  assumes v: "valid_date y m d" and v': "valid_date y' m' d'"
    and less: "y < y' \<or> y = y' \<and> (m < m' \<or> m = m' \<and> d < d')"
  shows "make_day y m d < make_day y' m' d'"
proof -
  have m: "0 \<le> m" "m \<le> 11" "d \<le> days_in_month y m"
    and m': "0 \<le> m'" "m' \<le> 11" "1 \<le> d'" using v v' by (auto simp: valid_date_def)
  have n: "make_day y m d = day_from_year y + month_start (leap y) m + d - 1"
    and n': "make_day y' m' d' = day_from_year y' + month_start (leap y') m' + d' - 1"
    using m m' by (simp_all add: make_day_def)
  consider "y < y'" | "y = y'" "m < m'" | "y = y'" "m = m'" "d < d'" using less by blast
  then show ?thesis
  proof cases
    case 1
    then have "day_from_year (y + 1) \<le> day_from_year y'" by (intro day_from_year_mono) simp
    then show ?thesis
      using m m' month_start_bound [OF m(1,2), of "leap y"] month_start_bound [OF m'(1,2), of "leap y'"]
      by (simp add: n n' day_from_year_Suc days_in_month_def)
  next
    case 2
    then have "month_start (leap y) (m + 1) \<le> month_start (leap y) m'"
      using m m' by (intro month_start_mono) auto
    with 2 m m' show ?thesis unfolding n n' by (simp add: days_in_month_def)
  qed (use n n' in simp)
qed

text \<open>The parts of an ISO date.\<close>

lemma iso_date_parts:
  assumes "iso_date s = Some n"
  obtains Y M D where "s = Y @ ''-'' @ M @ ''-'' @ D" "length Y = 4" "length M = 2" "length D = 2"
    "list_all is_digit Y" "list_all is_digit M" "list_all is_digit D"
    "valid_date (int (digits_nat Y)) (int (digits_nat M) - 1) (int (digits_nat D))"
    "n = make_day (int (digits_nat Y)) (int (digits_nat M) - 1) (int (digits_nat D))"
proof -
  let ?Y = "take 4 s" and ?M = "take 2 (drop 5 s)" and ?D = "drop 8 s"
  have facts: "length s = 10" "list_all is_digit ?Y" "s ! 4 = CHR ''-''" "list_all is_digit ?M"
    "s ! 7 = CHR ''-''" "list_all is_digit ?D"
    "valid_date (int (digits_nat ?Y)) (int (digits_nat ?M) - 1) (int (digits_nat ?D))"
    "n = make_day (int (digits_nat ?Y)) (int (digits_nat ?M) - 1) (int (digits_nat ?D))"
    using assms by (auto simp: iso_date_def Let_def split: if_splits)
  have "s = ?Y @ drop 4 s" by simp
  also have "drop 4 s = s ! 4 # drop 5 s"
    using facts(1) Cons_nth_drop_Suc [of 4 s] by (simp add: eval_nat_numeral)
  also have "drop 5 s = ?M @ drop 7 s"
    using append_take_drop_id [of 2 "drop 5 s"] by (simp only: drop_drop) simp
  also have "drop 7 s = s ! 7 # ?D"
    using facts(1) Cons_nth_drop_Suc [of 7 s] by (simp add: eval_nat_numeral)
  finally have "s = ?Y @ ''-'' @ ?M @ ''-'' @ ?D" using facts(3,5) by simp
  then show thesis
    by (rule that) (use facts in simp_all)
qed

lemma iso_dates_order:
  assumes a: "iso_date s = Some m" and b: "iso_date t = Some n"
  shows "s < t \<longleftrightarrow> m < n"
proof -
  obtain Y M D where s: "s = Y @ ''-'' @ M @ ''-'' @ D" "length Y = 4" "length M = 2" "length D = 2"
    "list_all is_digit Y" "list_all is_digit M" "list_all is_digit D"
    "valid_date (int (digits_nat Y)) (int (digits_nat M) - 1) (int (digits_nat D))"
    "m = make_day (int (digits_nat Y)) (int (digits_nat M) - 1) (int (digits_nat D))"
    using a by (rule iso_date_parts)
  obtain Y' M' D' where t: "t = Y' @ ''-'' @ M' @ ''-'' @ D'" "length Y' = 4" "length M' = 2"
    "length D' = 2" "list_all is_digit Y'" "list_all is_digit M'" "list_all is_digit D'"
    "valid_date (int (digits_nat Y')) (int (digits_nat M') - 1) (int (digits_nat D'))"
    "n = make_day (int (digits_nat Y')) (int (digits_nat M') - 1) (int (digits_nat D'))"
    using b by (rule iso_date_parts)
  let ?lt = "\<lambda>Y M D Y' M' D'. digits_nat Y < digits_nat Y' \<or> digits_nat Y = digits_nat Y' \<and>
    (digits_nat M < digits_nat M' \<or> digits_nat M = digits_nat M' \<and> digits_nat D < digits_nat D')"
  have str: "s < t \<longleftrightarrow> ?lt Y M D Y' M' D'"
    using s(2-7) t(2-7) by (simp add: s(1) t(1) append_less digits_less)
  have "m < n" if "?lt Y M D Y' M' D'"
    unfolding s(9) t(9) by (rule make_day_less [OF s(8) t(8)]) (use that in auto)
  moreover have "n < m" if "?lt Y' M' D' Y M D"
    unfolding s(9) t(9) by (rule make_day_less [OF t(8) s(8)]) (use that in auto)
  moreover have "?lt Y M D Y' M' D' \<or> ?lt Y' M' D' Y M D \<or>
      digits_nat Y = digits_nat Y' \<and> digits_nat M = digits_nat M' \<and> digits_nat D = digits_nat D'"
    by auto
  ultimately show ?thesis using str s(9) t(9) by auto
qed

end
