(* ===== verification/Schedule_Properties.thy ===== *)
theory Schedule_Properties
  imports Shared_Utils
begin

text \<open>
  The properties of dates and identifiers: the next due date of a recurring task for each
  frequency, the text form of a date, and the orders that strings of dates and identifiers stand
  for.
\<close>

section \<open>Dates with four-digit years\<close>

definition common_year :: "int \<Rightarrow> bool" where
  "common_year n \<longleftrightarrow> 1900 \<le> year_of n \<and> year_of n \<le> 9999"

lemma common_year_clip: "common_year n \<Longrightarrow> time_clip n = Some n"
proof -
  assume y: "common_year n"
  have v: "valid_date (year_of n) (month_of n) (date_of n)" by (rule date_of_day)
  then have m: "0 \<le> month_of n" "month_of n \<le> 11" "1 \<le> date_of n" "date_of n \<le> days_in_month (year_of n) (month_of n)"
    by (simp_all add: valid_date_def)
  then have "\<bar>make_day (year_of n) (month_of n) (date_of n)\<bar> \<le> 100000000"
    using y days_in_month_bounds [OF m(1,2), of "year_of n"] by (intro make_day_bounds) (auto simp: common_year_def)
  then show ?thesis by (simp add: date_of_day(1) time_clip_def)
qed

lemma common_year_text: "common_year n \<Longrightarrow> iso_date (format_date_iso (time_clip n)) = Some n"
  by (simp add: common_year_clip iso_date_format common_year_def)

lemma year_of_mono: "m \<le> n \<Longrightarrow> year_of m \<le> year_of n"
proof (rule ccontr)
  assume mn: "m \<le> n" and "\<not> year_of m \<le> year_of n"
  then have "day_from_year (year_of n + 1) \<le> day_from_year (year_of m)"
    by (intro day_from_year_mono) simp
  then show False using year_of_bounds [of m] year_of_bounds [of n] mn by simp
qed

lemma year_of_near:
  assumes "n \<le> m" and "m \<le> n + 365"
  shows "year_of m \<le> year_of n + 1"
proof (rule ccontr)
  assume "\<not> ?thesis"
  then have "day_from_year (year_of n + 1 + 1) \<le> day_from_year (year_of m)"
    by (intro day_from_year_mono) simp
  moreover have "day_from_year (year_of n + 1 + 1) \<ge> day_from_year (year_of n + 1) + 365"
    unfolding day_from_year_Suc [of "year_of n + 1"] by (simp add: leap_day_def)
  ultimately show False using year_of_bounds [of n] year_of_bounds [of m] assms by simp
qed

lemma base_date_iso:
  assumes "iso_date s = Some n"
  shows "base_date now fb (Some s) = Some n"
proof -
  have "s \<noteq> []" using assms by (auto simp: iso_date_def)
  with assms show ?thesis by (simp add: base_date_def)
qed

section \<open>The next due date\<close>

text \<open>A task that recurs daily, due on an ISO date, is next due exactly \<open>k\<close> days later, where
  \<open>k\<close> is the interval of its rule; the answer is the ISO text of that day.\<close>

lemma daily_due:
  assumes "parse_rrule rrule ''FREQ'' = Some ''DAILY''" and "interval_of (parse_rrule rrule) = Some k"
    and "iso_date due = Some n" and "common_year (n + k)"
  shows "\<exists>s. calculate_next_due_date now fallback rrule (Some due) = Some s \<and> iso_date s = Some (n + k)"
  using assms by (simp add: calculate_next_due_date_def base_date_iso next_daily_date common_year_text Let_def)

text \<open>C39: a weekly rule with \<^verbatim>\<open>BYDAY\<close> and interval 1 moves the task to the first day after its due date
  that falls on one of the named weekdays: a later day, on a named weekday, with none skipped.\<close>

theorem weekly_due:
  assumes rule: "parse_rrule rrule ''FREQ'' = Some ''WEEKLY''" "parse_rrule rrule ''BYDAY'' = Some s"
    "target_days s \<noteq> []" "interval_of (parse_rrule rrule) = Some 1"
    and due: "iso_date due = Some n" and year: "1900 \<le> year_of n" "year_of n < 9999"
  shows "\<exists>t m. calculate_next_due_date now fallback rrule (Some due) = Some t \<and> iso_date t = Some m \<and>
    n < m \<and> week_day m \<in> set (target_days s) \<and> (\<forall>j. n < j \<and> j < m \<longrightarrow> week_day j \<notin> set (target_days s))"
proof -
  let ?ds = "target_days s"
  define j where "j = by_day_offset 1 ?ds (week_day n)"
  note first = by_day_offset_first [where days = "target_days s" and c = "week_day n",
      OF target_days_sorted rule(3) target_days_range [where s = s] week_day_bounds]
  have j: "0 < j" "week_day (n + j) \<in> set ?ds"
    using first(1,2) by (simp_all add: j_def week_day_shift)
  have none: "week_day i \<notin> set ?ds" if "n < i" "i < n + j" for i
    using first(3) [where i = "i - n"] that week_day_shift [of n "i - n"] by (simp add: j_def)
  have "j \<le> 365"
  proof (rule ccontr)
    assume "\<not> j \<le> 365"
    then have "week_day (n + j - 7) \<notin> set ?ds" by (intro none) auto
    moreover have "week_day (n + j - 7) = week_day (n + j)"
      using week_day_shift [of "n + j - 7" 7] week_day_bounds [of "n + j - 7"] by simp
    ultimately show False using j(2) by simp
  qed
  then have "common_year (n + j)"
    using year year_of_near [of n "n + j"] year_of_mono [of n "n + j"] j(1) by (simp add: common_year_def)
  moreover have "next_weekly (parse_rrule rrule) (Some n) = time_clip (n + j)"
    unfolding j_def by (rule next_weekly_by_day [OF rule(2,3,4)])
  ultimately have "calculate_next_due_date now fallback rrule (Some due) = Some (format_date_iso (time_clip (n + j)))"
    "iso_date (format_date_iso (time_clip (n + j))) = Some (n + j)"
    using rule(1) by (simp_all add: calculate_next_due_date_def base_date_iso [OF due] common_year_text Let_def)
  then show ?thesis
    using j none by (intro exI [of _ "format_date_iso (time_clip (n + j))"] exI [of _ "n + j"]) simp
qed

lemma weekly_due_witness:
  "\<exists>t m. calculate_next_due_date 0 (\<lambda>_. None) ''FREQ=WEEKLY;BYDAY=TH,MO'' (Some ''2026-02-27'') = Some t \<and>
    iso_date t = Some m \<and> 20511 < m \<and> week_day m \<in> set (target_days ''TH,MO'') \<and>
    (\<forall>j. 20511 < j \<and> j < m \<longrightarrow> week_day j \<notin> set (target_days ''TH,MO''))"
  by (rule weekly_due; code_simp)

text \<open>A monthly rule keeps the day of the month, or takes \<^verbatim>\<open>BYMONTHDAY\<close>, in the month \<open>k\<close> months
  later; where that month is shorter the last day of the month is taken, so the date always exists.\<close>

lemma monthly_due:
  assumes rule: "parse_rrule rrule ''FREQ'' = Some ''MONTHLY''" "interval_of (parse_rrule rrule) = Some k" "0 \<le> k"
    and day: "(case parse_rrule rrule ''BYMONTHDAY'' of None \<Rightarrow> Some (date_of n) | Some s \<Rightarrow> parse_int s) = Some t" "1 \<le> t"
    and due: "iso_date due = Some n"
    and target: "y = year_of n + (month_of n + k) div 12" "m = (month_of n + k) mod 12" "1900 \<le> y" "y \<le> 9999"
  shows "\<exists>s. calculate_next_due_date now fallback rrule (Some due) = Some s \<and>
    valid_date y m (min t (days_in_month y m)) \<and> iso_date s = Some (make_day y m (min t (days_in_month y m)))"
proof -
  let ?d = "min t (days_in_month y m)"
  have nm: "next_monthly (parse_rrule rrule) (Some n) = Some (make_day y m ?d)" and v: "valid_date y m ?d"
    using next_monthly_date [OF rule(2,3) day(1) target(1,3,4,2) day(2)] by auto
  have "year_of (make_day y m ?d) = y" using v by (rule day_of_date)
  then have "iso_date (format_date_iso (Some (make_day y m ?d))) = Some (make_day y m ?d)"
    using target by (intro iso_date_format) auto
  then show ?thesis
    using rule(1) v nm by (simp add: calculate_next_due_date_def base_date_iso [OF due] Let_def)
qed

section \<open>Texts and their orders\<close>

text \<open>The text \<^verbatim>\<open>formatDateISO\<close> gives a day with a four-digit year reads back as the same day.\<close>

lemma iso_text_round_trip:
  assumes "1000 \<le> year_of n" and "year_of n \<le> 9999"
  shows "iso_date (format_date_iso (Some n)) = Some n"
  using assms by (rule iso_date_format)

text \<open>\<^verbatim>\<open>isBefore\<close> and \<^verbatim>\<open>isAfter\<close> compare ISO dates as strings, and that is the order of the days;
  \<^verbatim>\<open>daysDiff\<close> is the number of days between them.\<close>

lemma iso_strings_compare_as_days:
  assumes "iso_date s = Some m" and "iso_date t = Some n"
  shows "(is_before s t \<longleftrightarrow> m < n) \<and> (is_after s t \<longleftrightarrow> n < m) \<and> days_diff f s t = Some (n - m)"
  using iso_dates_order [OF assms] iso_dates_order [OF assms(2,1)] days_diff_iso [OF assms]
  by (simp add: is_before_def is_after_def)

text \<open>The time stamp of a ULID fits 50 bits, and two ULIDs whose time stamps decode compare, by
  their first ten characters, exactly as their time stamps do: identifiers sort by creation time.\<close>

lemma ulid_sorts_by_time:
  assumes "extract_timestamp s = Inr m" and "extract_timestamp t = Inr n"
    and "10 \<le> length s" and "10 \<le> length t"
  shows "m < 2 ^ 50 \<and> (to_upper (take 10 s) < to_upper (take 10 t) \<longleftrightarrow> m < n)"
  using timestamp_bound [OF assms(1)] timestamp_order [OF assms] by simp

text \<open>A sort order inserted between two rows lies strictly between theirs, one put at the end lies
  after the last.\<close>

lemma sort_order_between:
  assumes "lo < hi"
  shows "lo < between (Some lo) (Some hi) \<and> between (Some lo) (Some hi) < hi \<and> lo < after_last (Some lo)"
  using between_strict [OF assms] by (simp add: after_last_def)

end
