(* ===== verification/Schema.thy ===== *)
theory Schema
  imports Relational
begin

text \<open>
  The GroundWork database of \<^verbatim>\<open>apps/groundwork-server/src/db/schema.ts\<close> as data for the
  relational engine: one \<open>table_schema\<close> per \<^verbatim>\<open>CREATE TABLE\<close>, with its unique indexes and the
  columns its full-text triggers copy.
\<close>

section \<open>Tables\<close>

datatype tbl =
    Domains | Projects | Tasks | Materials | DailyPlans | TimeBlocks | InboxItems | Attachments
  | TaskEvents | Tags | TaskTags | SeasonalConfig | CalendarEvents | WeeklyTemplates | WeeklyBlocks

definition all_tables :: "tbl list" where
  "all_tables = [Domains, Projects, Tasks, Materials, DailyPlans, TimeBlocks, InboxItems,
     Attachments, TaskEvents, Tags, TaskTags, SeasonalConfig, CalendarEvents, WeeklyTemplates,
     WeeklyBlocks]"

lemma UNIV_tbl: "UNIV = set all_tables"
  by (rule UNIV_eq_I) (auto simp: all_tables_def intro: tbl.exhaust)

instantiation tbl :: enum
begin

definition enum_tbl :: "tbl list" where
  "enum_tbl = all_tables"

definition enum_all_tbl :: "(tbl \<Rightarrow> bool) \<Rightarrow> bool" where
  "enum_all_tbl P \<longleftrightarrow> list_all P all_tables"

definition enum_ex_tbl :: "(tbl \<Rightarrow> bool) \<Rightarrow> bool" where
  "enum_ex_tbl P \<longleftrightarrow> list_ex P all_tables"

instance
proof
  show "distinct (enum_class.enum :: tbl list)" by (simp add: enum_tbl_def all_tables_def)
qed (simp_all add: enum_tbl_def enum_all_tbl_def enum_ex_tbl_def list_all_iff list_ex_iff
    flip: UNIV_tbl)

end

lemma all_tbl: "(\<forall>t. P t) \<longleftrightarrow> list_all P all_tables"
  by (simp add: list_all_iff flip: UNIV_tbl)

section \<open>Column kinds\<close>

definition col :: "string \<Rightarrow> bool \<Rightarrow> sqlval \<Rightarrow> (sqlval \<Rightarrow> bool) \<Rightarrow> tbl option \<Rightarrow> tbl column" where
  "col c nn d chk r = \<lparr>cname = c, notnull = nn, dflt = d, allowed = chk, refs = r\<rparr>"

abbreviation any_value :: "sqlval \<Rightarrow> bool" where
  "any_value \<equiv> (\<lambda>_. True)"

text \<open>CHECK passes on NULL, as in SQL.\<close>

definition one_of :: "string list \<Rightarrow> sqlval \<Rightarrow> bool" where
  "one_of xs v \<longleftrightarrow> v = Null \<or> v \<in> Text ` set xs"

definition num_between :: "rat \<Rightarrow> rat \<Rightarrow> sqlval \<Rightarrow> bool" where
  "num_between lo hi v \<longleftrightarrow> v = Null \<or> (Num lo \<le> v \<and> v \<le> Num hi)"

abbreviation required :: "string \<Rightarrow> tbl column" where
  "required c \<equiv> col c True Null any_value None"

abbreviation optional :: "string \<Rightarrow> tbl column" where
  "optional c \<equiv> col c False Null any_value None"

abbreviation with_default :: "string \<Rightarrow> sqlval \<Rightarrow> tbl column" where
  "with_default c d \<equiv> col c True d any_value None"

abbreviation json_list :: "string \<Rightarrow> tbl column" where
  "json_list c \<equiv> col c False (Text ''[]'') any_value None"

abbreviation one_of_col :: "string \<Rightarrow> sqlval \<Rightarrow> string list \<Rightarrow> tbl column" where
  "one_of_col c d xs \<equiv> col c True d (one_of xs) None"

abbreviation ref_required :: "string \<Rightarrow> tbl \<Rightarrow> tbl column" where
  "ref_required c p \<equiv> col c True Null any_value (Some p)"

abbreviation ref_optional :: "string \<Rightarrow> tbl \<Rightarrow> tbl column" where
  "ref_optional c p \<equiv> col c False Null any_value (Some p)"

definition stamps :: "tbl column list" where
  "stamps = [required ''created_at'', required ''updated_at'', optional ''deleted_at'']"

definition sort_order_col :: "tbl column" where
  "sort_order_col = with_default ''sort_order'' (Num 0)"

section \<open>Full-text triggers and unique indexes\<close>

definition tasks_fts :: "string list" where
  "tasks_fts = [''title'', ''notes'', ''kanban_column'']"

definition projects_fts :: "string list" where
  "projects_fts = [''name'', ''description'', ''last_context_note'']"

definition inbox_items_fts :: "string list" where
  "inbox_items_fts = [''raw_text'', ''ocr_text'', ''quick_note'']"

definition materials_fts :: "string list" where
  "materials_fts = [''name'', ''source'', ''notes'']"

definition idx_daily_plans_date :: "string list" where
  "idx_daily_plans_date = [''date'']"

definition idx_tags_name :: "string list" where
  "idx_tags_name = [''name'']"

definition idx_task_tags_unique :: "string list" where
  "idx_task_tags_unique = [''task_id'', ''tag_id'']"

definition idx_seasonal_config_key :: "string list" where
  "idx_seasonal_config_key = [''key'', ''year'']"

section \<open>CREATE TABLE\<close>

definition domains_table :: "tbl table_schema" where
  "domains_table = \<lparr>columns = [required ''id'', required ''name'', required ''color'',
       optional ''icon'', sort_order_col] @ stamps,
     uniques = [], fts_cols = []\<rparr>"

definition projects_table :: "tbl table_schema" where
  "projects_table = \<lparr>columns = [required ''id'', ref_required ''domain_id'' Domains,
       required ''name'', optional ''description'',
       one_of_col ''status'' (Text ''active'') [''active'', ''someday'', ''completed'', ''archived''],
       one_of_col ''default_view'' (Text ''list'') [''list'', ''kanban'', ''timeline'', ''materials''],
       optional ''last_touched_at'', optional ''last_context_note'', optional ''deadline'',
       sort_order_col] @ stamps,
     uniques = [], fts_cols = projects_fts\<rparr>"

definition tasks_table :: "tbl table_schema" where
  "tasks_table = \<lparr>columns = [required ''id'', ref_required ''project_id'' Projects,
       required ''title'',
       one_of_col ''status'' (Text ''backlog'') [''backlog'', ''active'', ''done'', ''dropped''],
       optional ''kanban_column'', optional ''estimated_minutes'', optional ''due_date'',
       optional ''seasonal_window'', json_list ''depends_on'', sort_order_col, optional ''notes'',
       optional ''completed_at'', optional ''recurrence_rule'',
       ref_optional ''recurrence_parent_id'' Tasks] @ stamps,
     uniques = [], fts_cols = tasks_fts\<rparr>"

definition materials_table :: "tbl table_schema" where
  "materials_table = \<lparr>columns = [required ''id'', ref_required ''project_id'' Projects,
       required ''name'', with_default ''quantity'' (Num 1), optional ''unit_cost'',
       optional ''source'',
       one_of_col ''status'' (Text ''needed'') [''needed'', ''ordered'', ''acquired''],
       json_list ''blocks_tasks'', optional ''photo_path'', optional ''notes'',
       sort_order_col] @ stamps,
     uniques = [], fts_cols = materials_fts\<rparr>"

definition daily_plans_table :: "tbl table_schema" where
  "daily_plans_table = \<lparr>columns = [required ''id'', required ''date'',
       with_default ''available_minutes'' (Num 480), with_default ''buffer_percent'' (Num 20),
       optional ''reflection_note'', optional ''morning_ritual_completed_at'',
       optional ''close_out_completed_at''] @ stamps,
     uniques = [idx_daily_plans_date], fts_cols = []\<rparr>"

definition time_blocks_table :: "tbl table_schema" where
  "time_blocks_table = \<lparr>columns = [required ''id'', ref_required ''daily_plan_id'' DailyPlans,
       ref_optional ''domain_id'' Domains, required ''start_time'', required ''end_time'',
       optional ''theme'', json_list ''task_ids'', sort_order_col] @ stamps,
     uniques = [], fts_cols = []\<rparr>"

definition inbox_items_table :: "tbl table_schema" where
  "inbox_items_table = \<lparr>columns = [required ''id'',
       one_of_col ''type'' Null [''text'', ''voice'', ''photo''],
       optional ''raw_text'', optional ''audio_path'', optional ''photo_path'',
       optional ''ocr_text'', optional ''quick_note'', optional ''processed_at'',
       ref_optional ''processed_to_task_id'' Tasks] @ stamps,
     uniques = [], fts_cols = inbox_items_fts\<rparr>"

definition attachments_table :: "tbl table_schema" where
  "attachments_table = \<lparr>columns = [required ''id'',
       one_of_col ''type'' Null [''photo'', ''audio'', ''document'', ''other''],
       required ''file_path'', optional ''file_name'', optional ''mime_type'',
       optional ''file_size_bytes'', ref_optional ''task_id'' Tasks,
       ref_optional ''project_id'' Projects, ref_optional ''inbox_item_id'' InboxItems,
       ref_optional ''material_id'' Materials, sort_order_col] @ stamps,
     uniques = [], fts_cols = []\<rparr>"

definition event_types :: "string list" where
  "event_types = [''created'', ''status_changed'', ''assigned_to_plan'', ''removed_from_plan'',
     ''rescheduled'', ''completed'', ''dropped'', ''dependency_added'',
     ''dependency_removed'', ''note_updated'', ''estimate_changed'']"

definition task_events_table :: "tbl table_schema" where
  "task_events_table = \<lparr>columns = [required ''id'', ref_required ''task_id'' Tasks,
       one_of_col ''event_type'' Null event_types,
       optional ''old_value'', optional ''new_value'', required ''occurred_at'',
       ref_optional ''daily_plan_id'' DailyPlans] @ stamps,
     uniques = [], fts_cols = []\<rparr>"

definition tags_table :: "tbl table_schema" where
  "tags_table = \<lparr>columns = [required ''id'', required ''name'', optional ''color'',
       sort_order_col] @ stamps,
     uniques = [idx_tags_name], fts_cols = []\<rparr>"

definition task_tags_table :: "tbl table_schema" where
  "task_tags_table = \<lparr>columns = [required ''id'', ref_required ''task_id'' Tasks,
       ref_required ''tag_id'' Tags] @ stamps,
     uniques = [idx_task_tags_unique], fts_cols = []\<rparr>"

definition seasonal_config_table :: "tbl table_schema" where
  "seasonal_config_table = \<lparr>columns = [required ''id'', required ''key'', required ''value'',
       optional ''year'', optional ''notes''] @ stamps,
     uniques = [idx_seasonal_config_key], fts_cols = []\<rparr>"

definition calendar_events_table :: "tbl table_schema" where
  "calendar_events_table = \<lparr>columns = [required ''id'', required ''title'', required ''date'',
       required ''start_time'', required ''end_time'', required ''duration_minutes'',
       with_default ''is_recurring'' (Num 0), optional ''recurrence_rule'',
       one_of_col ''source'' (Text ''manual'') [''manual'', ''caldav'', ''ical_import''],
       optional ''external_id'', ref_optional ''domain_id'' Domains] @ stamps,
     uniques = [], fts_cols = []\<rparr>"

definition weekly_theme_templates_table :: "tbl table_schema" where
  "weekly_theme_templates_table = \<lparr>columns = [required ''id'', required ''name'',
       with_default ''is_active'' (Num 1)] @ stamps,
     uniques = [], fts_cols = []\<rparr>"

definition weekly_theme_blocks_table :: "tbl table_schema" where
  "weekly_theme_blocks_table = \<lparr>columns = [required ''id'',
       ref_required ''template_id'' WeeklyTemplates,
       col ''day_of_week'' True Null (num_between 1 7) None,
       required ''start_time'', required ''end_time'', ref_optional ''domain_id'' Domains,
       optional ''theme'', sort_order_col] @ stamps,
     uniques = [], fts_cols = []\<rparr>"

fun gw :: "tbl schema" where
  "gw Domains = domains_table"
| "gw Projects = projects_table"
| "gw Tasks = tasks_table"
| "gw Materials = materials_table"
| "gw DailyPlans = daily_plans_table"
| "gw TimeBlocks = time_blocks_table"
| "gw InboxItems = inbox_items_table"
| "gw Attachments = attachments_table"
| "gw TaskEvents = task_events_table"
| "gw Tags = tags_table"
| "gw TaskTags = task_tags_table"
| "gw SeasonalConfig = seasonal_config_table"
| "gw CalendarEvents = calendar_events_table"
| "gw WeeklyTemplates = weekly_theme_templates_table"
| "gw WeeklyBlocks = weekly_theme_blocks_table"

lemmas table_defs = domains_table_def projects_table_def tasks_table_def materials_table_def
  daily_plans_table_def time_blocks_table_def inbox_items_table_def attachments_table_def
  task_events_table_def tags_table_def task_tags_table_def seasonal_config_table_def
  calendar_events_table_def weekly_theme_templates_table_def weekly_theme_blocks_table_def

lemmas schema_defs = table_defs stamps_def sort_order_col_def col_def event_types_def
  tasks_fts_def projects_fts_def inbox_items_fts_def materials_fts_def idx_daily_plans_date_def
  idx_tags_name_def idx_task_tags_unique_def idx_seasonal_config_key_def

section \<open>The empty database\<close>

definition empty_db :: "tbl database" where
  "empty_db = \<lparr>tab = (\<lambda>_. []), fts = (\<lambda>_. [])\<rparr>"

lemma empty_db_ok: "db_ok gw empty_db" "fts_ok gw empty_db" "rowids_ok empty_db"
  by (simp_all add: db_ok_def table_ok_def uniq_ok_def ids_def fts_ok_def fts_at_def rowids_ok_def
      empty_db_def list_all_iff)

end
