(* ===== verification/Evolution.thy ===== *)
theory Evolution
  imports Relational
begin

text \<open>
  What a sequence of SQL statements may do to a database: \<open>evolves\<close> says that, from a database
  whose constraints hold, the constraints, the full-text mirror and the row numbers stay right,
  every table keeps its rows in place (changed only as \<open>Q\<close> allows) and only gains rows that
  satisfy \<open>N\<close> at its end.  The locale \<open>row_discipline\<close> is the contract between a choice of
  \<open>Q\<close> and \<open>N\<close> and the handlers: it makes \<open>evolves\<close> a \<open>step_preorder\<close> and gives one rule per
  statement.
\<close>

definition evolves ::
  "'t schema \<Rightarrow> ('t \<Rightarrow> row \<Rightarrow> row \<Rightarrow> bool) \<Rightarrow> ('t \<Rightarrow> row \<Rightarrow> bool) \<Rightarrow>
     't database \<Rightarrow> 't database \<Rightarrow> bool" where
  "evolves S Q N db db' \<longleftrightarrow> (db_ok S db \<longrightarrow>
     db_ok S db' \<and> (fts_ok S db \<longrightarrow> fts_ok S db') \<and> (rowids_ok db \<longrightarrow> rowids_ok db') \<and>
     (\<forall>t. \<exists>f new. tab db' t = map f (tab db t) @ new \<and>
        (\<forall>r \<in> set (tab db t). Q t r (f r)) \<and> (\<forall>r \<in> set new. N t r)))"

lemma evolves_mono:
  assumes "evolves S Q N db db'" and "\<And>t r r'. Q t r r' \<Longrightarrow> Q' t r r'" and "\<And>t r. N t r \<Longrightarrow> N' t r"
  shows "evolves S Q' N' db db'"
  using assms unfolding evolves_def by meson

locale row_discipline =
  fixes S :: "'t schema" and Q :: "'t \<Rightarrow> row \<Rightarrow> row \<Rightarrow> bool" and N :: "'t \<Rightarrow> row \<Rightarrow> bool"
  assumes Q_refl: "Q t r r"
    and Q_trans: "Q t r r' \<Longrightarrow> Q t r' r'' \<Longrightarrow> Q t r r''"
    and Q_rowid: "Q t r r' \<Longrightarrow> r' ''rowid'' = r ''rowid''"
    and N_step: "Q t r r' \<Longrightarrow> N t r \<Longrightarrow> N t r'"
begin

lemma evolves_refl: "evolves S Q N db db"
proof -
  have "tab db t = map id (tab db t) @ [] \<and> (\<forall>r \<in> set (tab db t). Q t r (id r)) \<and>
      (\<forall>r \<in> set []. N t r)" for t
    by (simp add: Q_refl)
  then show ?thesis unfolding evolves_def by blast
qed

lemma evolves_trans:
  assumes ab: "evolves S Q N a b" and bc: "evolves S Q N b c"
  shows "evolves S Q N a c"
  unfolding evolves_def
proof (intro impI conjI allI)
  assume ok: "db_ok S a"
  note a = ab [unfolded evolves_def, rule_format, OF ok]
  note b = bc [unfolded evolves_def, rule_format, OF a [THEN conjunct1]]
  show "db_ok S c" using b by blast
  show "fts_ok S a \<Longrightarrow> fts_ok S c" using a b by blast
  show "rowids_ok a \<Longrightarrow> rowids_ok c" using a b by blast
  fix t
  obtain f new where f: "tab b t = map f (tab a t) @ new" "\<forall>r \<in> set (tab a t). Q t r (f r)"
    "\<forall>r \<in> set new. N t r" using a by blast
  obtain g new' where g: "tab c t = map g (tab b t) @ new'" "\<forall>r \<in> set (tab b t). Q t r (g r)"
    "\<forall>r \<in> set new'. N t r" using b by blast
  have "tab c t = map (g \<circ> f) (tab a t) @ (map g new @ new')"
    by (simp add: f(1) g(1))
  moreover have "\<forall>r \<in> set (tab a t). Q t r ((g \<circ> f) r)"
    using f g(2) by (fastforce intro: Q_trans)
  moreover have "\<forall>r \<in> set (map g new @ new'). N t r"
    using f g by (auto intro: N_step)
  ultimately show "\<exists>f new. tab c t = map f (tab a t) @ new \<and>
      (\<forall>r \<in> set (tab a t). Q t r (f r)) \<and> (\<forall>r \<in> set new. N t r)" by blast
qed

lemma insert_evolves:
  assumes ins: "sql_insert S t kvs db = Inr db'" and new: "N t (new_row (S t) kvs (tab db t))"
  shows "evolves S Q N db db'"
  unfolding evolves_def
proof (intro impI conjI allI)
  assume "db_ok S db"
  then show "db_ok S db'" using ins by (rule sql_insert_ok)
  show "fts_ok S db'" if "fts_ok S db" using that ins by (rule sql_insert_fts)
  show "rowids_ok db'" if "rowids_ok db" using that ins by (rule sql_insert_rowids)
  fix u
  let ?new = "if u = t then [new_row (S t) kvs (tab db t)] else []"
  have "tab db' u = map id (tab db u) @ ?new"
    by (simp add: sql_insert_tab [OF ins])
  then show "\<exists>f new. tab db' u = map f (tab db u) @ new \<and>
      (\<forall>r \<in> set (tab db u). Q u r (f r)) \<and> (\<forall>r \<in> set new. N u r)"
    using new by (intro exI [of _ id] exI [of _ ?new]) (auto simp: Q_refl)
qed

lemma update_evolves:
  assumes upd: "sql_update S t P f db = Inr db'"
    and step: "\<And>r. db_ok S db \<Longrightarrow> r \<in> set (tab db t) \<Longrightarrow> P r \<Longrightarrow> Q t r (f r)"
  shows "evolves S Q N db db'"
  unfolding evolves_def
proof (intro impI conjI allI)
  assume ok: "db_ok S db"
  then show "db_ok S db'" using upd by (rule sql_update_ok)
  show "fts_ok S db'" if "fts_ok S db" using that upd by (rule sql_update_fts)
  show "rowids_ok db'" if "rowids_ok db"
    by (rule sql_update_rowids [OF that upd]) (rule Q_rowid [OF step [OF ok]])
  fix u
  let ?f = "\<lambda>r. if u = t \<and> P r then f r else r"
  have "tab db' u = map ?f (tab db u) @ []"
    by (simp add: sql_update_tab [OF upd])
  moreover have "\<forall>r \<in> set (tab db u). Q u r (?f r)"
    using step [OF ok] by (auto simp: Q_refl)
  ultimately show "\<exists>f new. tab db' u = map f (tab db u) @ new \<and>
      (\<forall>r \<in> set (tab db u). Q u r (f r)) \<and> (\<forall>r \<in> set new. N u r)"
    by (intro exI [of _ ?f] exI [of _ "[]"]) simp
qed

lemma evolves_db_ok: "evolves S Q N db db' \<Longrightarrow> db_ok S db \<Longrightarrow> db_ok S db'"
  by (simp add: evolves_def)

lemma evolves_row:
  assumes "evolves S Q N db db'" and "db_ok S db" and "r \<in> set (tab db t)"
  obtains r' where "r' \<in> set (tab db' t)" and "Q t r r'"
proof -
  obtain f new where "tab db' t = map f (tab db t) @ new" "\<forall>r \<in> set (tab db t). Q t r (f r)"
    using assms(1,2) unfolding evolves_def by blast
  then show thesis using assms(3) by (intro that [of "f r"]) auto
qed

lemma evolves_N:
  assumes "evolves S Q N db db'" and "db_ok S db" and "\<And>r. r \<in> set (tab db t) \<Longrightarrow> N t r"
    and "r' \<in> set (tab db' t)"
  shows "N t r'"
proof -
  obtain f new where "tab db' t = map f (tab db t) @ new" "\<forall>r \<in> set (tab db t). Q t r (f r)"
    "\<forall>r \<in> set new. N t r" using assms(1,2) unfolding evolves_def by blast
  then show ?thesis using assms(3,4) by (auto intro: N_step)
qed

end

sublocale row_discipline \<subseteq> step_preorder "evolves S Q N"
  by unfold_locales (fact evolves_refl, fact evolves_trans)

end
