(* ===== verification/Http.thy ===== *)
theory Http
  imports Schema Evolution JS_Base
begin

text \<open>
  What every router of the GroundWork server shares: the values a request draws from outside
  (\<open>env\<close>), replies, prepared statements with bound parameters, and the handler shapes the routers
  write out (list, read one, insert and read back, PATCH over a list of fields, soft delete).
  A handler is a function from the database to a reply and the database it leaves behind; a throw
  is Express's reply 500.  The section on evolution shows what each shape does to the database.
\<close>

section \<open>Requests and replies\<close>

text \<open>
  \<open>gen_id k\<close> and \<open>now_at k\<close> are the values of the \<open>k\<close>-th call of \<^verbatim>\<open>generateId()\<close> and \<^verbatim>\<open>now()\<close>
  during the request.  \<open>bind_param\<close> is better-sqlite3's binding of a JavaScript value to a
  statement parameter (\<open>None\<close>: it throws), \<open>num_dec\<close> the text of a fraction, \<open>today\<close> the local
  date as a day number and \<open>date_fallback\<close> the engine's reading of a date string that is not an
  ISO calendar date.  \<open>clock_ms\<close> is the time of the request in milliseconds, \<open>to_local\<close> and \<open>to_utc\<close> are the
  time zone of the server (ECMAScript's LocalTime and UTC), \<open>db_bytes\<close> is the size \<^verbatim>\<open>fs.statSync\<close> reports for the database file (\<open>None\<close>: it throws), and
  \<open>fts_query\<close> is SQLite's FTS5: the row numbers a MATCH finds in an index, best rank first, each
  with its snippet (\<open>None\<close>: the query is refused).
\<close>

record env =
  gen_id :: "nat \<Rightarrow> string"
  now_at :: "nat \<Rightarrow> string"
  bind_param :: "js \<Rightarrow> sqlval option"
  num_dec :: "rat \<Rightarrow> string"
  today :: int
  date_fallback :: "string \<Rightarrow> int option"
  clock_ms :: int
  to_local :: "int \<Rightarrow> int"
  to_utc :: "int \<Rightarrow> int"
  db_bytes :: "nat option"
  fts_query :: "tbl \<Rightarrow> string \<Rightarrow> (rat \<times> sqlval list) list \<Rightarrow> (rat \<times> string) list option"

text \<open>The documented part of the binding: null, strings and numbers bind to themselves.\<close>

definition driver_ok :: "env \<Rightarrow> bool" where
  "driver_ok e \<longleftrightarrow> bind_param e JNull = Some Null \<and>
     (\<forall>s. bind_param e (JStr s) = Some (Text s)) \<and> (\<forall>n. bind_param e (JNum n) = Some (Num n))"

type_synonym json_row = "(string \<times> sqlval) list"

type_synonym query = "string \<Rightarrow> string option"

datatype payload =
    PRow json_row
  | PNothing
  | PTask json_row "json_row option"
  | PRows "json_row list"
  | PError string
  | PException sqlerr
  | PDeleted
  | PCount nat
  | PExport "(string \<times> json_row list) list"
  | PPurge nat "(string \<times> nat) list"
  | PPreview nat string
  | PSearch "json_row list" string
  | PSize nat string
  | PHealth string

datatype response = Resp (code: nat) (payload: payload)

type_synonym reply = "response \<times> tbl database"

section \<open>Statements with parameters\<close>

fun bind_all :: "env \<Rightarrow> (string \<times> js) list \<Rightarrow> (string \<times> sqlval) list option" where
  "bind_all e [] = Some []"
| "bind_all e ((c, v) # kvs) =
     (case bind_param e v of None \<Rightarrow> None
      | Some x \<Rightarrow> map_option ((#) (c, x)) (bind_all e kvs))"

definition set_cols :: "(string \<times> sqlval) list \<Rightarrow> row \<Rightarrow> row" where
  "set_cols kvs r = fold (\<lambda>(c, v) r. r(c := v)) kvs r"

definition by_id :: "string \<Rightarrow> row \<Rightarrow> bool" where
  "by_id i r \<longleftrightarrow> r ''id'' = Text i"

definition run_insert :: "env \<Rightarrow> tbl \<Rightarrow> (string \<times> js) list \<Rightarrow> tbl database \<Rightarrow> sqlerr + tbl database" where
  "run_insert e t kvs db = (case bind_all e kvs of None \<Rightarrow> Inl BindError
     | Some vs \<Rightarrow> sql_insert gw t vs db)"

definition run_update ::
  "env \<Rightarrow> tbl \<Rightarrow> (string \<times> js) list \<Rightarrow> (row \<Rightarrow> bool) \<Rightarrow> tbl database \<Rightarrow> sqlerr + tbl database" where
  "run_update e t kvs P db = (case bind_all e kvs of None \<Rightarrow> Inl BindError
     | Some vs \<Rightarrow> sql_update gw t P (set_cols vs) db)"

definition find_row :: "tbl \<Rightarrow> (row \<Rightarrow> bool) \<Rightarrow> tbl database \<Rightarrow> row option" where
  "find_row t P db = List.find P (tab db t)"

text \<open>\<^verbatim>\<open>SELECT * FROM t WHERE id = ? AND deleted_at IS NULL\<close> and the read-back by id.\<close>

definition find_live :: "tbl \<Rightarrow> string \<Rightarrow> tbl database \<Rightarrow> row option" where
  "find_live t i db = find_row t (\<lambda>r. by_id i r \<and> is_live r) db"

definition row_json :: "tbl \<Rightarrow> row \<Rightarrow> json_row" where
  "row_json t r = select_star (gw t) r"

definition reload :: "tbl \<Rightarrow> string \<Rightarrow> tbl database \<Rightarrow> payload" where
  "reload t i db = (case find_row t (by_id i) db of None \<Rightarrow> PNothing | Some r \<Rightarrow> PRow (row_json t r))"

section \<open>Handler shapes\<close>

text \<open>Answer with the result of a statement or a transaction, or with 500 and nothing changed.\<close>

definition finish ::
  "nat \<Rightarrow> sqlerr + tbl database \<Rightarrow> (tbl database \<Rightarrow> payload) \<Rightarrow> tbl database \<Rightarrow> reply" where
  "finish c m body db = (case m of Inl err \<Rightarrow> (Resp 500 (PException err), db)
     | Inr db' \<Rightarrow> (Resp c (body db'), db'))"

definition bad_request :: "string \<Rightarrow> tbl database \<Rightarrow> reply" where
  "bad_request msg db = (Resp 400 (PError msg), db)"

definition not_found :: "string \<Rightarrow> tbl database \<Rightarrow> reply" where
  "not_found msg db = (Resp 404 (PError msg), db)"

text \<open>\<^verbatim>\<open>if (x) { sql += ' AND c = ?'; params.push(x) }\<close> for a query parameter named as its column.\<close>

definition query_filter :: "query \<Rightarrow> string \<Rightarrow> row \<Rightarrow> bool" where
  "query_filter q c r = (case q c of None \<Rightarrow> True | Some s \<Rightarrow> s = [] \<or> r c = Text s)"

definition live_rows :: "tbl \<Rightarrow> string list \<Rightarrow> query \<Rightarrow> tbl database \<Rightarrow> row list" where
  "live_rows t cs q db = sql_select t (\<lambda>r. is_live r \<and> list_all (\<lambda>c. query_filter q c r) cs) db"

definition list_resource ::
  "tbl \<Rightarrow> string list \<Rightarrow> string list \<Rightarrow> query \<Rightarrow> tbl database \<Rightarrow> reply" where
  "list_resource t cs keys q db =
     (Resp 200 (PRows (map (row_json t) (order_by keys (live_rows t cs q db)))), db)"

definition get_resource :: "tbl \<Rightarrow> string \<Rightarrow> string \<Rightarrow> tbl database \<Rightarrow> reply" where
  "get_resource t msg i db = (case find_live t i db of None \<Rightarrow> not_found msg db
     | Some r \<Rightarrow> (Resp 200 (PRow (row_json t r)), db))"

definition create :: "env \<Rightarrow> tbl \<Rightarrow> string \<Rightarrow> (string \<times> js) list \<Rightarrow> tbl database \<Rightarrow> reply" where
  "create e t i kvs db = finish 201 (run_insert e t kvs db) (reload t i) db"

definition collect_updates :: "string list \<Rightarrow> body \<Rightarrow> (string \<times> js) list" where
  "collect_updates cols b = map (\<lambda>f. (f, b f)) (filter (\<lambda>f. b f \<noteq> Undefined) cols)"

definition save :: "env \<Rightarrow> tbl \<Rightarrow> (string \<times> js) list \<Rightarrow> string \<Rightarrow> tbl database \<Rightarrow> reply" where
  "save e t updates i db =
     (if updates = [] then bad_request ''No fields to update'' db
      else finish 200 (run_update e t (updates @ [(''updated_at'', JStr (now_at e 0))]) (by_id i) db)
             (reload t i) db)"

definition patch_resource ::
  "env \<Rightarrow> tbl \<Rightarrow> string list \<Rightarrow> string \<Rightarrow> string \<Rightarrow> body \<Rightarrow> tbl database \<Rightarrow> reply" where
  "patch_resource e t cols msg i b db = (case find_live t i db of None \<Rightarrow> not_found msg db
     | Some r \<Rightarrow> save e t (collect_updates cols b) i db)"

definition tombstone :: "env \<Rightarrow> (string \<times> js) list" where
  "tombstone e = [(''deleted_at'', JStr (now_at e 0)), (''updated_at'', JStr (now_at e 0))]"

definition delete_resource :: "env \<Rightarrow> tbl \<Rightarrow> string \<Rightarrow> string \<Rightarrow> tbl database \<Rightarrow> reply" where
  "delete_resource e t msg i db = (case find_live t i db of None \<Rightarrow> not_found msg db
     | Some r \<Rightarrow> finish 200 (run_update e t (tombstone e) (by_id i) db) (\<lambda>_. PDeleted) db)"

text \<open>\<^verbatim>\<open>UPDATE t SET deleted_at = ?, updated_at = ? WHERE c = ? AND deleted_at IS NULL\<close>\<close>

definition cascade :: "env \<Rightarrow> tbl \<Rightarrow> string \<Rightarrow> sqlval \<Rightarrow> tbl database \<Rightarrow> sqlerr + tbl database" where
  "cascade e t c v db = run_update e t (tombstone e) (\<lambda>r. r c = v \<and> is_live r) db"

section \<open>Bound columns\<close>

lemma set_cols_other: "c \<notin> fst ` set kvs \<Longrightarrow> set_cols kvs r c = r c"
  by (induction kvs arbitrary: r) (auto simp: set_cols_def)

lemma set_cols_Nil [simp]: "set_cols [] r = r"
  by (simp add: set_cols_def)

lemma set_cols_Cons [simp]: "set_cols ((c, v) # kvs) r = set_cols kvs (r(c := v))"
  by (simp add: set_cols_def)

lemma set_cols_append: "set_cols (xs @ ys) r = set_cols ys (set_cols xs r)"
  by (simp add: set_cols_def)

lemma set_cols_map_of:
  "distinct (map fst kvs) \<Longrightarrow> set_cols kvs r c = (case map_of kvs c of None \<Rightarrow> r c | Some v \<Rightarrow> v)"
proof (induction kvs arbitrary: r)
  case (Cons kv kvs)
  obtain k v where kv: "kv = (k, v)" by (cases kv)
  show ?case
  proof (cases "k = c")
    case True
    then have "c \<notin> fst ` set kvs" using Cons.prems kv by simp
    with True show ?thesis by (simp add: kv set_cols_other)
  next
    case False
    with Cons show ?thesis by (simp add: kv split: option.splits)
  qed
qed simp

lemma bind_all_keys: "bind_all e kvs = Some vs \<Longrightarrow> map fst vs = map fst kvs"
  by (induction kvs arbitrary: vs rule: bind_all.induct) (auto split: option.splits)

lemma bind_all_dom: "bind_all e kvs = Some vs \<Longrightarrow> fst ` set vs = fst ` set kvs"
  by (metis bind_all_keys list.set_map)

lemma bind_all_append:
  "bind_all e (xs @ ys) = (case bind_all e xs of None \<Rightarrow> None
     | Some vs \<Rightarrow> map_option ((@) vs) (bind_all e ys))"
proof (induction e xs rule: bind_all.induct)
  case (1 e)
  show ?case by (cases "bind_all e ys") simp_all
next
  case (2 e c v kvs)
  then show ?case
    by (cases "bind_all e ys") (auto split: option.splits)
qed

lemma bind_all_map_of:
  "bind_all e kvs = Some vs \<Longrightarrow> map_of kvs c = Some v \<Longrightarrow>
     \<exists>x. map_of vs c = Some x \<and> bind_param e v = Some x"
  by (induction kvs arbitrary: vs rule: bind_all.induct) (auto split: option.splits if_splits)

lemma run_update_Inr:
  assumes "run_update e t kvs P db = Inr db'"
  obtains vs where "bind_all e kvs = Some vs" "sql_update gw t P (set_cols vs) db = Inr db'"
  using assms by (auto simp: run_update_def split: option.splits)

lemma run_insert_Inr:
  assumes "run_insert e t kvs db = Inr db'"
  obtains vs where "bind_all e kvs = Some vs" "sql_insert gw t vs db = Inr db'"
  using assms by (auto simp: run_insert_def split: option.splits)


section \<open>How a handler may change the database\<close>

text \<open>
  A task's \<^verbatim>\<open>completed_at\<close> is only set while its status is \<^verbatim>\<open>done\<close>.
\<close>

definition completed_ok :: "row \<Rightarrow> bool" where
  "completed_ok r \<longleftrightarrow> r ''completed_at'' = Null \<or> r ''status'' = Text ''done''"

text \<open>
  The evolution of one row: the key, row number and creation time are fixed, a deletion mark is
  final, and a task keeps \<open>completed_ok\<close>.
\<close>

definition gw_step :: "tbl \<Rightarrow> row \<Rightarrow> row \<Rightarrow> bool" where
  "gw_step t r r' \<longleftrightarrow> r' ''id'' = r ''id'' \<and> r' ''rowid'' = r ''rowid'' \<and>
     r' ''created_at'' = r ''created_at'' \<and>
     (\<not> is_live r \<longrightarrow> r' ''deleted_at'' = r ''deleted_at'') \<and>
     (t = Tasks \<longrightarrow> completed_ok r \<longrightarrow> completed_ok r')"

definition gw_new :: "tbl \<Rightarrow> row \<Rightarrow> bool" where
  "gw_new t r \<longleftrightarrow> (t = Tasks \<longrightarrow> completed_ok r)"

abbreviation evo :: "tbl database \<Rightarrow> tbl database \<Rightarrow> bool" where
  "evo db db' \<equiv> evolves gw gw_step gw_new db db'"

interpretation gwd: row_discipline gw gw_step gw_new
  by unfold_locales (auto simp: gw_step_def gw_new_def is_live_def)

text \<open>The columns no statement but INSERT may write.\<close>

definition fixed_cols :: "string set" where
  "fixed_cols = {''id'', ''rowid'', ''created_at''}"

lemma fixed_not_written:
  assumes "fixed_cols \<inter> fst ` set vs = {}" and "c \<in> fixed_cols"
  shows "set_cols vs r c = r c"
  by (rule set_cols_other) (use assms in blast)

lemma same_key_same_row:
  assumes "db_ok gw db" and "r \<in> set (tab db t)" and "r' \<in> set (tab db t)"
    and "r ''id'' = r' ''id''"
  shows "r = r'"
proof (rule distinct_map_inj_at [where f = "\<lambda>r. r ''id''"])
  show "distinct (map (\<lambda>r. r ''id'') (tab db t))"
    using assms(1) by (simp add: db_ok_def table_ok_def uniq_ok_def ids_def)
qed (use assms in auto)

lemma find_row_Some:
  "find_row t P db = Some r \<Longrightarrow> r \<in> set (tab db t) \<and> P r"
  by (auto simp: find_row_def find_Some_iff)

lemma find_live_by_id:
  assumes "db_ok gw db" and "find_live t i db = Some r0" and "r \<in> set (tab db t)" and "by_id i r"
  shows "r = r0" and "is_live r"
proof -
  have "r0 \<in> set (tab db t)" "by_id i r0" "is_live r0"
    using find_row_Some [of t _ db r0] assms(2) by (auto simp: find_live_def)
  moreover from this show "r = r0"
    using assms by (intro same_key_same_row) (auto simp: by_id_def)
  ultimately show "is_live r" by simp
qed

text \<open>An UPDATE that writes neither a fixed column nor, in the tasks table, the status fields.\<close>

lemma run_update_evo:
  assumes upd: "run_update e t kvs P db = Inr db'"
    and fixed: "fixed_cols \<inter> fst ` set kvs = {}"
    and live: "''deleted_at'' \<in> fst ` set kvs \<Longrightarrow> db_ok gw db \<Longrightarrow>
      \<forall>r \<in> set (tab db t). P r \<longrightarrow> is_live r"
    and status: "t = Tasks \<Longrightarrow> {''status'', ''completed_at''} \<inter> fst ` set kvs = {}"
  shows "evo db db'"
proof -
  obtain vs where vs: "bind_all e kvs = Some vs"
    and db': "sql_update gw t P (set_cols vs) db = Inr db'"
    using upd by (rule run_update_Inr)
  have keys: "fst ` set vs = fst ` set kvs"
    using bind_all_keys [OF vs] by (metis list.set_map)
  show ?thesis
    using db'
  proof (rule gwd.update_evolves)
    fix r
    assume ok: "db_ok gw db" and r: "r \<in> set (tab db t)" "P r"
    have "set_cols vs r c = r c" if "c \<in> fixed_cols" for c
      using fixed that unfolding keys [symmetric] by (rule fixed_not_written)
    moreover have "set_cols vs r ''deleted_at'' = r ''deleted_at''" if "\<not> is_live r"
      by (rule set_cols_other) (use live ok r that keys in blast)
    moreover have "completed_ok (set_cols vs r) = completed_ok r" if "t = Tasks"
      using status [OF that] by (simp add: completed_ok_def set_cols_other keys)
    ultimately show "gw_step t r (set_cols vs r)"
      by (simp add: gw_step_def fixed_cols_def)
  qed
qed

lemma finish_evo:
  assumes "\<And>db'. m = Inr db' \<Longrightarrow> evo db db'"
  shows "evo db (snd (finish c m body db))"
  using assms by (cases m) (simp_all add: finish_def gwd.evolves_refl)

lemma replies_evo [simp, evolve]:
  "evo db db" "evo db (snd (bad_request msg db))" "evo db (snd (not_found msg db))"
  by (simp_all add: gwd.evolves_refl bad_request_def not_found_def)

lemma list_resource_same [simp]: "snd (list_resource t cs keys q db) = db"
  by (simp add: list_resource_def)

lemma get_resource_same [simp]: "snd (get_resource t msg i db) = db"
  by (simp add: get_resource_def not_found_def split: option.splits)

lemma run_insert_evo:
  assumes "run_insert e t kvs db = Inr db'"
    and "t = Tasks \<Longrightarrow> ''completed_at'' \<notin> fst ` set kvs"
  shows "evo db db'"
proof -
  obtain vs where vs: "bind_all e kvs = Some vs" and db': "sql_insert gw t vs db = Inr db'"
    using assms(1) by (rule run_insert_Inr)
  show ?thesis using db'
  proof (rule gwd.insert_evolves)
    have "map_of vs ''completed_at'' = None" if "t = Tasks"
      using assms(2) [OF that] bind_all_keys [OF vs] by (metis list.set_map map_of_eq_None_iff)
    then show "gw_new t (new_row (gw t) vs (tab db t))"
      by (auto simp: gw_new_def completed_ok_def new_row_def column_default_def schema_defs)
  qed
qed

lemma create_evo [evolve]:
  "(t = Tasks \<Longrightarrow> ''completed_at'' \<notin> fst ` set kvs) \<Longrightarrow> evo db (snd (create e t i kvs db))"
  unfolding create_def by (rule finish_evo) (rule run_insert_evo)

lemma collect_updates_keys: "fst ` set (collect_updates cols b) \<subseteq> set cols"
  by (auto simp: collect_updates_def)

lemma save_evo:
  assumes "fixed_cols \<inter> fst ` set updates = {}" and "''deleted_at'' \<notin> fst ` set updates"
    and "t = Tasks \<Longrightarrow> {''status'', ''completed_at''} \<inter> fst ` set updates = {}"
  shows "evo db (snd (save e t updates i db))"
proof (cases "updates = []")
  case False
  show ?thesis unfolding save_def if_not_P [OF False]
    by (rule finish_evo, erule run_update_evo) (use assms in \<open>auto simp: fixed_cols_def\<close>)
qed (simp add: save_def)

lemma delete_evo [evolve]: "evo db (snd (delete_resource e t msg i db))"
proof (cases "find_live t i db")
  case (Some r)
  then show ?thesis
    unfolding delete_resource_def Some option.case
    by (intro finish_evo, elim run_update_evo)
      (auto simp: tombstone_def fixed_cols_def dest: find_live_by_id(2) [OF _ Some])
qed (simp add: delete_resource_def)

lemma cascade_evo [evolve]: "cascade e t c v db = Inr db' \<Longrightarrow> evo db db'"
  unfolding cascade_def
  by (erule run_update_evo) (auto simp: tombstone_def fixed_cols_def)

end
