(* ===== verification/Resource.thy ===== *)
theory Resource
  imports Http
begin

text \<open>
  The contract every REST router of the server keeps, proved once: a refused request changes
  nothing, POST then GET returns the created row, PATCH changes exactly the given fields of one
  row, DELETE hides the row for good.  The locale \<open>resource\<close> is the part of the contract that
  depends on a router's table and writable columns; each router interprets it.
\<close>

section \<open>Refused requests\<close>

text \<open>A reply with an error code leaves the database alone.\<close>

definition refusal_clean :: "reply \<Rightarrow> tbl database \<Rightarrow> bool" where
  "refusal_clean rep db \<longleftrightarrow> (400 \<le> code (fst rep) \<longrightarrow> snd rep = db)"

named_theorems refusal "shapes of handlers whose refusals change nothing"

lemma refusal_same: "snd rep = db \<Longrightarrow> refusal_clean rep db"
  by (simp add: refusal_clean_def)

lemma refusal_reply [simp, refusal]: "refusal_clean (Resp c p, db) db"
  by (simp add: refusal_clean_def)

lemma refusal_reads [simp, refusal]:
  "refusal_clean (list_resource t cs keys q db) db" "refusal_clean (get_resource t msg i db) db"
  by (simp_all add: refusal_same)

lemma refusal_bad [simp, refusal]:
  "refusal_clean (bad_request msg db) db" "refusal_clean (not_found msg db) db"
  by (simp_all add: refusal_clean_def bad_request_def not_found_def)

lemma refusal_finish [simp, refusal]: "c < 400 \<Longrightarrow> refusal_clean (finish c m body db) db"
  by (cases m) (simp_all add: refusal_clean_def finish_def)

lemma refusal_create [simp, refusal]: "refusal_clean (create e t i kvs db) db"
  by (simp add: create_def)

lemma refusal_save [simp, refusal]: "refusal_clean (save e t updates i db) db"
  by (simp add: save_def)

lemma refusal_patch [simp, refusal]: "refusal_clean (patch_resource e t cols msg i b db) db"
  by (simp add: patch_resource_def split: option.splits)

lemma refusal_delete [simp, refusal]: "refusal_clean (delete_resource e t msg i db) db"
  by (simp add: delete_resource_def split: option.splits)

section \<open>Footprints\<close>

text \<open>A handler writes rows and index entries of the tables in \<open>T\<close> only.\<close>

definition writes_only :: "tbl set \<Rightarrow> tbl database \<Rightarrow> tbl database \<Rightarrow> bool" where
  "writes_only T db db' \<longleftrightarrow> (\<forall>u. u \<notin> T \<longrightarrow> tab db' u = tab db u \<and> fts db' u = fts db u)"

interpretation writes: step_preorder "writes_only T" for T
  by unfold_locales (simp_all add: writes_only_def)

named_theorems footprint "which tables a handler or a statement writes"

lemma writes_mono: "writes_only T db db' \<Longrightarrow> T \<subseteq> T' \<Longrightarrow> writes_only T' db db'"
  by (auto simp: writes_only_def)

lemma writes_refl [simp]: "writes_only T db db"
  by (rule writes.refl)

lemma run_insert_writes [footprint]: "run_insert e t kvs db = Inr db' \<Longrightarrow> t \<in> T \<Longrightarrow> writes_only T db db'"
  by (elim run_insert_Inr) (auto simp: writes_only_def sql_insert_def Let_def dest: put_rows_Inr(1) split: sum.splits)

lemma run_update_writes [footprint]: "run_update e t kvs P db = Inr db' \<Longrightarrow> t \<in> T \<Longrightarrow> writes_only T db db'"
  by (elim run_update_Inr) (auto simp: writes_only_def sql_update_def Let_def dest: put_rows_Inr(1) split: sum.splits)

lemma finish_writes:
  "(\<And>db'. m = Inr db' \<Longrightarrow> writes_only T db db') \<Longrightarrow> writes_only T db (snd (finish c m body db))"
  by (cases m) (simp_all add: finish_def)

lemma shape_writes [simp]:
  "writes_only T db (snd (bad_request msg db))"
  "writes_only T db (snd (not_found msg db))"
  "t \<in> T \<Longrightarrow> writes_only T db (snd (create e t i kvs db))"
  "t \<in> T \<Longrightarrow> writes_only T db (snd (save e t updates i db))"
  "t \<in> T \<Longrightarrow> writes_only T db (snd (delete_resource e t msg i db))"
  by (auto simp: bad_request_def not_found_def create_def save_def delete_resource_def
      intro: finish_writes run_insert_writes run_update_writes split: option.split)

lemma patch_writes [simp]: "t \<in> T \<Longrightarrow> writes_only T db (snd (patch_resource e t cols msg i b db))"
  by (simp add: patch_resource_def split: option.split)

section \<open>What statements leave in a table\<close>

lemma run_insert_tab:
  assumes "run_insert e t kvs db = Inr db'"
  obtains vs where "bind_all e kvs = Some vs"
    and "tab db' = (tab db)(t := tab db t @ [new_row (gw t) vs (tab db t)])"
  using assms by (elim run_insert_Inr) (simp add: sql_insert_tab)

lemma run_update_tab:
  assumes "run_update e t kvs P db = Inr db'"
  obtains vs where "bind_all e kvs = Some vs"
    and "tab db' = (tab db)(t := map (\<lambda>r. if P r then set_cols vs r else r) (tab db t))"
  using assms by (elim run_update_Inr) (simp add: sql_update_tab)

lemma run_insert_db_ok: "run_insert e t kvs db = Inr db' \<Longrightarrow> db_ok gw db \<Longrightarrow> db_ok gw db'"
  by (elim run_insert_Inr) (rule sql_insert_ok)

lemma run_update_db_ok: "run_update e t kvs P db = Inr db' \<Longrightarrow> db_ok gw db \<Longrightarrow> db_ok gw db'"
  by (elim run_update_Inr) (rule sql_update_ok)

lemma distinct_ids: "db_ok gw db \<Longrightarrow> distinct (map (\<lambda>r. r ''id'') (tab db t))"
  by (simp add: db_ok_def table_ok_def uniq_ok_def ids_def)

lemma find_by_id:
  assumes "db_ok gw db" and "r \<in> set (tab db t)" and "by_id i r"
  shows "find_row t (by_id i) db = Some r"
  using find_distinct [OF distinct_ids [OF assms(1)] assms(2), of "Text i"] assms(3)
  by (simp add: find_row_def by_id_def [abs_def])

lemma find_row_eqI:
  assumes "db_ok gw db" and "r \<in> set (tab db t)" and "P r" and "\<And>r'. P r' \<Longrightarrow> by_id i r'"
  shows "find_row t P db = Some r"
proof (cases "find_row t P db")
  case None
  then show ?thesis using assms(2,3) by (auto simp: find_row_def find_None_iff)
next
  case (Some r')
  then have "r' \<in> set (tab db t)" "P r'" using find_row_Some by blast+
  moreover from this have "by_id i r'" "by_id i r" using assms(3,4) by blast+
  ultimately have "r' = r"
    using assms(2) by (intro same_key_same_row [OF assms(1)]) (auto simp: by_id_def)
  with Some show ?thesis by simp
qed

lemma new_row_col:
  "c \<noteq> ''rowid'' \<Longrightarrow> map_of vs c = Some v \<Longrightarrow> new_row s vs rows c = v"
  "c \<noteq> ''rowid'' \<Longrightarrow> c \<notin> fst ` set vs \<Longrightarrow> new_row s vs rows c = column_default s c"
proof -
  show "c \<noteq> ''rowid'' \<Longrightarrow> map_of vs c = Some v \<Longrightarrow> new_row s vs rows c = v"
    by (simp add: new_row_def)
  assume "c \<noteq> ''rowid''" and "c \<notin> fst ` set vs"
  moreover from this have "map_of vs c = None" by (simp add: map_of_eq_None_iff)
  ultimately show "new_row s vs rows c = column_default s c" by (simp add: new_row_def)
qed

lemma default_deleted_at [simp]: "column_default (gw t) ''deleted_at'' = Null"
  by (cases t) (simp_all add: column_default_def schema_defs)

section \<open>POST then GET\<close>

lemma create_then_get:
  assumes ok: "db_ok gw db" and e: "driver_ok e"
    and cr: "create e t i ((''id'', JStr i) # kvs) db = (Resp 201 p, db')"
    and live: "''deleted_at'' \<notin> fst ` set kvs"
  shows "get_resource t msg i db' = (Resp 200 p, db')"
proof -
  have ins: "run_insert e t ((''id'', JStr i) # kvs) db = Inr db'" and p: "p = reload t i db'"
    using cr by (auto simp: create_def finish_def split: sum.splits)
  obtain vs where vs: "bind_all e ((''id'', JStr i) # kvs) = Some vs"
    and tab: "tab db' = (tab db)(t := tab db t @ [new_row (gw t) vs (tab db t)])"
    using ins by (rule run_insert_tab)
  let ?r = "new_row (gw t) vs (tab db t)"
  have "map_of vs ''id'' = Some (Text i)"
    using vs e by (auto simp: driver_ok_def split: option.splits)
  then have id: "by_id i ?r" by (simp add: by_id_def new_row_col)
  have "''deleted_at'' \<notin> fst ` set vs" using bind_all_dom [OF vs] live by simp
  then have "is_live ?r" by (simp add: is_live_def new_row_col)
  with id have "find_live t i db' = Some ?r" and "find_row t (by_id i) db' = Some ?r"
    using run_insert_db_ok [OF ins ok]
    by (auto simp: find_live_def tab intro!: find_row_eqI [where i = i])
  then show ?thesis by (simp add: get_resource_def p reload_def)
qed

section \<open>DELETE then GET\<close>

lemma tombstone_not_live:
  assumes "driver_ok e" and "bind_all e (tombstone e) = Some vs"
  shows "\<not> is_live (set_cols vs r)"
  using assms by (auto simp: tombstone_def driver_ok_def is_live_def)

lemma find_live_None_iff:
  "find_live t i db = None \<longleftrightarrow> (\<forall>r \<in> set (tab db t). by_id i r \<longrightarrow> \<not> is_live r)"
  by (auto simp: find_live_def find_row_def find_None_iff)

lemma tombstone_find_live:
  assumes "driver_ok e" and "run_update e t (tombstone e) (by_id i) db = Inr db'"
  shows "find_live t i db' = None"
  using assms(2)
proof (rule run_update_tab)
  fix vs
  assume vs: "bind_all e (tombstone e) = Some vs"
    and "tab db' = (tab db)(t := map (\<lambda>r. if by_id i r then set_cols vs r else r) (tab db t))"
  then show ?thesis
    using tombstone_not_live [OF assms(1) vs] by (auto simp: find_live_None_iff)
qed

lemma delete_then_get:
  assumes "driver_ok e" and "delete_resource e t msg i db = (Resp 200 p, db')"
  shows "get_resource t msg' i db' = not_found msg' db'"
proof -
  obtain r where "find_live t i db = Some r" "run_update e t (tombstone e) (by_id i) db = Inr db'"
    using assms(2)
    by (auto simp: delete_resource_def not_found_def finish_def split: option.splits sum.splits)
  then show ?thesis
    using tombstone_find_live [OF assms(1)] by (simp add: get_resource_def)
qed

section \<open>PATCH\<close>

text \<open>What a successful PATCH makes of the addressed row.\<close>

definition patched :: "env \<Rightarrow> string list \<Rightarrow> body \<Rightarrow> row \<Rightarrow> row" where
  "patched e cols b r = (\<lambda>c. if c \<in> set cols \<and> b c \<noteq> Undefined then the (bind_param e (b c))
     else if c = ''updated_at'' then Text (now_at e 0) else r c)"

lemma map_of_collect_updates:
  "map_of (collect_updates cols b) c = (if c \<in> set cols \<and> b c \<noteq> Undefined then Some (b c) else None)"
  by (induction cols) (auto simp: collect_updates_def)

lemma distinct_collect_updates:
  "distinct cols \<Longrightarrow> distinct (map fst (collect_updates cols b))"
  by (simp add: collect_updates_def comp_def)

lemma save_tab:
  assumes "save e t updates i db = (Resp 200 p, db')"
  obtains vs where "bind_all e (updates @ [(''updated_at'', JStr (now_at e 0))]) = Some vs"
    and "tab db' = (tab db)(t := map (\<lambda>r. if by_id i r then set_cols vs r else r) (tab db t))"
proof -
  have "run_update e t (updates @ [(''updated_at'', JStr (now_at e 0))]) (by_id i) db = Inr db'"
    using assms by (auto simp: save_def bad_request_def finish_def split: if_splits sum.splits)
  then show thesis by (rule run_update_tab) (rule that)
qed

lemma bind_all_map_of_None: "bind_all e kvs = Some vs \<Longrightarrow> map_of kvs c = None \<Longrightarrow> map_of vs c = None"
  by (metis bind_all_dom map_of_eq_None_iff)

lemma set_cols_patched:
  assumes vs: "bind_all e (collect_updates cols b @ [(''updated_at'', JStr (now_at e 0))]) = Some vs"
    and cols: "distinct cols" "''updated_at'' \<notin> set cols" and e: "driver_ok e"
  shows "set_cols vs r = patched e cols b r"
proof
  fix c
  let ?kvs = "collect_updates cols b @ [(''updated_at'', JStr (now_at e 0))]"
  have "''updated_at'' \<notin> fst ` set (collect_updates cols b)"
    using collect_updates_keys [of cols b] cols(2) by blast
  then have "distinct (map fst vs)"
    unfolding bind_all_keys [OF vs] using distinct_collect_updates [OF cols(1)] by simp
  then have set: "set_cols vs r c = (case map_of vs c of None \<Rightarrow> r c | Some v \<Rightarrow> v)"
    by (rule set_cols_map_of)
  have kvs: "map_of ?kvs c = (if c \<in> set cols \<and> b c \<noteq> Undefined then Some (b c)
      else if c = ''updated_at'' then Some (JStr (now_at e 0)) else None)"
    by (auto simp: map_add_def map_of_collect_updates cols(2))
  show "set_cols vs r c = patched e cols b r c"
  proof (cases "map_of ?kvs c")
    case None
    then have "map_of vs c = None" using vs by (rule bind_all_map_of_None [rotated])
    moreover have "patched e cols b r c = r c"
      using None unfolding kvs patched_def by (auto split: if_splits)
    ultimately show ?thesis by (simp add: set)
  next
    case (Some v)
    then obtain x where x: "map_of vs c = Some x" "bind_param e v = Some x"
      using bind_all_map_of [OF vs] by blast
    have "patched e cols b r c = x"
      using Some x(2) e unfolding kvs patched_def by (auto simp: driver_ok_def split: if_splits)
    with x show ?thesis by (simp add: set)
  qed
qed

locale resource =
  fixes t :: tbl and cols :: "string list"
  assumes not_fixed: "fixed_cols \<inter> set cols = {}"
    and not_mark: "''deleted_at'' \<notin> set cols"
    and not_stamp: "''updated_at'' \<notin> set cols"
    and cols_distinct: "distinct cols"
    and not_tasks: "t \<noteq> Tasks"
begin

lemma save_evo':
  assumes "fst ` set updates \<subseteq> set cols"
  shows "evo db (snd (save e t updates i db))"
  by (rule save_evo) (use assms not_fixed not_mark not_tasks in blast)+

lemma patch_evo: "evo db (snd (patch_resource e t cols msg i b db))"
  by (simp add: patch_resource_def save_evo' collect_updates_keys split: option.split)

lemma patch_exact:
  assumes "driver_ok e" and "patch_resource e t cols msg i b db = (Resp 200 p, db')"
  shows "tab db' = (tab db)(t := map (\<lambda>r. if by_id i r then patched e cols b r else r) (tab db t))"
proof -
  have "save e t (collect_updates cols b) i db = (Resp 200 p, db')"
    using assms(2) by (auto simp: patch_resource_def not_found_def split: option.splits)
  then obtain vs
    where "bind_all e (collect_updates cols b @ [(''updated_at'', JStr (now_at e 0))]) = Some vs"
    and tab: "tab db' = (tab db)(t := map (\<lambda>r. if by_id i r then set_cols vs r else r) (tab db t))"
    by (rule save_tab)
  then have "set_cols vs = patched e cols b"
    by (intro ext set_cols_patched cols_distinct not_stamp assms(1))
  with tab show ?thesis by (simp only:)
qed

lemma patch_empty:
  assumes "\<And>c. c \<in> set cols \<Longrightarrow> b c = Undefined" and "find_live t i db \<noteq> None"
  shows "patch_resource e t cols msg i b db = bad_request ''No fields to update'' db"
proof -
  have "collect_updates cols b = []"
    using assms(1) by (simp add: collect_updates_def)
  then show ?thesis using assms(2) by (auto simp: patch_resource_def save_def)
qed

text \<open>PATCH neither deletes nor revives a row.\<close>

lemma patch_live:
  "map is_live (tab (snd (patch_resource e t cols msg i b db)) t) = map is_live (tab db t)"
proof (cases "find_live t i db")
  case (Some r)
  let ?kvs = "collect_updates cols b @ [(''updated_at'', JStr (now_at e 0))]"
  show ?thesis
  proof (cases "collect_updates cols b = [] \<or> (\<exists>err. run_update e t ?kvs (by_id i) db = Inl err)")
    case True
    then show ?thesis
      by (auto simp: patch_resource_def save_def bad_request_def finish_def Some)
  next
    case False
    then obtain db' where db': "run_update e t ?kvs (by_id i) db = Inr db'"
      by (cases "run_update e t ?kvs (by_id i) db") auto
    then obtain vs where vs: "bind_all e ?kvs = Some vs"
      and tab: "tab db' = (tab db)(t := map (\<lambda>r. if by_id i r then set_cols vs r else r) (tab db t))"
      by (rule run_update_tab)
    have "''deleted_at'' \<notin> fst ` set (collect_updates cols b)"
      using collect_updates_keys [of cols b] not_mark by blast
    then have "''deleted_at'' \<notin> fst ` set vs"
      unfolding bind_all_dom [OF vs] by simp
    then have live: "is_live (set_cols vs r) = is_live r" for r
      by (simp add: is_live_def set_cols_other)
    have "map is_live (map (\<lambda>r. if by_id i r then set_cols vs r else r) rs) = map is_live rs" for rs
      by (induction rs) (simp_all add: live)
    then have "map is_live (tab db' t) = map is_live (tab db t)"
      by (simp only: tab fun_upd_same)
    moreover have "snd (patch_resource e t cols msg i b db) = db'"
      using False by (simp add: patch_resource_def save_def finish_def Some db')
    ultimately show ?thesis by simp
  qed
qed (simp add: patch_resource_def not_found_def)

end

end
