(* ===== verification/Cascade.thy ===== *)
theory Cascade
  imports Resource
begin

text \<open>
  Soft deletes that reach other tables.  The statements of a cascade only write \<^verbatim>\<open>deleted_at\<close> of
  live rows and \<^verbatim>\<open>updated_at\<close>: this is a second instance of \<open>row_discipline\<close>, finer than the one
  of \<open>Http\<close>, and it carries "everything below is deleted" through the rest of a transaction.
\<close>

section \<open>Statements that only mark rows\<close>

definition mark_step :: "tbl \<Rightarrow> row \<Rightarrow> row \<Rightarrow> bool" where
  "mark_step t r r' \<longleftrightarrow> (\<forall>c. c \<notin> {''deleted_at'', ''updated_at''} \<longrightarrow> r' c = r c) \<and>
     (\<not> is_live r \<longrightarrow> r' ''deleted_at'' = r ''deleted_at'')"

definition no_new :: "tbl \<Rightarrow> row \<Rightarrow> bool" where
  "no_new t r \<longleftrightarrow> False"

abbreviation marks :: "tbl database \<Rightarrow> tbl database \<Rightarrow> bool" where
  "marks db db' \<equiv> evolves gw mark_step no_new db db'"

interpretation mark: row_discipline gw mark_step no_new
  by unfold_locales (auto simp: mark_step_def no_new_def is_live_def)

lemma mark_step_gw: "mark_step t r r' \<Longrightarrow> gw_step t r r'"
  by (simp add: mark_step_def gw_step_def completed_ok_def)

lemma marks_evo: "marks db db' \<Longrightarrow> evo db db'"
  by (rule evolves_mono [of gw mark_step no_new]) (simp_all add: mark_step_gw no_new_def)

lemma tombstone_marks:
  assumes upd: "run_update e t (tombstone e) P db = Inr db'"
    and live: "db_ok gw db \<Longrightarrow> \<forall>r \<in> set (tab db t). P r \<longrightarrow> is_live r"
  shows "marks db db'"
proof -
  obtain vs where vs: "bind_all e (tombstone e) = Some vs"
    and db': "sql_update gw t P (set_cols vs) db = Inr db'"
    using upd by (rule run_update_Inr)
  have "fst ` set vs = {''deleted_at'', ''updated_at''}"
    using bind_all_dom [OF vs] by (auto simp: tombstone_def)
  then show ?thesis
    using live
    by (intro mark.update_evolves [OF db']) (auto simp: mark_step_def set_cols_other)
qed

lemma cascade_marks: "cascade e t c v db = Inr db' \<Longrightarrow> marks db db'"
  unfolding cascade_def by (erule tombstone_marks) simp

section \<open>Nothing below is live\<close>

definition dead_below :: "tbl \<Rightarrow> string \<Rightarrow> sqlval \<Rightarrow> tbl database \<Rightarrow> bool" where
  "dead_below t c v db \<longleftrightarrow> (\<forall>r \<in> set (tab db t). r c = v \<longrightarrow> \<not> is_live r)"

lemma marks_rows:
  assumes "marks db db'" and "db_ok gw db"
  obtains f where "tab db' t = map f (tab db t)" and "\<forall>r \<in> set (tab db t). mark_step t r (f r)"
proof -
  obtain f new where f: "tab db' t = map f (tab db t) @ new"
    "\<forall>r \<in> set (tab db t). mark_step t r (f r)" "\<forall>r \<in> set new. no_new t r"
    using assms unfolding evolves_def by blast
  then have "new = []" by (cases new) (auto simp: no_new_def)
  with f show thesis by (intro that [of f]) simp_all
qed

lemma mark_step_dead: "mark_step t r r' \<Longrightarrow> \<not> is_live r \<Longrightarrow> \<not> is_live r'"
  by (simp add: mark_step_def is_live_def)

lemma dead_below_marks:
  assumes "dead_below t c v db" and "marks db db'" and "db_ok gw db"
    and "c \<notin> {''deleted_at'', ''updated_at''}"
  shows "dead_below t c v db'"
proof -
  obtain f where f: "tab db' t = map f (tab db t)" "\<forall>r \<in> set (tab db t). mark_step t r (f r)"
    using assms(2,3) by (rule marks_rows)
  have "\<not> is_live (f r)" if "r \<in> set (tab db t)" "f r c = v" for r
  proof -
    have step: "mark_step t r (f r)" using f(2) that(1) by blast
    then have "r c = v" using that(2) assms(4) by (simp add: mark_step_def)
    then have "\<not> is_live r" using assms(1) that(1) by (simp add: dead_below_def)
    with step show ?thesis by (rule mark_step_dead)
  qed
  then show ?thesis by (auto simp: dead_below_def f(1))
qed

lemma cascade_dead:
  assumes e: "driver_ok e" and c: "cascade e t c v db = Inr db'"
    and col: "c \<notin> {''deleted_at'', ''updated_at''}"
  shows "dead_below t c v db'"
  using c unfolding cascade_def
proof (rule run_update_tab)
  fix vs
  assume vs: "bind_all e (tombstone e) = Some vs"
    and tab: "tab db' =
      (tab db)(t := map (\<lambda>r. if r c = v \<and> is_live r then set_cols vs r else r) (tab db t))"
  show ?thesis
    using tombstone_not_live [OF e vs] by (auto simp: dead_below_def tab)
qed

lemma marks_db_ok: "marks db db' \<Longrightarrow> db_ok gw db \<Longrightarrow> db_ok gw db'"
  by (rule mark.evolves_db_ok)

lemma cascades_marks: "foldE (cascade e t c) vs db = Inr db' \<Longrightarrow> marks db db'"
  by (erule mark.foldE_rel) (rule cascade_marks)

lemma cascades_dead:
  assumes "foldE (cascade e t c) vs db = Inr db'" and "db_ok gw db" and "driver_ok e"
    and "c \<notin> {''deleted_at'', ''updated_at''}" and "v \<in> set vs"
  shows "dead_below t c v db'"
  using assms
proof (induction vs arbitrary: db)
  case (Cons x xs)
  obtain db1 where db1: "cascade e t c x db = Inr db1" "foldE (cascade e t c) xs db1 = Inr db'"
    using Cons.prems(1) by auto
  have ok: "db_ok gw db1" using cascade_marks [OF db1(1)] Cons.prems(2) by (rule marks_db_ok)
  show ?case
  proof (cases "v = x")
    case True
    have "dead_below t c v db1"
      using cascade_dead [OF Cons.prems(3) db1(1) Cons.prems(4)] True by simp
    then show ?thesis
      using cascades_marks [OF db1(2)] ok Cons.prems(4) by (rule dead_below_marks)
  next
    case False
    then show ?thesis
      using Cons.IH [OF db1(2) ok Cons.prems(3,4)] Cons.prems(5) by simp
  qed
qed simp

section \<open>Tables a cascade does not touch\<close>

interpretation same: step_preorder "\<lambda>db db'. tab db' u = tab db u" for u
  by unfold_locales simp_all

lemma run_update_same: "run_update e t kvs P db = Inr db' \<Longrightarrow> u \<noteq> t \<Longrightarrow> tab db' u = tab db u"
  by (erule run_update_tab) simp

lemma cascade_same: "cascade e t c v db = Inr db' \<Longrightarrow> u \<noteq> t \<Longrightarrow> tab db' u = tab db u"
  unfolding cascade_def by (rule run_update_same)

lemma cascades_same: "foldE (cascade e t c) vs db = Inr db' \<Longrightarrow> u \<noteq> t \<Longrightarrow> tab db' u = tab db u"
  by (erule same.foldE_rel) (rule cascade_same)

lemma cascade_writes: "cascade e t c v db = Inr db' \<Longrightarrow> t \<in> T \<Longrightarrow> writes_only T db db'"
  unfolding cascade_def by (rule run_update_writes)

lemma cascades_writes: "foldE (cascade e t c) vs db = Inr db' \<Longrightarrow> t \<in> T \<Longrightarrow> writes_only T db db'"
  by (erule writes.foldE_rel) (rule cascade_writes)

end
