(* ===== verification/Catalog.thy ===== *)
theory Catalog
  imports Cascade
begin

text \<open>
  The routers \<^verbatim>\<open>routes/domains.ts\<close> and \<^verbatim>\<open>routes/projects.ts\<close>: a two-level catalogue whose
  deletes cascade, in one transaction, to projects, tasks, materials and attachments.
\<close>

section \<open>The cascade below a project\<close>

text \<open>\<^verbatim>\<open>SELECT id FROM t WHERE project_id = ? AND deleted_at IS NULL\<close>\<close>

definition live_child_ids :: "tbl \<Rightarrow> string \<Rightarrow> sqlval \<Rightarrow> tbl database \<Rightarrow> sqlval list" where
  "live_child_ids t c v db = ids (sql_select t (\<lambda>r. r c = v \<and> is_live r) db)"

text \<open>
  The statements that \<^verbatim>\<open>DELETE /api/projects/:id\<close> and the loop of \<^verbatim>\<open>DELETE /api/domains/:id\<close>
  both run after marking the project itself; the identifiers are read before each UPDATE.
\<close>

definition cascade_project :: "env \<Rightarrow> sqlval \<Rightarrow> tbl database \<Rightarrow> sqlerr + tbl database" where
  "cascade_project e p db =
     (let task_ids = live_child_ids Tasks ''project_id'' p db in
      bindE (cascade e Tasks ''project_id'' p db) (\<lambda>db1.
      let material_ids = live_child_ids Materials ''project_id'' p db1 in
      bindE (cascade e Materials ''project_id'' p db1) (\<lambda>db2.
      bindE (foldE (cascade e Attachments ''task_id'') task_ids db2) (\<lambda>db3.
      bindE (cascade e Attachments ''project_id'' p db3) (\<lambda>db4.
      foldE (cascade e Attachments ''material_id'') material_ids db4)))))"

section \<open>Domains\<close>

definition get_domains :: "query \<Rightarrow> tbl database \<Rightarrow> reply" where
  "get_domains q db = list_resource Domains [] [''sort_order''] q db"

definition post_domain :: "env \<Rightarrow> body \<Rightarrow> tbl database \<Rightarrow> reply" where
  "post_domain e b db =
     (if \<not> truthy (b ''name'') \<or> \<not> truthy (b ''color'')
      then bad_request ''name and color are required'' db
      else let i = gen_id e 0; ts = JStr (now_at e 0); so = nullish (b ''sort_order'') (JNum 0) in
        create e Domains i
          [(''id'', JStr i), (''name'', b ''name''), (''color'', b ''color''),
           (''icon'', nullish (b ''icon'') JNull), (''sort_order'', so),
           (''created_at'', ts), (''updated_at'', ts)] db)"

definition get_domain :: "string \<Rightarrow> tbl database \<Rightarrow> reply" where
  "get_domain i db = get_resource Domains ''Domain not found'' i db"

definition domain_fields :: "string list" where
  "domain_fields = [''name'', ''color'', ''icon'', ''sort_order'']"

definition patch_domain :: "env \<Rightarrow> string \<Rightarrow> body \<Rightarrow> tbl database \<Rightarrow> reply" where
  "patch_domain e i b db = patch_resource e Domains domain_fields ''Domain not found'' i b db"

definition count_live :: "tbl \<Rightarrow> (row \<Rightarrow> bool) \<Rightarrow> tbl database \<Rightarrow> nat" where
  "count_live t P db = length (sql_select t (\<lambda>r. is_live r \<and> P r) db)"

text \<open>One round of the \<^verbatim>\<open>for (const project of projects)\<close> loop.\<close>

definition delete_project_of_domain :: "env \<Rightarrow> sqlval \<Rightarrow> tbl database \<Rightarrow> sqlerr + tbl database" where
  "delete_project_of_domain e p db =
     bindE (run_update e Projects (tombstone e) (\<lambda>r. r ''id'' = p) db) (cascade_project e p)"

definition soft_delete_domain :: "env \<Rightarrow> string \<Rightarrow> tbl database \<Rightarrow> sqlerr + tbl database" where
  "soft_delete_domain e i db =
     bindE (run_update e Domains (tombstone e) (by_id i) db) (\<lambda>db1.
     foldE (delete_project_of_domain e) (live_child_ids Projects ''domain_id'' (Text i) db1) db1)"

definition delete_domain :: "env \<Rightarrow> string \<Rightarrow> tbl database \<Rightarrow> reply" where
  "delete_domain e i db = (case find_live Domains i db of
       None \<Rightarrow> not_found ''Domain not found'' db
     | Some r \<Rightarrow>
         if count_live Domains (\<lambda>_. True) db \<le> 1
         then bad_request ''Cannot delete the last domain. At least one domain must exist.'' db
         else finish 200 (soft_delete_domain e i db) (\<lambda>_. PDeleted) db)"

section \<open>Projects\<close>

definition get_projects :: "query \<Rightarrow> tbl database \<Rightarrow> reply" where
  "get_projects q db = list_resource Projects [''domain_id'', ''status''] [''sort_order''] q db"

text \<open>\<^verbatim>\<open>SELECT id FROM t WHERE id = ? AND deleted_at IS NULL\<close> with a bound body value.\<close>

definition live_ref :: "env \<Rightarrow> tbl \<Rightarrow> js \<Rightarrow> tbl database \<Rightarrow> sqlerr + row option" where
  "live_ref e t v db = (case bind_param e v of None \<Rightarrow> Inl BindError
     | Some x \<Rightarrow> Inr (find_row t (\<lambda>r. x \<noteq> Null \<and> r ''id'' = x \<and> is_live r) db))"

definition post_project :: "env \<Rightarrow> body \<Rightarrow> tbl database \<Rightarrow> reply" where
  "post_project e b db =
     (if \<not> truthy (b ''domain_id'') \<or> \<not> truthy (b ''name'')
      then bad_request ''domain_id and name are required'' db
      else case live_ref e Domains (b ''domain_id'') db of
        Inl err \<Rightarrow> (Resp 500 (PException err), db)
      | Inr None \<Rightarrow> bad_request ''Domain not found'' db
      | Inr (Some d) \<Rightarrow>
        let i = gen_id e 0; ts = JStr (now_at e 0) in
        create e Projects i
          [(''id'', JStr i), (''domain_id'', b ''domain_id''), (''name'', b ''name''),
           (''description'', nullish (b ''description'') JNull),
           (''status'', nullish (b ''status'') (JStr ''active'')),
           (''default_view'', nullish (b ''default_view'') (JStr ''list'')),
           (''deadline'', nullish (b ''deadline'') JNull),
           (''sort_order'', nullish (b ''sort_order'') (JNum 0)),
           (''created_at'', ts), (''updated_at'', ts)] db)"

definition get_project :: "string \<Rightarrow> tbl database \<Rightarrow> reply" where
  "get_project i db = get_resource Projects ''Project not found'' i db"

definition project_fields :: "string list" where
  "project_fields = [''domain_id'', ''name'', ''description'', ''status'', ''default_view'',
     ''last_touched_at'', ''last_context_note'', ''deadline'', ''sort_order'']"

definition patch_project :: "env \<Rightarrow> string \<Rightarrow> body \<Rightarrow> tbl database \<Rightarrow> reply" where
  "patch_project e i b db = patch_resource e Projects project_fields ''Project not found'' i b db"

definition soft_delete_project :: "env \<Rightarrow> string \<Rightarrow> tbl database \<Rightarrow> sqlerr + tbl database" where
  "soft_delete_project e i db =
     bindE (run_update e Projects (tombstone e) (by_id i) db) (cascade_project e (Text i))"

definition delete_project :: "env \<Rightarrow> string \<Rightarrow> tbl database \<Rightarrow> reply" where
  "delete_project e i db = (case find_live Projects i db of
       None \<Rightarrow> not_found ''Project not found'' db
     | Some r \<Rightarrow> finish 200 (soft_delete_project e i db) (\<lambda>_. PDeleted) db)"

section \<open>Contracts\<close>

interpretation domains: resource Domains domain_fields
  by unfold_locales (auto simp: domain_fields_def fixed_cols_def)

interpretation projects: resource Projects project_fields
  by unfold_locales (auto simp: project_fields_def fixed_cols_def)

lemmas catalog_defs = get_domains_def post_domain_def get_domain_def patch_domain_def
  get_projects_def post_project_def get_project_def patch_project_def

lemma catalog_evo [evolve]:
  "evo db (snd (get_domains q db))"
  "evo db (snd (post_domain e b db))"
  "evo db (snd (get_domain i db))"
  "evo db (snd (patch_domain e i b db))"
  "evo db (snd (get_projects q db))"
  "evo db (snd (post_project e b db))"
  "evo db (snd (get_project i db))"
  "evo db (snd (patch_project e i b db))"
  by (simp_all add: catalog_defs domains.patch_evo projects.patch_evo create_evo Let_def
      split: sum.split option.split)

lemma catalog_refusal [refusal]:
  "refusal_clean (get_domains q db) db"
  "refusal_clean (post_domain e b db) db"
  "refusal_clean (get_domain i db) db"
  "refusal_clean (patch_domain e i b db) db"
  "refusal_clean (get_projects q db) db"
  "refusal_clean (post_project e b db) db"
  "refusal_clean (get_project i db) db"
  "refusal_clean (patch_project e i b db) db"
  "refusal_clean (delete_domain e i db) db"
  "refusal_clean (delete_project e i db) db"
  by (simp_all add: catalog_defs delete_domain_def delete_project_def Let_def
      split: sum.split option.split)

section \<open>What a cascade leaves below a project\<close>

lemma cascade_project_steps:
  assumes "cascade_project e p db = Inr db'"
  obtains db1 db2 db3 db4
  where "cascade e Tasks ''project_id'' p db = Inr db1"
    and "cascade e Materials ''project_id'' p db1 = Inr db2"
    and "foldE (cascade e Attachments ''task_id'') (live_child_ids Tasks ''project_id'' p db) db2 = Inr db3"
    and "cascade e Attachments ''project_id'' p db3 = Inr db4"
    and "foldE (cascade e Attachments ''material_id'') (live_child_ids Materials ''project_id'' p db1) db4
      = Inr db'"
  using assms by (auto simp: cascade_project_def Let_def)

lemma cascade_project_marks: "cascade_project e p db = Inr db' \<Longrightarrow> marks db db'"
  unfolding cascade_project_def Let_def
  by (elim mark.bindE_rel) (auto intro: cascade_marks cascades_marks)

lemma cascade_project_same:
  assumes "cascade_project e p db = Inr db'" and "u \<notin> {Tasks, Materials, Attachments}"
  shows "tab db' u = tab db u"
  using assms by (elim cascade_project_steps) (simp add: cascade_same cascades_same)

text \<open>
  After the cascade no task, material or attachment of the project is live, and no attachment of
  a task or material that was live before.
\<close>

definition project_cleared :: "sqlval \<Rightarrow> tbl database \<Rightarrow> tbl database \<Rightarrow> bool" where
  "project_cleared p db db' \<longleftrightarrow>
     dead_below Tasks ''project_id'' p db' \<and> dead_below Materials ''project_id'' p db' \<and>
     dead_below Attachments ''project_id'' p db' \<and>
     (\<forall>v \<in> set (live_child_ids Tasks ''project_id'' p db). dead_below Attachments ''task_id'' v db') \<and>
     (\<forall>v \<in> set (live_child_ids Materials ''project_id'' p db). dead_below Attachments ''material_id'' v db')"

lemma live_child_ids_same: "tab db t = tab db' t \<Longrightarrow> live_child_ids t c v db = live_child_ids t c v db'"
  by (simp add: live_child_ids_def sql_select_def)

lemma project_cleared_marks:
  assumes "project_cleared p db db1" and "marks db1 db2" and "db_ok gw db1"
  shows "project_cleared p db db2"
  using assms(1) dead_below_marks [OF _ assms(2,3)] by (simp add: project_cleared_def)

lemmas dead_kept =
  dead_below_marks [where c = "''project_id''", simplified]
  dead_below_marks [where c = "''task_id''", simplified]
  dead_below_marks [where c = "''material_id''", simplified]

lemma cascade_project_cleared:
  assumes ok: "db_ok gw db" and e: "driver_ok e" and run: "cascade_project e p db = Inr db'"
  shows "project_cleared p db db'"
proof -
  obtain db1 db2 db3 db4
    where 1: "cascade e Tasks ''project_id'' p db = Inr db1"
      and 2: "cascade e Materials ''project_id'' p db1 = Inr db2"
      and 3: "foldE (cascade e Attachments ''task_id'')
        (live_child_ids Tasks ''project_id'' p db) db2 = Inr db3"
      and 4: "cascade e Attachments ''project_id'' p db3 = Inr db4"
      and 5: "foldE (cascade e Attachments ''material_id'')
        (live_child_ids Materials ''project_id'' p db1) db4 = Inr db'"
    using run by (rule cascade_project_steps)
  note m = cascade_marks [OF 1] cascade_marks [OF 2] cascades_marks [OF 3] cascade_marks [OF 4]
    cascades_marks [OF 5]
  note ok1 = marks_db_ok [OF m(1) ok] note ok2 = marks_db_ok [OF m(2) ok1]
  note ok3 = marks_db_ok [OF m(3) ok2] note ok4 = marks_db_ok [OF m(4) ok3]
  note m45 = mark.evolves_trans [OF m(4,5)] note m35 = mark.evolves_trans [OF m(3) m45]
  note m25 = mark.evolves_trans [OF m(2) m35]
  have "dead_below Tasks ''project_id'' p db1" by (rule cascade_dead [OF e 1]) simp
  then have "dead_below Tasks ''project_id'' p db'" using m25 ok1 by (rule dead_kept)
  moreover have "dead_below Materials ''project_id'' p db2" by (rule cascade_dead [OF e 2]) simp
  then have "dead_below Materials ''project_id'' p db'" using m35 ok2 by (rule dead_kept)
  moreover have "dead_below Attachments ''task_id'' v db'"
    if "v \<in> set (live_child_ids Tasks ''project_id'' p db)" for v
    using cascades_dead [OF 3 ok2 e, of v, simplified, OF that] m45 ok3 by (rule dead_kept)
  moreover have "dead_below Attachments ''project_id'' p db4" by (rule cascade_dead [OF e 4]) simp
  then have "dead_below Attachments ''project_id'' p db'" using m(5) ok4 by (rule dead_kept)
  moreover have "live_child_ids Materials ''project_id'' p db1 = live_child_ids Materials ''project_id'' p db"
    by (rule live_child_ids_same) (simp add: cascade_same [OF 1])
  then have "dead_below Attachments ''material_id'' v db'"
    if "v \<in> set (live_child_ids Materials ''project_id'' p db)" for v
    using cascades_dead [OF 5 ok4 e, of v] that by simp
  ultimately show ?thesis by (simp add: project_cleared_def)
qed

section \<open>DELETE /api/projects/:id\<close>

lemma soft_delete_project_marks:
  assumes "find_live Projects i db = Some r" and "soft_delete_project e i db = Inr db'"
  shows "marks db db'"
  using assms(2) unfolding soft_delete_project_def
  by (elim mark.bindE_rel tombstone_marks)
    (auto intro: cascade_project_marks dest: find_live_by_id(2) [OF _ assms(1)])

lemma delete_project_evo [evolve]: "evo db (snd (delete_project e i db))"
  by (auto simp: delete_project_def gwd.evolves_refl
      intro: finish_evo marks_evo soft_delete_project_marks split: option.split)

section \<open>DELETE /api/domains/:id\<close>

text \<open>One round of the loop for a project that is still live.\<close>

lemma delete_project_of_domain_marks:
  assumes "delete_project_of_domain e p db = Inr db'"
    and "db_ok gw db \<Longrightarrow> \<forall>r \<in> set (tab db Projects). r ''id'' = p \<longrightarrow> is_live r"
  shows "marks db db'"
  using assms unfolding delete_project_of_domain_def
  by (elim mark.bindE_rel tombstone_marks) (auto intro: cascade_project_marks)

text \<open>A round only changes the row of its own project, so the projects still to come stay live.\<close>

lemma delete_project_of_domain_others:
  assumes "delete_project_of_domain e p db = Inr db'"
  shows "\<forall>r' \<in> set (tab db' Projects). r' ''id'' \<noteq> p \<longrightarrow> r' \<in> set (tab db Projects)"
    and "driver_ok e \<Longrightarrow> \<forall>r' \<in> set (tab db' Projects). r' ''id'' = p \<longrightarrow> \<not> is_live r'"
proof -
  obtain db1 where 1: "run_update e Projects (tombstone e) (\<lambda>r. r ''id'' = p) db = Inr db1"
    and 2: "cascade_project e p db1 = Inr db'"
    using assms by (auto simp: delete_project_of_domain_def)
  obtain vs where vs: "bind_all e (tombstone e) = Some vs"
    and tab: "tab db1 = (tab db)(Projects := map (\<lambda>r. if r ''id'' = p then set_cols vs r else r)
      (tab db Projects))"
    using 1 by (rule run_update_tab)
  have "set_cols vs r ''id'' = r ''id''" for r
    using bind_all_dom [OF vs] by (intro set_cols_other) (auto simp: tombstone_def)
  then show "\<forall>r' \<in> set (tab db' Projects). r' ''id'' \<noteq> p \<longrightarrow> r' \<in> set (tab db Projects)"
    by (auto simp: cascade_project_same [OF 2] tab)
  show "driver_ok e \<Longrightarrow> \<forall>r' \<in> set (tab db' Projects). r' ''id'' = p \<longrightarrow> \<not> is_live r'"
    using vs by (auto simp: cascade_project_same [OF 2] tab dest: tombstone_not_live)
qed

lemma delete_projects_marks:
  assumes "foldE (delete_project_of_domain e) ps db = Inr db'" and "distinct ps"
    and "db_ok gw db \<Longrightarrow> \<forall>r \<in> set (tab db Projects). r ''id'' \<in> set ps \<longrightarrow> is_live r"
  shows "marks db db'"
  using assms
proof (induction ps arbitrary: db)
  case (Cons p ps)
  obtain db1 where 1: "delete_project_of_domain e p db = Inr db1"
    and 2: "foldE (delete_project_of_domain e) ps db1 = Inr db'"
    using Cons.prems(1) by auto
  have m: "marks db db1"
    using 1 Cons.prems(3) by (intro delete_project_of_domain_marks) auto
  show ?case
  proof (cases "db_ok gw db")
    case True
    have "\<forall>r \<in> set (tab db1 Projects). r ''id'' \<in> set ps \<longrightarrow> is_live r"
      using delete_project_of_domain_others(1) [OF 1] Cons.prems(2) Cons.prems(3) [OF True] by auto
    then have "marks db1 db'"
      using Cons.prems(2) by (intro Cons.IH [OF 2]) auto
    with m show ?thesis by (rule mark.evolves_trans)
  qed (simp add: evolves_def)
qed (simp add: mark.evolves_refl)

lemma live_child_ids_distinct: "db_ok gw db \<Longrightarrow> distinct (live_child_ids t c v db)"
  using distinct_ids [of db t] by (simp add: live_child_ids_def ids_def sql_select_def distinct_map_filter)

lemma live_child_ids_live:
  assumes "db_ok gw db" and "r \<in> set (tab db t)" and "r ''id'' \<in> set (live_child_ids t c v db)"
  shows "is_live r" and "r c = v"
proof -
  obtain r' where r': "r' \<in> set (tab db t)" "r' c = v" "is_live r'" "r' ''id'' = r ''id''"
    using assms(3) by (auto simp: live_child_ids_def ids_def sql_select_def)
  with same_key_same_row [OF assms(1) r'(1) assms(2)] show "is_live r" and "r c = v" by auto
qed

lemma soft_delete_domain_marks:
  assumes r: "find_live Domains i db = Some r" and run: "soft_delete_domain e i db = Inr db'"
  shows "marks db db'"
proof -
  obtain db1 where 1: "run_update e Domains (tombstone e) (by_id i) db = Inr db1"
    and 2: "foldE (delete_project_of_domain e) (live_child_ids Projects ''domain_id'' (Text i) db1) db1
      = Inr db'"
    using run by (auto simp: soft_delete_domain_def)
  have m: "marks db db1"
    using 1 by (rule tombstone_marks) (auto dest: find_live_by_id(2) [OF _ r])
  show ?thesis
  proof (cases "db_ok gw db")
    case True
    note ok1 = marks_db_ok [OF m True]
    have "marks db1 db'"
      using 2 live_child_ids_distinct [OF ok1]
      by (rule delete_projects_marks) (blast intro: live_child_ids_live(1) [OF ok1])
    with m show ?thesis by (rule mark.evolves_trans)
  qed (simp add: evolves_def)
qed

lemma delete_domain_evo [evolve]: "evo db (snd (delete_domain e i db))"
  by (auto simp: delete_domain_def gwd.evolves_refl
      intro: finish_evo marks_evo soft_delete_domain_marks split: option.split)

text \<open>A cascade below one project leaves the live children of another one alone.\<close>

lemma filter_map_same:
  assumes "\<And>x. x \<in> set xs \<Longrightarrow> P (f x) = P x \<and> (P x \<longrightarrow> f x = x)"
  shows "filter P (map f xs) = filter P xs"
  using assms by (induction xs) auto

lemma cascade_other_children:
  assumes run: "cascade e t c q db = Inr db'" and "p \<noteq> q"
    and col: "c \<notin> {''deleted_at'', ''updated_at''}"
  shows "live_child_ids t c p db' = live_child_ids t c p db"
  using run unfolding cascade_def
proof (rule run_update_tab)
  fix vs
  assume vs: "bind_all e (tombstone e) = Some vs"
    and tab: "tab db' =
      (tab db)(t := map (\<lambda>r. if r c = q \<and> is_live r then set_cols vs r else r) (tab db t))"
  have "set_cols vs r c = r c" for r
    using bind_all_dom [OF vs] col by (intro set_cols_other) (auto simp: tombstone_def)
  then show ?thesis
    using \<open>p \<noteq> q\<close> by (simp add: live_child_ids_def sql_select_def tab filter_map_same)
qed

lemma cascade_project_other_children:
  assumes "cascade_project e q db = Inr db'" and "p \<noteq> q" and "t = Tasks \<or> t = Materials"
  shows "live_child_ids t ''project_id'' p db' = live_child_ids t ''project_id'' p db"
  using assms(1)
proof (rule cascade_project_steps)
  fix db1 db2 db3 db4
  assume 1: "cascade e Tasks ''project_id'' q db = Inr db1"
    and 2: "cascade e Materials ''project_id'' q db1 = Inr db2"
    and 3: "foldE (cascade e Attachments ''task_id'')
        (live_child_ids Tasks ''project_id'' q db) db2 = Inr db3"
    and 4: "cascade e Attachments ''project_id'' q db3 = Inr db4"
    and 5: "foldE (cascade e Attachments ''material_id'')
        (live_child_ids Materials ''project_id'' q db1) db4 = Inr db'"
  have "tab db' t = tab db2 t"
    using assms(3) cascades_same [OF 3, of t] cascade_same [OF 4, of t] cascades_same [OF 5, of t]
    by auto
  then have "live_child_ids t ''project_id'' p db' = live_child_ids t ''project_id'' p db2"
    by (rule live_child_ids_same)
  also have "\<dots> = live_child_ids t ''project_id'' p db1"
    using assms(3) cascade_other_children [OF 2 assms(2)] cascade_same [OF 2]
    by (auto intro: live_child_ids_same)
  also have "\<dots> = live_child_ids t ''project_id'' p db"
    using assms(3) cascade_other_children [OF 1 assms(2)] cascade_same [OF 1]
    by (auto intro: live_child_ids_same)
  finally show ?thesis .
qed

lemma delete_project_of_domain_cleared:
  assumes run: "delete_project_of_domain e p db = Inr db'" and ok: "db_ok gw db" and e: "driver_ok e"
  shows "project_cleared p db db'"
    and "q \<noteq> p \<Longrightarrow> t = Tasks \<or> t = Materials \<Longrightarrow>
      live_child_ids t ''project_id'' q db' = live_child_ids t ''project_id'' q db"
proof -
  obtain db1 where 1: "run_update e Projects (tombstone e) (\<lambda>r. r ''id'' = p) db = Inr db1"
    and 2: "cascade_project e p db1 = Inr db'"
    using run by (auto simp: delete_project_of_domain_def)
  have same: "live_child_ids t c v db1 = live_child_ids t c v db" if "t \<noteq> Projects" for t c v
    using run_update_same [OF 1 that] by (rule live_child_ids_same)
  have "project_cleared p db1 db'"
    using run_update_db_ok [OF 1 ok] e 2 by (rule cascade_project_cleared)
  then show "project_cleared p db db'" by (simp add: project_cleared_def same)
  show "live_child_ids t ''project_id'' q db' = live_child_ids t ''project_id'' q db"
    if "q \<noteq> p" and "t = Tasks \<or> t = Materials"
    using cascade_project_other_children [OF 2 that] same [of t] that(2) by auto
qed

lemma delete_projects_cleared:
  assumes "foldE (delete_project_of_domain e) ps db = Inr db'" and "distinct ps"
    and "db_ok gw db" and "driver_ok e" and "p \<in> set ps"
    and "\<forall>r \<in> set (tab db Projects). r ''id'' \<in> set ps \<longrightarrow> is_live r"
  shows "project_cleared p db db' \<and> dead_below Projects ''id'' p db'"
  using assms
proof (induction ps arbitrary: db)
  case (Cons q ps)
  obtain db1 where 1: "delete_project_of_domain e q db = Inr db1"
    and 2: "foldE (delete_project_of_domain e) ps db1 = Inr db'"
    using Cons.prems(1) by auto
  have ok1: "db_ok gw db1"
    using delete_project_of_domain_marks [OF 1] Cons.prems(3,6) by (auto intro: marks_db_ok)
  have live1: "\<forall>r \<in> set (tab db1 Projects). r ''id'' \<in> set ps \<longrightarrow> is_live r"
    using delete_project_of_domain_others(1) [OF 1] Cons.prems(2,6) by auto
  have m: "marks db1 db'"
    using 2 Cons.prems(2) live1 by (intro delete_projects_marks) auto
  note cl = delete_project_of_domain_cleared [OF 1 Cons.prems(3,4)]
  show ?case
  proof (cases "p = q")
    case True
    have "dead_below Projects ''id'' p db1"
      using delete_project_of_domain_others(2) [OF 1 Cons.prems(4)] True by (simp add: dead_below_def)
    then have "dead_below Projects ''id'' p db'"
      using m ok1 by (rule dead_below_marks) simp
    with True show ?thesis using project_cleared_marks [OF cl(1) m ok1] by simp
  next
    case False
    then have "project_cleared p db1 db' \<and> dead_below Projects ''id'' p db'"
      using Cons.prems(2,4,5) live1 by (intro Cons.IH [OF 2 _ ok1]) auto
    with False show ?thesis by (simp add: project_cleared_def cl(2))
  qed
qed simp

text \<open>After DELETE the domain, its projects and everything below them are marked.\<close>

definition domain_cleared :: "string \<Rightarrow> tbl database \<Rightarrow> tbl database \<Rightarrow> bool" where
  "domain_cleared i db db' \<longleftrightarrow> find_live Domains i db' = None \<and>
     dead_below Projects ''domain_id'' (Text i) db' \<and>
     (\<forall>p \<in> set (live_child_ids Projects ''domain_id'' (Text i) db). project_cleared p db db')"

lemma soft_delete_domain_cleared:
  assumes r: "find_live Domains i db = Some r" and run: "soft_delete_domain e i db = Inr db'"
    and ok: "db_ok gw db" and e: "driver_ok e"
  shows "domain_cleared i db db'"
proof -
  let ?ps = "live_child_ids Projects ''domain_id'' (Text i) db"
  obtain db1 where 1: "run_update e Domains (tombstone e) (by_id i) db = Inr db1"
    and 2: "foldE (delete_project_of_domain e) (live_child_ids Projects ''domain_id'' (Text i) db1) db1
      = Inr db'"
    using run by (auto simp: soft_delete_domain_def)
  have same: "tab db1 u = tab db u" if "u \<noteq> Domains" for u
    using 1 that by (rule run_update_same)
  have ids: "live_child_ids t c v db1 = live_child_ids t c v db" if "t \<noteq> Domains" for t c v
    using same [OF that] by (rule live_child_ids_same)
  have ok1: "db_ok gw db1" using 1 ok by (rule run_update_db_ok)
  note loop = 2 [unfolded ids [of Projects, simplified]]
  have live: "\<forall>r \<in> set (tab db1 Projects). r ''id'' \<in> set ?ps \<longrightarrow> is_live r"
    using live_child_ids_live(1) [OF ok, of _ Projects] same [of Projects] by auto
  have m: "marks db1 db'"
    using loop live_child_ids_distinct [OF ok] live by (rule delete_projects_marks)
  have cl: "project_cleared p db1 db' \<and> dead_below Projects ''id'' p db'" if "p \<in> set ?ps" for p
    using delete_projects_cleared [OF loop live_child_ids_distinct [OF ok] ok1 e that live] .
  have "find_live Domains i db1 = None"
    using e 1 by (rule tombstone_find_live)
  then have "dead_below Domains ''id'' (Text i) db1"
    by (auto simp: find_live_None_iff dead_below_def by_id_def)
  then have "dead_below Domains ''id'' (Text i) db'"
    using m ok1 by (rule dead_below_marks) simp
  then have gone: "find_live Domains i db' = None"
    by (auto simp: find_live_None_iff dead_below_def by_id_def)
  have "\<not> is_live r'" if r': "r' \<in> set (tab db' Projects)" "r' ''domain_id'' = Text i" for r'
  proof -
    obtain f where f: "tab db' Projects = map f (tab db1 Projects)"
      "\<forall>r \<in> set (tab db1 Projects). mark_step Projects r (f r)"
      using m ok1 by (rule marks_rows)
    obtain r0 where r0: "r0 \<in> set (tab db Projects)" "r' = f r0"
      using r'(1) by (auto simp: f(1) same)
    then have step: "mark_step Projects r0 r'" using f(2) by (simp add: same)
    then have eq: "r0 ''domain_id'' = Text i" "r' ''id'' = r0 ''id''"
      using r'(2) by (simp_all add: mark_step_def)
    show ?thesis
    proof (cases "is_live r0")
      case True
      then have "r' ''id'' \<in> set ?ps"
        using r0 eq by (auto simp: live_child_ids_def ids_def sql_select_def)
      then show ?thesis using cl r'(1) by (auto simp: dead_below_def)
    next
      case False
      with step show ?thesis by (rule mark_step_dead)
    qed
  qed
  then show ?thesis
    using gone cl by (simp add: domain_cleared_def dead_below_def project_cleared_def ids)
qed

lemma soft_delete_project_cleared:
  assumes run: "soft_delete_project e i db = Inr db'" and ok: "db_ok gw db" and e: "driver_ok e"
  shows "find_live Projects i db' = None \<and> project_cleared (Text i) db db'"
proof -
  obtain db1 where 1: "run_update e Projects (tombstone e) (by_id i) db = Inr db1"
    and 2: "cascade_project e (Text i) db1 = Inr db'"
    using run by (auto simp: soft_delete_project_def)
  have same: "live_child_ids t c v db1 = live_child_ids t c v db" if "t \<noteq> Projects" for t c v
    using run_update_same [OF 1 that] by (rule live_child_ids_same)
  have "project_cleared (Text i) db1 db'"
    using run_update_db_ok [OF 1 ok] e 2 by (rule cascade_project_cleared)
  moreover have "find_live Projects i db' = None"
    using tombstone_find_live [OF e 1] cascade_project_same [OF 2, of Projects]
    by (simp add: find_live_None_iff)
  ultimately show ?thesis by (simp add: project_cleared_def same)
qed

section \<open>Footprints\<close>

abbreviation below_project :: "tbl set" where
  "below_project \<equiv> {Tasks, Materials, Attachments}"

lemma cascade_project_writes: "cascade_project e p db = Inr db' \<Longrightarrow> below_project \<subseteq> T \<Longrightarrow> writes_only T db db'"
  unfolding cascade_project_def Let_def
  by (elim writes.bindE_rel) (auto intro: cascade_writes cascades_writes)

lemma soft_delete_project_writes:
  "soft_delete_project e i db = Inr db' \<Longrightarrow> writes_only {Projects, Tasks, Materials, Attachments} db db'"
  unfolding soft_delete_project_def
  by (elim writes.bindE_rel) (auto intro: run_update_writes cascade_project_writes)

lemma delete_project_of_domain_writes:
  "delete_project_of_domain e p db = Inr db' \<Longrightarrow> {Projects, Tasks, Materials, Attachments} \<subseteq> T \<Longrightarrow> writes_only T db db'"
  unfolding delete_project_of_domain_def
  by (elim writes.bindE_rel) (auto intro: run_update_writes cascade_project_writes)

lemma soft_delete_domain_writes:
  "soft_delete_domain e i db = Inr db' \<Longrightarrow> writes_only {Domains, Projects, Tasks, Materials, Attachments} db db'"
  unfolding soft_delete_domain_def
  by (elim writes.bindE_rel writes.foldE_rel)
    (auto intro: run_update_writes delete_project_of_domain_writes)

lemma catalog_writes [simp, footprint]:
  "writes_only {Domains} db (snd (post_domain e b db))"
  "writes_only {Domains} db (snd (patch_domain e i b db))"
  "writes_only {Domains, Projects, Tasks, Materials, Attachments} db (snd (delete_domain e i db))"
  "writes_only {Projects} db (snd (post_project e b db))"
  "writes_only {Projects} db (snd (patch_project e i b db))"
  "writes_only {Projects, Tasks, Materials, Attachments} db (snd (delete_project e i db))"
  by (simp_all add: catalog_defs delete_domain_def delete_project_def Let_def finish_writes
      soft_delete_domain_writes soft_delete_project_writes split: sum.split option.split)

section \<open>A live domain remains\<close>

definition some_domain :: "tbl database \<Rightarrow> bool" where
  "some_domain db \<longleftrightarrow> (\<exists>r \<in> set (tab db Domains). is_live r)"

lemma writes_some_domain: "writes_only T db db' \<Longrightarrow> Domains \<notin> T \<Longrightarrow> some_domain db \<Longrightarrow> some_domain db'"
  by (simp add: writes_only_def some_domain_def)

lemma post_domain_some: "some_domain db \<Longrightarrow> some_domain (snd (post_domain e b db))"
  by (auto simp: post_domain_def create_def finish_def bad_request_def Let_def some_domain_def
      split: sum.split elim!: run_insert_tab)

lemma some_domain_map: "some_domain db \<longleftrightarrow> True \<in> set (map is_live (tab db Domains))"
  by (auto simp: some_domain_def)

lemma patch_domain_some: "some_domain (snd (patch_domain e i b db)) = some_domain db"
  by (simp only: some_domain_map patch_domain_def domains.patch_live)

lemma soft_delete_domain_tab:
  assumes run: "soft_delete_domain e i db = Inr db'" and r: "r \<in> set (tab db Domains)" "\<not> by_id i r"
  shows "r \<in> set (tab db' Domains)"
proof -
  obtain db1 where 1: "run_update e Domains (tombstone e) (by_id i) db = Inr db1"
    and 2: "foldE (delete_project_of_domain e) (live_child_ids Projects ''domain_id'' (Text i) db1) db1
      = Inr db'"
    using run by (auto simp: soft_delete_domain_def)
  obtain vs where "tab db1 = (tab db)(Domains := map (\<lambda>r. if by_id i r then set_cols vs r else r)
      (tab db Domains))"
    using 1 by (rule run_update_tab)
  with r have "r \<in> set (tab db1 Domains)" by force
  moreover have "writes_only {Projects, Tasks, Materials, Attachments} db1 db'"
    using 2 by (rule writes.foldE_rel) (rule delete_project_of_domain_writes, simp_all)
  ultimately show ?thesis by (simp add: writes_only_def)
qed

lemma delete_domain_some:
  assumes "db_ok gw db" and "some_domain db"
  shows "some_domain (snd (delete_domain e i db))"
proof (cases "400 \<le> code (fst (delete_domain e i db))")
  case True
  then show ?thesis
    using catalog_refusal(9) [of e i db] assms(2) by (simp add: refusal_clean_def)
next
  case False
  then obtain r db' where r: "find_live Domains i db = Some r"
    and n: "1 < count_live Domains (\<lambda>_. True) db" and run: "soft_delete_domain e i db = Inr db'"
    and db': "snd (delete_domain e i db) = db'"
    by (auto simp: delete_domain_def not_found_def bad_request_def finish_def
        split: option.splits if_splits sum.splits)
  let ?live = "filter is_live (tab db Domains)"
  have "\<exists>r' \<in> set ?live. \<not> by_id i r'"
  proof (rule ccontr)
    assume "\<not> ?thesis"
    then have "set ?live \<subseteq> {r}"
      using find_live_by_id(1) [OF assms(1) r] by auto
    moreover have "distinct ?live"
      using distinct_ids [OF assms(1)] by (intro distinct_filter) (simp only: distinct_map)
    ultimately have "length ?live \<le> 1"
      using distinct_card [of ?live] card_mono [of "{r}" "set ?live"] by simp
    with n show False by (simp add: count_live_def sql_select_def)
  qed
  then show ?thesis
    using soft_delete_domain_tab [OF run] db' by (auto simp: some_domain_def)
qed

lemma catalog_reads [simp]:
  "snd (get_domains q db) = db"
  "snd (get_domain i db) = db"
  "snd (get_projects q db) = db"
  "snd (get_project i db) = db"
  by (simp_all add: catalog_defs)

end
