(* ===== verification/Capture.thy ===== *)
theory Capture
  imports Cascade
begin

text \<open>
  The routers \<^verbatim>\<open>routes/inbox.ts\<close>, \<^verbatim>\<open>routes/attachments.ts\<close> and \<^verbatim>\<open>routes/materials.ts\<close>.
\<close>

section \<open>Inbox\<close>

definition valid_inbox_types :: "string list" where
  "valid_inbox_types = [''text'', ''voice'', ''photo'']"

definition get_inbox :: "query \<Rightarrow> tbl database \<Rightarrow> reply" where
  "get_inbox q db =
     (let rows = sql_select InboxItems
        (\<lambda>r. is_live r \<and> (q ''unprocessed'' = Some ''true'' \<longrightarrow> r ''processed_at'' = Null)) db in
      (Resp 200 (PRows (map (row_json InboxItems) (order_by [''created_at''] rows))), db))"

definition one_of_msg :: "string \<Rightarrow> string list \<Rightarrow> string" where
  "one_of_msg c xs = c @ '' must be one of: '' @ join '', '' xs"

definition post_inbox :: "env \<Rightarrow> body \<Rightarrow> tbl database \<Rightarrow> reply" where
  "post_inbox e b db =
     (if \<not> truthy (b ''type'') then bad_request ''type is required'' db
      else if \<not> includes_str valid_inbox_types (b ''type'')
      then bad_request (one_of_msg ''type'' valid_inbox_types) db
      else let i = gen_id e 0; ts = JStr (now_at e 0) in
        create e InboxItems i
          [(''id'', JStr i), (''type'', b ''type''),
           (''raw_text'', nullish (b ''raw_text'') JNull),
           (''audio_path'', nullish (b ''audio_path'') JNull),
           (''photo_path'', nullish (b ''photo_path'') JNull),
           (''ocr_text'', nullish (b ''ocr_text'') JNull),
           (''quick_note'', nullish (b ''quick_note'') JNull),
           (''created_at'', ts), (''updated_at'', ts)] db)"

definition get_inbox_count :: "tbl database \<Rightarrow> reply" where
  "get_inbox_count db = (Resp 200 (PCount (length
     (sql_select InboxItems (\<lambda>r. is_live r \<and> r ''processed_at'' = Null) db))), db)"

definition get_inbox_item :: "string \<Rightarrow> tbl database \<Rightarrow> reply" where
  "get_inbox_item i db = get_resource InboxItems ''Inbox item not found'' i db"

definition inbox_fields :: "string list" where
  "inbox_fields = [''raw_text'', ''audio_path'', ''photo_path'', ''ocr_text'', ''quick_note'',
     ''processed_at'', ''processed_to_task_id'']"

definition patch_inbox_item :: "env \<Rightarrow> string \<Rightarrow> body \<Rightarrow> tbl database \<Rightarrow> reply" where
  "patch_inbox_item e i b db =
     patch_resource e InboxItems inbox_fields ''Inbox item not found'' i b db"

definition delete_inbox_item :: "env \<Rightarrow> string \<Rightarrow> tbl database \<Rightarrow> reply" where
  "delete_inbox_item e i db = delete_resource e InboxItems ''Inbox item not found'' i db"

section \<open>Attachments\<close>

definition valid_attachment_types :: "string list" where
  "valid_attachment_types = [''photo'', ''audio'', ''document'', ''other'']"

definition get_attachments :: "query \<Rightarrow> tbl database \<Rightarrow> reply" where
  "get_attachments q db = list_resource Attachments
     [''task_id'', ''project_id'', ''inbox_item_id'', ''material_id''] [''sort_order''] q db"

definition post_attachment :: "env \<Rightarrow> body \<Rightarrow> tbl database \<Rightarrow> reply" where
  "post_attachment e b db =
     (if \<not> truthy (b ''type'') \<or> \<not> truthy (b ''file_path'')
      then bad_request ''type and file_path are required'' db
      else if \<not> includes_str valid_attachment_types (b ''type'')
      then bad_request (one_of_msg ''type'' valid_attachment_types) db
      else let i = gen_id e 0; ts = JStr (now_at e 0) in
        create e Attachments i
          [(''id'', JStr i), (''type'', b ''type''), (''file_path'', b ''file_path''),
           (''file_name'', nullish (b ''file_name'') JNull),
           (''mime_type'', nullish (b ''mime_type'') JNull),
           (''file_size_bytes'', nullish (b ''file_size_bytes'') JNull),
           (''task_id'', nullish (b ''task_id'') JNull),
           (''project_id'', nullish (b ''project_id'') JNull),
           (''inbox_item_id'', nullish (b ''inbox_item_id'') JNull),
           (''material_id'', nullish (b ''material_id'') JNull),
           (''sort_order'', nullish (b ''sort_order'') (JNum 0)),
           (''created_at'', ts), (''updated_at'', ts)] db)"

definition get_attachment :: "string \<Rightarrow> tbl database \<Rightarrow> reply" where
  "get_attachment i db = get_resource Attachments ''Attachment not found'' i db"

definition attachment_fields :: "string list" where
  "attachment_fields = [''file_name'', ''mime_type'', ''sort_order'']"

definition patch_attachment :: "env \<Rightarrow> string \<Rightarrow> body \<Rightarrow> tbl database \<Rightarrow> reply" where
  "patch_attachment e i b db =
     patch_resource e Attachments attachment_fields ''Attachment not found'' i b db"

definition delete_attachment :: "env \<Rightarrow> string \<Rightarrow> tbl database \<Rightarrow> reply" where
  "delete_attachment e i db = delete_resource e Attachments ''Attachment not found'' i db"

section \<open>Materials\<close>

definition get_materials :: "query \<Rightarrow> tbl database \<Rightarrow> reply" where
  "get_materials q db = list_resource Materials [''project_id'', ''status''] [''sort_order''] q db"

text \<open>\<^verbatim>\<open>x ? JSON.stringify(x) : '[]'\<close>\<close>

definition json_or_empty :: "env \<Rightarrow> js \<Rightarrow> js" where
  "json_or_empty e v = (if truthy v then JStr (json_stringify (num_dec e) v) else JStr ''[]'')"

text \<open>\<^verbatim>\<open>if (req.body.f !== undefined) \{ updates.push('f = ?'); params.push(JSON.stringify(req.body.f)) \}\<close>\<close>

definition json_update :: "env \<Rightarrow> string \<Rightarrow> body \<Rightarrow> (string \<times> js) list" where
  "json_update e f b = (if b f = Undefined then []
     else [(f, JStr (json_stringify (num_dec e) (b f)))])"

definition post_material :: "env \<Rightarrow> body \<Rightarrow> tbl database \<Rightarrow> reply" where
  "post_material e b db =
     (if \<not> truthy (b ''project_id'') \<or> \<not> truthy (b ''name'')
      then bad_request ''project_id and name are required'' db
      else let i = gen_id e 0; ts = JStr (now_at e 0) in
        create e Materials i
          [(''id'', JStr i), (''project_id'', b ''project_id''), (''name'', b ''name''),
           (''quantity'', nullish (b ''quantity'') (JNum 1)),
           (''unit_cost'', nullish (b ''unit_cost'') JNull),
           (''source'', nullish (b ''source'') JNull),
           (''status'', nullish (b ''status'') (JStr ''needed'')),
           (''blocks_tasks'', json_or_empty e (b ''blocks_tasks'')),
           (''photo_path'', nullish (b ''photo_path'') JNull),
           (''notes'', nullish (b ''notes'') JNull),
           (''sort_order'', nullish (b ''sort_order'') (JNum 0)),
           (''created_at'', ts), (''updated_at'', ts)] db)"

definition get_material :: "string \<Rightarrow> tbl database \<Rightarrow> reply" where
  "get_material i db = get_resource Materials ''Material not found'' i db"

definition material_fields :: "string list" where
  "material_fields = [''project_id'', ''name'', ''quantity'', ''unit_cost'', ''source'', ''status'',
     ''photo_path'', ''notes'', ''sort_order'']"

definition patch_material :: "env \<Rightarrow> string \<Rightarrow> body \<Rightarrow> tbl database \<Rightarrow> reply" where
  "patch_material e i b db = (case find_live Materials i db of
       None \<Rightarrow> not_found ''Material not found'' db
     | Some r \<Rightarrow>
         save e Materials (collect_updates material_fields b @ json_update e ''blocks_tasks'' b) i db)"

definition delete_material :: "env \<Rightarrow> string \<Rightarrow> tbl database \<Rightarrow> reply" where
  "delete_material e i db = delete_resource e Materials ''Material not found'' i db"

section \<open>Contracts\<close>

context resource
begin

lemma save_json_evo:
  assumes "cols = cs @ [f]"
  shows "evo db (snd (save e t (collect_updates cs b @ json_update e f b) i db))"
  using collect_updates_keys [of cs b] by (intro save_evo') (auto simp: assms json_update_def)

end

interpretation inbox: resource InboxItems inbox_fields
  by unfold_locales (auto simp: inbox_fields_def fixed_cols_def)

interpretation attachments: resource Attachments attachment_fields
  by unfold_locales (auto simp: attachment_fields_def fixed_cols_def)

interpretation materials: resource Materials "material_fields @ [''blocks_tasks'']"
  by unfold_locales (auto simp: material_fields_def fixed_cols_def)

lemmas capture_defs = get_inbox_def post_inbox_def get_inbox_count_def get_inbox_item_def
  patch_inbox_item_def delete_inbox_item_def get_attachments_def post_attachment_def
  get_attachment_def patch_attachment_def delete_attachment_def get_materials_def
  post_material_def get_material_def patch_material_def delete_material_def

lemma capture_evo [evolve]:
  "evo db (snd (get_inbox q db))"
  "evo db (snd (post_inbox e b db))"
  "evo db (snd (get_inbox_count db))"
  "evo db (snd (get_inbox_item i db))"
  "evo db (snd (patch_inbox_item e i b db))"
  "evo db (snd (delete_inbox_item e i db))"
  "evo db (snd (get_attachments q db))"
  "evo db (snd (post_attachment e b db))"
  "evo db (snd (get_attachment i db))"
  "evo db (snd (patch_attachment e i b db))"
  "evo db (snd (delete_attachment e i db))"
  "evo db (snd (get_materials q db))"
  "evo db (snd (post_material e b db))"
  "evo db (snd (get_material i db))"
  "evo db (snd (patch_material e i b db))"
  "evo db (snd (delete_material e i db))"
  by (simp_all add: capture_defs create_evo delete_evo Let_def
      inbox.patch_evo inbox.save_evo' attachments.patch_evo attachments.save_evo' materials.patch_evo materials.save_json_evo split: sum.split option.split)

lemma capture_refusal [refusal]:
  "refusal_clean (get_inbox q db) db"
  "refusal_clean (post_inbox e b db) db"
  "refusal_clean (get_inbox_count db) db"
  "refusal_clean (get_inbox_item i db) db"
  "refusal_clean (patch_inbox_item e i b db) db"
  "refusal_clean (delete_inbox_item e i db) db"
  "refusal_clean (get_attachments q db) db"
  "refusal_clean (post_attachment e b db) db"
  "refusal_clean (get_attachment i db) db"
  "refusal_clean (patch_attachment e i b db) db"
  "refusal_clean (delete_attachment e i db) db"
  "refusal_clean (get_materials q db) db"
  "refusal_clean (post_material e b db) db"
  "refusal_clean (get_material i db) db"
  "refusal_clean (patch_material e i b db) db"
  "refusal_clean (delete_material e i db) db"
  by (simp_all add: capture_defs Let_def split: sum.split option.split)

section \<open>Footprints\<close>

lemma capture_writes [simp, footprint]:
  "writes_only {InboxItems} db (snd (post_inbox e b db))"
  "writes_only {InboxItems} db (snd (patch_inbox_item e i b db))"
  "writes_only {InboxItems} db (snd (delete_inbox_item e i db))"
  "writes_only {Attachments} db (snd (post_attachment e b db))"
  "writes_only {Attachments} db (snd (patch_attachment e i b db))"
  "writes_only {Attachments} db (snd (delete_attachment e i db))"
  "writes_only {Materials} db (snd (post_material e b db))"
  "writes_only {Materials} db (snd (patch_material e i b db))"
  "writes_only {Materials} db (snd (delete_material e i db))"
  by (simp_all add: capture_defs Let_def split: sum.split option.split)

lemma capture_reads [simp]:
  "snd (get_inbox q db) = db"
  "snd (get_inbox_count db) = db"
  "snd (get_inbox_item i db) = db"
  "snd (get_attachments q db) = db"
  "snd (get_attachment i db) = db"
  "snd (get_materials q db) = db"
  "snd (get_material i db) = db"
  by (simp_all add: capture_defs)

end
