(* ===== verification/Tasks.thy ===== *)
theory Tasks
  imports Catalog Capture Recurrence
begin

text \<open>
  The router \<^verbatim>\<open>routes/tasks.ts\<close>: tasks with their event log, the time stamp of their project and
  the clone a completed recurring task leaves behind.  PATCH runs two transactions: the update with
  its events, and then the clone; when the second throws, the first stays committed.
\<close>

section \<open>Statements of the router\<close>

text \<open>\<^verbatim>\<open>UPDATE projects SET last_touched_at = ?, updated_at = ? WHERE id = ?\<close>\<close>

definition touch_project :: "env \<Rightarrow> js \<Rightarrow> tbl database \<Rightarrow> sqlerr + tbl database" where
  "touch_project e p db = (case bind_param e p of None \<Rightarrow> Inl BindError
     | Some x \<Rightarrow> run_update e Projects
         [(''last_touched_at'', JStr (now_at e 0)), (''updated_at'', JStr (now_at e 0))]
         (\<lambda>r. x \<noteq> Null \<and> r ''id'' = x) db)"

text \<open>
  \<^verbatim>\<open>INSERT INTO task_events ... VALUES (?, ?, 'created', ?, ?, ?, ?)\<close>, with the \<open>k\<close>-th identifier
  of the request and the time stamp \<open>ts\<close>.
\<close>

definition log_created :: "env \<Rightarrow> nat \<Rightarrow> string \<Rightarrow> js \<Rightarrow> string \<Rightarrow> tbl database \<Rightarrow> sqlerr + tbl database" where
  "log_created e k task v ts db = run_insert e TaskEvents
     [(''id'', JStr (gen_id e k)), (''task_id'', JStr task), (''event_type'', JStr ''created''),
      (''new_value'', JStr (json_stringify (num_dec e) v)),
      (''occurred_at'', JStr ts), (''created_at'', JStr ts), (''updated_at'', JStr ts)] db"

text \<open>An entry of the log: event type, old value, new value.\<close>

type_synonym change = "string \<times> js \<times> js"

definition log_change :: "env \<Rightarrow> string \<Rightarrow> nat \<times> change \<Rightarrow> tbl database \<Rightarrow> sqlerr + tbl database" where
  "log_change e task kc db = (case kc of (k, ty, old, new) \<Rightarrow>
     let ts = JStr (now_at e 0) in
     run_insert e TaskEvents
       [(''id'', JStr (gen_id e k)), (''task_id'', JStr task), (''event_type'', JStr ty),
        (''old_value'', JStr (json_stringify (num_dec e) old)),
        (''new_value'', JStr (json_stringify (num_dec e) new)),
        (''occurred_at'', ts), (''created_at'', ts), (''updated_at'', ts)] db)"

section \<open>List, create and read\<close>

definition get_tasks :: "query \<Rightarrow> tbl database \<Rightarrow> reply" where
  "get_tasks q db = list_resource Tasks [''project_id'', ''status''] [''sort_order''] q db"

definition create_task :: "env \<Rightarrow> body \<Rightarrow> tbl database \<Rightarrow> sqlerr + tbl database" where
  "create_task e b db =
     (let i = gen_id e 0; ts = JStr (now_at e 0) in
      bindE (run_insert e Tasks
        [(''id'', JStr i), (''project_id'', b ''project_id''), (''title'', b ''title''),
         (''status'', nullish (b ''status'') (JStr ''backlog'')),
         (''kanban_column'', nullish (b ''kanban_column'') JNull),
         (''estimated_minutes'', nullish (b ''estimated_minutes'') JNull),
         (''due_date'', nullish (b ''due_date'') JNull),
         (''seasonal_window'', nullish (b ''seasonal_window'') JNull),
         (''depends_on'', json_or_empty e (b ''depends_on'')),
         (''sort_order'', nullish (b ''sort_order'') (JNum 0)),
         (''notes'', nullish (b ''notes'') JNull),
         (''recurrence_rule'', nullish (b ''recurrence_rule'') JNull),
         (''recurrence_parent_id'', nullish (b ''recurrence_parent_id'') JNull),
         (''created_at'', ts), (''updated_at'', ts)] db) (\<lambda>db1.
      bindE (log_created e 1 i
        (JObj [(''title'', b ''title''), (''project_id'', b ''project_id'')]) (now_at e 0) db1)
      (touch_project e (b ''project_id''))))"

definition post_task :: "env \<Rightarrow> body \<Rightarrow> tbl database \<Rightarrow> reply" where
  "post_task e b db =
     (if \<not> truthy (b ''project_id'') \<or> \<not> truthy (b ''title'')
      then bad_request ''project_id and title are required'' db
      else finish 201 (create_task e b db) (reload Tasks (gen_id e 0)) db)"

definition get_task :: "string \<Rightarrow> tbl database \<Rightarrow> reply" where
  "get_task i db = get_resource Tasks ''Task not found'' i db"

section \<open>PATCH: the update and its events\<close>

definition task_fields :: "string list" where
  "task_fields = [''project_id'', ''title'', ''kanban_column'', ''estimated_minutes'', ''due_date'',
     ''seasonal_window'', ''sort_order'', ''notes'', ''recurrence_rule'', ''recurrence_parent_id'']"

text \<open>\<^verbatim>\<open>req.body.f !== undefined && req.body.f !== existing.f\<close>\<close>

definition changed :: "string \<Rightarrow> body \<Rightarrow> row \<Rightarrow> bool" where
  "changed f b r \<longleftrightarrow> b f \<noteq> Undefined \<and> b f \<noteq> js_of_sql (r f)"

definition status_updates :: "env \<Rightarrow> body \<Rightarrow> row \<Rightarrow> (string \<times> js) list" where
  "status_updates e b r = (if \<not> changed ''status'' b r then []
     else [(''status'', b ''status'')]
       @ (if b ''status'' = JStr ''done'' then [(''completed_at'', JStr (now_at e 0))] else [])
       @ (if js_of_sql (r ''status'') = JStr ''done'' \<and> b ''status'' \<noteq> JStr ''done''
          then [(''completed_at'', JNull)] else []))"

definition status_event :: "js \<Rightarrow> string" where
  "status_event s = (if s = JStr ''dropped'' then ''dropped''
     else if s \<noteq> JStr ''done'' then ''status_changed'' else ''completed'')"

definition task_updates :: "env \<Rightarrow> body \<Rightarrow> row \<Rightarrow> (string \<times> js) list" where
  "task_updates e b r =
     collect_updates task_fields b @ json_update e ''depends_on'' b @ status_updates e b r"

definition changes :: "body \<Rightarrow> row \<Rightarrow> change list" where
  "changes b r =
     (if changed ''status'' b r
      then [(status_event (b ''status''), js_of_sql (r ''status''), b ''status'')] else [])
   @ (if changed ''due_date'' b r
      then [(''rescheduled'', js_of_sql (r ''due_date''), b ''due_date'')] else [])
   @ (if changed ''estimated_minutes'' b r
      then [(''estimate_changed'', js_of_sql (r ''estimated_minutes''), b ''estimated_minutes'')]
      else [])"

definition update_task :: "env \<Rightarrow> string \<Rightarrow> body \<Rightarrow> row \<Rightarrow> tbl database \<Rightarrow> sqlerr + tbl database" where
  "update_task e i b r db =
     bindE (run_update e Tasks (task_updates e b r @ [(''updated_at'', JStr (now_at e 0))])
       (by_id i) db) (\<lambda>db1.
     bindE (foldE (log_change e i) (enumerate 0 (changes b r)) db1)
       (touch_project e (nullish (b ''project_id'') (js_of_sql (r ''project_id'')))))"

section \<open>PATCH: the clone of a completed recurring task\<close>

text \<open>The text a truthy column value has in a string concatenation.\<close>

definition col_text :: "env \<Rightarrow> sqlval \<Rightarrow> string option" where
  "col_text e v = (case v of Null \<Rightarrow> None
     | Text s \<Rightarrow> if s = [] then None else Some s
     | Num n \<Rightarrow> if n = 0 then None else Some (num_str (num_dec e) n))"

text \<open>The due date of the clone, when the request completes a recurring task.\<close>

definition next_instance :: "env \<Rightarrow> body \<Rightarrow> row \<Rightarrow> string option" where
  "next_instance e b r = (if b ''status'' \<noteq> JStr ''done'' then None
     else case r ''recurrence_rule'' of
       Text rrule \<Rightarrow> if rrule = [] then None
         else calculate_next_due_date (today e) (date_fallback e) rrule (col_text e (r ''due_date''))
     | _ \<Rightarrow> None)"

definition parent_id :: "row \<Rightarrow> js" where
  "parent_id r = (if truthy (js_of_sql (r ''recurrence_parent_id''))
     then js_of_sql (r ''recurrence_parent_id'') else js_of_sql (r ''id''))"

definition clone_task ::
  "env \<Rightarrow> nat \<Rightarrow> row \<Rightarrow> string \<Rightarrow> tbl database \<Rightarrow> sqlerr + tbl database" where
  "clone_task e k r due db =
     (let v = (\<lambda>c. js_of_sql (r c)); ts = JStr (now_at e 1) in
      bindE (run_insert e Tasks
        [(''id'', JStr (gen_id e k)), (''project_id'', v ''project_id''), (''title'', v ''title''),
         (''status'', JStr ''backlog''),
         (''kanban_column'', nullish (v ''kanban_column'') JNull),
         (''estimated_minutes'', nullish (v ''estimated_minutes'') JNull),
         (''due_date'', JStr due),
         (''seasonal_window'', nullish (v ''seasonal_window'') JNull),
         (''depends_on'', nullish (v ''depends_on'') (JStr ''[]'')),
         (''sort_order'', nullish (v ''sort_order'') (JNum 0)),
         (''notes'', nullish (v ''notes'') JNull),
         (''recurrence_rule'', v ''recurrence_rule''),
         (''recurrence_parent_id'', parent_id r),
         (''created_at'', ts), (''updated_at'', ts)] db)
      (log_created e (k + 1) (gen_id e k)
        (JObj [(''title'', v ''title''), (''recurrence_clone'', JBool True)]) (now_at e 1)))"

definition task_json :: "string \<Rightarrow> tbl database \<Rightarrow> json_row" where
  "task_json i db = (case find_row Tasks (by_id i) db of None \<Rightarrow> [] | Some r \<Rightarrow> row_json Tasks r)"

text \<open>What follows the first transaction, which used \<open>k\<close> identifiers.\<close>

definition clone_on_complete :: "env \<Rightarrow> nat \<Rightarrow> string \<Rightarrow> body \<Rightarrow> tbl database \<Rightarrow> reply" where
  "clone_on_complete e k i b db = (case find_row Tasks (by_id i) db of
       None \<Rightarrow> (Resp 200 (PTask (task_json i db) None), db)
     | Some r \<Rightarrow> (case next_instance e b r of
         None \<Rightarrow> (Resp 200 (PTask (task_json i db) None), db)
       | Some due \<Rightarrow> finish 200 (clone_task e k r due db)
           (\<lambda>db'. PTask (task_json i db') (Some (task_json (gen_id e k) db'))) db))"

definition patch_task :: "env \<Rightarrow> string \<Rightarrow> body \<Rightarrow> tbl database \<Rightarrow> reply" where
  "patch_task e i b db = (case find_live Tasks i db of
       None \<Rightarrow> not_found ''Task not found'' db
     | Some r \<Rightarrow>
         if task_updates e b r = [] then bad_request ''No fields to update'' db
         else case update_task e i b r db of
           Inl err \<Rightarrow> (Resp 500 (PException err), db)
         | Inr db1 \<Rightarrow> clone_on_complete e (length (changes b r)) i b db1)"

definition delete_task :: "env \<Rightarrow> string \<Rightarrow> tbl database \<Rightarrow> reply" where
  "delete_task e i db = delete_resource e Tasks ''Task not found'' i db"

section \<open>Evolution\<close>

lemma touch_project_evo [evolve]: "touch_project e p db = Inr db' \<Longrightarrow> evo db db'"
  unfolding touch_project_def
  by (auto split: option.splits elim!: run_update_evo simp: fixed_cols_def)

lemma log_created_evo [evolve]: "log_created e k i v ts db = Inr db' \<Longrightarrow> evo db db'"
  unfolding log_created_def by (erule run_insert_evo) simp

lemma log_change_evo [evolve]: "log_change e i kc db = Inr db' \<Longrightarrow> evo db db'"
  by (cases kc) (auto simp: log_change_def Let_def elim: run_insert_evo)

lemma log_changes_evo: "foldE (log_change e i) kcs db = Inr db' \<Longrightarrow> evo db db'"
  by (erule gwd.foldE_rel) (rule log_change_evo)

lemma create_task_evo: "create_task e b db = Inr db' \<Longrightarrow> evo db db'"
  unfolding create_task_def Let_def
  by (elim gwd.bindE_rel run_insert_evo) (auto intro: log_created_evo touch_project_evo)

lemma clone_task_evo: "clone_task e k r due db = Inr db' \<Longrightarrow> evo db db'"
  unfolding clone_task_def Let_def
  by (elim gwd.bindE_rel run_insert_evo) (auto intro: log_created_evo)

lemma task_updates_keys:
  "fst ` set (task_updates e b r) \<subseteq> set task_fields \<union> {''depends_on'', ''status'', ''completed_at''}"
  using collect_updates_keys [of task_fields b]
  by (auto simp: task_updates_def json_update_def status_updates_def)

text \<open>The update of a task keeps \<open>completed_ok\<close>: \<^verbatim>\<open>completed_at\<close> follows \<^verbatim>\<open>status\<close>.\<close>

lemma js_of_sql_eq [simp]: "js_of_sql v = JStr s \<longleftrightarrow> v = Text s" "js_of_sql v = JNull \<longleftrightarrow> v = Null"
  "js_of_sql v = JNum n \<longleftrightarrow> v = Num n" "js_of_sql v \<noteq> Undefined"
  by (cases v; simp)+

lemma status_updates_completed:
  assumes "driver_ok e" and "bind_all e (status_updates e b r) = Some vs"
    and "completed_ok r0" and "r0 ''status'' = r ''status''"
  shows "completed_ok (set_cols vs r0)"
  using assms
  by (auto simp: status_updates_def completed_ok_def driver_ok_def changed_def
      split: if_splits option.splits)

lemma bind_all_appendE:
  assumes "bind_all e (xs @ ys) = Some vs"
  obtains us ws where "bind_all e xs = Some us" "bind_all e ys = Some ws" "vs = us @ ws"
  using assms by (auto simp: bind_all_append split: option.splits)

lemma completed_ok_set_cols:
  assumes "''status'' \<notin> fst ` set vs" and "''completed_at'' \<notin> fst ` set vs"
  shows "completed_ok (set_cols vs r) = completed_ok r"
  using assms by (simp add: completed_ok_def set_cols_other)

lemma other_updates_keys:
  "fst ` set (collect_updates task_fields b @ json_update e ''depends_on'' b) \<subseteq>
     set task_fields \<union> {''depends_on''}"
  using collect_updates_keys [of task_fields b] by (auto simp: json_update_def)

lemma task_update_completed:
  assumes e: "driver_ok e" and r: "completed_ok r"
    and vs: "bind_all e (task_updates e b r @ [(''updated_at'', ts)]) = Some vs"
  shows "completed_ok (set_cols vs r)"
proof -
  obtain us ws where us: "bind_all e (task_updates e b r) = Some us"
    and ws: "bind_all e [(''updated_at'', ts)] = Some ws" and vs': "vs = us @ ws"
    using vs by (rule bind_all_appendE)
  obtain as bs
    where as: "bind_all e (collect_updates task_fields b @ json_update e ''depends_on'' b) = Some as"
    and bs: "bind_all e (status_updates e b r) = Some bs" and us': "us = as @ bs"
    using us unfolding task_updates_def append_assoc [symmetric] by (rule bind_all_appendE)
  have out: "c \<notin> fst ` set as" if "c \<in> {''status'', ''completed_at''}" for c
  proof -
    have "c \<notin> set task_fields \<union> {''depends_on''}" using that by (auto simp: task_fields_def)
    then show ?thesis using other_updates_keys [of b e] bind_all_dom [OF as] by blast
  qed
  have "completed_ok (set_cols bs (set_cols as r))"
    by (rule status_updates_completed [OF e bs])
      (simp_all add: r completed_ok_set_cols set_cols_other out)
  then show ?thesis
    using bind_all_dom [OF ws] by (simp add: vs' us' set_cols_append completed_ok_set_cols)
qed

lemma task_update_evo:
  assumes e: "driver_ok e" and r: "find_live Tasks i db = Some r"
    and upd: "run_update e Tasks (task_updates e b r @ [(''updated_at'', ts)]) (by_id i) db = Inr db'"
  shows "evo db db'"
proof -
  obtain vs where vs: "bind_all e (task_updates e b r @ [(''updated_at'', ts)]) = Some vs"
    and db': "sql_update gw Tasks (by_id i) (set_cols vs) db = Inr db'"
    using upd by (rule run_update_Inr)
  have fixed: "set_cols vs r' c = r' c" if "c \<in> fixed_cols" for c r'
    using that task_updates_keys [of e b r] bind_all_dom [OF vs]
    by (intro set_cols_other) (auto simp: task_fields_def fixed_cols_def)
  show ?thesis
    using db'
  proof (rule gwd.update_evolves)
    fix r'
    assume "db_ok gw db" "r' \<in> set (tab db Tasks)" "by_id i r'"
    then have "r' = r" "is_live r'"
      using r by (auto dest: find_live_by_id)
    then show "gw_step Tasks r' (set_cols vs r')"
      using task_update_completed [OF e _ vs] fixed by (simp add: gw_step_def fixed_cols_def)
  qed
qed

lemma update_task_evo:
  assumes "driver_ok e" and "find_live Tasks i db = Some r" and "update_task e i b r db = Inr db'"
  shows "evo db db'"
  using assms(3) unfolding update_task_def
  by (elim gwd.bindE_rel)
    (auto intro: task_update_evo [OF assms(1,2)] log_changes_evo touch_project_evo)

lemma clone_on_complete_evo: "evo db (snd (clone_on_complete e k i b db))"
  by (auto simp: clone_on_complete_def split: option.splits intro: finish_evo [OF clone_task_evo])

lemma get_tasks_evo [evolve]: "evo db (snd (get_tasks q db))"
  by (simp add: get_tasks_def)

lemma get_task_evo [evolve]: "evo db (snd (get_task i db))"
  by (simp add: get_task_def)

lemma post_task_evo [evolve]: "evo db (snd (post_task e b db))"
  by (simp add: post_task_def finish_evo create_task_evo)

lemma patch_task_evo:
  assumes "driver_ok e"
  shows "evo db (snd (patch_task e i b db))"
proof (cases "find_live Tasks i db")
  case (Some r)
  show ?thesis
  proof (cases "update_task e i b r db")
    case (Inr db1)
    with Some show ?thesis
      using gwd.evolves_trans [OF update_task_evo [OF assms Some Inr] clone_on_complete_evo]
      by (simp add: patch_task_def)
  qed (simp add: patch_task_def Some gwd.evolves_refl)
qed (simp add: patch_task_def)

lemma delete_task_evo [evolve]: "evo db (snd (delete_task e i db))"
  unfolding delete_task_def by (rule delete_evo)

section \<open>Footprints and refusals\<close>

abbreviation task_tables :: "tbl set" where
  "task_tables \<equiv> {Tasks, TaskEvents, Projects}"

lemma touch_project_writes: "touch_project e p db = Inr db' \<Longrightarrow> writes_only task_tables db db'"
  by (auto simp: touch_project_def split: option.splits intro: run_update_writes)

lemma log_created_writes: "log_created e k i v ts db = Inr db' \<Longrightarrow> writes_only task_tables db db'"
  unfolding log_created_def by (erule run_insert_writes) simp

lemma log_change_writes: "log_change e i kc db = Inr db' \<Longrightarrow> writes_only task_tables db db'"
  by (cases kc) (auto simp: log_change_def Let_def elim: run_insert_writes)

lemma log_changes_writes: "foldE (log_change e i) kcs db = Inr db' \<Longrightarrow> writes_only task_tables db db'"
  by (erule writes.foldE_rel) (rule log_change_writes)

lemma create_task_writes: "create_task e b db = Inr db' \<Longrightarrow> writes_only task_tables db db'"
  unfolding create_task_def Let_def
  by (elim writes.bindE_rel) (auto intro: run_insert_writes log_created_writes touch_project_writes)

lemma update_task_writes: "update_task e i b r db = Inr db' \<Longrightarrow> writes_only task_tables db db'"
  unfolding update_task_def
  by (elim writes.bindE_rel) (auto intro: run_update_writes log_changes_writes touch_project_writes)

lemma clone_task_writes: "clone_task e k r due db = Inr db' \<Longrightarrow> writes_only task_tables db db'"
  unfolding clone_task_def Let_def
  by (elim writes.bindE_rel) (auto intro: run_insert_writes log_created_writes)

lemma clone_on_complete_writes: "writes_only task_tables db (snd (clone_on_complete e k i b db))"
  by (auto simp: clone_on_complete_def split: option.splits
      intro: finish_writes [OF clone_task_writes])

lemma tasks_writes [simp, footprint]:
  "writes_only task_tables db (snd (post_task e b db))"
  "writes_only {Tasks} db (snd (delete_task e i db))"
  by (simp_all add: post_task_def delete_task_def finish_writes create_task_writes)

lemma patch_task_writes [simp, footprint]: "writes_only task_tables db (snd (patch_task e i b db))"
proof (cases "find_live Tasks i db")
  case (Some r)
  show ?thesis
    using writes.trans [OF update_task_writes clone_on_complete_writes]
    by (auto simp: patch_task_def Some split: sum.split)
qed (simp add: patch_task_def)

lemma tasks_refusal [refusal]:
  "refusal_clean (get_tasks q db) db"
  "refusal_clean (post_task e b db) db"
  "refusal_clean (get_task i db) db"
  "refusal_clean (delete_task e i db) db"
  by (simp_all add: get_tasks_def post_task_def get_task_def delete_task_def)

text \<open>PATCH has one refusal that is not clean: the update is committed and the clone throws.\<close>

lemma patch_task_refusal:
  assumes "400 \<le> code (fst (patch_task e i b db))"
  obtains "snd (patch_task e i b db) = db"
  | r due err where "find_live Tasks i db = Some r"
      and "update_task e i b r db = Inr (snd (patch_task e i b db))"
      and "clone_task e (length (changes b r)) (the (find_row Tasks (by_id i) (snd (patch_task e i b db)))) due
        (snd (patch_task e i b db)) = Inl err"
      and "patch_task e i b db = (Resp 500 (PException err), snd (patch_task e i b db))"
proof (cases "find_live Tasks i db")
  case (Some r)
  show ?thesis
  proof (cases "update_task e i b r db")
    case (Inr db1)
    then show ?thesis
      using assms that Some
      by (auto simp: patch_task_def clone_on_complete_def finish_def bad_request_def
          split: if_splits option.splits sum.splits)
  qed (use Some that(1) in \<open>auto simp: patch_task_def bad_request_def\<close>)
qed (use that(1) in \<open>auto simp: patch_task_def not_found_def\<close>)

lemma tasks_reads [simp]:
  "snd (get_tasks q db) = db"
  "snd (get_task i db) = db"
  by (simp_all add: get_tasks_def get_task_def)

end
