(* ===== verification/Planning.thy ===== *)
theory Planning
  imports Capture
begin

text \<open>
  The planning routers: \<^verbatim>\<open>routes/daily-plans.ts\<close>, \<^verbatim>\<open>routes/time-blocks.ts\<close>,
  \<^verbatim>\<open>routes/calendar-events.ts\<close>, \<^verbatim>\<open>routes/seasonal-config.ts\<close>,
  \<^verbatim>\<open>routes/weekly-theme-templates.ts\<close> and \<^verbatim>\<open>routes/weekly-theme-blocks.ts\<close>.
\<close>

section \<open>Daily plans\<close>

definition get_daily_plans :: "query \<Rightarrow> tbl database \<Rightarrow> reply" where
  "get_daily_plans q db = (Resp 200 (PRows (map (row_json DailyPlans)
     (order_by_desc [''date''] (live_rows DailyPlans [''date''] q db)))), db)"

definition post_daily_plan :: "env \<Rightarrow> body \<Rightarrow> tbl database \<Rightarrow> reply" where
  "post_daily_plan e b db =
     (if \<not> truthy (b ''date'') then bad_request ''date is required'' db
      else case bind_param e (b ''date'') of
        None \<Rightarrow> (Resp 500 (PException BindError), db)
      | Some d \<Rightarrow>
        if find_row DailyPlans (\<lambda>r. d \<noteq> Null \<and> r ''date'' = d \<and> is_live r) db \<noteq> None
        then (Resp 409 (PError ''A daily plan already exists for this date''), db)
        else let i = gen_id e 0; ts = JStr (now_at e 0) in
          create e DailyPlans i
            [(''id'', JStr i), (''date'', b ''date''),
             (''available_minutes'', nullish (b ''available_minutes'') (JNum 480)),
             (''buffer_percent'', nullish (b ''buffer_percent'') (JNum 20)),
             (''created_at'', ts), (''updated_at'', ts)] db)"

definition get_daily_plan :: "string \<Rightarrow> tbl database \<Rightarrow> reply" where
  "get_daily_plan i db = get_resource DailyPlans ''Daily plan not found'' i db"

definition daily_plan_fields :: "string list" where
  "daily_plan_fields = [''available_minutes'', ''buffer_percent'', ''reflection_note'',
     ''morning_ritual_completed_at'', ''close_out_completed_at'']"

definition patch_daily_plan :: "env \<Rightarrow> string \<Rightarrow> body \<Rightarrow> tbl database \<Rightarrow> reply" where
  "patch_daily_plan e i b db =
     patch_resource e DailyPlans daily_plan_fields ''Daily plan not found'' i b db"

text \<open>A soft delete with one cascading UPDATE in the same transaction.\<close>

definition delete_with_children ::
  "env \<Rightarrow> tbl \<Rightarrow> string \<Rightarrow> tbl \<Rightarrow> string \<Rightarrow> string \<Rightarrow> tbl database \<Rightarrow> reply" where
  "delete_with_children e t msg child c i db = (case find_live t i db of
       None \<Rightarrow> not_found msg db
     | Some r \<Rightarrow> finish 200 (bindE (run_update e t (tombstone e) (by_id i) db)
          (cascade e child c (Text i))) (\<lambda>_. PDeleted) db)"

definition delete_daily_plan :: "env \<Rightarrow> string \<Rightarrow> tbl database \<Rightarrow> reply" where
  "delete_daily_plan e i db =
     delete_with_children e DailyPlans ''Daily plan not found'' TimeBlocks ''daily_plan_id'' i db"

section \<open>Time blocks\<close>

definition get_time_blocks :: "query \<Rightarrow> tbl database \<Rightarrow> reply" where
  "get_time_blocks q db =
     list_resource TimeBlocks [''daily_plan_id''] [''start_time'', ''sort_order''] q db"

definition post_time_block :: "env \<Rightarrow> body \<Rightarrow> tbl database \<Rightarrow> reply" where
  "post_time_block e b db =
     (if \<not> truthy (b ''daily_plan_id'') \<or> \<not> truthy (b ''start_time'') \<or> \<not> truthy (b ''end_time'')
      then bad_request ''daily_plan_id, start_time, and end_time are required'' db
      else let i = gen_id e 0; ts = JStr (now_at e 0) in
        create e TimeBlocks i
          [(''id'', JStr i), (''daily_plan_id'', b ''daily_plan_id''),
           (''domain_id'', nullish (b ''domain_id'') JNull),
           (''start_time'', b ''start_time''), (''end_time'', b ''end_time''),
           (''theme'', nullish (b ''theme'') JNull),
           (''task_ids'', json_or_empty e (b ''task_ids'')),
           (''sort_order'', nullish (b ''sort_order'') (JNum 0)),
           (''created_at'', ts), (''updated_at'', ts)] db)"

definition get_time_block :: "string \<Rightarrow> tbl database \<Rightarrow> reply" where
  "get_time_block i db = get_resource TimeBlocks ''Time block not found'' i db"

definition time_block_fields :: "string list" where
  "time_block_fields = [''daily_plan_id'', ''domain_id'', ''start_time'', ''end_time'', ''theme'',
     ''sort_order'']"

definition patch_time_block :: "env \<Rightarrow> string \<Rightarrow> body \<Rightarrow> tbl database \<Rightarrow> reply" where
  "patch_time_block e i b db = (case find_live TimeBlocks i db of
       None \<Rightarrow> not_found ''Time block not found'' db
     | Some r \<Rightarrow>
         save e TimeBlocks (collect_updates time_block_fields b @ json_update e ''task_ids'' b) i db)"

definition delete_time_block :: "env \<Rightarrow> string \<Rightarrow> tbl database \<Rightarrow> reply" where
  "delete_time_block e i db = delete_resource e TimeBlocks ''Time block not found'' i db"

section \<open>Calendar events\<close>

definition valid_sources :: "string list" where
  "valid_sources = [''manual'', ''caldav'', ''ical_import'']"

definition get_calendar_events :: "query \<Rightarrow> tbl database \<Rightarrow> reply" where
  "get_calendar_events q db =
     list_resource CalendarEvents [''date'', ''domain_id''] [''date'', ''start_time''] q db"

text \<open>\<^verbatim>\<open>v !== undefined && !xs.includes(v)\<close>\<close>

definition invalid_if_given :: "string list \<Rightarrow> js \<Rightarrow> bool" where
  "invalid_if_given xs v \<longleftrightarrow> v \<noteq> Undefined \<and> \<not> includes_str xs v"

definition post_calendar_event :: "env \<Rightarrow> body \<Rightarrow> tbl database \<Rightarrow> reply" where
  "post_calendar_event e b db =
     (if \<not> truthy (b ''title'') \<or> \<not> truthy (b ''date'') \<or> \<not> truthy (b ''start_time'')
         \<or> \<not> truthy (b ''end_time'') \<or> b ''duration_minutes'' = Undefined
      then bad_request ''title, date, start_time, end_time, and duration_minutes are required'' db
      else if invalid_if_given valid_sources (b ''source'')
      then bad_request (one_of_msg ''source'' valid_sources) db
      else let i = gen_id e 0; ts = JStr (now_at e 0) in
        create e CalendarEvents i
          [(''id'', JStr i), (''title'', b ''title''), (''date'', b ''date''),
           (''start_time'', b ''start_time''), (''end_time'', b ''end_time''),
           (''duration_minutes'', b ''duration_minutes''),
           (''is_recurring'', nullish (b ''is_recurring'') (JNum 0)),
           (''recurrence_rule'', nullish (b ''recurrence_rule'') JNull),
           (''source'', nullish (b ''source'') (JStr ''manual'')),
           (''external_id'', nullish (b ''external_id'') JNull),
           (''domain_id'', nullish (b ''domain_id'') JNull),
           (''created_at'', ts), (''updated_at'', ts)] db)"

definition calendar_event_fields :: "string list" where
  "calendar_event_fields = [''title'', ''date'', ''start_time'', ''end_time'', ''duration_minutes'',
     ''is_recurring'', ''recurrence_rule'', ''source'', ''external_id'', ''domain_id'']"

definition patch_calendar_event :: "env \<Rightarrow> string \<Rightarrow> body \<Rightarrow> tbl database \<Rightarrow> reply" where
  "patch_calendar_event e i b db = (case find_live CalendarEvents i db of
       None \<Rightarrow> not_found ''Calendar event not found'' db
     | Some r \<Rightarrow>
         if invalid_if_given valid_sources (b ''source'')
         then bad_request (one_of_msg ''source'' valid_sources) db
         else save e CalendarEvents (collect_updates calendar_event_fields b) i db)"

definition delete_calendar_event :: "env \<Rightarrow> string \<Rightarrow> tbl database \<Rightarrow> reply" where
  "delete_calendar_event e i db = delete_resource e CalendarEvents ''Calendar event not found'' i db"

section \<open>Seasonal configuration\<close>

definition get_seasonal_configs :: "query \<Rightarrow> tbl database \<Rightarrow> reply" where
  "get_seasonal_configs q db = list_resource SeasonalConfig [] [''key''] q db"

definition post_seasonal_config :: "env \<Rightarrow> body \<Rightarrow> tbl database \<Rightarrow> reply" where
  "post_seasonal_config e b db =
     (if \<not> truthy (b ''key'') \<or> \<not> truthy (b ''value'')
      then bad_request ''key and value are required'' db
      else let i = gen_id e 0; ts = JStr (now_at e 0) in
        create e SeasonalConfig i
          [(''id'', JStr i), (''key'', b ''key''), (''value'', b ''value''),
           (''year'', nullish (b ''year'') JNull), (''notes'', nullish (b ''notes'') JNull),
           (''created_at'', ts), (''updated_at'', ts)] db)"

definition get_seasonal_config :: "string \<Rightarrow> tbl database \<Rightarrow> reply" where
  "get_seasonal_config i db = get_resource SeasonalConfig ''Config not found'' i db"

definition seasonal_config_fields :: "string list" where
  "seasonal_config_fields = [''key'', ''value'', ''year'', ''notes'']"

definition patch_seasonal_config :: "env \<Rightarrow> string \<Rightarrow> body \<Rightarrow> tbl database \<Rightarrow> reply" where
  "patch_seasonal_config e i b db =
     patch_resource e SeasonalConfig seasonal_config_fields ''Config not found'' i b db"

definition delete_seasonal_config :: "env \<Rightarrow> string \<Rightarrow> tbl database \<Rightarrow> reply" where
  "delete_seasonal_config e i db = delete_resource e SeasonalConfig ''Config not found'' i db"

section \<open>Weekly theme templates\<close>

definition get_weekly_templates :: "query \<Rightarrow> tbl database \<Rightarrow> reply" where
  "get_weekly_templates q db = list_resource WeeklyTemplates [] [''created_at''] q db"

definition post_weekly_template :: "env \<Rightarrow> body \<Rightarrow> tbl database \<Rightarrow> reply" where
  "post_weekly_template e b db =
     (if \<not> truthy (b ''name'') then bad_request ''name is required'' db
      else let i = gen_id e 0; ts = JStr (now_at e 0) in
        create e WeeklyTemplates i
          [(''id'', JStr i), (''name'', b ''name''),
           (''is_active'', nullish (b ''is_active'') (JNum 1)),
           (''created_at'', ts), (''updated_at'', ts)] db)"

definition get_weekly_template :: "string \<Rightarrow> tbl database \<Rightarrow> reply" where
  "get_weekly_template i db = get_resource WeeklyTemplates ''Template not found'' i db"

definition weekly_template_fields :: "string list" where
  "weekly_template_fields = [''name'', ''is_active'']"

definition patch_weekly_template :: "env \<Rightarrow> string \<Rightarrow> body \<Rightarrow> tbl database \<Rightarrow> reply" where
  "patch_weekly_template e i b db =
     patch_resource e WeeklyTemplates weekly_template_fields ''Template not found'' i b db"

definition delete_weekly_template :: "env \<Rightarrow> string \<Rightarrow> tbl database \<Rightarrow> reply" where
  "delete_weekly_template e i db =
     delete_with_children e WeeklyTemplates ''Template not found'' WeeklyBlocks ''template_id'' i db"

section \<open>Weekly theme blocks\<close>

definition get_weekly_blocks :: "query \<Rightarrow> tbl database \<Rightarrow> reply" where
  "get_weekly_blocks q db = list_resource WeeklyBlocks [''template_id'']
     [''day_of_week'', ''start_time'', ''sort_order''] q db"

definition post_weekly_block :: "env \<Rightarrow> body \<Rightarrow> tbl database \<Rightarrow> reply" where
  "post_weekly_block e b db =
     (if \<not> truthy (b ''template_id'') \<or> b ''day_of_week'' = Undefined
         \<or> \<not> truthy (b ''start_time'') \<or> \<not> truthy (b ''end_time'')
      then bad_request ''template_id, day_of_week, start_time, and end_time are required'' db
      else let i = gen_id e 0; ts = JStr (now_at e 0) in
        create e WeeklyBlocks i
          [(''id'', JStr i), (''template_id'', b ''template_id''),
           (''day_of_week'', b ''day_of_week''),
           (''start_time'', b ''start_time''), (''end_time'', b ''end_time''),
           (''domain_id'', nullish (b ''domain_id'') JNull),
           (''theme'', nullish (b ''theme'') JNull),
           (''sort_order'', nullish (b ''sort_order'') (JNum 0)),
           (''created_at'', ts), (''updated_at'', ts)] db)"

definition get_weekly_block :: "string \<Rightarrow> tbl database \<Rightarrow> reply" where
  "get_weekly_block i db = get_resource WeeklyBlocks ''Block not found'' i db"

definition weekly_block_fields :: "string list" where
  "weekly_block_fields = [''template_id'', ''day_of_week'', ''start_time'', ''end_time'',
     ''domain_id'', ''theme'', ''sort_order'']"

definition patch_weekly_block :: "env \<Rightarrow> string \<Rightarrow> body \<Rightarrow> tbl database \<Rightarrow> reply" where
  "patch_weekly_block e i b db =
     patch_resource e WeeklyBlocks weekly_block_fields ''Block not found'' i b db"

definition delete_weekly_block :: "env \<Rightarrow> string \<Rightarrow> tbl database \<Rightarrow> reply" where
  "delete_weekly_block e i db = delete_resource e WeeklyBlocks ''Block not found'' i db"

section \<open>Contracts\<close>

interpretation daily_plans: resource DailyPlans daily_plan_fields
  by unfold_locales (auto simp: daily_plan_fields_def fixed_cols_def)

interpretation time_blocks: resource TimeBlocks "time_block_fields @ [''task_ids'']"
  by unfold_locales (auto simp: time_block_fields_def fixed_cols_def)

interpretation calendar_events: resource CalendarEvents calendar_event_fields
  by unfold_locales (auto simp: calendar_event_fields_def fixed_cols_def)

interpretation seasonal_config: resource SeasonalConfig seasonal_config_fields
  by unfold_locales (auto simp: seasonal_config_fields_def fixed_cols_def)

interpretation weekly_templates: resource WeeklyTemplates weekly_template_fields
  by unfold_locales (auto simp: weekly_template_fields_def fixed_cols_def)

interpretation weekly_blocks: resource WeeklyBlocks weekly_block_fields
  by unfold_locales (auto simp: weekly_block_fields_def fixed_cols_def)

lemmas planning_defs = get_daily_plans_def post_daily_plan_def get_daily_plan_def
  patch_daily_plan_def delete_daily_plan_def get_time_blocks_def post_time_block_def
  get_time_block_def patch_time_block_def delete_time_block_def get_calendar_events_def
  post_calendar_event_def patch_calendar_event_def delete_calendar_event_def
  get_seasonal_configs_def post_seasonal_config_def get_seasonal_config_def
  patch_seasonal_config_def delete_seasonal_config_def get_weekly_templates_def
  post_weekly_template_def get_weekly_template_def patch_weekly_template_def
  delete_weekly_template_def get_weekly_blocks_def post_weekly_block_def get_weekly_block_def
  patch_weekly_block_def delete_weekly_block_def

text \<open>The delete that takes one table of children along.\<close>

lemma delete_with_children_marks:
  assumes r: "find_live t i db = Some r"
    and run: "bindE (run_update e t (tombstone e) (by_id i) db) (cascade e child c (Text i)) = Inr db'"
  shows "marks db db'"
  using run
  by (elim mark.bindE_rel tombstone_marks)
    (auto intro: cascade_marks dest: find_live_by_id(2) [OF _ r])

lemma delete_with_children_evo [evolve]: "evo db (snd (delete_with_children e t msg child c i db))"
proof (cases "find_live t i db")
  case (Some r)
  show ?thesis
    unfolding delete_with_children_def Some option.case
    by (rule finish_evo) (rule marks_evo [OF delete_with_children_marks [OF Some]])
qed (simp add: delete_with_children_def)

lemma delete_with_children_refusal [simp, refusal]:
  "refusal_clean (delete_with_children e t msg child c i db) db"
  by (simp add: delete_with_children_def split: option.split)

lemma delete_with_children_cleared:
  assumes run: "delete_with_children e t msg child c i db = (Resp 200 p, db')"
    and e: "driver_ok e" and "t \<noteq> child" and "c \<notin> {''deleted_at'', ''updated_at''}"
  shows "find_live t i db' = None \<and> dead_below child c (Text i) db'"
proof -
  obtain db1 where 1: "run_update e t (tombstone e) (by_id i) db = Inr db1"
    and 2: "cascade e child c (Text i) db1 = Inr db'"
    using run by (auto simp: delete_with_children_def not_found_def finish_def
        split: option.splits sum.splits)
  have "find_live t i db' = None"
    using tombstone_find_live [OF e 1] cascade_same [OF 2 \<open>t \<noteq> child\<close>]
    by (simp add: find_live_None_iff)
  then show ?thesis using cascade_dead [OF e 2 assms(4)] by simp
qed

lemma planning_evo [evolve]:
  "evo db (snd (get_daily_plans q db))"
  "evo db (snd (post_daily_plan e b db))"
  "evo db (snd (get_daily_plan i db))"
  "evo db (snd (patch_daily_plan e i b db))"
  "evo db (snd (delete_daily_plan e i db))"
  "evo db (snd (get_time_blocks q db))"
  "evo db (snd (post_time_block e b db))"
  "evo db (snd (get_time_block i db))"
  "evo db (snd (patch_time_block e i b db))"
  "evo db (snd (delete_time_block e i db))"
  "evo db (snd (get_calendar_events q db))"
  "evo db (snd (post_calendar_event e b db))"
  "evo db (snd (patch_calendar_event e i b db))"
  "evo db (snd (delete_calendar_event e i db))"
  "evo db (snd (get_seasonal_configs q db))"
  "evo db (snd (post_seasonal_config e b db))"
  "evo db (snd (get_seasonal_config i db))"
  "evo db (snd (patch_seasonal_config e i b db))"
  "evo db (snd (delete_seasonal_config e i db))"
  "evo db (snd (get_weekly_templates q db))"
  "evo db (snd (post_weekly_template e b db))"
  "evo db (snd (get_weekly_template i db))"
  "evo db (snd (patch_weekly_template e i b db))"
  "evo db (snd (delete_weekly_template e i db))"
  "evo db (snd (get_weekly_blocks q db))"
  "evo db (snd (post_weekly_block e b db))"
  "evo db (snd (get_weekly_block i db))"
  "evo db (snd (patch_weekly_block e i b db))"
  "evo db (snd (delete_weekly_block e i db))"
  by (simp_all add: planning_defs create_evo delete_evo Let_def daily_plans.patch_evo
      time_blocks.save_json_evo calendar_events.patch_evo seasonal_config.patch_evo
      weekly_templates.patch_evo weekly_blocks.patch_evo delete_with_children_evo
      calendar_events.save_evo' collect_updates_keys split: sum.split option.split)

lemma planning_refusal [refusal]:
  "refusal_clean (get_daily_plans q db) db"
  "refusal_clean (post_daily_plan e b db) db"
  "refusal_clean (get_daily_plan i db) db"
  "refusal_clean (patch_daily_plan e i b db) db"
  "refusal_clean (delete_daily_plan e i db) db"
  "refusal_clean (get_time_blocks q db) db"
  "refusal_clean (post_time_block e b db) db"
  "refusal_clean (get_time_block i db) db"
  "refusal_clean (patch_time_block e i b db) db"
  "refusal_clean (delete_time_block e i db) db"
  "refusal_clean (get_calendar_events q db) db"
  "refusal_clean (post_calendar_event e b db) db"
  "refusal_clean (patch_calendar_event e i b db) db"
  "refusal_clean (delete_calendar_event e i db) db"
  "refusal_clean (get_seasonal_configs q db) db"
  "refusal_clean (post_seasonal_config e b db) db"
  "refusal_clean (get_seasonal_config i db) db"
  "refusal_clean (patch_seasonal_config e i b db) db"
  "refusal_clean (delete_seasonal_config e i db) db"
  "refusal_clean (get_weekly_templates q db) db"
  "refusal_clean (post_weekly_template e b db) db"
  "refusal_clean (get_weekly_template i db) db"
  "refusal_clean (patch_weekly_template e i b db) db"
  "refusal_clean (delete_weekly_template e i db) db"
  "refusal_clean (get_weekly_blocks q db) db"
  "refusal_clean (post_weekly_block e b db) db"
  "refusal_clean (get_weekly_block i db) db"
  "refusal_clean (patch_weekly_block e i b db) db"
  "refusal_clean (delete_weekly_block e i db) db"
  by (simp_all add: planning_defs Let_def split: sum.split option.split)

section \<open>Footprints\<close>

lemma delete_with_children_writes [simp]:
  "t \<in> T \<Longrightarrow> child \<in> T \<Longrightarrow> writes_only T db (snd (delete_with_children e t msg child c i db))"
  by (auto simp: delete_with_children_def intro!: finish_writes split: option.split)
    (blast intro: writes.trans run_update_writes cascade_writes)

lemma planning_writes [simp, footprint]:
  "writes_only {DailyPlans} db (snd (post_daily_plan e b db))"
  "writes_only {DailyPlans} db (snd (patch_daily_plan e i b db))"
  "writes_only {DailyPlans, TimeBlocks} db (snd (delete_daily_plan e i db))"
  "writes_only {TimeBlocks} db (snd (post_time_block e b db))"
  "writes_only {TimeBlocks} db (snd (patch_time_block e i b db))"
  "writes_only {TimeBlocks} db (snd (delete_time_block e i db))"
  "writes_only {CalendarEvents} db (snd (post_calendar_event e b db))"
  "writes_only {CalendarEvents} db (snd (patch_calendar_event e i b db))"
  "writes_only {CalendarEvents} db (snd (delete_calendar_event e i db))"
  "writes_only {SeasonalConfig} db (snd (post_seasonal_config e b db))"
  "writes_only {SeasonalConfig} db (snd (patch_seasonal_config e i b db))"
  "writes_only {SeasonalConfig} db (snd (delete_seasonal_config e i db))"
  "writes_only {WeeklyTemplates} db (snd (post_weekly_template e b db))"
  "writes_only {WeeklyTemplates} db (snd (patch_weekly_template e i b db))"
  "writes_only {WeeklyTemplates, WeeklyBlocks} db (snd (delete_weekly_template e i db))"
  "writes_only {WeeklyBlocks} db (snd (post_weekly_block e b db))"
  "writes_only {WeeklyBlocks} db (snd (patch_weekly_block e i b db))"
  "writes_only {WeeklyBlocks} db (snd (delete_weekly_block e i db))"
  by (simp_all add: planning_defs Let_def split: sum.split option.split)

lemma planning_reads [simp]:
  "snd (get_daily_plans q db) = db"
  "snd (get_daily_plan i db) = db"
  "snd (get_time_blocks q db) = db"
  "snd (get_time_block i db) = db"
  "snd (get_calendar_events q db) = db"
  "snd (get_seasonal_configs q db) = db"
  "snd (get_seasonal_config i db) = db"
  "snd (get_weekly_templates q db) = db"
  "snd (get_weekly_template i db) = db"
  "snd (get_weekly_blocks q db) = db"
  "snd (get_weekly_block i db) = db"
  by (simp_all add: planning_defs)

end
