(* ===== verification/Tagging.thy ===== *)
theory Tagging
  imports Catalog Planning
begin

text \<open>
  The routers \<^verbatim>\<open>routes/tags.ts\<close>, \<^verbatim>\<open>routes/task-tags.ts\<close> and \<^verbatim>\<open>routes/task-events.ts\<close>.
\<close>

section \<open>Tags\<close>

definition get_tags :: "query \<Rightarrow> tbl database \<Rightarrow> reply" where
  "get_tags q db = list_resource Tags [] [''sort_order''] q db"

definition post_tag :: "env \<Rightarrow> body \<Rightarrow> tbl database \<Rightarrow> reply" where
  "post_tag e b db =
     (if \<not> truthy (b ''name'') then bad_request ''name is required'' db
      else let i = gen_id e 0; ts = JStr (now_at e 0) in
        create e Tags i
          [(''id'', JStr i), (''name'', b ''name''), (''color'', nullish (b ''color'') JNull),
           (''sort_order'', nullish (b ''sort_order'') (JNum 0)),
           (''created_at'', ts), (''updated_at'', ts)] db)"

definition get_tag :: "string \<Rightarrow> tbl database \<Rightarrow> reply" where
  "get_tag i db = get_resource Tags ''Tag not found'' i db"

definition tag_fields :: "string list" where
  "tag_fields = [''name'', ''color'', ''sort_order'']"

definition patch_tag :: "env \<Rightarrow> string \<Rightarrow> body \<Rightarrow> tbl database \<Rightarrow> reply" where
  "patch_tag e i b db = patch_resource e Tags tag_fields ''Tag not found'' i b db"

definition delete_tag :: "env \<Rightarrow> string \<Rightarrow> tbl database \<Rightarrow> reply" where
  "delete_tag e i db = delete_with_children e Tags ''Tag not found'' TaskTags ''tag_id'' i db"

section \<open>Task tags\<close>

definition get_task_tags :: "query \<Rightarrow> tbl database \<Rightarrow> reply" where
  "get_task_tags q db = list_resource TaskTags [''task_id'', ''tag_id''] [''created_at''] q db"

text \<open>\<^verbatim>\<open>SELECT id FROM task_tags WHERE task_id = ? AND tag_id = ? AND deleted_at IS NULL\<close>\<close>

definition existing_link :: "env \<Rightarrow> js \<Rightarrow> js \<Rightarrow> tbl database \<Rightarrow> bool" where
  "existing_link e v w db = (\<exists>r \<in> set (tab db TaskTags). is_live r \<and>
     r ''task_id'' \<noteq> Null \<and> bind_param e v = Some (r ''task_id'') \<and>
     r ''tag_id'' \<noteq> Null \<and> bind_param e w = Some (r ''tag_id''))"

definition post_task_tag :: "env \<Rightarrow> body \<Rightarrow> tbl database \<Rightarrow> reply" where
  "post_task_tag e b db =
     (if \<not> truthy (b ''task_id'') \<or> \<not> truthy (b ''tag_id'')
      then bad_request ''task_id and tag_id are required'' db
      else case live_ref e Tasks (b ''task_id'') db of
        Inl err \<Rightarrow> (Resp 500 (PException err), db)
      | Inr None \<Rightarrow> bad_request ''Task not found'' db
      | Inr (Some task) \<Rightarrow> (case live_ref e Tags (b ''tag_id'') db of
          Inl err \<Rightarrow> (Resp 500 (PException err), db)
        | Inr None \<Rightarrow> bad_request ''Tag not found'' db
        | Inr (Some tag) \<Rightarrow>
            if existing_link e (b ''task_id'') (b ''tag_id'') db
            then (Resp 409 (PError ''This task-tag association already exists''), db)
            else let i = gen_id e 0; ts = JStr (now_at e 0) in
              create e TaskTags i
                [(''id'', JStr i), (''task_id'', b ''task_id''), (''tag_id'', b ''tag_id''),
                 (''created_at'', ts), (''updated_at'', ts)] db))"

definition delete_task_tag :: "env \<Rightarrow> string \<Rightarrow> tbl database \<Rightarrow> reply" where
  "delete_task_tag e i db = delete_resource e TaskTags ''Task-tag association not found'' i db"

section \<open>Task events\<close>

definition valid_event_types :: "string list" where
  "valid_event_types = [''created'', ''status_changed'', ''assigned_to_plan'', ''removed_from_plan'',
     ''rescheduled'', ''completed'', ''dropped'', ''dependency_added'',
     ''dependency_removed'', ''note_updated'', ''estimate_changed'']"

definition get_task_events :: "query \<Rightarrow> tbl database \<Rightarrow> reply" where
  "get_task_events q db = (Resp 200 (PRows (map (row_json TaskEvents)
     (order_by_desc [''occurred_at'']
       (live_rows TaskEvents [''task_id'', ''daily_plan_id'', ''event_type''] q db)))), db)"

definition post_task_event :: "env \<Rightarrow> body \<Rightarrow> tbl database \<Rightarrow> reply" where
  "post_task_event e b db =
     (if \<not> truthy (b ''task_id'') \<or> \<not> truthy (b ''event_type'')
      then bad_request ''task_id and event_type are required'' db
      else if \<not> includes_str valid_event_types (b ''event_type'')
      then bad_request (one_of_msg ''event_type'' valid_event_types) db
      else let i = gen_id e 0; ts = JStr (now_at e 0) in
        create e TaskEvents i
          [(''id'', JStr i), (''task_id'', b ''task_id''), (''event_type'', b ''event_type''),
           (''old_value'', nullish (b ''old_value'') JNull),
           (''new_value'', nullish (b ''new_value'') JNull),
           (''occurred_at'', nullish (b ''occurred_at'') ts),
           (''daily_plan_id'', nullish (b ''daily_plan_id'') JNull),
           (''created_at'', ts), (''updated_at'', ts)] db)"

definition get_task_event :: "string \<Rightarrow> tbl database \<Rightarrow> reply" where
  "get_task_event i db = get_resource TaskEvents ''Task event not found'' i db"

definition task_event_fields :: "string list" where
  "task_event_fields = [''event_type'', ''old_value'', ''new_value'', ''occurred_at'', ''daily_plan_id'']"

definition patch_task_event :: "env \<Rightarrow> string \<Rightarrow> body \<Rightarrow> tbl database \<Rightarrow> reply" where
  "patch_task_event e i b db = (case find_live TaskEvents i db of
       None \<Rightarrow> not_found ''Task event not found'' db
     | Some r \<Rightarrow>
         if invalid_if_given valid_event_types (b ''event_type'')
         then bad_request (one_of_msg ''event_type'' valid_event_types) db
         else save e TaskEvents (collect_updates task_event_fields b) i db)"

definition delete_task_event :: "env \<Rightarrow> string \<Rightarrow> tbl database \<Rightarrow> reply" where
  "delete_task_event e i db = delete_resource e TaskEvents ''Task event not found'' i db"

section \<open>Contracts\<close>

interpretation tags: resource Tags tag_fields
  by unfold_locales (auto simp: tag_fields_def fixed_cols_def)

interpretation task_events: resource TaskEvents task_event_fields
  by unfold_locales (auto simp: task_event_fields_def fixed_cols_def)

lemmas tagging_defs = get_tags_def post_tag_def get_tag_def patch_tag_def delete_tag_def
  get_task_tags_def post_task_tag_def delete_task_tag_def get_task_events_def
  post_task_event_def get_task_event_def patch_task_event_def delete_task_event_def

lemma tagging_evo [evolve]:
  "evo db (snd (get_tags q db))"
  "evo db (snd (post_tag e b db))"
  "evo db (snd (get_tag i db))"
  "evo db (snd (patch_tag e i b db))"
  "evo db (snd (delete_tag e i db))"
  "evo db (snd (get_task_tags q db))"
  "evo db (snd (post_task_tag e b db))"
  "evo db (snd (delete_task_tag e i db))"
  "evo db (snd (get_task_events q db))"
  "evo db (snd (post_task_event e b db))"
  "evo db (snd (get_task_event i db))"
  "evo db (snd (patch_task_event e i b db))"
  "evo db (snd (delete_task_event e i db))"
  by (simp_all add: tagging_defs create_evo delete_evo Let_def tags.patch_evo
      task_events.patch_evo delete_with_children_evo task_events.save_evo' collect_updates_keys
      split: sum.split option.split)

lemma tagging_refusal [refusal]:
  "refusal_clean (get_tags q db) db"
  "refusal_clean (post_tag e b db) db"
  "refusal_clean (get_tag i db) db"
  "refusal_clean (patch_tag e i b db) db"
  "refusal_clean (delete_tag e i db) db"
  "refusal_clean (get_task_tags q db) db"
  "refusal_clean (post_task_tag e b db) db"
  "refusal_clean (delete_task_tag e i db) db"
  "refusal_clean (get_task_events q db) db"
  "refusal_clean (post_task_event e b db) db"
  "refusal_clean (get_task_event i db) db"
  "refusal_clean (patch_task_event e i b db) db"
  "refusal_clean (delete_task_event e i db) db"
  by (simp_all add: tagging_defs Let_def split: sum.split option.split)

section \<open>Footprints\<close>

lemma tagging_writes [simp, footprint]:
  "writes_only {Tags} db (snd (post_tag e b db))"
  "writes_only {Tags} db (snd (patch_tag e i b db))"
  "writes_only {Tags, TaskTags} db (snd (delete_tag e i db))"
  "writes_only {TaskTags} db (snd (post_task_tag e b db))"
  "writes_only {TaskTags} db (snd (delete_task_tag e i db))"
  "writes_only {TaskEvents} db (snd (post_task_event e b db))"
  "writes_only {TaskEvents} db (snd (patch_task_event e i b db))"
  "writes_only {TaskEvents} db (snd (delete_task_event e i db))"
  by (simp_all add: tagging_defs Let_def split: sum.split option.split)

lemma tagging_reads [simp]:
  "snd (get_tags q db) = db"
  "snd (get_tag i db) = db"
  "snd (get_task_tags q db) = db"
  "snd (get_task_events q db) = db"
  "snd (get_task_event i db) = db"
  by (simp_all add: tagging_defs)

end
