(* ===== verification/Timestamps.thy ===== *)
theory Timestamps
  imports Shared_Utils
begin

text \<open>
  ECMAScript time values, milliseconds since 1970-01-01T00:00Z, as \<^verbatim>\<open>now()\<close> of \<^verbatim>\<open>dates.ts\<close> writes them
  with \<^verbatim>\<open>toISOString\<close>, and the local date of a time value.  The time zone is a parameter: \<open>to_local\<close> and
  \<open>to_utc\<close> are ECMAScript's LocalTime and UTC.  The main lemma says that the texts of two instants compare
  like the instants.
\<close>

section \<open>Time values\<close>

definition ms_per_day :: int where
  "ms_per_day = 86400000"

definition day_of :: "int \<Rightarrow> int" where
  "day_of t = t div ms_per_day"

definition time_in_day :: "int \<Rightarrow> int" where
  "time_in_day t = t mod ms_per_day"

text \<open>\<^verbatim>\<open>d.getDate()\<close>, and the time value \<^verbatim>\<open>d.setDate(k)\<close> gives \<^verbatim>\<open>d\<close>.\<close>

definition local_date :: "(int \<Rightarrow> int) \<Rightarrow> int \<Rightarrow> int" where
  "local_date to_local t = date_of (day_of (to_local t))"

definition set_local_date :: "(int \<Rightarrow> int) \<Rightarrow> (int \<Rightarrow> int) \<Rightarrow> int \<Rightarrow> int \<Rightarrow> int" where
  "set_local_date to_local to_utc t k = (let l = to_local t; d = day_of l in
     to_utc (make_day (year_of d) (month_of d) k * ms_per_day + time_in_day l))"

text \<open>\<^verbatim>\<open>toISOString\<close> of a valid time value.\<close>

definition pad :: "nat \<Rightarrow> int \<Rightarrow> string" where
  "pad k i = pad_start k (CHR ''0'') (int_str i)"

definition iso_year :: "int \<Rightarrow> string" where
  "iso_year y = (if 0 \<le> y \<and> y \<le> 9999 then pad 4 y else (if y < 0 then ''-'' else ''+'') @ pad 6 \<bar>y\<bar>)"

definition iso_clock :: "int \<Rightarrow> string" where
  "iso_clock t = pad 2 (t div 3600000) @ '':'' @ pad 2 (t div 60000 mod 60) @ '':'' @
     pad 2 (t div 1000 mod 60) @ ''.'' @ pad 3 (t mod 1000) @ ''Z''"

definition to_iso_string :: "int \<Rightarrow> string" where
  "to_iso_string t = (let d = day_of t in
     (iso_year (year_of d) @ ''-'' @ pad 2 (month_of d + 1) @ ''-'' @ pad 2 (date_of d)) @ ''T'' @ iso_clock (time_in_day t))"

section \<open>The date some days before\<close>

lemma set_local_date_back:
  assumes "to_local t = t + z"
  shows "set_local_date to_local to_utc t (local_date to_local t - k) = to_utc (t + z - k * ms_per_day)"
proof -
  have "make_day (year_of d) (month_of d) (date_of d - k) = d - k" for d
    using make_day_from [of d "- k"] by simp
  moreover have "(day_of l - k) * ms_per_day + time_in_day l = l - k * ms_per_day" for l
    by (simp add: day_of_def time_in_day_def left_diff_distrib minus_div_mult_eq_mod [symmetric])
  ultimately show ?thesis by (simp add: set_local_date_def local_date_def Let_def assms)
qed

section \<open>The order of time stamps\<close>

lemma nat_str_length: "n < 10 ^ Suc k \<Longrightarrow> length (nat_str n) \<le> Suc k"
proof (induction k arbitrary: n)
  case 0
  then show ?case by (subst nat_str.simps) simp
next
  case (Suc k)
  then have "n div 10 < 10 ^ Suc k" by (simp add: div_less_iff_less_mult)
  with Suc.IH [of "n div 10"] show ?case by (subst nat_str.simps) simp
qed

lemma pad_digits:
  assumes "0 \<le> i" and "i < 10 ^ Suc k"
  shows "length (pad (Suc k) i) = Suc k" and "list_all is_digit (pad (Suc k) i)"
    and "int (digits_nat (pad (Suc k) i)) = i"
proof -
  have "int (nat i) < int (10 ^ Suc k)" using assms by simp
  then have "nat i < 10 ^ Suc k" by (simp only: of_nat_less_iff)
  then show "length (pad (Suc k) i) = Suc k"
    using assms nat_str_length [of "nat i" k] by (simp add: pad_def pad_start_def int_str_def)
  have "list_all is_digit (replicate m (CHR ''0''))" for m
    by (induction m) (simp_all add: is_digit_def)
  then show "list_all is_digit (pad (Suc k) i)"
    using assms nat_str_digits [of "nat i"] by (simp add: pad_def pad_start_def int_str_def)
  show "int (digits_nat (pad (Suc k) i)) = i"
    using assms by (simp add: pad_def pad_start_def int_str_def)
qed

lemma pad_order:
  assumes "0 \<le> i" "i < 10 ^ Suc k" "0 \<le> j" "j < 10 ^ Suc k"
  shows "pad (Suc k) i < pad (Suc k) j \<longleftrightarrow> i < j" and "pad (Suc k) i = pad (Suc k) j \<longleftrightarrow> i = j"
proof -
  note p = pad_digits [OF assms(1,2)] and q = pad_digits [OF assms(3,4)]
  have len: "length (pad (Suc k) i) = length (pad (Suc k) j)" using p(1) q(1) by simp
  note d = digits_less [OF len p(2) q(2)]
  show "pad (Suc k) i < pad (Suc k) j \<longleftrightarrow> i < j" unfolding d(1) using p(3) q(3) by linarith
  show "pad (Suc k) i = pad (Suc k) j \<longleftrightarrow> i = j" unfolding d(2) using p(3) q(3) by linarith
qed

lemma fields_of_time:
  assumes "0 \<le> t" and "t < ms_per_day"
  obtains h m s x where "t = 3600000 * h + 60000 * m + 1000 * s + x" "0 \<le> h" "h < 24" "0 \<le> m" "m < 60" "0 \<le> s" "s < 60"
    "0 \<le> x" "x < 1000" "iso_clock t = pad 2 h @ '':'' @ pad 2 m @ '':'' @ pad 2 s @ ''.'' @ pad 3 x @ ''Z''"
proof
  show "iso_clock t = pad 2 (t div 3600000) @ '':'' @ pad 2 (t div 60000 mod 60) @ '':'' @
     pad 2 (t div 1000 mod 60) @ ''.'' @ pad 3 (t mod 1000) @ ''Z''" by (simp add: iso_clock_def)
  have "t div 60000 = t div 1000 div 60" "t div 3600000 = t div 1000 div 60 div 60"
    by (simp_all add: zdiv_zmult2_eq [symmetric])
  note split = this
  have "t = 1000 * (t div 1000) + t mod 1000" "t div 1000 = 60 * (t div 1000 div 60) + t div 1000 mod 60"
    "t div 1000 div 60 = 60 * (t div 1000 div 60 div 60) + t div 1000 div 60 mod 60" by simp_all
  then show "t = 3600000 * (t div 3600000) + 60000 * (t div 60000 mod 60) + 1000 * (t div 1000 mod 60) + t mod 1000"
    unfolding split by linarith
  show "t div 3600000 < 24" using assms by (simp add: ms_per_day_def div_less_iff_less_mult)
qed (use assms in \<open>simp_all add: pos_imp_zdiv_nonneg_iff\<close>)

lemma iso_clock_order:
  assumes t: "0 \<le> t" "t < ms_per_day" and u: "0 \<le> u" "u < ms_per_day"
  shows "iso_clock t < iso_clock u \<longleftrightarrow> t < u"
proof -
  obtain h m s x where a: "t = 3600000 * h + 60000 * m + 1000 * s + x" "0 \<le> h" "h < 24" "0 \<le> m" "m < 60" "0 \<le> s" "s < 60"
    "0 \<le> x" "x < 1000" "iso_clock t = pad 2 h @ '':'' @ pad 2 m @ '':'' @ pad 2 s @ ''.'' @ pad 3 x @ ''Z''"
    using t by (rule fields_of_time)
  obtain h' m' s' x' where b: "u = 3600000 * h' + 60000 * m' + 1000 * s' + x'" "0 \<le> h'" "h' < 24" "0 \<le> m'" "m' < 60"
    "0 \<le> s'" "s' < 60" "0 \<le> x'" "x' < 1000" "iso_clock u = pad 2 h' @ '':'' @ pad 2 m' @ '':'' @ pad 2 s' @ ''.'' @ pad 3 x' @ ''Z''"
    using u by (rule fields_of_time)
  have two: "length (pad 2 i) = 2" "(pad 2 i < pad 2 j) = (i < j)" "(pad 2 i = pad 2 j) = (i = j)"
    if "0 \<le> i" "i < 100" "0 \<le> j" "j < 100" for i j
    using pad_digits(1) [of i 1] pad_order [of i 1 j] that by (simp_all add: numeral_2_eq_2)
  have three: "length (pad 3 i) = 3" "(pad 3 i < pad 3 j) = (i < j)" "(pad 3 i = pad 3 j) = (i = j)"
    if "0 \<le> i" "i < 1000" "0 \<le> j" "j < 1000" for i j
    using pad_digits(1) [of i 2] pad_order [of i 2 j] that by (simp_all add: numeral_3_eq_3)
  have "iso_clock t < iso_clock u \<longleftrightarrow> h < h' \<or> h = h' \<and> (m < m' \<or> m = m' \<and> (s < s' \<or> s = s' \<and> x < x'))"
    unfolding a(10) b(10) using a(2-9) b(2-9) by (simp add: append_less two three)
  also have "\<dots> \<longleftrightarrow> t < u" using a(1-9) b(1-9) by (cases h h' rule: linorder_cases; cases m m' rule: linorder_cases;
      cases s s' rule: linorder_cases) linarith+
  finally show ?thesis .
qed

text \<open>The first instant with a year of more than four digits.\<close>

definition year_10000 :: int where
  "year_10000 = 253402300800000"

lemma years_of_instants:
  assumes "0 \<le> t" and "t < year_10000"
  shows "1970 \<le> year_of (day_of t)" and "year_of (day_of t) \<le> 9999"
proof -
  let ?n = "day_of t"
  have "0 \<le> ?n" "?n < 2932897"
    using assms by (simp_all add: day_of_def ms_per_day_def year_10000_def div_less_iff_less_mult pos_imp_zdiv_nonneg_iff)
  moreover have "day_from_year 1970 = 0" "day_from_year 10000 = 2932897" by (simp_all add: day_from_year_def)
  ultimately show "1970 \<le> year_of ?n" "year_of ?n \<le> 9999"
    using year_of_bounds [of ?n] day_from_year_mono [of "year_of ?n + 1" 1970] day_from_year_mono [of 10000 "year_of ?n"]
    by linarith+
qed

lemma to_iso_string_parts:
  assumes "0 \<le> t" and "t < year_10000"
  shows "to_iso_string t = format_date_iso (Some (day_of t)) @ ''T'' @ iso_clock (time_in_day t)"
    and "iso_date (format_date_iso (Some (day_of t))) = Some (day_of t)"
proof -
  let ?y = "year_of (day_of t)"
  note y = years_of_instants [OF assms]
  have "length (nat_str (nat ?y)) = 4" using y by (intro length_nat_str_year) simp_all
  then have "iso_year ?y = num_text (Some ?y)" using y by (simp add: iso_year_def pad_def pad_start_def num_text_def int_str_def)
  then show "to_iso_string t = format_date_iso (Some (day_of t)) @ ''T'' @ iso_clock (time_in_day t)"
    by (simp add: to_iso_string_def format_date_iso_def Let_def get_full_year_def get_month_def get_date_def pad_def num_text_def)
  show "iso_date (format_date_iso (Some (day_of t))) = Some (day_of t)" using y by (intro iso_date_format) simp_all
qed

lemma to_iso_string_order:
  assumes "0 \<le> t" "t < year_10000" "0 \<le> u" "u < year_10000"
  shows "to_iso_string t < to_iso_string u \<longleftrightarrow> t < u"
proof -
  note a = to_iso_string_parts [OF assms(1,2)] and b = to_iso_string_parts [OF assms(3,4)]
  let ?d = "format_date_iso (Some (day_of t))" and ?d' = "format_date_iso (Some (day_of u))"
  have len: "length ?d = length ?d'" using a(2) b(2) by (auto simp: iso_date_def split: if_splits)
  have eq: "?d = ?d' \<longleftrightarrow> day_of t = day_of u" using a(2) b(2) by (metis option.inject)
  have range: "0 \<le> time_in_day v" "time_in_day v < ms_per_day" for v by (simp_all add: time_in_day_def ms_per_day_def)
  have "to_iso_string t < to_iso_string u \<longleftrightarrow>
      day_of t < day_of u \<or> day_of t = day_of u \<and> time_in_day t < time_in_day u"
    unfolding a(1) b(1) append_less [OF len] iso_dates_order [OF a(2) b(2)] eq
    by (simp add: iso_clock_order [OF range range])
  moreover have split: "v = 86400000 * day_of v + time_in_day v" for v by (simp add: day_of_def time_in_day_def ms_per_day_def)
  have "day_of t < day_of u \<or> day_of t = day_of u \<and> time_in_day t < time_in_day u \<longleftrightarrow> t < u"
    using split [of t] split [of u] range [of t] range [of u] unfolding ms_per_day_def
    by (cases "day_of t" "day_of u" rule: linorder_cases) linarith+
  ultimately show ?thesis by simp
qed

end
