(* ===== verification/Data_Management.thy ===== *)
theory Data_Management
  imports Cascade Timestamps
begin

text \<open>
  The router \<^verbatim>\<open>routes/data-management.ts\<close>: export, purge of rows that were deleted long ago, and
  the preview of a purge.  A purge runs DELETE table by table, parents first, inside one
  transaction, and skips a table whose DELETE a foreign key refuses.  The second half says which
  rows a purge removes and which it has to leave.
\<close>

section \<open>Handlers\<close>

fun table_name :: "tbl \<Rightarrow> string" where
  "table_name Domains = ''domains''"
| "table_name Projects = ''projects''"
| "table_name Tasks = ''tasks''"
| "table_name Materials = ''materials''"
| "table_name DailyPlans = ''daily_plans''"
| "table_name TimeBlocks = ''time_blocks''"
| "table_name InboxItems = ''inbox_items''"
| "table_name Attachments = ''attachments''"
| "table_name TaskEvents = ''task_events''"
| "table_name Tags = ''tags''"
| "table_name TaskTags = ''task_tags''"
| "table_name SeasonalConfig = ''seasonal_config''"
| "table_name CalendarEvents = ''calendar_events''"
| "table_name WeeklyTemplates = ''weekly_theme_templates''"
| "table_name WeeklyBlocks = ''weekly_theme_blocks''"

text \<open>The list \<^verbatim>\<open>tables\<close> of the three handlers, in their order.\<close>

definition managed_tables :: "tbl list" where
  "managed_tables = [Domains, Projects, Tasks, Materials, DailyPlans, TimeBlocks, InboxItems,
     Attachments, TaskEvents, Tags, TaskTags, SeasonalConfig, CalendarEvents, WeeklyTemplates,
     WeeklyBlocks]"

definition export_data :: "tbl database \<Rightarrow> reply" where
  "export_data db = (Resp 200 (PExport
     (map (\<lambda>t. (table_name t, map (row_json t) (tab db t))) managed_tables)), db)"

text \<open>
  \<^verbatim>\<open>cutoffISO\<close>: the text of the same local time 90 local days before the request.
\<close>

definition cutoff :: "env \<Rightarrow> string" where
  "cutoff e = to_iso_string
     (set_local_date (to_local e) (to_utc e) (clock_ms e) (local_date (to_local e) (clock_ms e) - 90))"

text \<open>\<^verbatim>\<open>WHERE deleted_at IS NOT NULL AND deleted_at < ?\<close>\<close>

definition expired :: "env \<Rightarrow> row \<Rightarrow> bool" where
  "expired e r \<longleftrightarrow> r ''deleted_at'' \<noteq> Null \<and> r ''deleted_at'' < Text (cutoff e)"

type_synonym purge_state = "tbl database \<times> nat \<times> (string \<times> nat) list"

definition purge_table :: "env \<Rightarrow> tbl \<Rightarrow> purge_state \<Rightarrow> purge_state" where
  "purge_table e t s = (case s of (db, tot, by_table) \<Rightarrow>
     (case sql_delete gw t (expired e) db of
        Inl err \<Rightarrow> (db, tot, by_table)
      | Inr db' \<Rightarrow>
          let n = length (filter (expired e) (tab db t)) in
          if n > 0 then (db', tot + n, by_table @ [(table_name t, n)])
          else (db', tot, by_table)))"

definition purge_all :: "env \<Rightarrow> tbl database \<Rightarrow> purge_state" where
  "purge_all e db = fold (purge_table e) managed_tables (db, 0, [])"

definition purge :: "env \<Rightarrow> tbl database \<Rightarrow> reply" where
  "purge e db = (case purge_all e db of (db', tot, by_table) \<Rightarrow>
     (Resp 200 (PPurge tot by_table), db'))"

text \<open>
  \<^verbatim>\<open>formatBytes\<close>.  \<^verbatim>\<open>Math.floor(Math.log(bytes) / Math.log(1024))\<close> counts the divisions by 1024; the
  doubles agree with that count for every file below \<open>2 ^ 50 - 1\<close> bytes.  \<^verbatim>\<open>toFixed\<close> rounds the exact
  quotient, a tie upwards, and an index beyond \<^verbatim>\<open>sizes\<close> reads \<^verbatim>\<open>undefined\<close>.
\<close>

fun size_exp :: "nat \<Rightarrow> nat" where
  "size_exp n = (if n < 1024 then 0 else Suc (size_exp (n div 1024)))"

declare size_exp.simps [simp del]

definition size_unit :: "nat \<Rightarrow> string" where
  "size_unit i = (if i < 4 then [''B'', ''KB'', ''MB'', ''GB''] ! i else ''undefined'')"

definition tenths :: "nat \<Rightarrow> nat \<Rightarrow> nat" where
  "tenths n i = (20 * n + 1024 ^ i) div (2 * 1024 ^ i)"

definition format_bytes :: "nat \<Rightarrow> string" where
  "format_bytes n = (if n = 0 then ''0 B'' else let i = size_exp n; t = tenths n i in
     (if i = 0 then nat_str n else nat_str (t div 10) @ ''.'' @ nat_str (t mod 10)) @ '' '' @ size_unit i)"

definition db_size :: "env \<Rightarrow> tbl database \<Rightarrow> reply" where
  "db_size e db = (case db_bytes e of None \<Rightarrow> (Resp 200 (PSize 0 ''0 B''), db)
     | Some n \<Rightarrow> (Resp 200 (PSize n (format_bytes n)), db))"

lemma db_size_same [simp]: "snd (db_size e db) = db"
  by (simp add: db_size_def split: option.split)

definition purge_preview :: "env \<Rightarrow> tbl database \<Rightarrow> reply" where
  "purge_preview e db = (Resp 200 (PPreview
     (sum_list (map (\<lambda>t. length (sql_select t (expired e) db)) managed_tables)) (cutoff e)), db)"

section \<open>What one DELETE does\<close>

lemma purge_table_cases:
  assumes "purge_table e t (db, tot, bt) = (db', tot', bt')"
  obtains (skipped) err where "sql_delete gw t (expired e) db = Inl err" "db' = db" "tot' = tot"
  | (purged) "sql_delete gw t (expired e) db = Inr db'"
      "tot' = tot + length (filter (expired e) (tab db t))"
  using assms by (auto simp: purge_table_def Let_def split: sum.splits if_splits)

text \<open>
  \<open>shrinks e\<close> relates a database to one in which some tables have lost exactly their expired rows.
\<close>

definition shrinks :: "env \<Rightarrow> tbl database \<Rightarrow> tbl database \<Rightarrow> bool" where
  "shrinks e db db' \<longleftrightarrow>
     (\<forall>t. tab db' t = tab db t \<or> tab db' t = filter (\<lambda>r. \<not> expired e r) (tab db t)) \<and>
     (db_ok gw db \<longrightarrow> db_ok gw db') \<and> (fts_ok gw db \<longrightarrow> fts_ok gw db') \<and>
     (rowids_ok db \<longrightarrow> rowids_ok db')"

interpretation shrink: step_preorder "shrinks e" for e
proof
  show "shrinks e s s" for s by (simp add: shrinks_def)
  fix s t u
  assume st: "shrinks e s t" and tu: "shrinks e t u"
  have "tab u x = tab s x \<or> tab u x = filter (\<lambda>r. \<not> expired e r) (tab s x)" for x
  proof -
    have "tab t x = tab s x \<or> tab t x = filter (\<lambda>r. \<not> expired e r) (tab s x)"
      and "tab u x = tab t x \<or> tab u x = filter (\<lambda>r. \<not> expired e r) (tab t x)"
      using st tu by (simp_all add: shrinks_def)
    then show ?thesis by (elim disjE) simp_all
  qed
  with st tu show "shrinks e s u" by (simp add: shrinks_def)
qed

lemma purge_table_shrinks:
  assumes "purge_table e t (db, tot, bt) = (db', tot', bt')"
  shows "shrinks e db db'"
  using assms
proof (cases rule: purge_table_cases)
  case purged
  then show ?thesis
    using sql_delete_ok [OF _ purged(1)] sql_delete_fts [OF _ purged(1)]
      sql_delete_rowids [OF _ purged(1)]
    by (auto simp: shrinks_def sql_delete_tab [OF purged(1)])
qed (simp add: shrink.refl)

lemma purge_tables_shrinks: "shrinks e db (fst (fold (purge_table e) ts (db, tot, bt)))"
proof (induction ts arbitrary: db tot bt)
  case (Cons t ts)
  obtain db1 tot1 bt1 where 1: "purge_table e t (db, tot, bt) = (db1, tot1, bt1)"
    by (metis prod_cases3)
  have "shrinks e db1 (fst (fold (purge_table e) ts (db1, tot1, bt1)))"
    by (rule Cons.IH)
  with purge_table_shrinks [OF 1] show ?case
    by (simp add: 1) (rule shrink.trans)
qed (simp add: shrink.refl)

lemma purge_shrinks: "shrinks e db (snd (purge e db))"
  using purge_tables_shrinks [of e db managed_tables 0 "[]"]
  by (auto simp: purge_def purge_all_def split: prod.split)

lemma purge_db_ok: "db_ok gw db \<Longrightarrow> db_ok gw (snd (purge e db))"
  using purge_shrinks [of e db] by (simp add: shrinks_def)

text \<open>A purge removes expired rows only, and every live row survives.\<close>

lemma shrinks_tab:
  assumes "shrinks e db db'"
  shows "r \<in> set (tab db' t) \<Longrightarrow> r \<in> set (tab db t)"
    and "r \<in> set (tab db t) \<Longrightarrow> \<not> expired e r \<Longrightarrow> r \<in> set (tab db' t)"
proof -
  have "tab db' t = tab db t \<or> tab db' t = filter (\<lambda>r. \<not> expired e r) (tab db t)"
    using assms by (simp add: shrinks_def)
  then show "r \<in> set (tab db' t) \<Longrightarrow> r \<in> set (tab db t)"
    and "r \<in> set (tab db t) \<Longrightarrow> \<not> expired e r \<Longrightarrow> r \<in> set (tab db' t)" by auto
qed

lemma live_not_expired: "is_live r \<Longrightarrow> \<not> expired e r"
  by (simp add: expired_def is_live_def)

lemma refusals_data [simp, refusal]:
  "refusal_clean (export_data db) db" "refusal_clean (purge_preview e db) db"
  "refusal_clean (purge e db) db"
  by (simp_all add: export_data_def purge_preview_def purge_def refusal_clean_def split: prod.split)

section \<open>Which tables a purge empties of expired rows\<close>

text \<open>Some row that the DELETE on \<open>t\<close> would leave refers to an expired row of \<open>t\<close>.\<close>

definition blocked :: "env \<Rightarrow> tbl \<Rightarrow> tbl database \<Rightarrow> bool" where
  "blocked e t db \<longleftrightarrow> (\<exists>u. \<exists>r \<in> set (tab db u). \<exists>c \<in> set (columns (gw u)).
     refs c = Some t \<and> r (cname c) \<noteq> Null \<and>
     r (cname c) \<in> set (ids (filter (expired e) (tab db t))) \<and> \<not> (u = t \<and> expired e r))"

lemma blocked_shrinks:
  assumes "shrinks e db db'" and "blocked e t db'"
  shows "blocked e t db"
proof -
  have "set (ids (filter (expired e) (tab db' t))) \<subseteq> set (ids (filter (expired e) (tab db t)))"
    using shrinks_tab(1) [OF assms(1), of _ t] by (auto simp: ids_def)
  then show ?thesis
    using assms(2) shrinks_tab(1) [OF assms(1)] unfolding blocked_def by blast
qed

lemma uniq_ok_filter: "uniq_ok s rows \<Longrightarrow> uniq_ok s (filter P rows)"
proof -
  have *: "distinct (map g (filter Q (filter P rows)))"
    if "distinct (map g (filter Q rows))" for g :: "row \<Rightarrow> sqlval list" and Q
  proof -
    have "filter Q (filter P rows) = filter P (filter Q rows)"
      by (simp add: conj_commute)
    with that show ?thesis by (simp only: distinct_map_filter)
  qed
  assume "uniq_ok s rows"
  then show ?thesis by (auto simp: uniq_ok_def ids_def list_all_iff distinct_map_filter intro!: * simp del: filter_filter)
qed

lemma purge_table_works:
  assumes ok: "db_ok gw db" and free: "\<not> blocked e t db"
  shows "\<exists>db'. sql_delete gw t (expired e) db = Inr db'"
proof -
  let ?tb = "(tab db)(t := filter (\<lambda>r. \<not> expired e r) (tab db t))"
  have key: "r (cname c) \<in> set (ids (?tb p))"
    if r: "r \<in> set (?tb u)"
      and c: "c \<in> set (columns (gw u))" "refs c = Some p" "r (cname c) \<noteq> Null" for u r c p
  proof -
    have r': "r \<in> set (tab db u)" "u = t \<Longrightarrow> \<not> expired e r" using r by (auto split: if_splits)
    then have "r (cname c) \<in> set (ids (tab db p))"
      using ok c unfolding db_ok_def table_ok_def fk_ok_def list_all_iff by fastforce
    moreover have "r (cname c) \<notin> set (ids (filter (expired e) (tab db t)))" if "p = t"
      using free c r' that unfolding blocked_def by blast
    ultimately show ?thesis by (auto simp: ids_def)
  qed
  have "fk_ok gw ?tb u r" if "r \<in> set (?tb u)" for u r
    using key [OF that] unfolding fk_ok_def list_all_iff
    by (auto split: option.split simp del: fun_upd_apply)
  then have "no_orphans gw ?tb" by (simp only: no_orphans_def) blast
  moreover have "uniq_ok (gw t) (filter (\<lambda>r. \<not> expired e r) (tab db t))"
    using ok by (intro uniq_ok_filter) (simp add: db_ok_def table_ok_def)
  ultimately have "put_rows gw t (filter (\<lambda>r. \<not> expired e r) (tab db t)) [] (tab db) = Inr ?tb"
    by (simp add: put_rows_def)
  then show ?thesis by (simp add: sql_delete_def)
qed

lemma purge_tables_clear:
  assumes "t \<in> set ts" and "db_ok gw db" and "\<not> blocked e t db"
    and "r \<in> set (tab (fst (fold (purge_table e) ts (db, tot, bt))) t)"
  shows "\<not> expired e r"
  using assms
proof (induction ts arbitrary: db tot bt)
  case (Cons x ts)
  obtain db1 tot1 bt1 where 1: "purge_table e x (db, tot, bt) = (db1, tot1, bt1)"
    by (metis prod_cases3)
  have later: "shrinks e db1 (fst (fold (purge_table e) ts (db1, tot1, bt1)))"
    by (rule purge_tables_shrinks)
  have r: "r \<in> set (tab (fst (fold (purge_table e) ts (db1, tot1, bt1))) t)"
    using Cons.prems(4) by (simp add: 1)
  show ?case
  proof (cases "x = t")
    case True
    then obtain db' where "sql_delete gw t (expired e) db = Inr db'"
      using purge_table_works [OF Cons.prems(2,3)] by blast
    then have "tab db1 t = filter (\<lambda>r. \<not> expired e r) (tab db t)"
      using 1 True by (auto simp: purge_table_def Let_def sql_delete_tab split: if_splits)
    then show ?thesis using shrinks_tab(1) [OF later r] by simp
  next
    case False
    have "shrinks e db db1" using 1 by (rule purge_table_shrinks)
    then show ?thesis
      using False Cons.prems(1-3) r blocked_shrinks [of e db db1 t]
      by (intro Cons.IH [of db1 tot1 bt1]) (auto simp: shrinks_def)
  qed
qed simp

text \<open>A purged parent table stays full while a child row, expired or not, refers into it.\<close>

lemma purge_table_other: "t \<noteq> u \<Longrightarrow> tab (fst (purge_table e t (db, tot, bt))) u = tab db u"
  by (auto simp: purge_table_def Let_def sql_delete_tab split: sum.split)

lemma purge_tables_other:
  "u \<notin> set ts \<Longrightarrow> tab (fst (fold (purge_table e) ts (db, tot, bt))) u = tab db u"
proof (induction ts arbitrary: db tot bt)
  case (Cons t ts)
  obtain db1 tot1 bt1 where 1: "purge_table e t (db, tot, bt) = (db1, tot1, bt1)"
    by (metis prod_cases3)
  have "tab db1 u = tab db u" using purge_table_other [of t u e db tot bt] 1 Cons.prems by auto
  then show ?case using Cons by (simp add: 1)
qed simp

lemma purge_domains_blocked:
  assumes ok: "db_ok gw db" and d: "d \<in> set (tab db Domains)" "expired e d"
    and p: "p \<in> set (tab db Projects)" "p ''domain_id'' = d ''id''"
  shows "tab (snd (purge e db)) Domains = tab db Domains"
proof -
  let ?tb = "(tab db)(Domains := filter (\<lambda>r. \<not> expired e r) (tab db Domains))"
  have "d ''id'' \<notin> set (ids (?tb Domains))"
    using same_key_same_row [OF ok d(1)] d(2) by (auto simp: ids_def)
  moreover have "d ''id'' \<noteq> Null"
    using ok d(1) by (auto simp: db_ok_def table_ok_def nn_ok_def schema_defs dest!: spec [of _ Domains])
  ultimately have "\<not> fk_ok gw ?tb Projects p"
    using p(2) by (auto simp: fk_ok_def schema_defs)
  then have "\<not> no_orphans gw ?tb" using p(1) by (auto simp: no_orphans_def)
  moreover have "\<not> set (ids (tab db Domains)) \<subseteq> set (ids (?tb Domains))"
    using \<open>d ''id'' \<notin> set (ids (?tb Domains))\<close> d(1) by (auto simp: ids_def)
  ultimately have "\<exists>err. put_rows gw Domains (filter (\<lambda>r. \<not> expired e r) (tab db Domains)) [] (tab db) = Inl err"
    by (auto simp: put_rows_def Let_def)
  then have "purge_table e Domains (db, 0, []) = (db, 0, [])"
    by (auto simp: purge_table_def sql_delete_def)
  then have "purge_all e db = fold (purge_table e) (tl managed_tables) (db, 0, [])"
    by (simp add: purge_all_def managed_tables_def)
  moreover have "Domains \<notin> set (tl managed_tables)" by (simp add: managed_tables_def)
  ultimately show ?thesis
    using purge_tables_other [of Domains "tl managed_tables" e db 0 "[]"]
    by (auto simp: purge_def split: prod.split)
qed

text \<open>The counts a purge reports.\<close>

lemma purge_tables_count:
  assumes "fold (purge_table e) ts (db, tot, bt) = (db', tot', bt')" and "distinct ts"
  shows "tot' + (\<Sum>t \<leftarrow> ts. length (tab db' t)) = tot + (\<Sum>t \<leftarrow> ts. length (tab db t))"
  using assms
proof (induction ts arbitrary: db tot bt)
  case (Cons t ts)
  obtain db1 tot1 bt1 where 1: "purge_table e t (db, tot, bt) = (db1, tot1, bt1)"
    by (metis prod_cases3)
  have 2: "fold (purge_table e) ts (db1, tot1, bt1) = (db', tot', bt')" using Cons.prems(1) 1 by simp
  have "tab db' t = tab db1 t"
    using purge_tables_other [of t ts e db1 tot1 bt1] Cons.prems(2) by (simp add: 2)
  moreover have "tab db1 u = tab db u" if "u \<in> set ts" for u
    using purge_table_other [of t u e db tot bt] 1 Cons.prems(2) that by auto
  moreover have "tot1 + length (tab db1 t) = tot + length (tab db t)"
    using 1
  proof (cases rule: purge_table_cases)
    case purged
    then show ?thesis
      by (simp add: sql_delete_tab [OF purged(1)] sum_length_filter_compl)
  qed simp
  ultimately show ?case
    using Cons.IH [OF 2] Cons.prems(2) by (simp cong: map_cong)
qed simp

end
