(* ===== verification/Search.thy ===== *)
theory Search
  imports Http
begin

text \<open>
  The router \<^verbatim>\<open>routes/search.ts\<close>: the text of the full-text query, one query per kind of result
  and the final cut.  SQLite's FTS5 itself is the parameter \<open>fts_query\<close>; \<open>fts_sound\<close> states the
  part of its documentation the router relies on.  Query parameters are strings.
\<close>

section \<open>The text of the query\<close>

definition strip_quotes :: "string \<Rightarrow> string" where
  "strip_quotes s = filter (\<lambda>c. c \<noteq> CHR 39 \<and> c \<noteq> CHR 34) s"

text \<open>\<^verbatim>\<open>s.split(/\s+/).filter(Boolean)\<close>\<close>

definition words :: "string \<Rightarrow> string list" where
  "words s = filter (\<lambda>w. w \<noteq> [])
     (split_on (CHR '' '') (map (\<lambda>c. if js_space c then CHR '' '' else c) s))"

definition fts_text :: "string \<Rightarrow> string" where
  "fts_text s = join '' '' (map (\<lambda>w. [CHR 34] @ w @ [CHR 34] @ ''*'') (words (strip_quotes s)))"

section \<open>The handler\<close>

definition search_limit :: "query \<Rightarrow> int" where
  "search_limit q = min (case q ''limit'' of None \<Rightarrow> 20
     | Some s \<Rightarrow> (case parse_int s of None \<Rightarrow> 20 | Some n \<Rightarrow> if n = 0 then 20 else n)) 100"

definition allowed_types :: "query \<Rightarrow> string list" where
  "allowed_types q = (let all = [''task'', ''project'', ''inbox'', ''material''] in
     case q ''type'' of None \<Rightarrow> all
     | Some s \<Rightarrow> if s = [] then all else map trim (split_on (CHR '','') s))"

text \<open>\<^verbatim>\<open>LIMIT ?\<close>: a negative limit is no limit.  \<^verbatim>\<open>slice(0, n)\<close>: a negative end counts back.\<close>

definition sql_limit :: "int \<Rightarrow> 'a list \<Rightarrow> 'a list" where
  "sql_limit n xs = (if n < 0 then xs else take (nat n) xs)"

definition js_slice_to :: "int \<Rightarrow> 'a list \<Rightarrow> 'a list" where
  "js_slice_to n xs = (if n < 0 then take (length xs - nat (- n)) xs else take (nat n) xs)"

text \<open>
  \<^verbatim>\<open>FROM t_fts JOIN t ON t.rowid = t_fts.rowid WHERE t_fts MATCH ? AND t.deleted_at IS NULL\<close>
  \<^verbatim>\<open>ORDER BY rank LIMIT ?\<close>; a query the engine refuses is caught and gives no rows.
\<close>

definition fts_search ::
  "env \<Rightarrow> tbl \<Rightarrow> (row \<Rightarrow> string \<Rightarrow> json_row) \<Rightarrow> string \<Rightarrow> int \<Rightarrow> tbl database \<Rightarrow> json_row list" where
  "fts_search e t cols text lm db = (case fts_query e t text (fts db t) of
       None \<Rightarrow> []
     | Some hits \<Rightarrow> sql_limit lm (concat (map (\<lambda>(n, snip).
         map (\<lambda>r. cols r snip) (filter (\<lambda>r. rowid_of r = n \<and> is_live r) (tab db t))) hits)))"

text \<open>\<^verbatim>\<open>LEFT JOIN projects p ON p.id = t.project_id\<close>\<close>

definition project_domain :: "row \<Rightarrow> tbl database \<Rightarrow> sqlval" where
  "project_domain r db = (case find_row Projects
      (\<lambda>p. r ''project_id'' \<noteq> Null \<and> p ''id'' = r ''project_id'') db of
     None \<Rightarrow> Null | Some p \<Rightarrow> p ''domain_id'')"

definition task_result :: "tbl database \<Rightarrow> row \<Rightarrow> string \<Rightarrow> json_row" where
  "task_result db r snip = [(''id'', r ''id''), (''type'', Text ''task''), (''title'', r ''title''),
     (''snippet'', Text snip), (''domain_id'', project_domain r db),
     (''project_id'', r ''project_id''), (''status'', r ''status'')]"

definition project_result :: "row \<Rightarrow> string \<Rightarrow> json_row" where
  "project_result r snip = [(''id'', r ''id''), (''type'', Text ''project''), (''title'', r ''name''),
     (''snippet'', Text snip), (''domain_id'', r ''domain_id''), (''project_id'', Null),
     (''status'', r ''status'')]"

text \<open>\<^verbatim>\<open>COALESCE(i.quick_note, substr(i.raw_text, 1, 80))\<close>; both columns hold text or NULL.\<close>

definition inbox_title :: "row \<Rightarrow> sqlval" where
  "inbox_title r = (if r ''quick_note'' \<noteq> Null then r ''quick_note''
     else case r ''raw_text'' of Text s \<Rightarrow> Text (take 80 s) | v \<Rightarrow> v)"

definition inbox_result :: "row \<Rightarrow> string \<Rightarrow> json_row" where
  "inbox_result r snip = [(''id'', r ''id''), (''type'', Text ''inbox''), (''title'', inbox_title r),
     (''snippet'', Text snip), (''domain_id'', Null), (''project_id'', Null),
     (''status'', Text (if r ''processed_at'' \<noteq> Null then ''processed'' else ''unprocessed''))]"

definition material_result :: "row \<Rightarrow> string \<Rightarrow> json_row" where
  "material_result r snip = [(''id'', r ''id''), (''type'', Text ''material''), (''title'', r ''name''),
     (''snippet'', Text snip), (''domain_id'', Null), (''project_id'', r ''project_id''),
     (''status'', r ''status'')]"

definition search_results :: "env \<Rightarrow> string list \<Rightarrow> string \<Rightarrow> int \<Rightarrow> tbl database \<Rightarrow> json_row list" where
  "search_results e kinds text lm db =
     (if ''task'' \<in> set kinds then fts_search e Tasks (task_result db) text lm db else [])
   @ (if ''project'' \<in> set kinds then fts_search e Projects project_result text lm db else [])
   @ (if ''inbox'' \<in> set kinds then fts_search e InboxItems inbox_result text lm db else [])
   @ (if ''material'' \<in> set kinds then fts_search e Materials material_result text lm db else [])"

definition search :: "env \<Rightarrow> query \<Rightarrow> tbl database \<Rightarrow> reply" where
  "search e q db =
     (let query = trim (case q ''q'' of None \<Rightarrow> [] | Some s \<Rightarrow> s); text = fts_text query;
          lm = search_limit q in
      if query = [] then (Resp 200 (PSearch [] []), db)
      else if text = [] then (Resp 200 (PSearch [] query), db)
      else (Resp 200 (PSearch
        (js_slice_to lm (search_results e (allowed_types q) text lm db)) query), db))"

section \<open>What a search returns\<close>

text \<open>MATCH returns row numbers of the index it searches, each once.\<close>

definition fts_sound :: "env \<Rightarrow> bool" where
  "fts_sound e \<longleftrightarrow> (\<forall>t text es hits. fts_query e t text es = Some hits \<longrightarrow>
     set (map fst hits) \<subseteq> set (map fst es) \<and> distinct (map fst hits))"

lemma search_same [simp]: "snd (search e q db) = db"
  by (simp add: search_def Let_def)

lemma sql_limit_set: "x \<in> set (sql_limit n xs) \<Longrightarrow> x \<in> set xs"
  by (auto simp: sql_limit_def split: if_splits dest: in_set_takeD)

lemma js_slice_to_set: "x \<in> set (js_slice_to n xs) \<Longrightarrow> x \<in> set xs"
  by (auto simp: js_slice_to_def split: if_splits dest: in_set_takeD)

lemma js_slice_to_length: "0 \<le> n \<Longrightarrow> length (js_slice_to n xs) \<le> nat n"
  by (simp add: js_slice_to_def)

lemma fts_search_live:
  assumes "x \<in> set (fts_search e t cols text lm db)"
  obtains r snip where "r \<in> set (tab db t)" "is_live r" "x = cols r snip"
  using assms by (auto simp: fts_search_def split: option.splits dest!: sql_limit_set)

definition kind_table :: "string \<Rightarrow> tbl" where
  "kind_table k = (if k = ''task'' then Tasks else if k = ''project'' then Projects
     else if k = ''inbox'' then InboxItems else Materials)"

lemma search_results_live:
  assumes "x \<in> set (search_results e kinds text lm db)"
  shows "\<exists>k r. k \<in> set kinds \<and> map_of x ''type'' = Some (Text k) \<and> r \<in> set (tab db (kind_table k)) \<and>
    is_live r \<and> map_of x ''id'' = Some (r ''id'')"
proof -
  have row: "\<exists>r. r \<in> set (tab db t) \<and> is_live r \<and> map_of x ''type'' = Some (Text k) \<and>
      map_of x ''id'' = Some (r ''id'')"
    if "x \<in> set (fts_search e t cols text lm db)"
      and "\<And>r snip. map_of (cols r snip) ''type'' = Some (Text k)"
      and "\<And>r snip. map_of (cols r snip) ''id'' = Some (r ''id'')" for t cols k
    using that(1) by (rule fts_search_live) (use that(2,3) in blast)
  consider "''task'' \<in> set kinds" "x \<in> set (fts_search e Tasks (task_result db) text lm db)"
    | "''project'' \<in> set kinds" "x \<in> set (fts_search e Projects project_result text lm db)"
    | "''inbox'' \<in> set kinds" "x \<in> set (fts_search e InboxItems inbox_result text lm db)"
    | "''material'' \<in> set kinds" "x \<in> set (fts_search e Materials material_result text lm db)"
    using assms by (simp add: search_results_def split: if_splits) blast+
  then show ?thesis
  proof cases
    case 1
    with row [OF 1(2), of "''task''"] show ?thesis
      by (intro exI [of _ "''task''"]) (simp add: task_result_def kind_table_def, blast)
  next
    case 2
    with row [OF 2(2), of "''project''"] show ?thesis
      by (intro exI [of _ "''project''"]) (simp add: project_result_def kind_table_def, blast)
  next
    case 3
    with row [OF 3(2), of "''inbox''"] show ?thesis
      by (intro exI [of _ "''inbox''"]) (simp add: inbox_result_def kind_table_def, blast)
  next
    case 4
    with row [OF 4(2), of "''material''"] show ?thesis
      by (intro exI [of _ "''material''"]) (simp add: material_result_def kind_table_def, blast)
  qed
qed

text \<open>The index finds a row exactly when it is indexed under its row number.\<close>

lemma fts_hit_row:
  assumes ok: "fts_ok gw db" "rowids_ok db" and e: "fts_sound e"
    and t: "fts_cols (gw t) \<noteq> []" and q: "fts_query e t text (fts db t) = Some hits"
    and hit: "(n, snip) \<in> set hits"
  shows "\<exists>r. r \<in> set (tab db t) \<and> rowid_of r = n \<and> filter (\<lambda>r. rowid_of r = n) (tab db t) = [r]"
proof -
  have "n \<in> set (map fst (fts db t))"
    using e q hit unfolding fts_sound_def by force
  also have "set (map fst (fts db t)) = set (map rowid_of (tab db t))"
  proof -
    have "mset (fts db t) = mset (map (fts_entry (gw t)) (tab db t))"
      using ok(1) t by (simp add: fts_ok_def fts_at_def)
    then have "set (fts db t) = set (map (fts_entry (gw t)) (tab db t))"
      by (metis set_mset_mset)
    then show ?thesis by (auto simp: fts_entry_def image_iff)
  qed
  finally obtain r where r: "r \<in> set (tab db t)" "rowid_of r = n" by auto
  have "distinct (map rowid_of (tab db t))" using ok(2) by (simp add: rowids_ok_def)
  then have "filter (\<lambda>r. rowid_of r = n) (tab db t) = [r]"
    using filter_distinct_key [of rowid_of "tab db t" r] r by simp
  with r show ?thesis by blast
qed

section \<open>The query text is well formed\<close>

lemma split_on_sep: "w \<in> set (split_on c s) \<Longrightarrow> c \<notin> set w"
proof (induction s arbitrary: w)
  case (Cons x xs)
  then show ?case by (cases "split_on c xs") (auto split: if_splits)
qed simp

lemma split_on_chars: "w \<in> set (split_on c s) \<Longrightarrow> set w \<subseteq> set s"
proof (induction s arbitrary: w)
  case (Cons x xs)
  then show ?case by (cases "split_on c xs") (auto split: if_splits, blast+)
qed simp

lemma words_clean:
  assumes "w \<in> set (words (strip_quotes s))"
  shows "w \<noteq> []" and "CHR 34 \<notin> set w" and "CHR 39 \<notin> set w" and "\<forall>c \<in> set w. \<not> js_space c"
proof -
  let ?m = "map (\<lambda>c. if js_space c then CHR '' '' else c) (strip_quotes s)"
  have w: "w \<in> set (split_on (CHR '' '') ?m)" "w \<noteq> []" using assms by (auto simp: words_def)
  then show "w \<noteq> []" by simp
  have chars: "set w \<subseteq> set ?m" using w(1) by (rule split_on_chars)
  have quotes: "CHR 34 \<notin> set ?m" "CHR 39 \<notin> set ?m"
    by (auto simp: strip_quotes_def)
  show "CHR 34 \<notin> set w" "CHR 39 \<notin> set w" using chars quotes by blast+
  show "\<forall>c \<in> set w. \<not> js_space c"
    using chars split_on_sep [OF w(1)] by (auto split: if_splits)
qed

end
