(* ===== verification/Server.thy ===== *)
theory Server
  imports Tasks Tagging Data_Management Search
begin

text \<open>
  The server as \<^verbatim>\<open>index.ts\<close> puts it together: the routers mounted under \<^verbatim>\<open>/api/\<close>, one request at
  a time on one database (the handlers are synchronous and Node runs them one after another).
  \<open>reachable\<close> are the database states any sequence of requests can produce from a fresh schema;
  the invariants of the whole server are proved over it.
\<close>

section \<open>Requests\<close>

datatype verb = GET | POST | PATCH | DELETE

text \<open>\<open>rest\<close> is the path segment after the mount point, if there is one.\<close>

record request =
  verb :: verb
  router :: string
  rest :: "string option"
  params :: query
  req_body :: body

type_synonym handler = "tbl database \<Rightarrow> reply"

definition no_route :: handler where
  "no_route db = (Resp 404 PNothing, db)"

text \<open>The five routes of a resource; a router without one of them passes \<open>no_route\<close>.\<close>

definition crud ::
  "handler \<Rightarrow> handler \<Rightarrow> (string \<Rightarrow> handler) \<Rightarrow> (string \<Rightarrow> handler) \<Rightarrow> (string \<Rightarrow> handler) \<Rightarrow>
     request \<Rightarrow> handler" where
  "crud list post get patch del rq = (case (verb rq, rest rq) of
       (GET, None) \<Rightarrow> list
     | (POST, None) \<Rightarrow> post
     | (GET, Some i) \<Rightarrow> get i
     | (PATCH, Some i) \<Rightarrow> patch i
     | (DELETE, Some i) \<Rightarrow> del i
     | _ \<Rightarrow> no_route)"

definition inbox_router :: "env \<Rightarrow> request \<Rightarrow> handler" where
  "inbox_router e rq = (if verb rq = GET \<and> rest rq = Some ''count'' then get_inbox_count
     else crud (get_inbox (params rq)) (post_inbox e (req_body rq)) get_inbox_item
       (\<lambda>i. patch_inbox_item e i (req_body rq)) (delete_inbox_item e) rq)"

definition search_router :: "env \<Rightarrow> request \<Rightarrow> handler" where
  "search_router e rq = (if verb rq = GET \<and> rest rq = None then search e (params rq) else no_route)"

text \<open>\<^verbatim>\<open>app.get('/api/health', ...)\<close> of \<^verbatim>\<open>index.ts\<close>\<close>

definition health_router :: "env \<Rightarrow> request \<Rightarrow> handler" where
  "health_router e rq = (if verb rq = GET \<and> rest rq = None
     then (\<lambda>db. (Resp 200 (PHealth (now_at e 0)), db)) else no_route)"

definition data_router :: "env \<Rightarrow> request \<Rightarrow> handler" where
  "data_router e rq =
     (if verb rq = GET \<and> rest rq = Some ''db-size'' then db_size e
      else if verb rq = GET \<and> rest rq = Some ''export'' then export_data
      else if verb rq = POST \<and> rest rq = Some ''purge'' then purge e
      else if verb rq = GET \<and> rest rq = Some ''purge-preview'' then purge_preview e
      else no_route)"

definition mounted :: "env \<Rightarrow> request \<Rightarrow> (string \<times> handler) list" where
  "mounted e rq = (let q = params rq; b = req_body rq in
    [(''domains'', crud (get_domains q) (post_domain e b) get_domain
        (\<lambda>i. patch_domain e i b) (delete_domain e) rq),
     (''projects'', crud (get_projects q) (post_project e b) get_project
        (\<lambda>i. patch_project e i b) (delete_project e) rq),
     (''tasks'', crud (get_tasks q) (post_task e b) get_task
        (\<lambda>i. patch_task e i b) (delete_task e) rq),
     (''inbox'', inbox_router e rq),
     (''daily-plans'', crud (get_daily_plans q) (post_daily_plan e b) get_daily_plan
        (\<lambda>i. patch_daily_plan e i b) (delete_daily_plan e) rq),
     (''time-blocks'', crud (get_time_blocks q) (post_time_block e b) get_time_block
        (\<lambda>i. patch_time_block e i b) (delete_time_block e) rq),
     (''task-events'', crud (get_task_events q) (post_task_event e b) get_task_event
        (\<lambda>i. patch_task_event e i b) (delete_task_event e) rq),
     (''tags'', crud (get_tags q) (post_tag e b) get_tag
        (\<lambda>i. patch_tag e i b) (delete_tag e) rq),
     (''materials'', crud (get_materials q) (post_material e b) get_material
        (\<lambda>i. patch_material e i b) (delete_material e) rq),
     (''seasonal-config'', crud (get_seasonal_configs q) (post_seasonal_config e b)
        get_seasonal_config (\<lambda>i. patch_seasonal_config e i b) (delete_seasonal_config e) rq),
     (''calendar-events'', crud (get_calendar_events q) (post_calendar_event e b) (\<lambda>i. no_route)
        (\<lambda>i. patch_calendar_event e i b) (delete_calendar_event e) rq),
     (''weekly-theme-templates'', crud (get_weekly_templates q) (post_weekly_template e b)
        get_weekly_template (\<lambda>i. patch_weekly_template e i b) (delete_weekly_template e) rq),
     (''weekly-theme-blocks'', crud (get_weekly_blocks q) (post_weekly_block e b) get_weekly_block
        (\<lambda>i. patch_weekly_block e i b) (delete_weekly_block e) rq),
     (''attachments'', crud (get_attachments q) (post_attachment e b) get_attachment
        (\<lambda>i. patch_attachment e i b) (delete_attachment e) rq),
     (''task-tags'', crud (get_task_tags q) (post_task_tag e b) (\<lambda>i. no_route)
        (\<lambda>i. no_route) (delete_task_tag e) rq),
     (''search'', search_router e rq),
     (''health'', health_router e rq),
     (''data-management'', data_router e rq)])"

definition serve :: "env \<Rightarrow> request \<Rightarrow> handler" where
  "serve e rq = (case map_of (mounted e rq) (router rq) of None \<Rightarrow> no_route | Some h \<Rightarrow> h)"

text \<open>Several requests, each with its own environment.\<close>

definition serve_all :: "(env \<times> request) list \<Rightarrow> tbl database \<Rightarrow> tbl database" where
  "serve_all rs db = fold (\<lambda>(e, rq) db. snd (serve e rq db)) rs db"

inductive reachable :: "tbl database \<Rightarrow> bool" where
  start: "reachable empty_db"
| request: "reachable db \<Longrightarrow> driver_ok e \<Longrightarrow> reachable (snd (serve e rq db))"

inductive_cases reachable_cases: "reachable db"

section \<open>Every handler evolves the database\<close>

definition purges :: "request \<Rightarrow> bool" where
  "purges rq \<longleftrightarrow> router rq = ''data-management'' \<and> verb rq = POST \<and> rest rq = Some ''purge''"

lemma no_route_same [simp]: "snd (no_route db) = db" "evo db (snd (no_route db))"
  by (simp_all add: no_route_def gwd.evolves_refl)

lemma crud_holds:
  assumes "\<And>i. P (list db) \<and> P (post db) \<and> P (get i db) \<and> P (patch i db) \<and> P (del i db)"
    and "P (no_route db)"
  shows "P (crud list post get patch del rq db)"
  using assms by (auto simp: crud_def split: verb.split option.split)

lemma serve_holds:
  assumes "list_all (\<lambda>(k, h). k = router rq \<longrightarrow> P (h db)) (mounted e rq)" and "P (no_route db)"
  shows "P (serve e rq db)"
proof (cases "map_of (mounted e rq) (router rq)")
  case (Some h)
  then have "(router rq, h) \<in> set (mounted e rq)" by (rule map_of_SomeD)
  with assms(1) have "P (h db)" by (auto simp: list_all_iff)
  with Some show ?thesis by (simp add: serve_def)
qed (simp add: serve_def assms(2))

lemma data_router_evo: "router rq = ''data-management'' \<Longrightarrow> \<not> purges rq \<Longrightarrow> evo db (snd (data_router e rq db))"
  by (auto simp: data_router_def purges_def export_data_def purge_preview_def)

lemma serve_evo:
  assumes e: "driver_ok e" and rq: "\<not> purges rq"
  shows "evo db (snd (serve e rq db))"
proof (rule serve_holds [where P = "\<lambda>rep. evo db (snd rep)"])
  have "evo db (snd (inbox_router e rq db))"
    by (simp add: inbox_router_def capture_evo crud_holds [where P = "\<lambda>rep. evo db (snd rep)"])
  moreover have "evo db (snd (search_router e rq db))" "evo db (snd (health_router e rq db))"
    by (simp_all add: search_router_def health_router_def)
  ultimately show "list_all (\<lambda>(k, h). k = router rq \<longrightarrow> evo db (snd (h db))) (mounted e rq)"
    using rq unfolding mounted_def Let_def
    by (simp add: data_router_evo catalog_evo capture_evo planning_evo tagging_evo get_tasks_evo
        post_task_evo get_task_evo patch_task_evo [OF e] delete_task_evo delete_domain_evo
        delete_project_evo crud_holds [where P = "\<lambda>rep. evo db (snd rep)"])
qed simp

definition router_names :: "string list" where
  "router_names = [''domains'', ''projects'', ''tasks'', ''inbox'', ''daily-plans'', ''time-blocks'',
     ''task-events'', ''tags'', ''materials'', ''seasonal-config'', ''calendar-events'',
     ''weekly-theme-templates'', ''weekly-theme-blocks'', ''attachments'', ''task-tags'', ''search'',
     ''health'', ''data-management'']"

lemma mounted_names: "map fst (mounted e rq) = router_names"
  by (simp add: mounted_def router_names_def Let_def)

lemma router_names_distinct: "distinct router_names"
  by code_simp

lemma serve_mounted: "(router rq, h) \<in> set (mounted e rq) \<Longrightarrow> serve e rq = h"
proof -
  assume "(router rq, h) \<in> set (mounted e rq)"
  then have "map_of (mounted e rq) (router rq) = Some h"
    by (intro map_of_is_SomeI) (simp_all add: mounted_names router_names_distinct)
  then show ?thesis by (simp add: serve_def)
qed

lemma serve_purge: "purges rq \<Longrightarrow> serve e rq = purge e"
proof -
  assume p: "purges rq"
  have "last (mounted e rq) = (''data-management'', data_router e rq)" "mounted e rq \<noteq> []"
    by (simp_all add: mounted_def Let_def)
  then have "(''data-management'', data_router e rq) \<in> set (mounted e rq)"
    using last_in_set by metis
  then have "serve e rq = data_router e rq"
    using p by (intro serve_mounted) (simp add: purges_def)
  then show ?thesis using p by (simp add: purges_def data_router_def)
qed

section \<open>Invariants of every reachable state\<close>

definition consistent :: "tbl database \<Rightarrow> bool" where
  "consistent db \<longleftrightarrow> db_ok gw db \<and> fts_ok gw db \<and> rowids_ok db \<and>
     (\<forall>r \<in> set (tab db Tasks). completed_ok r)"

lemma evo_consistent:
  assumes "evo db db'" and "consistent db"
  shows "consistent db'"
proof -
  have ok: "db_ok gw db" using assms(2) by (simp add: consistent_def)
  have new: "gw_new t r" if "r \<in> set (tab db t)" for t r
    using assms(2) that by (auto simp: gw_new_def consistent_def)
  have "completed_ok r" if "r \<in> set (tab db' Tasks)" for r
    using gwd.evolves_N [OF assms(1) ok new that] by (simp add: gw_new_def)
  then show ?thesis
    using assms ok by (simp add: consistent_def evolves_def)
qed

lemma shrinks_consistent: "shrinks e db db' \<Longrightarrow> consistent db \<Longrightarrow> consistent db'"
  using shrinks_tab(1) [of e db db' _ Tasks] by (simp add: consistent_def) (simp add: shrinks_def)

lemma serve_consistent:
  assumes "driver_ok e" and "consistent db"
  shows "consistent (snd (serve e rq db))"
proof (cases "purges rq")
  case True
  then show ?thesis
    using shrinks_consistent [OF purge_shrinks assms(2)] by (simp add: serve_purge)
next
  case False
  show ?thesis using serve_evo [OF assms(1) False] assms(2) by (rule evo_consistent)
qed

lemma reachable_consistent: "reachable db \<Longrightarrow> consistent db"
proof (induction rule: reachable.induct)
  case start
  show ?case by (simp add: consistent_def empty_db_ok) (simp add: empty_db_def)
qed (rule serve_consistent)

section \<open>Refusals\<close>

lemma no_route_refusal [simp]: "refusal_clean (no_route db) db"
  by (simp add: no_route_def)

text \<open>Completing a recurring task is the one request whose refusal may come after a commit.\<close>

definition completes_task :: "request \<Rightarrow> bool" where
  "completes_task rq \<longleftrightarrow> router rq = ''tasks'' \<and> verb rq = PATCH \<and>
     req_body rq ''status'' = JStr ''done''"

lemma patch_task_clean:
  assumes "b ''status'' \<noteq> JStr ''done''"
  shows "refusal_clean (patch_task e i b db) db"
proof -
  have "next_instance e b r = None" for r using assms by (simp add: next_instance_def)
  then have clone: "code (fst (clone_on_complete e k i b db)) = 200" for k db
    by (simp add: clone_on_complete_def split: option.split)
  show ?thesis
  proof (cases "find_live Tasks i db")
    case (Some r)
    then show ?thesis
      using clone by (auto simp: patch_task_def refusal_clean_def bad_request_def split: sum.splits)
  qed (simp add: patch_task_def)
qed

lemma serve_refusal:
  assumes "\<not> completes_task rq"
  shows "refusal_clean (serve e rq db) db"
proof (rule serve_holds [where P = "\<lambda>rep. refusal_clean rep db"])
  note crud_clean = crud_holds [where P = "\<lambda>rep. refusal_clean rep db"]
  have "refusal_clean (inbox_router e rq db) db"
    by (simp add: inbox_router_def capture_refusal crud_clean)
  moreover have "refusal_clean (search_router e rq db) db" "refusal_clean (data_router e rq db) db"
    "refusal_clean (health_router e rq db) db"
    by (simp_all add: search_router_def data_router_def health_router_def refusal_same)
  moreover have "refusal_clean (crud (get_tasks q) (post_task e b) get_task
      (\<lambda>i. patch_task e i (req_body rq)) (delete_task e) rq db) db" if "router rq = ''tasks''" for q b
    using assms that
    by (auto simp: crud_def completes_task_def tasks_refusal patch_task_clean split: verb.split option.split)
  ultimately show "list_all (\<lambda>(k, h). k = router rq \<longrightarrow> refusal_clean (h db) db) (mounted e rq)"
    unfolding mounted_def Let_def
    by (simp add: catalog_refusal capture_refusal planning_refusal tagging_refusal crud_clean)
qed simp

section \<open>Deleted rows stay deleted\<close>

definition dead_id :: "tbl \<Rightarrow> string \<Rightarrow> tbl database \<Rightarrow> bool" where
  "dead_id t i db \<longleftrightarrow> (\<exists>r \<in> set (tab db t). by_id i r \<and> \<not> is_live r)"

lemma evo_dead_id:
  assumes "evo db db'" and "db_ok gw db" and "dead_id t i db"
  shows "dead_id t i db'"
proof -
  obtain r where r: "r \<in> set (tab db t)" "by_id i r" "\<not> is_live r"
    using assms(3) by (auto simp: dead_id_def)
  obtain r' where "r' \<in> set (tab db' t)" "gw_step t r r'"
    using assms(1,2) r(1) by (rule gwd.evolves_row)
  with r show ?thesis by (auto simp: dead_id_def gw_step_def by_id_def is_live_def)
qed

lemma dead_id_not_found:
  assumes "db_ok gw db" and "dead_id t i db"
  shows "find_live t i db = None"
  using assms same_key_same_row [OF assms(1)]
  by (auto simp: find_live_None_iff dead_id_def by_id_def) metis

lemma serve_all_dead_id:
  assumes "consistent db" and "dead_id t i db"
    and "\<And>e rq. (e, rq) \<in> set rs \<Longrightarrow> driver_ok e \<and> \<not> purges rq"
  shows "consistent (serve_all rs db) \<and> dead_id t i (serve_all rs db)"
  using assms
proof (induction rs arbitrary: db)
  case (Cons x rs)
  obtain e rq where x: "x = (e, rq)" by (cases x)
  have e: "driver_ok e" "\<not> purges rq" using Cons.prems(3) x by auto
  have ok: "db_ok gw db" using Cons.prems(1) by (simp add: consistent_def)
  have "consistent (snd (serve e rq db))" using e(1) Cons.prems(1) by (rule serve_consistent)
  moreover have "dead_id t i (snd (serve e rq db))"
    using serve_evo [OF e] ok Cons.prems(2) by (rule evo_dead_id)
  moreover have "driver_ok e' \<and> \<not> purges rq'" if "(e', rq') \<in> set rs" for e' rq'
    using Cons.prems(3) [of e' rq'] that by simp
  ultimately have "consistent (serve_all rs (snd (serve e rq db))) \<and>
      dead_id t i (serve_all rs (snd (serve e rq db)))"
    by (rule Cons.IH)
  then show ?case by (simp add: serve_all_def x)
qed (simp add: serve_all_def)

section \<open>A live domain remains\<close>

lemmas not_domains = writes_mono [where T' = "- {Domains}"]

lemmas other_writes = catalog_writes(4-6) [THEN not_domains, simplified]
  capture_writes [THEN not_domains, simplified] planning_writes [THEN not_domains, simplified]
  tagging_writes [THEN not_domains, simplified] tasks_writes [THEN not_domains, simplified]
  patch_task_writes [THEN not_domains, simplified]

lemma serve_other_routers:
  assumes "router rq \<noteq> ''domains''" and "\<not> purges rq"
  shows "writes_only (- {Domains}) db (snd (serve e rq db))"
proof (rule serve_holds [where P = "\<lambda>rep. writes_only (- {Domains}) db (snd rep)"])
  note crud_other = crud_holds [where P = "\<lambda>rep. writes_only (- {Domains}) db (snd rep)"]
  have "writes_only (- {Domains}) db (snd (inbox_router e rq db))"
    by (simp add: inbox_router_def other_writes crud_other)
  moreover have "writes_only (- {Domains}) db (snd (search_router e rq db))"
    "writes_only (- {Domains}) db (snd (health_router e rq db))"
    by (simp_all add: search_router_def health_router_def)
  moreover have "writes_only (- {Domains}) db (snd (data_router e rq db))"
    if "router rq = ''data-management''"
    using assms(2) that by (auto simp: data_router_def purges_def export_data_def purge_preview_def)
  ultimately show "list_all (\<lambda>(k, h). k = router rq \<longrightarrow> writes_only (- {Domains}) db (snd (h db)))
      (mounted e rq)"
    using assms unfolding mounted_def Let_def by (simp add: other_writes crud_other)
qed simp

lemma serve_domains:
  "router rq = ''domains'' \<Longrightarrow> serve e rq = crud (get_domains (params rq)) (post_domain e (req_body rq))
     get_domain (\<lambda>i. patch_domain e i (req_body rq)) (delete_domain e) rq"
proof -
  assume "router rq = ''domains''"
  moreover have "hd (mounted e rq) = (''domains'', crud (get_domains (params rq))
      (post_domain e (req_body rq)) get_domain (\<lambda>i. patch_domain e i (req_body rq)) (delete_domain e) rq)"
    and "mounted e rq \<noteq> []"
    by (simp_all add: mounted_def Let_def)
  ultimately show ?thesis by (intro serve_mounted) (metis hd_in_set)
qed

lemma serve_some_domain:
  assumes "db_ok gw db" and "some_domain db"
  shows "some_domain (snd (serve e rq db))"
proof -
  consider "purges rq" | "router rq = ''domains''" | "router rq \<noteq> ''domains''" "\<not> purges rq" by blast
  then show ?thesis
  proof cases
    case 1
    then show ?thesis
      using assms(2) shrinks_tab(2) [OF purge_shrinks [of e db]] live_not_expired
      by (auto simp: serve_purge some_domain_def)
  next
    case 2
    then show ?thesis
      using assms by (simp add: serve_domains crud_holds [where P = "\<lambda>rep. some_domain (snd rep)"]
          post_domain_some patch_domain_some delete_domain_some)
  next
    case 3
    then show ?thesis
      using writes_some_domain [OF serve_other_routers _ assms(2)] by simp
  qed
qed

end
