(* ===== verification/Scenario.thy ===== *)
theory Scenario
  imports Server
begin
text \<open>
  A concrete run of the server, for the witnesses of the properties: an environment per request, a
  handful of requests and the databases they leave behind.  Every definition computes, so a witness
  evaluates a request with \<^verbatim>\<open>code_simp\<close>.
\<close>

section \<open>Environments and requests\<close>

text \<open>Null, strings and numbers bind; the full-text engine finds every entry.\<close>

definition demo_bind :: "js \<Rightarrow> sqlval option" where
  "demo_bind v = (case v of JNull \<Rightarrow> Some Null | JStr s \<Rightarrow> Some (Text s) | JNum x \<Rightarrow> Some (Num x) | _ \<Rightarrow> None)"

definition demo_env :: "nat \<Rightarrow> env" where
  "demo_env n = \<lparr>gen_id = (\<lambda>k. ''id'' @ nat_str (10 * n + k)), now_at = (\<lambda>k. ''t'' @ nat_str (10 * n + k)),
     bind_param = demo_bind, num_dec = (\<lambda>_. ''x''), today = 20000, date_fallback = (\<lambda>_. None),
     clock_ms = 1772000000000, to_local = (\<lambda>t. t + 3600000), to_utc = (\<lambda>t. t - 3600000), db_bytes = Some 2048,
     fts_query = (\<lambda>t text es. Some (map (\<lambda>(i, cols). (i, ''...'')) (if distinct (map fst es) then es else [])))\<rparr>"

lemma demo_driver [simp]: "driver_ok (demo_env n)"
  by (simp add: driver_ok_def demo_env_def demo_bind_def)

lemma demo_binds [simp]: "bind_param (demo_env n) v = Some x \<Longrightarrow> js_of_sql x = v"
  by (auto simp: demo_env_def demo_bind_def split: js.splits)

lemma demo_fts [simp]: "fts_sound (demo_env n)"
  by (force simp: fts_sound_def demo_env_def comp_def case_prod_unfold)

definition obj :: "(string \<times> js) list \<Rightarrow> body" where
  "obj kvs f = (case map_of kvs f of None \<Rightarrow> Undefined | Some v \<Rightarrow> v)"

definition req :: "verb \<Rightarrow> string \<Rightarrow> string option \<Rightarrow> (string \<times> js) list \<Rightarrow> request" where
  "req v path i kvs = \<lparr>verb = v, router = path, rest = i, params = (\<lambda>_. None), req_body = obj kvs\<rparr>"

section \<open>A filled database\<close>

definition row :: "(string \<times> sqlval) list \<Rightarrow> row" where
  "row kvs c = (case map_of kvs c of None \<Rightarrow> Null | Some v \<Rightarrow> v)"

text \<open>Identity, row number and time stamps of a live row.\<close>

definition entry_of :: "string \<Rightarrow> rat \<Rightarrow> (string \<times> sqlval) list \<Rightarrow> row" where
  "entry_of i n kvs = row ([(''id'', Text i), (''rowid'', Num n), (''created_at'', Text ''t0''),
     (''updated_at'', Text ''t0'')] @ kvs)"

definition home :: row where
  "home = entry_of ''D1'' 1 [(''name'', Text ''Home''), (''color'', Text ''red''), (''sort_order'', Num 0)]"

definition work :: row where
  "work = entry_of ''D2'' 2 [(''name'', Text ''Work''), (''color'', Text ''blue''), (''sort_order'', Num 1)]"

definition shed :: row where
  "shed = entry_of ''P1'' 1 [(''domain_id'', Text ''D1''), (''name'', Text ''Shed''),
     (''status'', Text ''active''), (''default_view'', Text ''list''), (''sort_order'', Num 0)]"

definition paint :: row where
  "paint = entry_of ''T1'' 1 [(''project_id'', Text ''P1''), (''title'', Text ''Paint''),
     (''status'', Text ''active''), (''due_date'', Text ''2026-03-01''),
     (''recurrence_rule'', Text ''FREQ=DAILY''), (''depends_on'', Text ''[]''), (''sort_order'', Num 0)]"

definition brush :: row where
  "brush = entry_of ''M1'' 1 [(''project_id'', Text ''P1''), (''name'', Text ''Brush''),
     (''quantity'', Num 1), (''status'', Text ''needed''), (''blocks_tasks'', Text ''[]''), (''sort_order'', Num 0)]"

definition plan :: row where
  "plan = entry_of ''DP1'' 1 [(''date'', Text ''2026-03-01''), (''available_minutes'', Num 480),
     (''buffer_percent'', Num 20)]"

definition block :: row where
  "block = entry_of ''B1'' 1 [(''daily_plan_id'', Text ''DP1''), (''start_time'', Text ''09:00''),
     (''end_time'', Text ''10:00''), (''task_ids'', Text ''[]''), (''sort_order'', Num 0)]"

definition photo :: row where
  "photo = entry_of ''A1'' 1 [(''type'', Text ''photo''), (''file_path'', Text ''p.jpg''),
     (''task_id'', Text ''T1''), (''sort_order'', Num 0)]"

definition old_tag :: row where
  "old_tag = row [(''id'', Text ''G1''), (''rowid'', Num 1), (''name'', Text ''x''), (''sort_order'', Num 0),
     (''created_at'', Text ''t0''), (''updated_at'', Text ''2026-01-10T08:00:00.000Z''),
     (''deleted_at'', Text ''2026-01-10T08:00:00.000Z'')]"

definition shop_tab :: "tbl \<Rightarrow> row list" where
  "shop_tab t = (case t of Domains \<Rightarrow> [home, work] | Projects \<Rightarrow> [shed] | Tasks \<Rightarrow> [paint]
     | Materials \<Rightarrow> [brush] | DailyPlans \<Rightarrow> [plan] | TimeBlocks \<Rightarrow> [block] | Attachments \<Rightarrow> [photo]
     | Tags \<Rightarrow> [old_tag] | _ \<Rightarrow> [])"

definition shop :: "tbl database" where
  "shop = \<lparr>tab = shop_tab, fts = (\<lambda>t. if fts_cols (gw t) = [] then [] else map (fts_entry (gw t)) (shop_tab t))\<rparr>"

lemma shop_ok: "db_ok gw shop"
  unfolding db_ok_def all_tbl by code_simp

lemma shop_consistent: "consistent shop"
proof -
  have "fts_ok gw shop" by (simp add: fts_ok_def fts_at_def shop_def)
  moreover have "rowids_ok shop" unfolding rowids_ok_def all_tbl by code_simp
  moreover have "\<forall>r \<in> set (tab shop Tasks). completed_ok r"
    by (simp add: shop_def shop_tab_def completed_ok_def paint_def entry_of_def row_def)
  ultimately show ?thesis using shop_ok by (simp add: consistent_def)
qed

lemma shop_paint: "find_live Tasks ''T1'' shop = Some paint"
  by (simp add: find_live_def find_row_def shop_def shop_tab_def by_id_def is_live_def paint_def entry_of_def row_def)

lemma shop_plan: "plan \<in> set (tab shop DailyPlans)"
  by (simp add: shop_def shop_tab_def)

section \<open>A run\<close>

definition db1 :: "tbl database" where
  "db1 = snd (post_domain (demo_env 1) (obj [(''name'', JStr ''Work''), (''color'', JStr ''red'')]) empty_db)"

definition db2 :: "tbl database" where
  "db2 = snd (post_domain (demo_env 2) (obj [(''name'', JStr ''Home''), (''color'', JStr ''blue'')]) db1)"

definition db3 :: "tbl database" where
  "db3 = snd (post_project (demo_env 3) (obj [(''name'', JStr ''Shed''), (''domain_id'', JStr ''id10'')]) db2)"

definition task_body :: body where
  "task_body = obj [(''title'', JStr ''Paint''), (''project_id'', JStr ''id30''),
     (''due_date'', JStr ''2026-03-01''), (''recurrence_rule'', JStr ''FREQ=DAILY'')]"

definition db4 :: "tbl database" where
  "db4 = snd (post_task (demo_env 4) task_body db3)"

lemma serve_projects:
  "serve e (req v ''projects'' i kvs) = crud (get_projects (\<lambda>_. None)) (post_project e (obj kvs)) get_project
     (\<lambda>i. patch_project e i (obj kvs)) (delete_project e) (req v ''projects'' i kvs)"
  by (rule serve_mounted, unfold mounted_def Let_def list.set)
    (rule insertI2, unfold req_def, simp)

lemma serve_tasks:
  "serve e (req v ''tasks'' i kvs) = crud (get_tasks (\<lambda>_. None)) (post_task e (obj kvs)) get_task
     (\<lambda>i. patch_task e i (obj kvs)) (delete_task e) (req v ''tasks'' i kvs)"
  by (rule serve_mounted, unfold mounted_def Let_def list.set)
    (rule insertI2, rule insertI2, unfold req_def, simp)

lemma serve_domains_req:
  "serve e (req v ''domains'' i kvs) = crud (get_domains (\<lambda>_. None)) (post_domain e (obj kvs)) get_domain
     (\<lambda>i. patch_domain e i (obj kvs)) (delete_domain e) (req v ''domains'' i kvs)"
  by (subst serve_domains) (simp_all add: req_def)

lemma reachable_post:
  assumes "reachable db"
  shows "reachable (snd (post_domain (demo_env n) (obj kvs) db))"
    and "reachable (snd (post_project (demo_env n) (obj kvs) db))"
    and "reachable (snd (post_task (demo_env n) (obj kvs) db))"
  using reachable.request [OF assms demo_driver [of n], of "req POST ''domains'' None kvs"]
    reachable.request [OF assms demo_driver [of n], of "req POST ''projects'' None kvs"]
    reachable.request [OF assms demo_driver [of n], of "req POST ''tasks'' None kvs"]
  unfolding serve_domains_req serve_projects serve_tasks by (simp_all add: crud_def req_def)

lemma reachable_dbs [simp]: "reachable db1" "reachable db2" "reachable db3" "reachable db4"
proof -
  show 1: "reachable db1" by (simp add: db1_def reachable.start reachable_post)
  show 2: "reachable db2" by (simp add: db2_def reachable_post 1)
  show 3: "reachable db3" by (simp add: db3_def reachable_post 2)
  show "reachable db4" by (simp add: db4_def task_body_def reachable_post 3)
qed

lemma reachable_ok: "reachable db \<Longrightarrow> db_ok gw db" "reachable db \<Longrightarrow> fts_ok gw db"
  "reachable db \<Longrightarrow> rowids_ok db"
  using reachable_consistent by (auto simp: consistent_def)


end
