(* ===== verification/Data_Properties.thy ===== *)
theory Data_Properties
  imports Scenario
begin

text \<open>
  The properties of purge and search: what a purge may and must remove, how many rows it counts, and
  what a search can return.
\<close>

section \<open>Purge\<close>

lemma purge_fold: "snd (purge e db) = fst (fold (purge_table e) managed_tables (db, 0, []))"
  by (simp add: purge_def purge_all_def split: prod.split)

lemma managed_all: "t \<in> set managed_tables"
  using UNIV_tbl by (auto simp: managed_tables_def all_tables_def)

text \<open>A purge is complete where it can be: a table none of whose expired rows is still referred to
  holds no expired row afterwards.\<close>

lemma purge_complete:
  assumes "db_ok gw db" and "\<not> blocked e t db"
  shows "\<forall>r \<in> set (tab (snd (purge e db)) t). \<not> expired e r"
  using purge_tables_clear [OF managed_all assms] unfolding purge_fold by blast

lemma tags_not_blocked: "\<not> blocked e Tags shop"
proof -
  have "u = TaskTags" if "c \<in> set (columns (gw u))" "refs c = Some Tags" for u c
    using that by (cases u) (auto simp: schema_defs)
  moreover have "tab shop TaskTags = []" by (simp add: shop_def shop_tab_def)
  ultimately show ?thesis unfolding blocked_def by (metis empty_iff empty_set)
qed

text \<open>
  The cut-off in a time zone whose offset from UTC is \<open>z\<close> at the request and \<open>z'\<close> at the same local time 90
  days earlier: 90 days before the request, corrected by the difference.
\<close>

lemma cutoff_instant:
  assumes "to_local e (clock_ms e) = clock_ms e + z"
    and "to_utc e (clock_ms e + z - 7776000000) = clock_ms e + z - 7776000000 - z'"
  shows "cutoff e = to_iso_string (clock_ms e - 7776000000 + (z - z'))"
proof -
  have "cutoff e = to_iso_string (to_utc e (clock_ms e + z - 7776000000))"
    using set_local_date_back [of "to_local e" "clock_ms e" z "to_utc e" 90] assms(1)
    by (simp add: cutoff_def ms_per_day_def)
  also have "to_utc e (clock_ms e + z - 7776000000) = clock_ms e - 7776000000 + (z - z')" unfolding assms(2) by simp
  finally show ?thesis .
qed

lemma expired_instant:
  assumes "cutoff e = to_iso_string c" "0 \<le> c" "c < year_10000" and "r ''deleted_at'' = Text (to_iso_string d)" "0 \<le> d" "d < year_10000"
  shows "expired e r \<longleftrightarrow> d < c"
  using assms by (simp add: expired_def less_sqlval_def to_iso_string_order flip: less_le_not_le)

text \<open>C40: a purge is safe and complete: it removes no row that is live or was deleted (at an instant written
  by \<^verbatim>\<open>now()\<close>) less than 90 days ago, adds nothing and leaves a consistent database consistent; a table of
  which no deleted row is referred to holds afterwards no row deleted more than 90 days ago.  Instants lie in the
  years 1970 to 9999.  The 90 days are local days: they count an hour more or less when the clocks were changed in between.\<close>

theorem purge_safe:
  assumes "consistent db" and "to_local e (clock_ms e) = clock_ms e + z"
    and "to_utc e (clock_ms e + z - 7776000000) = clock_ms e + z - 7776000000 - z'"
    and "c = clock_ms e - 7776000000 + (z - z')" and "0 \<le> c" and "c < 253402300800000"
  shows "consistent (snd (purge e db)) \<and>
    (\<forall>t. set (tab (snd (purge e db)) t) \<subseteq> set (tab db t) \<and>
      {r \<in> set (tab db t). is_live r} \<subseteq> set (tab (snd (purge e db)) t) \<and>
      {r \<in> set (tab db t). \<exists>d. r ''deleted_at'' = Text (to_iso_string d) \<and> c \<le> d \<and> d < 253402300800000}
        \<subseteq> set (tab (snd (purge e db)) t) \<and>
      (\<not> blocked e t db \<longrightarrow>
        {r \<in> set (tab (snd (purge e db)) t). \<exists>d. r ''deleted_at'' = Text (to_iso_string d) \<and> 0 \<le> d \<and> d < c} = {}))"
proof -
  have cut: "cutoff e = to_iso_string c" using cutoff_instant [OF assms(2,3)] by (simp add: assms(4))
  have c: "0 \<le> c" "c < year_10000" using assms(5,6) by (simp_all add: year_10000_def)
  note due = expired_instant [OF cut c]
  have kept: "\<not> expired e r" if "r ''deleted_at'' = Text (to_iso_string d)" "c \<le> d" "d < 253402300800000" for r d
    using due [of r d, OF that(1)] that(2,3) c by (simp add: year_10000_def)
  have gone: "expired e r" if "r ''deleted_at'' = Text (to_iso_string d)" "0 \<le> d" "d < c" for r d
    using due [of r d, OF that(1,2)] that(3) c by simp
  have db: "db_ok gw db" using assms(1) by (simp add: consistent_def)
  have shrunk: "r \<in> set (tab (snd (purge e db)) t) \<Longrightarrow> r \<in> set (tab db t)"
    "r \<in> set (tab db t) \<Longrightarrow> \<not> expired e r \<Longrightarrow> r \<in> set (tab (snd (purge e db)) t)" for r t
    using shrinks_tab [OF purge_shrinks [of e db]] by blast+
  have "consistent (snd (purge e db))" using shrinks_consistent [OF purge_shrinks assms(1)] .
  then show ?thesis
    using shrunk kept gone purge_complete [OF db, of e] live_not_expired by (intro conjI allI impI) blast+
qed

text \<open>The tag of the demo database was deleted 46 days before one request and 106 days before another.\<close>

lemma purge_safe_witness:
  "old_tag \<in> set (tab (snd (purge (demo_env 5) shop)) Tags) \<and>
   old_tag \<notin> set (tab (snd (purge ((demo_env 5)\<lparr>clock_ms := 1777190400000\<rparr>) shop)) Tags)"
proof -
  let ?e = "(demo_env 5)\<lparr>clock_ms := 1777190400000\<rparr>"
  have tag: "old_tag \<in> set (tab shop Tags)" by (simp add: shop_def shop_tab_def)
  have date: "old_tag ''deleted_at'' = Text (to_iso_string 1768032000000)" by code_simp
  have zone: "to_local (demo_env 5) (clock_ms (demo_env 5)) = clock_ms (demo_env 5) + 3600000"
    "to_utc (demo_env 5) (clock_ms (demo_env 5) + 3600000 - 7776000000) = clock_ms (demo_env 5) + 3600000 - 7776000000 - 3600000"
    "1764224000000 = clock_ms (demo_env 5) - 7776000000 + (3600000 - 3600000)"
    "to_local ?e (clock_ms ?e) = clock_ms ?e + 3600000"
    "to_utc ?e (clock_ms ?e + 3600000 - 7776000000) = clock_ms ?e + 3600000 - 7776000000 - 3600000"
    "1769414400000 = clock_ms ?e - 7776000000 + (3600000 - 3600000)" by (simp_all add: demo_env_def)
  have range: "0 \<le> (1764224000000 :: int)" "(1764224000000 :: int) < 253402300800000"
    "0 \<le> (1769414400000 :: int)" "(1769414400000 :: int) < 253402300800000" by simp_all
  note early = purge_safe [OF shop_consistent zone(1-3) range(1,2), THEN conjunct2, THEN spec [of _ Tags],
      THEN conjunct2, THEN conjunct2, THEN conjunct1]
    and late = purge_safe [OF shop_consistent zone(4-6) range(3,4), THEN conjunct2, THEN spec [of _ Tags],
      THEN conjunct2, THEN conjunct2, THEN conjunct2]
  have "old_tag \<in> {r \<in> set (tab shop Tags). \<exists>d. r ''deleted_at'' = Text (to_iso_string d) \<and> 1764224000000 \<le> d \<and> d < 253402300800000}"
    using tag by (intro CollectI conjI exI [of _ 1768032000000]) (simp_all add: date)
  with early have "old_tag \<in> set (tab (snd (purge (demo_env 5) shop)) Tags)" by (rule subsetD)
  moreover have "old_tag \<notin> set (tab (snd (purge ?e shop)) Tags)"
  proof
    assume "old_tag \<in> set (tab (snd (purge ?e shop)) Tags)"
    then have "old_tag \<in> {r \<in> set (tab (snd (purge ?e shop)) Tags). \<exists>d. r ''deleted_at'' = Text (to_iso_string d) \<and> 0 \<le> d \<and> d < 1769414400000}"
      by (intro CollectI conjI exI [of _ 1768032000000]) (simp_all add: date)
    then show False using late tags_not_blocked [of ?e] by simp
  qed
  ultimately show ?thesis by blast
qed

text \<open>The tables are purged parents first, so an expired domain that any project row still refers to,
  expired or not, keeps the whole domains table from being purged in this request.\<close>

lemma purge_keeps_referenced_domains:
  assumes "db_ok gw db" and "d \<in> set (tab db Domains)" and "expired e d"
    and "p \<in> set (tab db Projects)" and "p ''domain_id'' = d ''id''"
  shows "tab (snd (purge e db)) Domains = tab db Domains"
  using assms by (rule purge_domains_blocked)

lemma sum_list_le: "(\<And>x. x \<in> set xs \<Longrightarrow> f x \<le> (g x :: nat)) \<Longrightarrow> sum_list (map f xs) \<le> sum_list (map g xs)"
  by (rule sum_list_mono)

text \<open>The number a purge reports is the number of rows it removed, and never more than the number
  the preview announces for the same moment.\<close>

lemma purge_counts_removed_rows:
  assumes "purge e db = (Resp 200 (PPurge n by_table), db')"
  shows "n + (\<Sum>t \<leftarrow> managed_tables. length (tab db' t)) = (\<Sum>t \<leftarrow> managed_tables. length (tab db t)) \<and>
    (\<exists>m. fst (purge_preview e db) = Resp 200 (PPreview m (cutoff e)) \<and> n \<le> m)"
proof -
  obtain bt where f: "fold (purge_table e) managed_tables (db, 0, []) = (db', n, bt)"
    using assms by (auto simp: purge_def purge_all_def split: prod.splits)
  have distinct: "distinct managed_tables" by (simp add: managed_tables_def)
  have count: "n + (\<Sum>t \<leftarrow> managed_tables. length (tab db' t)) = (\<Sum>t \<leftarrow> managed_tables. length (tab db t))"
    using purge_tables_count [OF f distinct] by simp
  have "length (tab db t) \<le> length (sql_select t (expired e) db) + length (tab db' t)" for t
  proof -
    have "tab db' t = tab db t \<or> tab db' t = filter (\<lambda>r. \<not> expired e r) (tab db t)"
      using purge_tables_shrinks [of e db managed_tables 0 "[]"] f by (simp add: shrinks_def)
    then show ?thesis
      using sum_length_filter_compl [of "expired e" "tab db t"] by (auto simp: sql_select_def)
  qed
  then have "(\<Sum>t \<leftarrow> managed_tables. length (tab db t)) \<le>
      (\<Sum>t \<leftarrow> managed_tables. length (sql_select t (expired e) db) + length (tab db' t))"
    by (intro sum_list_le)
  then have "n \<le> (\<Sum>t \<leftarrow> managed_tables. length (sql_select t (expired e) db))"
    using count by (simp add: sum_list_addf)
  with count show ?thesis by (simp add: purge_preview_def)
qed

lemma purge_reply: "purge e db = (Resp 200 (PPurge (fst (snd (purge_all e db))) (snd (snd (purge_all e db)))), snd (purge e db))"
  by (simp add: purge_def split: prod.split)

section \<open>Search\<close>

text \<open>A search returns live rows only, each of a requested kind and with the identifier of its row, and
  with a non-negative limit never more results than the limit.\<close>

lemma search_returns_live_rows:
  assumes "fst (search e q db) = Resp 200 (PSearch xs s)"
  shows "(\<forall>x \<in> set xs. \<exists>k r. k \<in> set (allowed_types q) \<and> map_of x ''type'' = Some (Text k) \<and>
      r \<in> set (tab db (kind_table k)) \<and> is_live r \<and> map_of x ''id'' = Some (r ''id'')) \<and>
    (0 \<le> search_limit q \<longrightarrow> length xs \<le> nat (search_limit q))"
proof -
  have "xs = [] \<or> (\<exists>text. xs = js_slice_to (search_limit q) (search_results e (allowed_types q) text (search_limit q) db))"
    using assms by (auto simp: search_def Let_def split: if_splits)
  then show ?thesis
    using search_results_live js_slice_to_length by (auto dest!: js_slice_to_set) blast
qed

definition q_paint :: query where
  "q_paint = [''q'' \<mapsto> ''paint'', ''type'' \<mapsto> ''task'']"

text \<open>No input breaks out of the full-text query: the text given to \<^verbatim>\<open>MATCH\<close> is a sequence of
  double-quoted prefix terms, and no term is empty or holds a quote or white space.\<close>

lemma search_terms_are_quoted:
  "\<exists>ws. fts_text s = join '' '' (map (\<lambda>w. [CHR 34] @ w @ [CHR 34] @ ''*'') ws) \<and>
    (\<forall>w \<in> set ws. w \<noteq> [] \<and> CHR 34 \<notin> set w \<and> CHR 39 \<notin> set w \<and> (\<forall>c \<in> set w. \<not> js_space c))"
  using words_clean by (intro exI [of _ "words (strip_quotes s)"]) (auto simp: fts_text_def)

text \<open>An entry the full-text engine finds joins exactly one row of its table, in every reachable state:
  the triggers never leave an entry without its row, and row numbers are never shared.\<close>

lemma search_hit_has_one_row:
  assumes "reachable db" and "fts_sound e" and "fts_cols (gw t) \<noteq> []"
    and "fts_query e t text (fts db t) = Some hits" and "(n, snip) \<in> set hits"
  shows "\<exists>r. r \<in> set (tab db t) \<and> rowid_of r = n \<and> filter (\<lambda>r. rowid_of r = n) (tab db t) = [r]"
  using fts_hit_row [OF reachable_ok(2) [OF assms(1)] reachable_ok(3) [OF assms(1)]] assms(2-5) by blast

end
