(* ===== verification/Task_Laws.thy ===== *)
theory Task_Laws
  imports Tasks
begin

text \<open>
  What a successful request to the tasks router leaves in the tables: the created row, the entries
  of the event log, the completed task and its clone.
\<close>

section \<open>The event log\<close>

text \<open>What an entry of the log says: task, event type, old and new value, time.\<close>

definition event_view :: "row \<Rightarrow> sqlval list" where
  "event_view r = map r [''task_id'', ''event_type'', ''old_value'', ''new_value'', ''occurred_at'', ''deleted_at'']"

definition change_view :: "env \<Rightarrow> string \<Rightarrow> change \<Rightarrow> sqlval list" where
  "change_view e i c = (case c of (ty, old, new) \<Rightarrow> [Text i, Text ty,
     Text (json_stringify (num_dec e) old), Text (json_stringify (num_dec e) new), Text (now_at e 0), Null])"

lemma log_change_tab:
  assumes e: "driver_ok e" and run: "log_change e i (k, c) db = Inr db'"
  obtains r where "tab db' = (tab db)(TaskEvents := tab db TaskEvents @ [r])" and "event_view r = change_view e i c"
proof -
  obtain ty old new where c: "c = (ty, old, new)" by (cases c)
  obtain vs where vs: "bind_all e
       [(''id'', JStr (gen_id e k)), (''task_id'', JStr i), (''event_type'', JStr ty),
        (''old_value'', JStr (json_stringify (num_dec e) old)),
        (''new_value'', JStr (json_stringify (num_dec e) new)),
        (''occurred_at'', JStr (now_at e 0)), (''created_at'', JStr (now_at e 0)),
        (''updated_at'', JStr (now_at e 0))] = Some vs"
    and tab: "tab db' = (tab db)(TaskEvents := tab db TaskEvents @ [new_row (gw TaskEvents) vs (tab db TaskEvents)])"
    using run by (auto simp: log_change_def c Let_def elim!: run_insert_tab)
  have "vs = [(''id'', Text (gen_id e k)), (''task_id'', Text i), (''event_type'', Text ty),
        (''old_value'', Text (json_stringify (num_dec e) old)),
        (''new_value'', Text (json_stringify (num_dec e) new)),
        (''occurred_at'', Text (now_at e 0)), (''created_at'', Text (now_at e 0)),
        (''updated_at'', Text (now_at e 0))]"
    using vs e by (simp add: driver_ok_def)
  then have "event_view (new_row (gw TaskEvents) vs (tab db TaskEvents)) = change_view e i c"
    using default_deleted_at [of TaskEvents] by (simp add: event_view_def change_view_def c new_row_def)
  with tab show thesis by (rule that)
qed

lemma log_changes_tab:
  assumes e: "driver_ok e" and run: "foldE (log_change e i) (enumerate k cs) db = Inr db'"
  shows "\<exists>new. tab db' = (tab db)(TaskEvents := tab db TaskEvents @ new) \<and>
    map event_view new = map (change_view e i) cs"
  using run
proof (induction cs arbitrary: k db)
  case (Cons c cs)
  obtain db1 where 1: "log_change e i (k, c) db = Inr db1"
    and 2: "foldE (log_change e i) (enumerate (Suc k) cs) db1 = Inr db'"
    using Cons.prems by auto
  obtain r where r: "tab db1 = (tab db)(TaskEvents := tab db TaskEvents @ [r])" "event_view r = change_view e i c"
    using e 1 by (rule log_change_tab)
  obtain new where "tab db' = (tab db1)(TaskEvents := tab db1 TaskEvents @ new)"
    "map event_view new = map (change_view e i) cs" using Cons.IH [OF 2] by blast
  with r show ?case by (intro exI [of _ "r # new"]) simp
qed simp

lemma touch_project_same: "touch_project e p db = Inr db' \<Longrightarrow> t \<noteq> Projects \<Longrightarrow> tab db' t = tab db t"
  by (auto simp: touch_project_def split: option.splits intro: run_update_same)

lemma log_created_same: "log_created e k i v ts db = Inr db' \<Longrightarrow> t \<noteq> TaskEvents \<Longrightarrow> tab db' t = tab db t"
  unfolding log_created_def by (erule run_insert_tab) simp

lemma log_created_grows: "log_created e k i v ts db = Inr db' \<Longrightarrow> \<exists>new. tab db' TaskEvents = tab db TaskEvents @ new"
  unfolding log_created_def by (erule run_insert_tab) simp

section \<open>The update of a task\<close>

lemma update_task_tab:
  assumes e: "driver_ok e" and run: "update_task e i b r db = Inr db'"
  obtains vs new where "bind_all e (task_updates e b r @ [(''updated_at'', JStr (now_at e 0))]) = Some vs"
    and "tab db' Tasks = map (\<lambda>r. if by_id i r then set_cols vs r else r) (tab db Tasks)"
    and "tab db' TaskEvents = tab db TaskEvents @ new"
    and "map event_view new = map (change_view e i) (changes b r)"
proof -
  obtain db1 db2 where 1: "run_update e Tasks (task_updates e b r @ [(''updated_at'', JStr (now_at e 0))]) (by_id i) db = Inr db1"
    and 2: "foldE (log_change e i) (enumerate 0 (changes b r)) db1 = Inr db2"
    and 3: "touch_project e (nullish (b ''project_id'') (js_of_sql (r ''project_id''))) db2 = Inr db'"
    using run by (auto simp: update_task_def)
  obtain vs where vs: "bind_all e (task_updates e b r @ [(''updated_at'', JStr (now_at e 0))]) = Some vs"
    and tab1: "tab db1 = (tab db)(Tasks := map (\<lambda>r. if by_id i r then set_cols vs r else r) (tab db Tasks))"
    using 1 by (rule run_update_tab)
  obtain new where tab2: "tab db2 = (tab db1)(TaskEvents := tab db1 TaskEvents @ new)"
    and new: "map event_view new = map (change_view e i) (changes b r)"
    using log_changes_tab [OF e 2] by blast
  show thesis
    using vs _ _ new
    by (rule that) (simp_all add: touch_project_same [OF 3] tab2 tab1)
qed

section \<open>Completing a task\<close>

lemma task_update_done:
  assumes e: "driver_ok e" and dn: "b ''status'' = JStr ''done''"
    and vs: "bind_all e (task_updates e b r @ [(''updated_at'', ts)]) = Some vs"
  shows "set_cols vs r ''status'' = Text ''done''"
    and "r ''status'' \<noteq> Text ''done'' \<Longrightarrow> set_cols vs r ''completed_at'' = Text (now_at e 0)"
    and "set_cols vs r ''id'' = r ''id''" and "set_cols vs r ''deleted_at'' = r ''deleted_at''"
proof -
  obtain us ws where us: "bind_all e (task_updates e b r) = Some us"
    and ws: "bind_all e [(''updated_at'', ts)] = Some ws" and vs': "vs = us @ ws"
    using vs by (rule bind_all_appendE)
  obtain as bs
    where as: "bind_all e (collect_updates task_fields b @ json_update e ''depends_on'' b) = Some as"
    and bs: "bind_all e (status_updates e b r) = Some bs" and us': "us = as @ bs"
    using us unfolding task_updates_def append_assoc [symmetric] by (rule bind_all_appendE)
  have out: "c \<notin> fst ` set as" if "c \<in> {''status'', ''completed_at'', ''id'', ''deleted_at''}" for c
  proof -
    have "c \<notin> set task_fields \<union> {''depends_on''}" using that by (auto simp: task_fields_def)
    then show ?thesis using other_updates_keys [of b e] bind_all_dom [OF as] by blast
  qed
  have ws': "c \<notin> fst ` set ws" if "c \<noteq> ''updated_at''" for c
    using bind_all_dom [OF ws] that by simp
  have ch: "changed ''status'' b r \<longleftrightarrow> r ''status'' \<noteq> Text ''done''"
    by (cases "r ''status''") (auto simp: changed_def dn)
  have bs': "bs = (if r ''status'' = Text ''done'' then []
      else [(''status'', Text ''done''), (''completed_at'', Text (now_at e 0))])"
    using bs dn e by (auto simp: status_updates_def ch driver_ok_def split: if_splits)
  have set: "set_cols vs r c = set_cols bs (set_cols as r) c" if "c \<noteq> ''updated_at''" for c
    using ws' [OF that] by (simp add: vs' us' set_cols_append set_cols_other)
  show "set_cols vs r ''status'' = Text ''done''"
    using set [of "''status''"] out [of "''status''"] bs' by (auto simp: set_cols_other)
  show "r ''status'' \<noteq> Text ''done'' \<Longrightarrow> set_cols vs r ''completed_at'' = Text (now_at e 0)"
    using set [of "''completed_at''"] by (simp add: bs')
  show "set_cols vs r ''id'' = r ''id''"
    using set [of "''id''"] out [of "''id''"] by (simp add: bs' set_cols_other)
  show "set_cols vs r ''deleted_at'' = r ''deleted_at''"
    using set [of "''deleted_at''"] out [of "''deleted_at''"] by (simp add: bs' set_cols_other)
qed


section \<open>The clone\<close>

text \<open>What a clone takes over from the completed task, and what it starts with.\<close>

definition is_clone :: "string \<Rightarrow> row \<Rightarrow> row \<Rightarrow> bool" where
  "is_clone due r cl \<longleftrightarrow> cl ''status'' = Text ''backlog'' \<and> cl ''due_date'' = Text due \<and>
     cl ''completed_at'' = Null \<and> cl ''project_id'' = r ''project_id'' \<and> cl ''title'' = r ''title'' \<and>
     cl ''notes'' = r ''notes'' \<and> cl ''estimated_minutes'' = r ''estimated_minutes'' \<and>
     cl ''recurrence_rule'' = r ''recurrence_rule'' \<and>
     cl ''recurrence_parent_id'' = (if truthy (js_of_sql (r ''recurrence_parent_id''))
       then r ''recurrence_parent_id'' else r ''id'')"

lemma bind_js_of_sql: "driver_ok e \<Longrightarrow> bind_param e (js_of_sql v) = Some v"
  by (cases v) (simp_all add: driver_ok_def)

lemma nullish_js_of_sql: "nullish (js_of_sql v) JNull = js_of_sql v"
  by (cases v) simp_all

lemma find_live_last:
  assumes "db_ok gw db" and "tab db t = rs @ [r]" and "by_id i r" and "is_live r"
  shows "find_live t i db = Some r" and "find_row t (by_id i) db = Some r"
  using assms by (auto simp: find_live_def intro!: find_row_eqI [where i = i])

lemma clone_task_tab:
  assumes e: "driver_ok e" and run: "clone_task e k r due db = Inr db'"
  obtains cl new where "tab db' Tasks = tab db Tasks @ [cl]" and "tab db' TaskEvents = tab db TaskEvents @ new"
    and "by_id (gen_id e k) cl" and "is_live cl" and "is_clone due r cl"
proof -
  let ?v = "\<lambda>c. js_of_sql (r c)" and ?ts = "JStr (now_at e 1)"
  obtain db1 where ins: "run_insert e Tasks
        [(''id'', JStr (gen_id e k)), (''project_id'', ?v ''project_id''), (''title'', ?v ''title''),
         (''status'', JStr ''backlog''),
         (''kanban_column'', nullish (?v ''kanban_column'') JNull),
         (''estimated_minutes'', nullish (?v ''estimated_minutes'') JNull),
         (''due_date'', JStr due),
         (''seasonal_window'', nullish (?v ''seasonal_window'') JNull),
         (''depends_on'', nullish (?v ''depends_on'') (JStr ''[]'')),
         (''sort_order'', nullish (?v ''sort_order'') (JNum 0)),
         (''notes'', nullish (?v ''notes'') JNull),
         (''recurrence_rule'', ?v ''recurrence_rule''),
         (''recurrence_parent_id'', parent_id r),
         (''created_at'', ?ts), (''updated_at'', ?ts)] db = Inr db1"
    and ev: "log_created e (k + 1) (gen_id e k)
        (JObj [(''title'', ?v ''title''), (''recurrence_clone'', JBool True)]) (now_at e 1) db1 = Inr db'"
    using run unfolding clone_task_def Let_def by (elim bindE_Inr_E)
  obtain vs where vs: "bind_all e [(''id'', JStr (gen_id e k)), (''project_id'', ?v ''project_id''), (''title'', ?v ''title''),
         (''status'', JStr ''backlog''),
         (''kanban_column'', nullish (?v ''kanban_column'') JNull),
         (''estimated_minutes'', nullish (?v ''estimated_minutes'') JNull),
         (''due_date'', JStr due),
         (''seasonal_window'', nullish (?v ''seasonal_window'') JNull),
         (''depends_on'', nullish (?v ''depends_on'') (JStr ''[]'')),
         (''sort_order'', nullish (?v ''sort_order'') (JNum 0)),
         (''notes'', nullish (?v ''notes'') JNull),
         (''recurrence_rule'', ?v ''recurrence_rule''),
         (''recurrence_parent_id'', parent_id r),
         (''created_at'', ?ts), (''updated_at'', ?ts)] = Some vs"
    and tab: "tab db1 = (tab db)(Tasks := tab db Tasks @ [new_row (gw Tasks) vs (tab db Tasks)])"
    using ins by (rule run_insert_tab)
  let ?cl = "new_row (gw Tasks) vs (tab db Tasks)"
  have keys: "''deleted_at'' \<notin> fst ` set vs" "''completed_at'' \<notin> fst ` set vs"
    using bind_all_dom [OF vs] by simp_all
  have col: "?cl c = v" if "map_of vs c = Some v" "c \<noteq> ''rowid''" for c v
    using that by (simp add: new_row_col)
  have "parent_id r = ?v ''recurrence_parent_id'' \<and> truthy (?v ''recurrence_parent_id'') \<or>
      parent_id r = ?v ''id'' \<and> \<not> truthy (?v ''recurrence_parent_id'')"
    by (simp add: parent_id_def)
  then have parent: "bind_param e (parent_id r) = Some (if truthy (?v ''recurrence_parent_id'')
      then r ''recurrence_parent_id'' else r ''id'')"
    using bind_js_of_sql [OF e] by auto
  have cols: "map_of vs ''id'' = Some (Text (gen_id e k))" "map_of vs ''status'' = Some (Text ''backlog'')"
    "map_of vs ''due_date'' = Some (Text due)" "map_of vs ''project_id'' = Some (r ''project_id'')"
    "map_of vs ''title'' = Some (r ''title'')" "map_of vs ''notes'' = Some (r ''notes'')"
    "map_of vs ''estimated_minutes'' = Some (r ''estimated_minutes'')"
    "map_of vs ''recurrence_rule'' = Some (r ''recurrence_rule'')"
    "map_of vs ''recurrence_parent_id'' = Some (if truthy (?v ''recurrence_parent_id'')
      then r ''recurrence_parent_id'' else r ''id'')"
    using vs e parent bind_js_of_sql [OF e] nullish_js_of_sql
    by (auto simp: driver_ok_def split: option.splits)
  have "column_default (gw Tasks) ''completed_at'' = Null"
    by (simp add: column_default_def schema_defs)
  then have "?cl ''completed_at'' = Null" "?cl ''deleted_at'' = Null"
    using new_row_col(2) [OF _ keys(1), of "gw Tasks" "tab db Tasks"]
      new_row_col(2) [OF _ keys(2), of "gw Tasks" "tab db Tasks"]
      default_deleted_at [of Tasks] by simp_all
  then have "is_clone due r ?cl" "is_live ?cl" "by_id (gen_id e k) ?cl"
    using col cols by (simp_all add: is_clone_def is_live_def by_id_def)
  moreover have "tab db' Tasks = tab db Tasks @ [?cl]"
    using log_created_same [OF ev, of Tasks] tab by simp
  moreover obtain new where "tab db' TaskEvents = tab db TaskEvents @ new"
    using log_created_grows [OF ev] tab by auto
  ultimately show thesis by (intro that)
qed

lemma patch_task_200:
  assumes "patch_task e i b db = (Resp 200 p, db')"
  obtains r db1 where "find_live Tasks i db = Some r" and "update_task e i b r db = Inr db1"
    and "clone_on_complete e (length (changes b r)) i b db1 = (Resp 200 p, db')"
  using assms
  by (auto simp: patch_task_def not_found_def bad_request_def split: option.splits if_splits sum.splits)

lemma clone_on_complete_200:
  assumes "clone_on_complete e k i b db = (Resp 200 (PTask j c), db')"
  obtains (none) "db' = db" "c = None" "\<And>r. find_row Tasks (by_id i) db = Some r \<Longrightarrow> next_instance e b r = None"
  | (clone) r due where "find_row Tasks (by_id i) db = Some r" "next_instance e b r = Some due"
      "clone_task e k r due db = Inr db'" "c = Some (task_json (gen_id e k) db')"
  using assms by (auto simp: clone_on_complete_def finish_def split: option.splits sum.splits)

lemma task_json_found: "find_row Tasks (by_id i) db = Some r \<Longrightarrow> task_json i db = row_json Tasks r"
  by (simp add: task_json_def)

section \<open>The log against the row\<close>

text \<open>The binding changes no value it takes: what a column then holds reads back as the value given.\<close>

definition binds_exactly :: "env \<Rightarrow> bool" where
  "binds_exactly e \<longleftrightarrow> (\<forall>v x. bind_param e v = Some x \<longrightarrow> js_of_sql x = v)"

text \<open>
  The log entries the difference between two versions of a task calls for: for each of status, due
  date and estimate that differs, its old and its new value as JSON.
\<close>

definition row_diff :: "env \<Rightarrow> string \<Rightarrow> row \<Rightarrow> row \<Rightarrow> sqlval list list" where
  "row_diff e i r r' =
     (let entry = (\<lambda>f ty. if r' f = r f then [] else
        [[Text i, Text ty, Text (json_stringify (num_dec e) (js_of_sql (r f))),
          Text (json_stringify (num_dec e) (js_of_sql (r' f))), Text (now_at e 0), Null]]) in
      entry ''status'' (if r' ''status'' = Text ''done'' then ''completed''
        else if r' ''status'' = Text ''dropped'' then ''dropped'' else ''status_changed'')
      @ entry ''due_date'' ''rescheduled'' @ entry ''estimated_minutes'' ''estimate_changed'')"

lemma js_of_sql_inj: "js_of_sql x = js_of_sql y \<longleftrightarrow> x = y"
  by (cases x; cases y) simp_all

lemma task_updates_distinct: "distinct (map fst (task_updates e b r))" "''updated_at'' \<notin> fst ` set (task_updates e b r)"
proof -
  have "distinct task_fields" by (simp add: task_fields_def)
  note 1 = distinct_collect_updates [OF this, of b]
  have 2: "fst ` set (collect_updates task_fields b) \<subseteq> set task_fields" by (rule collect_updates_keys)
  have 3: "''depends_on'' \<notin> set task_fields" "''status'' \<notin> set task_fields" "''completed_at'' \<notin> set task_fields"
    "''updated_at'' \<notin> set task_fields" by (simp_all add: task_fields_def)
  show "distinct (map fst (task_updates e b r))"
    using 1 2 3 by (auto simp: task_updates_def json_update_def status_updates_def)
  show "''updated_at'' \<notin> fst ` set (task_updates e b r)"
    using 2 3 by (auto simp: task_updates_def json_update_def status_updates_def split: if_splits)
qed

lemma task_updates_col:
  assumes "f \<in> {''status'', ''due_date'', ''estimated_minutes''}"
  shows "map_of (task_updates e b r) f = (if b f = Undefined \<or> f = ''status'' \<and> \<not> changed f b r then None else Some (b f))"
proof -
  have "f \<in> set task_fields \<longleftrightarrow> f \<noteq> ''status''" "f \<noteq> ''depends_on''" "f \<noteq> ''completed_at''"
    using assms by (auto simp: task_fields_def)
  then show ?thesis
    by (cases "f = ''status''") (simp_all add: task_updates_def map_add_def map_of_collect_updates json_update_def
        status_updates_def changed_def)
qed

lemma updated_column:
  assumes x: "binds_exactly e" and vs: "bind_all e (task_updates e b r @ [(''updated_at'', ts)]) = Some vs"
    and f: "f \<in> {''status'', ''due_date'', ''estimated_minutes''}"
  shows "changed f b r \<longleftrightarrow> set_cols vs r f \<noteq> r f" and "changed f b r \<Longrightarrow> js_of_sql (set_cols vs r f) = b f"
proof -
  let ?kvs = "task_updates e b r @ [(''updated_at'', ts)]"
  have "distinct (map fst vs)"
    unfolding bind_all_keys [OF vs] using task_updates_distinct [of e b r] by simp
  then have set: "set_cols vs r f = (case map_of vs f of None \<Rightarrow> r f | Some v \<Rightarrow> v)" by (rule set_cols_map_of)
  have kvs: "map_of ?kvs f = map_of (task_updates e b r) f" using f by (auto simp: map_add_def split: option.splits)
  have "if map_of (task_updates e b r) f = None then set_cols vs r f = r f \<and> \<not> changed f b r
    else js_of_sql (set_cols vs r f) = b f \<and> b f \<noteq> Undefined"
  proof (cases "map_of (task_updates e b r) f")
    case None
    then have "map_of vs f = None" using vs kvs by (metis bind_all_map_of_None)
    then show ?thesis using None task_updates_col [OF f, of e b r] by (auto simp: set changed_def split: if_splits)
  next
    case (Some v)
    then obtain y where y: "map_of vs f = Some y" "bind_param e v = Some y" using bind_all_map_of [OF vs] kvs by metis
    then show ?thesis using Some x task_updates_col [OF f, of e b r]
      by (auto simp: set binds_exactly_def split: if_splits)
  qed
  then show "changed f b r \<longleftrightarrow> set_cols vs r f \<noteq> r f" "changed f b r \<Longrightarrow> js_of_sql (set_cols vs r f) = b f"
    by (auto simp: changed_def js_of_sql_inj [symmetric] split: if_splits)
qed

lemma changes_row_diff:
  assumes x: "binds_exactly e" and vs: "bind_all e (task_updates e b r @ [(''updated_at'', ts)]) = Some vs"
  shows "map (change_view e i) (changes b r) = row_diff e i r (set_cols vs r)"
proof -
  note u = updated_column [OF x vs]
  have st: "set_cols vs r ''status'' = Text s \<longleftrightarrow> b ''status'' = JStr s" if "changed ''status'' b r" for s
    using u(2) [of "''status''"] that by (cases "set_cols vs r ''status''") auto
  show ?thesis
    using u st by (auto simp: changes_def row_diff_def change_view_def status_event_def Let_def)
qed

lemma updated_task_found:
  assumes r: "find_live Tasks i db = Some r"
    and vs: "bind_all e (task_updates e b r @ [(''updated_at'', ts)]) = Some vs"
    and tab: "tab db1 Tasks = map (\<lambda>r. if by_id i r then set_cols vs r else r) (tab db Tasks)"
    and ok': "db_ok gw db'" and more: "set (tab db1 Tasks) \<subseteq> set (tab db' Tasks)"
  shows "find_live Tasks i db' = Some (set_cols vs r)"
proof -
  have mem: "r \<in> set (tab db Tasks)" "by_id i r" "is_live r"
    using find_row_Some [of Tasks _ db r] r by (auto simp: find_live_def)
  have "c \<notin> fst ` set vs" if "c \<in> {''id'', ''deleted_at''}" for c
    unfolding bind_all_dom [OF vs] using that other_updates_keys [of b e]
    by (auto simp: task_updates_def status_updates_def task_fields_def split: if_splits)
  then have "by_id i (set_cols vs r)" "is_live (set_cols vs r)"
    using mem by (simp_all add: by_id_def is_live_def set_cols_other)
  moreover have "set_cols vs r \<in> set (tab db' Tasks)" using more mem by (force simp: tab)
  ultimately show ?thesis
    unfolding find_live_def by (intro find_row_eqI [OF ok', where i = i]) auto
qed

text \<open>The log of a successful PATCH: one entry per difference of the row, then at most the entry of the clone.\<close>

lemma patch_task_log:
  assumes db: "db_ok gw db" and e: "driver_ok e" "binds_exactly e" and ok: "patch_task e i b db = (Resp 200 p, db')"
    and r: "find_live Tasks i db = Some r"
  shows "\<exists>r' new more. find_live Tasks i db' = Some r' \<and> tab db' TaskEvents = tab db TaskEvents @ new @ more \<and>
    map event_view new = row_diff e i r r' \<and> (b ''status'' \<noteq> JStr ''done'' \<longrightarrow> more = [])"
proof -
  obtain db1 where upd: "update_task e i b r db = Inr db1"
    and cl: "clone_on_complete e (length (changes b r)) i b db1 = (Resp 200 p, db')"
    using ok by (rule patch_task_200) (simp add: r)
  obtain vs new where vs: "bind_all e (task_updates e b r @ [(''updated_at'', JStr (now_at e 0))]) = Some vs"
    and tab: "tab db1 Tasks = map (\<lambda>r. if by_id i r then set_cols vs r else r) (tab db Tasks)"
    and new: "tab db1 TaskEvents = tab db TaskEvents @ new" "map event_view new = map (change_view e i) (changes b r)"
    using e(1) upd by (rule update_task_tab)
  obtain j c where p: "p = PTask j c"
    using cl by (auto simp: clone_on_complete_def finish_def split: option.splits sum.splits)
  have "db_ok gw db1" using update_task_evo [OF e(1) r upd] db by (rule gwd.evolves_db_ok)
  then have ok': "db_ok gw db'"
    using clone_on_complete_evo [of db1 e "length (changes b r)" i b] e(1) unfolding cl by (simp add: gwd.evolves_db_ok)
  have "\<exists>more ts. tab db' TaskEvents = tab db1 TaskEvents @ more \<and> (b ''status'' \<noteq> JStr ''done'' \<longrightarrow> more = []) \<and>
      tab db' Tasks = tab db1 Tasks @ ts"
    using cl unfolding p
  proof (cases rule: clone_on_complete_200)
    case (clone r' due)
    have "b ''status'' = JStr ''done''" using clone(2) by (simp add: next_instance_def split: if_splits)
    moreover obtain c' more where "tab db' TaskEvents = tab db1 TaskEvents @ more" "tab db' Tasks = tab db1 Tasks @ [c']"
      using e(1) clone(3) by (rule clone_task_tab)
    ultimately show ?thesis by blast
  qed simp
  then obtain more ts where more: "tab db' TaskEvents = tab db1 TaskEvents @ more" "b ''status'' \<noteq> JStr ''done'' \<longrightarrow> more = []"
    "tab db' Tasks = tab db1 Tasks @ ts" by blast
  have "find_live Tasks i db' = Some (set_cols vs r)"
    by (rule updated_task_found [OF r vs tab ok']) (simp add: more(3))
  then show ?thesis
    using new more changes_row_diff [OF e(2) vs] by (intro exI [of _ "set_cols vs r"] exI [of _ new] exI [of _ more]) simp
qed

lemma patch_task_completes:
  assumes ok: "db_ok gw db" and e: "driver_ok e" and dn: "b ''status'' = JStr ''done''"
    and reply: "patch_task e i b db = (Resp 200 (PTask j c), db')" and r: "find_live Tasks i db = Some r"
  shows "\<exists>r'. find_live Tasks i db' = Some r' \<and> r' ''status'' = Text ''done'' \<and>
    (r ''status'' \<noteq> Text ''done'' \<longrightarrow> r' ''completed_at'' = Text (now_at e 0)) \<and>
    (case next_instance e b r' of None \<Rightarrow> c = None \<and> length (tab db' Tasks) = length (tab db Tasks)
     | Some due \<Rightarrow> \<exists>cl. find_live Tasks (gen_id e (length (changes b r))) db' = Some cl \<and>
         is_clone due r' cl \<and> c = Some (row_json Tasks cl) \<and> length (tab db' Tasks) = length (tab db Tasks) + 1)"
proof -
  let ?k = "length (changes b r)"
  obtain db1 where upd: "update_task e i b r db = Inr db1"
    and cl: "clone_on_complete e ?k i b db1 = (Resp 200 (PTask j c), db')"
    using reply by (rule patch_task_200) (simp add: r)
  obtain vs where vs: "bind_all e (task_updates e b r @ [(''updated_at'', JStr (now_at e 0))]) = Some vs"
    and tab: "tab db1 Tasks = map (\<lambda>r. if by_id i r then set_cols vs r else r) (tab db Tasks)"
    using e upd by (rule update_task_tab)
  let ?r = "set_cols vs r"
  note dones = task_update_done [OF e dn vs]
  have mem: "r \<in> set (tab db Tasks)" "by_id i r" "is_live r"
    using find_row_Some [of Tasks _ db r] r by (auto simp: find_live_def)
  have ok1: "db_ok gw db1" using update_task_evo [OF e r upd] ok by (rule gwd.evolves_db_ok)
  have r': "?r \<in> set (tab db1 Tasks)" "by_id i ?r" "is_live ?r"
    using mem dones(3,4) by (force simp: tab by_id_def is_live_def)+
  have ok': "db_ok gw db'"
    using clone_on_complete_evo [of db1 e ?k i b] ok1 unfolding cl by (simp add: gwd.evolves_db_ok)
  note live = updated_task_found [OF r vs tab ok']
  have found: "find_row Tasks (by_id i) db1 = Some ?r" by (rule find_by_id [OF ok1 r'(1,2)])
  from cl show ?thesis
  proof (cases rule: clone_on_complete_200)
    case none
    then show ?thesis using live found dones by (intro exI [of _ ?r]) (simp add: tab)
  next
    case (clone r2 due)
    then have r2: "r2 = ?r" using found by simp
    obtain cl new where t: "tab db' Tasks = tab db1 Tasks @ [cl]" "by_id (gen_id e ?k) cl" "is_live cl"
      "is_clone due ?r cl" using e clone(3) unfolding r2 by (rule clone_task_tab)
    note last = find_live_last [OF ok' t(1-3)]
    have "find_live Tasks i db' = Some ?r" by (rule live) (auto simp: t(1))
    then show ?thesis
      using clone(2,4) dones t(4) last by (intro exI [of _ ?r]) (simp add: r2 task_json_found t(1) tab)
  qed
qed

section \<open>A created task\<close>

lemma create_task_tab:
  assumes e: "driver_ok e" and run: "create_task e b db = Inr db'"
  obtains r where "tab db' Tasks = tab db Tasks @ [r]" and "by_id (gen_id e 0) r" and "is_live r"
    and "Some (r ''title'') = bind_param e (b ''title'')"
    and "Some (r ''project_id'') = bind_param e (b ''project_id'')"
    and "Some (r ''status'') = bind_param e (nullish (b ''status'') (JStr ''backlog''))"
    and "r ''completed_at'' = Null" and "r ''created_at'' = Text (now_at e 0)"
proof -
  define kvs where "kvs = [(''id'', JStr (gen_id e 0)), (''project_id'', b ''project_id''), (''title'', b ''title''),
         (''status'', nullish (b ''status'') (JStr ''backlog'')),
         (''kanban_column'', nullish (b ''kanban_column'') JNull),
         (''estimated_minutes'', nullish (b ''estimated_minutes'') JNull),
         (''due_date'', nullish (b ''due_date'') JNull),
         (''seasonal_window'', nullish (b ''seasonal_window'') JNull),
         (''depends_on'', json_or_empty e (b ''depends_on'')),
         (''sort_order'', nullish (b ''sort_order'') (JNum 0)),
         (''notes'', nullish (b ''notes'') JNull),
         (''recurrence_rule'', nullish (b ''recurrence_rule'') JNull),
         (''recurrence_parent_id'', nullish (b ''recurrence_parent_id'') JNull),
         (''created_at'', JStr (now_at e 0)), (''updated_at'', JStr (now_at e 0))]"
  obtain db1 db2 where ins: "run_insert e Tasks kvs db = Inr db1"
    and ev: "log_created e 1 (gen_id e 0) (JObj [(''title'', b ''title''), (''project_id'', b ''project_id'')]) (now_at e 0) db1 = Inr db2"
    and tp: "touch_project e (b ''project_id'') db2 = Inr db'"
    using run unfolding create_task_def Let_def kvs_def by (elim bindE_Inr_E)
  obtain vs where vs: "bind_all e kvs = Some vs"
    and tab: "tab db1 = (tab db)(Tasks := tab db Tasks @ [new_row (gw Tasks) vs (tab db Tasks)])"
    using ins by (rule run_insert_tab)
  let ?r = "new_row (gw Tasks) vs (tab db Tasks)"
  have keys: "''deleted_at'' \<notin> fst ` set vs" "''completed_at'' \<notin> fst ` set vs"
    using bind_all_dom [OF vs] by (simp_all add: kvs_def)
  have col: "Some (?r c) = bind_param e v" if "map_of kvs c = Some v" "c \<noteq> ''rowid''" for c v
    using bind_all_map_of [OF vs that(1)] that(2) by (auto simp: new_row_col)
  have "column_default (gw Tasks) ''completed_at'' = Null"
    by (simp add: column_default_def schema_defs)
  then have null: "?r ''completed_at'' = Null" "?r ''deleted_at'' = Null"
    using new_row_col(2) [OF _ keys(1), of "gw Tasks" "tab db Tasks"]
      new_row_col(2) [OF _ keys(2), of "gw Tasks" "tab db Tasks"]
      default_deleted_at [of Tasks] by simp_all
  show thesis
  proof (rule that)
    show "tab db' Tasks = tab db Tasks @ [?r]"
      using touch_project_same [OF tp, of Tasks] log_created_same [OF ev, of Tasks] tab by simp
    show "by_id (gen_id e 0) ?r"
      using col [of "''id''"] e by (simp add: kvs_def by_id_def driver_ok_def)
    show "?r ''created_at'' = Text (now_at e 0)"
      using col [of "''created_at''"] e by (simp add: kvs_def driver_ok_def)
    show "Some (?r ''title'') = bind_param e (b ''title'')"
      "Some (?r ''project_id'') = bind_param e (b ''project_id'')"
      "Some (?r ''status'') = bind_param e (nullish (b ''status'') (JStr ''backlog''))"
      by (rule col; simp add: kvs_def)+
  qed (insert null, simp_all add: is_live_def)
qed

end
