(* ===== verification/Store_Properties.thy ===== *)
theory Store_Properties
  imports Scenario Task_Laws
begin

text \<open>
  The properties of single GroundWork routers: cascading deletes, exact updates, the task log and the
  clone of a recurring task, unique daily plans, purge and search.
\<close>

section \<open>Replies\<close>

lemma reply_split: "code (fst rep) = c \<Longrightarrow> rep = (Resp c (payload (fst rep)), snd rep)"
  by (cases rep; cases "fst rep") auto

lemma unique_index:
  assumes "db_ok gw db" and "ix \<in> set (uniques (gw t))"
    and r: "r \<in> set (tab db t)" "indexed ix r" and r': "r' \<in> set (tab db t)" "indexed ix r'"
    and same: "map r ix = map r' ix"
  shows "r = r'"
proof -
  have "distinct (map (\<lambda>r. map r ix) (filter (indexed ix) (tab db t)))"
    using assms(1,2) by (simp add: db_ok_def table_ok_def uniq_ok_def list_all_iff)
  then show ?thesis by (rule distinct_map_inj_at) (use r r' same in auto)
qed

lemma patch_task_reply:
  assumes "code (fst (patch_task e i b db)) = 200"
  shows "\<exists>j c. patch_task e i b db = (Resp 200 (PTask j c), snd (patch_task e i b db))"
proof -
  obtain p db' where p: "patch_task e i b db = (Resp 200 p, db')" using assms reply_split by blast
  then obtain r db1 where "clone_on_complete e (length (changes b r)) i b db1 = (Resp 200 p, db')"
    by (rule patch_task_200)
  then have "\<exists>j c. p = PTask j c"
    by (auto simp: clone_on_complete_def finish_def split: option.splits sum.splits)
  with p show ?thesis by auto
qed

section \<open>Deletes\<close>

text \<open>C8: deleting a domain deletes what is live below it: afterwards the domain is not found, no project of it
  is live, and for each of its projects that was live before, no task or material of the project and no
  attachment of the project itself is live, nor an attachment of the tasks and materials of the project that
  were live before.  (The attachments of a task deleted earlier are not reached.)\<close>

theorem delete_domain_cascades:
  assumes "db_ok gw db" and "driver_ok e" and "delete_domain e i db = (Resp 200 p, db')"
  shows "find_live Domains i db' = None \<and> dead_below Projects ''domain_id'' (Text i) db' \<and>
    (\<forall>q \<in> set (live_child_ids Projects ''domain_id'' (Text i) db). project_cleared q db db')"
proof -
  obtain r where "find_live Domains i db = Some r" "soft_delete_domain e i db = Inr db'"
    using assms(3) by (auto simp: delete_domain_def not_found_def bad_request_def finish_def
        split: option.splits if_splits sum.splits)
  then have "domain_cleared i db db'" using assms(1,2) by (rule soft_delete_domain_cleared)
  then show ?thesis by (simp add: domain_cleared_def)
qed

lemma delete_domain_cascades_witness:
  "find_live Domains ''D1'' (snd (delete_domain (demo_env 5) ''D1'' shop)) = None \<and>
   dead_below Projects ''domain_id'' (Text ''D1'') (snd (delete_domain (demo_env 5) ''D1'' shop)) \<and>
   project_cleared (Text ''P1'') shop (snd (delete_domain (demo_env 5) ''D1'' shop))"
proof -
  have "code (fst (delete_domain (demo_env 5) ''D1'' shop)) = 200" by code_simp
  note cascades = delete_domain_cascades [OF shop_ok demo_driver reply_split [OF this]]
  moreover have "Text ''P1'' \<in> set (live_child_ids Projects ''domain_id'' (Text ''D1'') shop)" by code_simp
  ultimately show ?thesis by blast
qed

text \<open>Deleting a project deletes its tasks, materials and attachments, and the attachments of its
  live tasks and materials.\<close>

lemma delete_project_cascades:
  assumes "db_ok gw db" and "driver_ok e" and "delete_project e i db = (Resp 200 p, db')"
  shows "find_live Projects i db' = None \<and> project_cleared (Text i) db db'"
proof -
  have "soft_delete_project e i db = Inr db'"
    using assms(3) by (auto simp: delete_project_def not_found_def finish_def split: option.splits sum.splits)
  then show ?thesis using assms(1,2) by (rule soft_delete_project_cleared)
qed

text \<open>Deleting a daily plan deletes all its time blocks with it.\<close>

lemma delete_daily_plan_cascades:
  assumes "driver_ok e" and "delete_daily_plan e i db = (Resp 200 p, db')"
  shows "find_live DailyPlans i db' = None \<and> dead_below TimeBlocks ''daily_plan_id'' (Text i) db'"
proof -
  have "''daily_plan_id'' \<notin> {''deleted_at'', ''updated_at''}" by simp
  then show ?thesis
    using delete_with_children_cleared [OF assms(2) [unfolded delete_daily_plan_def] assms(1)] by simp
qed

section \<open>Updates and creations\<close>

text \<open>A successful PATCH of a project changes the addressed row only, there the writable fields the
  body gives and the time stamp only, and touches no other table.\<close>

lemma patch_project_exact:
  assumes "driver_ok e" and "patch_project e i b db = (Resp 200 p, db')"
  shows "tab db' = (tab db)(Projects := map (\<lambda>r. if by_id i r then patched e project_fields b r else r) (tab db Projects))"
  using projects.patch_exact [OF assms(1) assms(2) [unfolded patch_project_def]] .

text \<open>A created task reads back: after a successful POST, GET returns the very row the POST replied,
  with the given title and project, the given status or \<^verbatim>\<open>backlog\<close>, and no completion time.\<close>

lemma post_task_reads_back:
  assumes "db_ok gw db" and "driver_ok e" and "post_task e b db = (Resp 201 p, db')"
  shows "\<exists>r. get_task (gen_id e 0) db' = (Resp 200 p, db') \<and> p = PRow (row_json Tasks r) \<and>
    Some (r ''title'') = bind_param e (b ''title'') \<and> Some (r ''project_id'') = bind_param e (b ''project_id'') \<and>
    Some (r ''status'') = bind_param e (nullish (b ''status'') (JStr ''backlog'')) \<and> r ''completed_at'' = Null"
proof -
  have run: "create_task e b db = Inr db'" and p: "p = reload Tasks (gen_id e 0) db'"
    using assms(3) by (auto simp: post_task_def bad_request_def finish_def split: if_splits sum.splits)
  have ok: "db_ok gw db'" using create_task_evo [OF run] assms(1) by (rule gwd.evolves_db_ok)
  obtain r where r: "tab db' Tasks = tab db Tasks @ [r]" "by_id (gen_id e 0) r" "is_live r"
    and cols: "Some (r ''title'') = bind_param e (b ''title'')" "Some (r ''project_id'') = bind_param e (b ''project_id'')"
      "Some (r ''status'') = bind_param e (nullish (b ''status'') (JStr ''backlog''))" "r ''completed_at'' = Null"
    using assms(2) run by (rule create_task_tab)
  have "p = PRow (row_json Tasks r)" "get_task (gen_id e 0) db' = (Resp 200 p, db')"
    using find_live_last [OF ok r] by (simp_all add: p reload_def get_task_def get_resource_def)
  with cols show ?thesis by blast
qed

section \<open>Tasks\<close>



text \<open>C6: completing a task that was not done: the task is \<^verbatim>\<open>done\<close> with its completion time, and a recurring one
  leaves one clone behind, in the backlog of the same project, due on the next date of its rule, linked to the
  first task of the series; the reply carries the clone.  Without a next date no row is added.\<close>

theorem completed_task_recurs:
  assumes "db_ok gw db" and "driver_ok e" and "b ''status'' = JStr ''done''"
    and "patch_task e i b db = (Resp 200 (PTask j c), db')" and "find_live Tasks i db = Some r"
    and "r ''status'' \<noteq> Text ''done''"
  shows "\<exists>r'. find_live Tasks i db' = Some r' \<and> r' ''status'' = Text ''done'' \<and>
    r' ''completed_at'' = Text (now_at e 0) \<and>
    (case next_instance e b r' of None \<Rightarrow> c = None \<and> length (tab db' Tasks) = length (tab db Tasks)
     | Some due \<Rightarrow> \<exists>cl. find_live Tasks (gen_id e (length (changes b r))) db' = Some cl \<and>
         is_clone due r' cl \<and> c = Some (row_json Tasks cl) \<and> length (tab db' Tasks) = length (tab db Tasks) + 1)"
  using patch_task_completes [OF assms(1-5)] assms(6) by blast

lemma completed_task_recurs_witness:
  "\<exists>j c db' r'. patch_task (demo_env 5) ''T1'' (obj [(''status'', JStr ''done'')]) shop = (Resp 200 (PTask j c), db') \<and>
    find_live Tasks ''T1'' db' = Some r' \<and> r' ''status'' = Text ''done'' \<and>
    r' ''completed_at'' = Text (now_at (demo_env 5) 0) \<and>
    (case next_instance (demo_env 5) (obj [(''status'', JStr ''done'')]) r' of
       None \<Rightarrow> c = None \<and> length (tab db' Tasks) = length (tab shop Tasks)
     | Some due \<Rightarrow> \<exists>cl. find_live Tasks (gen_id (demo_env 5) (length (changes (obj [(''status'', JStr ''done'')]) paint))) db' = Some cl \<and>
         is_clone due r' cl \<and> c = Some (row_json Tasks cl) \<and> length (tab db' Tasks) = length (tab shop Tasks) + 1)"
proof -
  have "code (fst (patch_task (demo_env 5) ''T1'' (obj [(''status'', JStr ''done'')]) shop)) = 200" by code_simp
  then obtain j c where reply: "patch_task (demo_env 5) ''T1'' (obj [(''status'', JStr ''done'')]) shop =
      (Resp 200 (PTask j c), snd (patch_task (demo_env 5) ''T1'' (obj [(''status'', JStr ''done'')]) shop))"
    using patch_task_reply by blast
  have "obj [(''status'', JStr ''done'')] ''status'' = JStr ''done''" by code_simp
  moreover have "paint ''status'' \<noteq> Text ''done''" by code_simp
  ultimately show ?thesis using reply completed_task_recurs [OF shop_ok demo_driver _ reply shop_paint] by blast
qed

section \<open>Daily plans\<close>

text \<open>There is one plan per day: two live daily plans of a consistent database with the same date are
  the same row, and a POST for a date that is taken is refused with 409 and changes nothing.\<close>

lemma one_plan_per_day:
  assumes "db_ok gw db" and "driver_ok e"
    and "r \<in> set (tab db DailyPlans)" and "is_live r" and "r ''date'' = Text d" and "d \<noteq> []"
  shows "(\<forall>r' \<in> set (tab db DailyPlans). is_live r' \<and> r' ''date'' = Text d \<longrightarrow> r' = r) \<and>
    (b ''date'' = JStr d \<longrightarrow>
      post_daily_plan e b db = (Resp 409 (PError ''A daily plan already exists for this date''), db))"
proof -
  have "r' = r" if "r' \<in> set (tab db DailyPlans)" "is_live r'" "r' ''date'' = Text d" for r'
    by (rule unique_index [OF assms(1), of "[''date'']" DailyPlans])
      (use assms(3-5) that in \<open>simp_all add: schema_defs indexed_def\<close>)
  moreover have "find_row DailyPlans (\<lambda>r. Text d \<noteq> Null \<and> r ''date'' = Text d \<and> is_live r) db \<noteq> None"
    using assms(3-5) by (auto simp: find_row_def find_None_iff)
  ultimately show ?thesis
    using assms(2,6) by (auto simp: post_daily_plan_def driver_ok_def)
qed

end
