(* ===== verification/Spec2Isabelle.thy ===== *)
theory Spec2Isabelle
  imports Gateway_Auth Exec_Approvals Dedupe_Cache Write_Budget Registry_Properties Executor_Properties Upkeep_Properties Owner_Access Task_Upkeep Task_Audit Sweeper Lane_Properties Schedule_Properties Data_Properties Store_Properties
begin

text \<open>
  A verification library for Gifd, in three parts of the repository: the GroundWork server
  (\<^verbatim>\<open>src/apps/groundwork-server\<close> with \<^verbatim>\<open>src/packages/groundwork-shared\<close>); the background work of the agent
  core it is forked from, which is the command queue (\<^verbatim>\<open>src/src/process/command-queue.ts\<close>) and everything
  around tasks and task flows (\<^verbatim>\<open>src/src/tasks\<close>); and the guards of its gateway (\<^verbatim>\<open>src/src/gateway\<close>): who
  may connect, how often, and which commands may run.

  \<^bold>\<open>The GroundWork server.\<close>  An Express application over one SQLite file.  Every router of
  \<^verbatim>\<open>routes/*.ts\<close> is a list of handlers that check the request, run prepared statements, sometimes in a
  transaction, and answer with the row read back.  The model follows that:

  \<^item> \<open>Relational\<close> is the part of SQL the server uses, as an embedded language: tables are lists of
    rows in insertion order, a row maps column names to null, numbers or text, and \<open>sql_insert\<close>,
    \<open>sql_update\<close>, \<open>sql_delete\<close>, \<open>sql_select\<close> enforce NOT NULL, CHECK, REFERENCES and unique indexes
    and run the full-text triggers.  A statement that violates a constraint returns \<open>Inl\<close> and no state.
  \<^item> \<open>Schema\<close> is \<^verbatim>\<open>db/schema.ts\<close>: the fifteen tables, the unique indexes, the indexed columns of the
    four FTS5 tables.
  \<^item> \<open>JS_Base\<close> has the values of a parsed JSON body, truthiness, \<^verbatim>\<open>??\<close>, \<^verbatim>\<open>parseInt\<close>, \<^verbatim>\<open>trim\<close>,
    \<^verbatim>\<open>JSON.stringify\<close>; \<open>Http\<close> the request environment, replies and the handler shapes the routers write
    out again and again.
  \<^item> \<open>Catalog\<close> (domains, projects), \<open>Tasks\<close>, \<open>Capture\<close> (inbox, attachments, materials), \<open>Planning\<close>
    (daily plans, time blocks, calendar events, seasonal configuration, weekly themes), \<open>Tagging\<close>
    (tags, task tags, task events), \<open>Data_Management\<close> (export, purge, sizes) and \<open>Search\<close> hold one
    definition per handler, named by method and resource.  \<open>Calendar\<close> and \<open>Recurrence\<close> are the dates
    behind \<^verbatim>\<open>calculateNextDueDate\<close>, \<open>Shared_Utils\<close> the shared date, sort-order and ULID helpers, \<open>Timestamps\<close>
    instants and their ISO texts, with the local date of the purge's 90 days.
  \<^item> \<open>Server\<close> mounts the routers as \<^verbatim>\<open>index.ts\<close> does: \<open>serve\<close> answers one request, \<open>reachable\<close> is every
    database any sequence of requests can produce from the empty schema.

  Three locales carry these proofs.  \<open>step_preorder\<close> (theory \<open>Prelude\<close>) lifts a reflexive and transitive
  relation between states through sequences of statements and loops; it is interpreted for tables left
  alone (\<open>writes\<close>, \<open>same\<close>) and for purges (\<open>shrink\<close>).  \<open>row_discipline\<close> (theory \<open>Evolution\<close>), a
  sublocale of it, says what a handler may do to a database: rows evolve by an allowed step, new rows are
  allowed ones, nothing else changes; it implies the integrity of the schema and the mirroring of the
  full-text index, and is interpreted for the handlers at large (\<open>gwd\<close>) and for cascading deletes
  (\<open>mark\<close>).  \<open>resource\<close> (theory \<open>Resource\<close>) is the contract of a table
  with a list of writable columns; every plain router interprets it.  \<open>Cascade\<close> and \<open>Task_Laws\<close> hold
  what the cascading deletes and the tasks router leave in the tables.

  \<^bold>\<open>The command queue.\<close>  \<open>Lane_Queue\<close> translates the module: its lanes, generations, active sets, the
  pump loop, resets, clears, the gateway's draining flag and the waiters of \<^verbatim>\<open>waitForActiveTasks\<close>.
  \<open>queue_step\<close> is one turn of the event loop: an exported operation, or the completion of a started task.
  The locale \<open>queue_invariant\<close> proves an invariant of every reachable state from its preservation by the
  primitive updates; \<open>Lane_Order\<close> interprets it for order, limits, started commands and waiters, and
  \<open>Lane_Queue\<close> for the account of promises.

  \<^bold>\<open>The task-flow registry.\<close>  \<open>Task_Flow\<close> translates \<^verbatim>\<open>task-flow-registry.ts\<close> and the row format and
  statements of its SQLite store: an in-memory map written through to a table, restored on first use.
  \<open>Flow_Laws\<close> has the record invariant, the locale \<open>record_store\<close> that both the map and the table
  implement, and the refinement that keeps them equal (\<open>registry_ok\<close>).

  \<^bold>\<open>The task registry.\<close>  \<open>Task_Store\<close> has the policies, the normalisation of texts and time stamps and the
  rows of \<^verbatim>\<open>task-registry.store.sqlite.ts\<close>; \<open>Task_Registry\<close> the state of \<^verbatim>\<open>task-registry.ts\<close> (records, delivery
  states, four indexes, both tables, the flow registry it drives, the sends in flight and what it told
  the rest of the program), its lookups and the update of a record; \<open>Task_Operations\<close> the announcements,
  setters and updates by run; \<open>Task_Lifecycle\<close> creation, linking, cancellation, deletion and agent events.
  \<open>task_op\<close> (theory \<open>Registry_Steps\<close>) is every operation, with the settlement of a send and the commit of a
  cancellation as operations of their own, and \<open>task_step\<close> adds deletion and reload.  The locale
  \<open>record_steps\<close> lifts a relation between states from the primitives (restore, update a record, queue an
  event, touch the flow registry, begin a send) to the announcements; \<open>settling\<close> adds the settlement of
  sends, \<open>task_relation\<close> the insertion of a record and with it every operation, \<open>registry_relation\<close> and its
  special case \<open>sending_relation\<close> the whole of \<open>task_op\<close>.  They are interpreted for the exactness of the
  indexes (\<open>Registry_Indexes\<close>), the lifetime of records, the order of time stamps, the retention of ended tasks and
  the agreement of rows and records (\<open>Registry_Invariants\<close>), and the announcements in flight
  (\<open>Registry_Announcements\<close>).  \<open>Registry_Flows\<close> composes both registries: what an update of a task does to
  its flow; \<open>Registry_Creation\<close> has creation and merging.

  \<^bold>\<open>Tasks: upkeep, owners, executor.\<close>  \<open>Flow_Upkeep\<close> and \<open>Flow_Audit\<close> are
  \<^verbatim>\<open>task-flow-registry.maintenance.ts\<close> and \<^verbatim>\<open>.audit.ts\<close>, \<open>Task_Upkeep\<close> and \<open>Task_Audit\<close> the same for tasks;
  \<open>Sweeper\<close> has the timers that start them.  \<open>Owner_Access\<close> holds the views and changes restricted to an owner
  and the status snapshots.  \<open>Task_Executor\<close> is \<^verbatim>\<open>task-executor.ts\<close>: starting tasks, running them in a
  flow, giving a detached run its own flow, cancelling a flow with its tasks.  \<open>Task_Ends\<close> says what the end
  of a task does to its flow and its delivery, for both.  \<open>Executor_Properties\<close> interprets \<open>task_relation\<close>
  once more (\<open>flow_keeping\<close>) for what an operation leaves of a flow, and \<open>Upkeep_Properties\<close> holds the
  properties of the maintenance.

  \<^bold>\<open>The guards of the gateway.\<close>  \<open>Insertion_Map\<close> has their common ground: a \<^verbatim>\<open>Map\<close> is an association list
  in insertion order, operations carry the time they read (\<open>run_ops\<close>, \<open>clock_order\<close>), and two locales lift
  statements to runs: \<open>timed_store\<close> for what holds at every time, \<open>held_until\<close> for what holds until a
  deadline.  \<open>Client_Address\<close> resolves the client behind proxies (\<^verbatim>\<open>net.ts\<close>, \<^verbatim>\<open>shared/net/ip.ts\<close>);
  \<open>Auth_Rate_Limit\<close> limits failed attempts per client (\<^verbatim>\<open>auth-rate-limit.ts\<close>) and interprets \<open>held_until\<close> for a
  lockout; \<open>Gateway_Auth\<close> decides who may connect (\<^verbatim>\<open>auth.ts\<close>, \<^verbatim>\<open>origin-check.ts\<close>) and interprets
  \<open>timed_store\<close> for the budget of guesses; \<open>Write_Budget\<close> (\<^verbatim>\<open>control-plane-rate-limit.ts\<close>) does so for the cap
  of its map and for the writes of one client.  \<open>Dedupe_Cache\<close> is \<^verbatim>\<open>infra/dedupe.ts\<close>, with its eviction loop
  as a \<open>while_option\<close> that is shown to end.  \<open>Exec_Approvals\<close> is \<^verbatim>\<open>exec-approval-manager.ts\<close> as a step
  relation: method calls and timers in any order.

  \<^bold>\<open>Properties.\<close>  The theories named \<open>*_Properties\<close>, those of the gateway's guards and this one hold the
  properties, numbered C1 to C40, each with a concrete instance (\<open>_witness\<close>) where it has a hypothesis,
  over the small databases, queues and registries of \<open>Scenario\<close>, \<open>Lane_Properties\<close>, \<open>Flow_Properties\<close> and
  \<open>Registry_Properties\<close>: completion times and the search index in every state, what refused, deleting, completing, purging and searching requests do, dates, order,
  limits and liveness of lanes, consistency and durability of the flow registry, lookups, lifetimes,
  restarts and announcements of tasks, their maintenance, cancellation and owners, and credentials, guesses,
  lockouts, approvals and budgets of the gateway.

  \<^bold>\<open>Parameters.\<close>  What is not under src/ is an argument.  \<open>env\<close> holds the values a request draws from
  outside: the identifiers of the ulid package, the clock, the time zone, the parameter binding of better-sqlite3, the
  text of a fraction, the local date, the engine's reading of date strings that are not ISO dates, the file
  size, and which index entries FTS5 finds.  \<open>driver_ok\<close> and \<open>binds_exactly\<close> are the documented binding
  (null, strings and numbers bind to themselves and nothing else does), \<open>fts_sound\<close> that FTS5 returns
  entries of the index, each once.  \<open>json_io\<close> is \<^verbatim>\<open>JSON.stringify\<close>, \<^verbatim>\<open>JSON.parse\<close> and the reading of a
  delivery context; \<open>json_fits\<close> and \<open>null_fits\<close> say that a value survives them.  \<open>task_env\<close> adds the reading of
  a delivery context, the routing predicates and the wording of announcements, none of which a property
  restricts.  \<open>upkeep_runtime\<close> is what the maintenance asks the cron store, the sessions and the ACP manager;
  \<open>acp_stable\<close> says that closing one ACP session leaves the others as they are.  \<open>control\<close> is what awaiting the
  runtime of a task does to the registries; \<open>control_sound\<close> bounds it to operations of the registry, and
  \<open>prompt_control\<close> is a runtime that stops at once.  \<open>net_lib\<close> is \<^verbatim>\<open>ipaddr.js\<close> and \<^verbatim>\<open>node:net\<close>, \<open>auth_lib\<close>
  adds \<^verbatim>\<open>URL\<close> and the Tailscale lookup; no property restricts them.

  \<^bold>\<open>Bounds and conventions.\<close>  JavaScript numbers are exact rationals or integers (below 2 to the 53rd
  they are exact); strings are lists of 8-bit characters; a \<^verbatim>\<open>Date\<close> is a day number within the engine's
  100,000,000 days of the epoch, or \<open>None\<close> for an invalid date.  Query parameters are strings.  ORDER BY keeps the
  table order among ties.  Column affinity is not modelled: a value is stored as it is bound, where SQLite
  turns a numeral given for an INTEGER column into a number and a number given for a TEXT column into text;
  the property that compares stored and given values (C7) excludes such requests.  An exception that
  reaches Express is the reply 500.  \<^verbatim>\<open>formatBytes\<close> takes its logarithm exactly, which the double one
  equals below 2 to the 50th bytes.  Loops are structural recursions or have a measure: the pump loop ends
  since each round takes a command off its queue, the month loop since each round takes twelve months; the
  two attempts to cancel, finalize or repair a flow are those of the code.  An operation of the task registry,
  a run of the maintenance and a call of a guard read the clock once; cancelling a flow reads it before and
  after its tasks are awaited.

  \<^bold>\<open>Not modelled.\<close>  Opening the database file, WAL mode, migration and file permissions; CORS, request
  parsing, logging, static files; \<^verbatim>\<open>today\<close>, \<^verbatim>\<open>addDays\<close>; the
  diagnostics and test-only resets.  A task of the queue starts in a later
  microtask and the callbacks \<^verbatim>\<open>onWait\<close> and \<^verbatim>\<open>taskTimeoutProgressAtMs\<close> do not call back into the queue.  Of the
  registries of tasks and flows: a write of the SQLite store that throws, which leaves the memory ahead of its
  table, since the code changes the memory first (\<^verbatim>\<open>writeFlowRecord\<close>, \<^verbatim>\<open>deleteTaskFlowRecordById\<close> and their
  counterparts for tasks).  Of the
  maintenance: the caches of one run, the sweep of plugin state, other work while a session is closed; a run
  in the model does not yield between tasks, but C33 holds for each step after any interference; of the snapshots, the sanitising of status texts; of the executor, the delegation to a registered
  detached-task runtime.  Of the gateway: requests that interleave while a Tailscale lookup is awaited, the
  device-token path, the resolution of the settings, and the rest of its server.  The
  clients (web, desktop, mobile), the agent runtime, channels, cron service, plugins, configuration
  and command line of the repository are I/O, user interface or adapters to third-party services.
\<close>

section \<open>Every reachable state\<close>

text \<open>Every row of a reachable database satisfies the NOT NULL, CHECK and foreign-key constraints of the schema
  and every table its unique indexes.\<close>

lemma reachable_states_satisfy_schema:
  assumes "reachable db"
  shows "\<forall>t. (\<forall>r \<in> set (tab db t). nn_ok (gw t) r \<and> check_ok (gw t) r \<and> fk_ok gw (tab db) t r) \<and>
    uniq_ok (gw t) (tab db t)"
  using reachable_ok(1) [OF assms] by (simp add: db_ok_def table_ok_def)

text \<open>C2: in every reachable state the full-text index of a searchable table holds exactly one entry per
  row, with the row's number and the current text of its indexed columns; the other tables have none.\<close>

theorem search_index_mirrors_tables:
  assumes "reachable db"
  shows "(if fts_cols (gw t) = [] then fts db t = []
    else mset (fts db t) = mset (map (\<lambda>r. (rowid_of r, map r (fts_cols (gw t)))) (tab db t)))"
proof -
  have "fts_entry (gw t) = (\<lambda>r. (rowid_of r, map r (fts_cols (gw t))))"
    by (rule ext) (simp add: fts_entry_def)
  then show ?thesis using reachable_ok(2) [OF assms] by (auto simp: fts_ok_def fts_at_def)
qed

lemma search_index_mirrors_tables_witness:
  "(if fts_cols (gw Tasks) = [] then fts db4 Tasks = []
    else mset (fts db4 Tasks) = mset (map (\<lambda>r. (rowid_of r, map r (fts_cols (gw Tasks)))) (tab db4 Tasks)))"
  by (rule search_index_mirrors_tables) simp

lemma serve_all_consistent:
  assumes "\<forall>(e, rq) \<in> set rs. driver_ok e" and "consistent db"
  shows "consistent (serve_all rs db)"
  using assms
proof (induction rs arbitrary: db)
  case (Cons x rs)
  obtain e rq where x: "x = (e, rq)" by (cases x)
  have "consistent (snd (serve e rq db))" using Cons.prems x by (auto intro: serve_consistent)
  then have "consistent (serve_all rs (snd (serve e rq db)))" using Cons.prems(1) by (intro Cons.IH) auto
  then show ?case by (simp add: serve_all_def x)
qed (simp add: serve_all_def)

text \<open>C1: whatever requests are served, from the empty or any consistent database on, a task has a completion
  time only while its status is \<^verbatim>\<open>done\<close>: no handler sets the time without the status, and moving a task away
  from \<^verbatim>\<open>done\<close> clears it.\<close>

theorem only_done_tasks_are_completed:
  assumes "consistent db" and "\<forall>(e, rq) \<in> set rs. driver_ok e"
    and "r \<in> set (tab (serve_all rs db) Tasks)" and "r ''completed_at'' \<noteq> Null"
  shows "r ''status'' = Text ''done''"
  using serve_all_consistent [OF assms(2,1)] assms(3,4) by (auto simp: consistent_def completed_ok_def)

lemma only_done_tasks_are_completed_witness:
  "\<exists>r \<in> set (tab (serve_all [(demo_env 5, req PATCH ''tasks'' (Some ''T1'') [(''status'', JStr ''done'')])] shop) Tasks).
     r ''completed_at'' = Text ''t50'' \<and> r ''status'' = Text ''done''"
proof -
  let ?rs = "[(demo_env 5, req PATCH ''tasks'' (Some ''T1'') [(''status'', JStr ''done'')])]"
  let ?db = "snd (patch_task (demo_env 5) ''T1'' (obj [(''status'', JStr ''done'')]) shop)"
  have db: "serve_all ?rs shop = ?db"
    by (simp add: serve_all_def) (simp only: serve_tasks, simp add: crud_def req_def)
  have c: "tab ?db Tasks \<noteq> [] \<and> hd (tab ?db Tasks) ''completed_at'' = Text ''t50''" by code_simp
  then have r: "hd (tab ?db Tasks) \<in> set (tab ?db Tasks)" by simp
  have "hd (tab ?db Tasks) ''status'' = Text ''done''"
    using only_done_tasks_are_completed [OF shop_consistent, of ?rs "hd (tab ?db Tasks)"] r c by (simp add: db)
  with r c show ?thesis unfolding db by blast
qed

section \<open>Refused requests\<close>

text \<open>C3: a refused request changes nothing: whenever the reply is an error (400 or above), the database is
  as it was, for every router, method and body except a PATCH that completes a task.\<close>

theorem refused_request_changes_nothing:
  assumes "\<not> completes_task rq" and "400 \<le> code (fst (serve e rq db))"
  shows "snd (serve e rq db) = db"
  using serve_refusal [OF assms(1)] assms(2) by (auto simp: refusal_clean_def)

lemma refused_request_changes_nothing_witness:
  "snd (serve (demo_env 5) (req DELETE ''domains'' (Some ''nope'') []) shop) = shop"
proof (rule refused_request_changes_nothing)
  show "\<not> completes_task (req DELETE ''domains'' (Some ''nope'') [])" by (simp add: completes_task_def req_def)
  have "code (fst (delete_domain (demo_env 5) ''nope'' shop)) = 404" by code_simp
  then show "400 \<le> code (fst (serve (demo_env 5) (req DELETE ''domains'' (Some ''nope'') []) shop))"
    unfolding serve_domains_req by (simp add: crud_def req_def)
qed

text \<open>The exception: a PATCH that completes a recurring task runs two transactions.  If it fails, either
  nothing changed, or the first transaction (the update and its events) is committed and the failed one is
  the clone.\<close>

lemma failed_completion_keeps_update:
  assumes "400 \<le> code (fst (patch_task e i b db))"
  shows "snd (patch_task e i b db) = db \<or>
    (\<exists>r due err. find_live Tasks i db = Some r \<and> update_task e i b r db = Inr (snd (patch_task e i b db)) \<and>
       clone_task e (length (changes b r)) (the (find_row Tasks (by_id i) (snd (patch_task e i b db)))) due
         (snd (patch_task e i b db)) = Inl err \<and>
       patch_task e i b db = (Resp 500 (PException err), snd (patch_task e i b db)))"
  using patch_task_refusal [OF assms] by metis

section \<open>Deleted rows and the last domain\<close>

text \<open>C4: deleted stays deleted: from a consistent database, whatever requests follow (purges apart), a row
  that is marked deleted is answered with 404 by its router ever after; no request revives it or reuses its
  identifier.\<close>

theorem deleted_stays_deleted:
  assumes "consistent db" and "r \<in> set (tab db t)" and "by_id i r" and "\<not> is_live r"
    and "\<forall>(e, rq) \<in> set rs. driver_ok e \<and> \<not> purges rq"
  shows "get_resource t msg i (serve_all rs db) = not_found msg (serve_all rs db)"
proof -
  have "dead_id t i db" using assms(2-4) by (auto simp: dead_id_def)
  then have "consistent (serve_all rs db) \<and> dead_id t i (serve_all rs db)"
    using assms(1,5) by (intro serve_all_dead_id) auto
  then have "find_live t i (serve_all rs db) = None"
    by (simp add: consistent_def dead_id_not_found)
  then show ?thesis by (simp add: get_resource_def)
qed

lemma deleted_stays_deleted_witness:
  "get_resource Tags ''Tag not found'' ''G1'' (serve_all [(demo_env 6, req POST ''tags'' None [(''name'', JStr ''x'')]),
      (demo_env 7, req PATCH ''tags'' (Some ''G1'') [(''name'', JStr ''y'')])] shop) =
   not_found ''Tag not found'' (serve_all [(demo_env 6, req POST ''tags'' None [(''name'', JStr ''x'')]),
      (demo_env 7, req PATCH ''tags'' (Some ''G1'') [(''name'', JStr ''y'')])] shop)"
proof (rule deleted_stays_deleted [OF shop_consistent])
  show "old_tag \<in> set (tab shop Tags)" by (simp add: shop_def shop_tab_def)
qed (simp_all add: by_id_def is_live_def old_tag_def row_def purges_def req_def)

text \<open>C5: at least one domain remains: from a consistent database with a live domain, no sequence of
  requests, deletes and purges included, leaves the server without one.\<close>

theorem a_domain_remains:
  assumes "consistent db" and "d \<in> set (tab db Domains)" and "is_live d"
    and "\<forall>(e, rq) \<in> set rs. driver_ok e"
  shows "\<exists>d' \<in> set (tab (serve_all rs db) Domains). is_live d'"
proof -
  have "consistent (serve_all rs db) \<and> some_domain (serve_all rs db)"
    if "consistent db" "some_domain db" "\<forall>(e, rq) \<in> set rs. driver_ok e" for db
    using that
  proof (induction rs arbitrary: db)
    case (Cons x rs)
    obtain e rq where x: "x = (e, rq)" by (cases x)
    have "consistent (snd (serve e rq db))" "some_domain (snd (serve e rq db))"
      using Cons.prems x serve_consistent serve_some_domain by (auto simp: consistent_def)
    then have "consistent (serve_all rs (snd (serve e rq db))) \<and> some_domain (serve_all rs (snd (serve e rq db)))"
      using Cons.prems(3) by (intro Cons.IH) auto
    then show ?case by (simp add: serve_all_def x)
  qed (simp add: serve_all_def)
  then show ?thesis using assms by (auto simp: some_domain_def)
qed

lemma a_domain_remains_witness:
  "\<exists>d' \<in> set (tab (serve_all [(demo_env 6, req DELETE ''domains'' (Some ''D1'') []),
      (demo_env 7, req DELETE ''domains'' (Some ''D2'') [])] shop) Domains). is_live d'"
proof (rule a_domain_remains [OF shop_consistent])
  show "home \<in> set (tab shop Domains)" by (simp add: shop_def shop_tab_def)
qed (simp_all add: is_live_def home_def entry_of_def row_def)

end
